(* ===== verification/Prelude.thy ===== *)
theory Prelude
  imports Main "HOL-Library.Word" "HOL-Library.Char_ord" "HOL-Library.List_Lexorder"
begin

text \<open>
  Shared ground of the development: how C++ outcomes are represented, the pieces of the C and
  C++ standard library the sources call (character classes, \<open>std::to_string\<close>, \<open>std::stol\<close>,
  \<open>std::map\<close>), and the generic lemmas on them that the component theories use.

  Outcomes. A C++ call either returns, throws, has undefined behaviour, or aborts at an assertion
  (the Makefile does not define \<open>NDEBUG\<close>). All but the first are values of \<open>error\<close>, so a call is
  modelled by a function into \<open>'a res\<close> and a proof that it returns is a proof that its value is
  an \<open>Inr\<close>. \<open>Out_of_fuel\<close> is no behaviour of the code: it is the result of a recursion that was
  given too small a bound, and the theories that use a bound prove that it never occurs.

  Strings are lists of \<open>char\<close>, which in HOL are exactly the 256 bytes; \<open>uint8_t\<close> arrays are
  lists of \<open>8 word\<close>. The order on strings is the one of \<open>std::string\<close>: lexicographic on the
  unsigned byte values.
\<close>

section \<open>Outcomes\<close>

datatype exn = Invalid_argument | Std_out_of_range | Length_error | Bad_function_call

datatype ub =
    Read_out_of_bounds
  | Write_out_of_bounds
  | Null_dereference
  | Signed_overflow
  | Inactive_union_member
  | Read_uninitialised

datatype error = Throws exn | Undefined ub | Aborted | Out_of_fuel

type_synonym 'a res = "error + 'a"
type_synonym byte = "8 word"

named_theorems res_simps \<open>facts that take apart a sequence of fallible calls\<close>

definition rbind :: "'a res \<Rightarrow> ('a \<Rightarrow> 'b res) \<Rightarrow> 'b res" where
  "rbind m f = (case m of Inl e \<Rightarrow> Inl e | Inr x \<Rightarrow> f x)"

lemma rbind_Inl [simp]: "rbind (Inl e) f = Inl e"
  by (simp add: rbind_def)

lemma rbind_Inr [simp]: "rbind (Inr x) f = f x"
  by (simp add: rbind_def)

lemma rbind_eq_Inr [res_simps]: "rbind m f = Inr y \<longleftrightarrow> (\<exists>x. m = Inr x \<and> f x = Inr y)"
  by (cases m) simp_all

lemma rbind_eq_Inl [res_simps]:
  "rbind m f = Inl e \<longleftrightarrow> m = Inl e \<or> (\<exists>x. m = Inr x \<and> f x = Inl e)"
  by (cases m) auto

lemma rbind_split:
  "P (rbind m f) \<longleftrightarrow> (\<forall>e. m = Inl e \<longrightarrow> P (Inl e)) \<and> (\<forall>x. m = Inr x \<longrightarrow> P (f x))"
  by (cases m) simp_all

lemma rbind_assoc: "rbind (rbind m f) g = rbind m (\<lambda>x. rbind (f x) g)"
  by (cases m) simp_all

lemma rbind_cong [fundef_cong]:
  "m = m' \<Longrightarrow> (\<And>x. m' = Inr x \<Longrightarrow> f x = g x) \<Longrightarrow> rbind m f = rbind m' g"
  by (cases m') simp_all

section \<open>Characters\<close>

abbreviation NUL :: char where "NUL \<equiv> CHR 0x00"
abbreviation QUOTE :: char where "QUOTE \<equiv> CHR 0x22"
abbreviation BACKSLASH :: char where "BACKSLASH \<equiv> CHR 0x5C"
abbreviation CR :: char where "CR \<equiv> CHR 0x0D"
abbreviation LF :: char where "LF \<equiv> CHR 0x0A"
abbreviation TAB :: char where "TAB \<equiv> CHR 0x09"
abbreviation CRLF :: string where "CRLF \<equiv> [CR, LF]"

text \<open>\<open>isdigit\<close>, \<open>isspace\<close>, \<open>isalnum\<close> and \<open>tolower\<close> of the C locale.\<close>

definition is_digit :: "char \<Rightarrow> bool" where
  "is_digit c \<longleftrightarrow> CHR ''0'' \<le> c \<and> c \<le> CHR ''9''"

definition is_space :: "char \<Rightarrow> bool" where
  "is_space c \<longleftrightarrow> c = CHR '' '' \<or> (CHR 0x09 \<le> c \<and> c \<le> CHR 0x0D)"

definition is_upper :: "char \<Rightarrow> bool" where
  "is_upper c \<longleftrightarrow> CHR ''A'' \<le> c \<and> c \<le> CHR ''Z''"

definition is_lower :: "char \<Rightarrow> bool" where
  "is_lower c \<longleftrightarrow> CHR ''a'' \<le> c \<and> c \<le> CHR ''z''"

definition is_alnum :: "char \<Rightarrow> bool" where
  "is_alnum c \<longleftrightarrow> is_digit c \<or> is_upper c \<or> is_lower c"

definition to_lower_char :: "char \<Rightarrow> char" where
  "to_lower_char c = (if is_upper c then char_of (of_char c + (32::nat)) else c)"

abbreviation code :: "char \<Rightarrow> nat" where "code c \<equiv> of_char c"

lemma code_eqD: "code c = code d \<Longrightarrow> c = d"
  by (metis char_of_char)

lemma is_digit_code: "is_digit c \<longleftrightarrow> 48 \<le> code c \<and> code c \<le> 57"
  by (simp add: is_digit_def less_eq_char_def)

lemma is_space_code: "is_space c \<longleftrightarrow> code c = 32 \<or> (9 \<le> code c \<and> code c \<le> 13)"
proof -
  have "c = CHR '' '' \<longleftrightarrow> code c = code CHR '' ''"
    by (metis char_of_char)
  then show ?thesis by (simp add: is_space_def less_eq_char_def)
qed

lemma digit_not_space: "is_digit c \<Longrightarrow> \<not> is_space c"
  by (auto simp: is_digit_code is_space_code)


section \<open>Bytes and characters\<close>

definition byte_of_char :: "char \<Rightarrow> byte" where
  "byte_of_char c = word_of_nat (code c)"

definition char_of_byte :: "byte \<Rightarrow> char" where
  "char_of_byte b = char_of (unat b)"

lemma char_of_byte_of_char [simp]: "char_of_byte (byte_of_char c) = c"
  by (simp add: char_of_byte_def byte_of_char_def unat_of_nat)

lemma byte_of_char_of_byte [simp]: "byte_of_char (char_of_byte b) = b"
proof -
  have "unat b < 256" by (rule unsigned_less [of b, simplified])
  then show ?thesis by (simp add: char_of_byte_def byte_of_char_def)
qed

section \<open>Decimal numbers\<close>

text \<open>
  \<open>std::to_string(long)\<close> and \<open>std::stol\<close>: the first writes the decimal digits with a minus
  sign for a negative number; the second skips leading white space, takes an optional sign and
  the longest run of digits, throws \<open>std::invalid_argument\<close> when there is no digit and
  \<open>std::out_of_range\<close> when the number does not fit a 64-bit \<open>long\<close>.
\<close>

definition digit_char :: "nat \<Rightarrow> char" where
  "digit_char n = char_of (48 + n)"

definition digit_val :: "char \<Rightarrow> nat" where
  "digit_val c = code c - 48"

fun nat_string :: "nat \<Rightarrow> string" where
  "nat_string n =
     (if n < 10 then [digit_char n] else nat_string (n div 10) @ [digit_char (n mod 10)])"

declare nat_string.simps [simp del]

definition std_to_string :: "int \<Rightarrow> string" where
  "std_to_string n = (if n < 0 then CHR ''-'' # nat_string (nat (- n)) else nat_string (nat n))"

definition in_long :: "int \<Rightarrow> bool" where
  "in_long n \<longleftrightarrow> - (2 ^ 63) \<le> n \<and> n < 2 ^ 63"

definition dec_val :: "string \<Rightarrow> nat" where
  "dec_val ds = foldl (\<lambda>n c. 10 * n + digit_val c) 0 ds"

definition std_stol :: "string \<Rightarrow> int res" where
  "std_stol s =
     (let t = dropWhile is_space s;
          neg = (t \<noteq> [] \<and> hd t = CHR ''-'');
          u = (if t \<noteq> [] \<and> (hd t = CHR ''-'' \<or> hd t = CHR ''+'') then tl t else t);
          ds = takeWhile is_digit u;
          n = (if neg then - int (dec_val ds) else int (dec_val ds))
      in if ds = [] then Inl (Throws Invalid_argument)
         else if in_long n then Inr n else Inl (Throws Std_out_of_range))"

lemma digit_char_props [simp]:
  assumes "n < 10"
  shows "is_digit (digit_char n)" and "digit_val (digit_char n) = n"
  using assms by (simp_all add: digit_char_def is_digit_code digit_val_def)

lemma nat_string_digits: "\<forall>c \<in> set (nat_string n). is_digit c"
proof (induction n rule: nat_string.induct)
  case (1 n)
  then show ?case by (subst nat_string.simps) auto
qed

lemma nat_string_not_Nil [simp]: "nat_string n \<noteq> []"
  by (subst nat_string.simps) simp

lemma dec_val_snoc: "dec_val (ds @ [c]) = 10 * dec_val ds + digit_val c"
  by (simp add: dec_val_def)

lemma dec_val_nat_string [simp]: "dec_val (nat_string n) = n"
proof (induction n rule: nat_string.induct)
  case (1 n)
  show ?case
  proof (cases "n < 10")
    case True
    then show ?thesis by (subst nat_string.simps) (simp add: dec_val_def)
  next
    case False
    with 1 show ?thesis by (subst nat_string.simps) (simp add: dec_val_snoc)
  qed
qed

lemma is_digit_not_sign:
  "is_digit c \<Longrightarrow> c \<noteq> CHR ''-''" "is_digit c \<Longrightarrow> c \<noteq> CHR ''+''" "is_digit c \<Longrightarrow> c \<noteq> CHR ''.''"
  by (auto simp: is_digit_code)

lemma takeWhile_nat_string [simp]: "takeWhile is_digit (nat_string n) = nat_string n"
  using nat_string_digits by (simp add: takeWhile_eq_all_conv)

lemma nat_string_hd: "is_digit (hd (nat_string n))"
  using nat_string_digits [of n] nat_string_not_Nil [of n] by (meson hd_in_set)

lemma dropWhile_nat_string [simp]: "dropWhile is_space (nat_string n) = nat_string n"
  using nat_string_hd [of n] digit_not_space
  by (cases "nat_string n") auto

lemma std_stol_to_string: "in_long n \<Longrightarrow> std_stol (std_to_string n) = Inr n"
  using nat_string_hd [of "nat n"]
  by (auto simp: std_stol_def std_to_string_def Let_def is_space_code dest: is_digit_not_sign)

section \<open>Ordered maps\<close>

text \<open>
  \<open>std::map\<close> as the list of its entries in iteration order, which is ascending by key.
  The locale is what the JSON theories rely on; the interpretation shows that the sorted list
  provides it.
\<close>

fun map_put :: "'k::linorder \<Rightarrow> 'v \<Rightarrow> ('k \<times> 'v) list \<Rightarrow> ('k \<times> 'v) list" where
  "map_put k v [] = [(k, v)]"
| "map_put k v ((a, b) # m) =
     (if k < a then (k, v) # (a, b) # m
      else if k = a then (k, v) # m
      else (a, b) # map_put k v m)"

fun map_erase :: "'k::linorder \<Rightarrow> ('k \<times> 'v) list \<Rightarrow> ('k \<times> 'v) list" where
  "map_erase k [] = []"
| "map_erase k ((a, b) # m) = (if k = a then m else (a, b) # map_erase k m)"

definition map_sorted :: "('k::linorder \<times> 'v) list \<Rightarrow> bool" where
  "map_sorted m \<longleftrightarrow> sorted_wrt (<) (map fst m)"

lemma map_sorted_Nil [simp]: "map_sorted []"
  by (simp add: map_sorted_def)

lemma map_sorted_Cons [simp]:
  "map_sorted ((k, v) # m) \<longleftrightarrow> (\<forall>k' \<in> fst ` set m. k < k') \<and> map_sorted m"
  by (simp add: map_sorted_def)

lemma keys_map_put: "fst ` set (map_put k v m) = insert k (fst ` set m)"
  by (induction k v m rule: map_put.induct) auto

lemma keys_map_erase: "fst ` set (map_erase k m) \<subseteq> fst ` set m"
  by (induction k m rule: map_erase.induct) auto

lemma map_sorted_put: "map_sorted m \<Longrightarrow> map_sorted (map_put k v m)"
  by (induction k v m rule: map_put.induct) (auto simp: keys_map_put)

lemma map_sorted_erase: "map_sorted m \<Longrightarrow> map_sorted (map_erase k m)"
  by (induction k m rule: map_erase.induct) (use keys_map_erase in fastforce)+

lemma map_of_put: "map_of (map_put k v m) = (map_of m)(k \<mapsto> v)"
  by (induction k v m rule: map_put.induct) (auto simp: fun_eq_iff)

lemma map_of_erase:
  assumes "map_sorted m"
  shows "map_of (map_erase k m) = (map_of m)(k := None)"
  using assms
proof (induction k m rule: map_erase.induct)
  case (2 k a b m)
  then have "map_of m a = None" by (auto simp: map_of_eq_None_iff)
  with 2 show ?case by (auto simp: fun_eq_iff)
qed simp

locale std_map =
  fixes empty :: "'m"
    and put :: "'k \<Rightarrow> 'v \<Rightarrow> 'm \<Rightarrow> 'm"
    and erase :: "'k \<Rightarrow> 'm \<Rightarrow> 'm"
    and find :: "'m \<Rightarrow> 'k \<Rightarrow> 'v option"
    and inv :: "'m \<Rightarrow> bool"
  assumes find_empty: "find empty = (\<lambda>_. None)"
    and find_put: "inv m \<Longrightarrow> find (put k v m) = (find m)(k \<mapsto> v)"
    and find_erase: "inv m \<Longrightarrow> find (erase k m) = (find m)(k := None)"
    and inv_empty: "inv empty"
    and inv_put: "inv m \<Longrightarrow> inv (put k v m)"
    and inv_erase: "inv m \<Longrightarrow> inv (erase k m)"
begin

lemma inv_put_all: "inv m \<Longrightarrow> inv (fold (\<lambda>(k, v). put k v) kvs m)"
  by (induction kvs arbitrary: m) (auto simp: inv_put)

lemma find_put_all: "inv m \<Longrightarrow> find (fold (\<lambda>(k, v). put k v) kvs m) = find m ++ map_of (rev kvs)"
proof (induction kvs arbitrary: m)
  case (Cons kv kvs)
  obtain k v where kv: "kv = (k, v)" by fastforce
  have "find (fold (\<lambda>(k, v). put k v) kvs (put k v m)) = find (put k v m) ++ map_of (rev kvs)"
    by (rule Cons.IH) (rule inv_put [OF Cons.prems])
  then show ?case
    by (simp add: kv find_put [OF Cons.prems] map_add_def fun_eq_iff split: option.splits)
qed (simp add: map_add_def)

lemma put_then_erase_find: "inv m \<Longrightarrow> find m k = None \<Longrightarrow> find (erase k (put k v m)) = find m"
  by (simp add: find_erase find_put inv_put fun_eq_iff)

end

interpretation omap: std_map "[]" map_put map_erase map_of map_sorted
  by unfold_locales (auto simp: map_of_put map_of_erase map_sorted_put map_sorted_erase)

text \<open>Two sorted lists with the same look-up are the same list.\<close>

lemma map_sorted_ext: "map_sorted m \<Longrightarrow> map_sorted m' \<Longrightarrow> map_of m = map_of m' \<Longrightarrow> m = m'"
proof -
  assume s: "map_sorted m" "map_sorted m'" and e: "map_of m = map_of m'"
  have d: "distinct (map fst m)" "distinct (map fst m')"
    using s by (auto simp: map_sorted_def strict_sorted_iff)
  have "set m = set m'" using map_of_inject_set [OF d] e by simp
  moreover have "sorted (map fst m)" "sorted (map fst m')"
    using s by (auto simp: map_sorted_def strict_sorted_iff)
  moreover have "inj_on fst (set m \<union> set m')"
    using \<open>set m = set m'\<close> d by (simp add: distinct_map)
  ultimately show "m = m'" using d by (intro map_sorted_distinct_set_unique [of fst]) simp_all
qed

end
