(* ===== verification/Crust_Status.thy ===== *)
theory Crust_Status
  imports Prelude
begin

text \<open>
  The status codes of \<open>sgx/src/include/CrustStatus.h\<close>, under the header's names and in its
  order. The enumeration has 97 members in the ten groups its comments mark; each group is a
  datatype of its own and \<open>crust_status\<close> is their sum, with the numbers the header gives
  in \<open>crust_status_code\<close>. The JSON parser and serialiser report through these codes
  (\<open>crust_status_t *status\<close>) and the service compares the result with \<open>CRUST_SUCCESS\<close>, so
  what matters is that no two members share a number and only \<open>CRUST_SUCCESS\<close> is 0.
\<close>

definition CRUST_SEPARATOR :: string where
  "CRUST_SEPARATOR = ''$crust_separator$''"

definition CRUST_MK_ERROR :: "32 word \<Rightarrow> 32 word" where
  "CRUST_MK_ERROR x = or 0 x"

lemma CRUST_MK_ERROR_id [simp]: "CRUST_MK_ERROR x = x"
  by (simp add: CRUST_MK_ERROR_def)

datatype work_report_status =
    CRUST_BLOCK_HEIGHT_EXPIRED
  | CRUST_FIRST_WORK_REPORT_AFTER_REPORT
  | CRUST_WORK_REPORT_NOT_VALIDATED
  | CRUST_SERVICE_UNAVAILABLE

fun work_report_status_code :: "work_report_status \<Rightarrow> 32 word" where
  "work_report_status_code CRUST_BLOCK_HEIGHT_EXPIRED = CRUST_MK_ERROR 0x2000"
| "work_report_status_code CRUST_FIRST_WORK_REPORT_AFTER_REPORT = CRUST_MK_ERROR 0x2001"
| "work_report_status_code CRUST_WORK_REPORT_NOT_VALIDATED = CRUST_MK_ERROR 0x2002"
| "work_report_status_code CRUST_SERVICE_UNAVAILABLE = CRUST_MK_ERROR 0x2003"

datatype failed_status =
    CRUST_MALLOC_FAILED
  | CRUST_SEAL_DATA_FAILED
  | CRUST_UNSEAL_DATA_FAILED
  | CRUST_BAD_SEAL_DATA
  | CRUST_SGX_FAILED
  | CRUST_NOT_EQUAL
  | CRUST_SGX_SIGN_FAILED
  | CRUST_SGX_VERIFY_SIG_FAILED
  | CRUST_UNEXPECTED_ERROR
  | CRUST_INVALID_MERKLETREE
  | CRUST_MALWARE_DATA_BLOCK
  | CRUST_OPEN_FILE_FAILED
  | CRUST_WRITE_FILE_FAILED
  | CRUST_DELETE_FILE_FAILED
  | CRUST_RENAME_FILE_FAILED
  | CRUST_MKDIR_FAILED
  | CRUST_ACCESS_FILE_FAILED
  | CRUST_INVALID_META_DATA
  | CRUST_INIT_QUOTE_FAILED
  | CRUST_SRD_NUMBER_EXCEED
  | CRUST_FILE_NUMBER_EXCEED
  | CRUST_DEVICE_ERROR
  | CRUST_OCALL_NO_ENOUGH_BUFFER
  | CRUST_SRD_INCREASE_ERROR
  | CRUST_SRD_DECREASE_ERROR

fun failed_status_code :: "failed_status \<Rightarrow> 32 word" where
  "failed_status_code CRUST_MALLOC_FAILED = CRUST_MK_ERROR 0x4000"
| "failed_status_code CRUST_SEAL_DATA_FAILED = CRUST_MK_ERROR 0x4001"
| "failed_status_code CRUST_UNSEAL_DATA_FAILED = CRUST_MK_ERROR 0x4002"
| "failed_status_code CRUST_BAD_SEAL_DATA = CRUST_MK_ERROR 0x4003"
| "failed_status_code CRUST_SGX_FAILED = CRUST_MK_ERROR 0x4004"
| "failed_status_code CRUST_NOT_EQUAL = CRUST_MK_ERROR 0x4005"
| "failed_status_code CRUST_SGX_SIGN_FAILED = CRUST_MK_ERROR 0x4006"
| "failed_status_code CRUST_SGX_VERIFY_SIG_FAILED = CRUST_MK_ERROR 0x4007"
| "failed_status_code CRUST_UNEXPECTED_ERROR = CRUST_MK_ERROR 0x4008"
| "failed_status_code CRUST_INVALID_MERKLETREE = CRUST_MK_ERROR 0x4009"
| "failed_status_code CRUST_MALWARE_DATA_BLOCK = CRUST_MK_ERROR 0x4010"
| "failed_status_code CRUST_OPEN_FILE_FAILED = CRUST_MK_ERROR 0x4011"
| "failed_status_code CRUST_WRITE_FILE_FAILED = CRUST_MK_ERROR 0x4012"
| "failed_status_code CRUST_DELETE_FILE_FAILED = CRUST_MK_ERROR 0x4013"
| "failed_status_code CRUST_RENAME_FILE_FAILED = CRUST_MK_ERROR 0x4014"
| "failed_status_code CRUST_MKDIR_FAILED = CRUST_MK_ERROR 0x4015"
| "failed_status_code CRUST_ACCESS_FILE_FAILED = CRUST_MK_ERROR 0x4016"
| "failed_status_code CRUST_INVALID_META_DATA = CRUST_MK_ERROR 0x4017"
| "failed_status_code CRUST_INIT_QUOTE_FAILED = CRUST_MK_ERROR 0x4018"
| "failed_status_code CRUST_SRD_NUMBER_EXCEED = CRUST_MK_ERROR 0x4019"
| "failed_status_code CRUST_FILE_NUMBER_EXCEED = CRUST_MK_ERROR 0x4020"
| "failed_status_code CRUST_DEVICE_ERROR = CRUST_MK_ERROR 0x4021"
| "failed_status_code CRUST_OCALL_NO_ENOUGH_BUFFER = CRUST_MK_ERROR 0x4022"
| "failed_status_code CRUST_SRD_INCREASE_ERROR = CRUST_MK_ERROR 0x4023"
| "failed_status_code CRUST_SRD_DECREASE_ERROR = CRUST_MK_ERROR 0x4024"

datatype json_status =
    CRUST_JSON_ARRAY_ERROR
  | CRUST_JSON_OBJECT_ERROR
  | CRUST_JSON_STRING_ERROR
  | CRUST_JSON_BOOL_ERROR
  | CRUST_JSON_NULL_ERROR
  | CRUST_JSON_NUMBER_ERROR
  | CRUST_JSON_STARTING_ERROR

fun json_status_code :: "json_status \<Rightarrow> 32 word" where
  "json_status_code CRUST_JSON_ARRAY_ERROR = CRUST_MK_ERROR 0x5001"
| "json_status_code CRUST_JSON_OBJECT_ERROR = CRUST_MK_ERROR 0x5002"
| "json_status_code CRUST_JSON_STRING_ERROR = CRUST_MK_ERROR 0x5003"
| "json_status_code CRUST_JSON_BOOL_ERROR = CRUST_MK_ERROR 0x5004"
| "json_status_code CRUST_JSON_NULL_ERROR = CRUST_MK_ERROR 0x5005"
| "json_status_code CRUST_JSON_NUMBER_ERROR = CRUST_MK_ERROR 0x5006"
| "json_status_code CRUST_JSON_STARTING_ERROR = CRUST_MK_ERROR 0x5007"

datatype persist_status =
    CRUST_PERSIST_ADD_FAILED
  | CRUST_PERSIST_DEL_FAILED
  | CRUST_PERSIST_SET_FAILED
  | CRUST_PERSIST_GET_FAILED

fun persist_status_code :: "persist_status \<Rightarrow> 32 word" where
  "persist_status_code CRUST_PERSIST_ADD_FAILED = CRUST_MK_ERROR 0x6001"
| "persist_status_code CRUST_PERSIST_DEL_FAILED = CRUST_MK_ERROR 0x6002"
| "persist_status_code CRUST_PERSIST_SET_FAILED = CRUST_MK_ERROR 0x6003"
| "persist_status_code CRUST_PERSIST_GET_FAILED = CRUST_MK_ERROR 0x6004"

datatype ias_status =
    CRUST_IAS_QUERY_FAILED
  | CRUST_IAS_OK
  | CRUST_IAS_VERIFY_FAILED
  | CRUST_IAS_BADREQUEST
  | CRUST_IAS_UNAUTHORIZED
  | CRUST_IAS_NOT_FOUND
  | CRUST_IAS_UNEXPECTED_ERROR
  | CRUST_IAS_SERVER_ERR
  | CRUST_IAS_UNAVAILABLE
  | CRUST_IAS_INTERNAL_ERROR
  | CRUST_IAS_BAD_CERTIFICATE
  | CRUST_IAS_BAD_SIGNATURE
  | CRUST_IAS_BAD_BODY
  | CRUST_IAS_REPORTDATA_NE
  | CRUST_IAS_GET_REPORT_FAILED
  | CRUST_IAS_BADMEASUREMENT
  | CRUST_IAS_GETPUBKEY_FAILED
  | CRUST_SIGN_PUBKEY_FAILED
  | CRUST_GET_ACCOUNT_ID_BYTE_FAILED
  | CRUST_SWORKER_UPGRADE_NEEDED

fun ias_status_code :: "ias_status \<Rightarrow> 32 word" where
  "ias_status_code CRUST_IAS_QUERY_FAILED = CRUST_MK_ERROR 0x7001"
| "ias_status_code CRUST_IAS_OK = CRUST_MK_ERROR 0x7002"
| "ias_status_code CRUST_IAS_VERIFY_FAILED = CRUST_MK_ERROR 0x7003"
| "ias_status_code CRUST_IAS_BADREQUEST = CRUST_MK_ERROR 0x7004"
| "ias_status_code CRUST_IAS_UNAUTHORIZED = CRUST_MK_ERROR 0x7005"
| "ias_status_code CRUST_IAS_NOT_FOUND = CRUST_MK_ERROR 0x7006"
| "ias_status_code CRUST_IAS_UNEXPECTED_ERROR = CRUST_MK_ERROR 0x7007"
| "ias_status_code CRUST_IAS_SERVER_ERR = CRUST_MK_ERROR 0x7008"
| "ias_status_code CRUST_IAS_UNAVAILABLE = CRUST_MK_ERROR 0x7009"
| "ias_status_code CRUST_IAS_INTERNAL_ERROR = CRUST_MK_ERROR 0x7010"
| "ias_status_code CRUST_IAS_BAD_CERTIFICATE = CRUST_MK_ERROR 0x7011"
| "ias_status_code CRUST_IAS_BAD_SIGNATURE = CRUST_MK_ERROR 0x7012"
| "ias_status_code CRUST_IAS_BAD_BODY = CRUST_MK_ERROR 0x7013"
| "ias_status_code CRUST_IAS_REPORTDATA_NE = CRUST_MK_ERROR 0x7014"
| "ias_status_code CRUST_IAS_GET_REPORT_FAILED = CRUST_MK_ERROR 0x7015"
| "ias_status_code CRUST_IAS_BADMEASUREMENT = CRUST_MK_ERROR 0x7016"
| "ias_status_code CRUST_IAS_GETPUBKEY_FAILED = CRUST_MK_ERROR 0x7017"
| "ias_status_code CRUST_SIGN_PUBKEY_FAILED = CRUST_MK_ERROR 0x7018"
| "ias_status_code CRUST_GET_ACCOUNT_ID_BYTE_FAILED = CRUST_MK_ERROR 0x7019"
| "ias_status_code CRUST_SWORKER_UPGRADE_NEEDED = CRUST_MK_ERROR 0x7020"

datatype storage_status =
    CRUST_STORAGE_SER_MERKLETREE_FAILED
  | CRUST_STORAGE_UPDATE_FILE_FAILED
  | CRUST_STORAGE_UNSEAL_FILE_FAILED
  | CRUST_STORAGE_UNEXPECTED_FILE_BLOCK
  | CRUST_STORAGE_NEW_FILE_NOTFOUND
  | CRUST_STORAGE_NEW_FILE_SIZE_ERROR
  | CRUST_STORAGE_EMPTY_BLOCK
  | CRUST_STORAGE_IPFS_BLOCK_GET_ERROR
  | CRUST_STORAGE_IPFS_CAT_ERROR
  | CRUST_STORAGE_IPFS_ADD_ERROR
  | CRUST_STORAGE_IPFS_DEL_ERROR
  | CRUST_STORAGE_FILE_DUP
  | CRUST_STORAGE_FILE_SEALING
  | CRUST_STORAGE_FILE_DELETING
  | CRUST_STORAGE_FILE_BLOCK_NOTFOUND
  | CRUST_STORAGE_NO_ENOUGH_SPACE
  | CRUST_STORAGE_IS_STOPPED_TASK
  | CRUST_STORAGE_INCOMPLETE_BLOCK

fun storage_status_code :: "storage_status \<Rightarrow> 32 word" where
  "storage_status_code CRUST_STORAGE_SER_MERKLETREE_FAILED = CRUST_MK_ERROR 0x8001"
| "storage_status_code CRUST_STORAGE_UPDATE_FILE_FAILED = CRUST_MK_ERROR 0x8002"
| "storage_status_code CRUST_STORAGE_UNSEAL_FILE_FAILED = CRUST_MK_ERROR 0x8003"
| "storage_status_code CRUST_STORAGE_UNEXPECTED_FILE_BLOCK = CRUST_MK_ERROR 0x8004"
| "storage_status_code CRUST_STORAGE_NEW_FILE_NOTFOUND = CRUST_MK_ERROR 0x8005"
| "storage_status_code CRUST_STORAGE_NEW_FILE_SIZE_ERROR = CRUST_MK_ERROR 0x8006"
| "storage_status_code CRUST_STORAGE_EMPTY_BLOCK = CRUST_MK_ERROR 0x8007"
| "storage_status_code CRUST_STORAGE_IPFS_BLOCK_GET_ERROR = CRUST_MK_ERROR 0x8008"
| "storage_status_code CRUST_STORAGE_IPFS_CAT_ERROR = CRUST_MK_ERROR 0x8009"
| "storage_status_code CRUST_STORAGE_IPFS_ADD_ERROR = CRUST_MK_ERROR 0x8010"
| "storage_status_code CRUST_STORAGE_IPFS_DEL_ERROR = CRUST_MK_ERROR 0x8011"
| "storage_status_code CRUST_STORAGE_FILE_DUP = CRUST_MK_ERROR 0x8012"
| "storage_status_code CRUST_STORAGE_FILE_SEALING = CRUST_MK_ERROR 0x8013"
| "storage_status_code CRUST_STORAGE_FILE_DELETING = CRUST_MK_ERROR 0x8014"
| "storage_status_code CRUST_STORAGE_FILE_BLOCK_NOTFOUND = CRUST_MK_ERROR 0x8015"
| "storage_status_code CRUST_STORAGE_NO_ENOUGH_SPACE = CRUST_MK_ERROR 0x8016"
| "storage_status_code CRUST_STORAGE_IS_STOPPED_TASK = CRUST_MK_ERROR 0x8017"
| "storage_status_code CRUST_STORAGE_INCOMPLETE_BLOCK = CRUST_MK_ERROR 0x8018"

datatype validate_status =
    CRUST_VALIDATE_GET_REQUEST_FAILED
  | CRUST_VALIDATE_HIGH_PRIORITY

fun validate_status_code :: "validate_status \<Rightarrow> 32 word" where
  "validate_status_code CRUST_VALIDATE_GET_REQUEST_FAILED = CRUST_MK_ERROR 0x9001"
| "validate_status_code CRUST_VALIDATE_HIGH_PRIORITY = CRUST_MK_ERROR 0x9002"

datatype upgrade_status =
    CRUST_UPGRADE_RESTORE_SRD_FAILED
  | CRUST_UPGRADE_RESTORE_FILE_FAILED
  | CRUST_UPGRADE_SEND_WORKREPORT_FAILED
  | CRUST_UPGRADE_INVALID_WORKREPORT
  | CRUST_UPGRADE_GET_BLOCK_HASH_FAILED
  | CRUST_UPGRADE_GEN_WORKREPORT_FAILED
  | CRUST_UPGRADE_WAIT_FOR_NEXT_ERA
  | CRUST_UPGRADE_BAD_SRD
  | CRUST_UPGRADE_BAD_FILE
  | CRUST_UPGRADE_IS_UPGRADING
  | CRUST_UPGRADE_NEED_LEFT_DATA
  | CRUST_UPGRADE_BLOCK_EXPIRE
  | CRUST_UPGRADE_NO_VALIDATE
  | CRUST_UPGRADE_RESTART
  | CRUST_UPGRADE_NO_FILE

fun upgrade_status_code :: "upgrade_status \<Rightarrow> 32 word" where
  "upgrade_status_code CRUST_UPGRADE_RESTORE_SRD_FAILED = CRUST_MK_ERROR 0x10001"
| "upgrade_status_code CRUST_UPGRADE_RESTORE_FILE_FAILED = CRUST_MK_ERROR 0x10002"
| "upgrade_status_code CRUST_UPGRADE_SEND_WORKREPORT_FAILED = CRUST_MK_ERROR 0x10003"
| "upgrade_status_code CRUST_UPGRADE_INVALID_WORKREPORT = CRUST_MK_ERROR 0x10004"
| "upgrade_status_code CRUST_UPGRADE_GET_BLOCK_HASH_FAILED = CRUST_MK_ERROR 0x10005"
| "upgrade_status_code CRUST_UPGRADE_GEN_WORKREPORT_FAILED = CRUST_MK_ERROR 0x10006"
| "upgrade_status_code CRUST_UPGRADE_WAIT_FOR_NEXT_ERA = CRUST_MK_ERROR 0x10007"
| "upgrade_status_code CRUST_UPGRADE_BAD_SRD = CRUST_MK_ERROR 0x10008"
| "upgrade_status_code CRUST_UPGRADE_BAD_FILE = CRUST_MK_ERROR 0x10009"
| "upgrade_status_code CRUST_UPGRADE_IS_UPGRADING = CRUST_MK_ERROR 0x10010"
| "upgrade_status_code CRUST_UPGRADE_NEED_LEFT_DATA = CRUST_MK_ERROR 0x10011"
| "upgrade_status_code CRUST_UPGRADE_BLOCK_EXPIRE = CRUST_MK_ERROR 0x10012"
| "upgrade_status_code CRUST_UPGRADE_NO_VALIDATE = CRUST_MK_ERROR 0x10013"
| "upgrade_status_code CRUST_UPGRADE_RESTART = CRUST_MK_ERROR 0x10014"
| "upgrade_status_code CRUST_UPGRADE_NO_FILE = CRUST_MK_ERROR 0x10015"

datatype http_status =
    CRUST_HTTP_INVALID_INPUT

fun http_status_code :: "http_status \<Rightarrow> 32 word" where
  "http_status_code CRUST_HTTP_INVALID_INPUT = CRUST_MK_ERROR 0x11001"

datatype crust_status =
    CRUST_SUCCESS
  | Work_report work_report_status
  | Failed failed_status
  | Json_error json_status
  | Persistence persist_status
  | Ias_report ias_status
  | Storage storage_status
  | Validation validate_status
  | Upgrade upgrade_status
  | For_http http_status

fun crust_status_code :: "crust_status \<Rightarrow> 32 word" where
  "crust_status_code CRUST_SUCCESS = CRUST_MK_ERROR 0"
| "crust_status_code (Work_report s) = work_report_status_code s"
| "crust_status_code (Failed s) = failed_status_code s"
| "crust_status_code (Json_error s) = json_status_code s"
| "crust_status_code (Persistence s) = persist_status_code s"
| "crust_status_code (Ias_report s) = ias_status_code s"
| "crust_status_code (Storage s) = storage_status_code s"
| "crust_status_code (Validation s) = validate_status_code s"
| "crust_status_code (Upgrade s) = upgrade_status_code s"
| "crust_status_code (For_http s) = http_status_code s"

section \<open>No two members share a number\<close>

text \<open>
  Every group lies in a block of numbers of its own (the number shifted right by 12 bits), and
  within its block a member is read back from its number.
\<close>

definition status_block :: "32 word \<Rightarrow> 32 word" where
  "status_block w = drop_bit 12 w"

lemma work_report_status_block: "status_block (work_report_status_code s) = 2"
  by (cases s) (simp_all add: status_block_def)

lemma failed_status_block: "status_block (failed_status_code s) = 4"
  by (cases s) (simp_all add: status_block_def)

lemma json_status_block: "status_block (json_status_code s) = 5"
  by (cases s) (simp_all add: status_block_def)

lemma persist_status_block: "status_block (persist_status_code s) = 6"
  by (cases s) (simp_all add: status_block_def)

lemma ias_status_block: "status_block (ias_status_code s) = 7"
  by (cases s) (simp_all add: status_block_def)

lemma storage_status_block: "status_block (storage_status_code s) = 8"
  by (cases s) (simp_all add: status_block_def)

lemma validate_status_block: "status_block (validate_status_code s) = 9"
  by (cases s) (simp_all add: status_block_def)

lemma upgrade_status_block: "status_block (upgrade_status_code s) = 16"
  by (cases s) (simp_all add: status_block_def)

lemma http_status_block: "status_block (http_status_code s) = 17"
  by (cases s) (simp_all add: status_block_def)

lemma work_report_status_code_inj: "work_report_status_code s = work_report_status_code s' \<Longrightarrow> s = s'"
  by (cases s; cases s'; simp)

lemma failed_status_code_inj: "failed_status_code s = failed_status_code s' \<Longrightarrow> s = s'"
  by (cases s; cases s'; simp)

lemma json_status_code_inj: "json_status_code s = json_status_code s' \<Longrightarrow> s = s'"
  by (cases s; cases s'; simp)

lemma persist_status_code_inj: "persist_status_code s = persist_status_code s' \<Longrightarrow> s = s'"
  by (cases s; cases s'; simp)

lemma ias_status_code_inj: "ias_status_code s = ias_status_code s' \<Longrightarrow> s = s'"
  by (cases s; cases s'; simp)

lemma storage_status_code_inj: "storage_status_code s = storage_status_code s' \<Longrightarrow> s = s'"
  by (cases s; cases s'; simp)

lemma validate_status_code_inj: "validate_status_code s = validate_status_code s' \<Longrightarrow> s = s'"
  by (cases s; cases s'; simp)

lemma upgrade_status_code_inj: "upgrade_status_code s = upgrade_status_code s' \<Longrightarrow> s = s'"
  by (cases s; cases s'; simp)

lemma http_status_code_inj: "http_status_code s = http_status_code s' \<Longrightarrow> s = s'"
  by (cases s; cases s'; simp)

lemmas status_blocks =
  work_report_status_block failed_status_block json_status_block persist_status_block
  ias_status_block storage_status_block validate_status_block upgrade_status_block
  http_status_block

lemmas status_codes_inj =
  work_report_status_code_inj failed_status_code_inj json_status_code_inj persist_status_code_inj
  ias_status_code_inj storage_status_code_inj validate_status_code_inj upgrade_status_code_inj
  http_status_code_inj

fun crust_status_block :: "crust_status \<Rightarrow> 32 word" where
  "crust_status_block CRUST_SUCCESS = 0"
| "crust_status_block (Work_report s) = 2"
| "crust_status_block (Failed s) = 4"
| "crust_status_block (Json_error s) = 5"
| "crust_status_block (Persistence s) = 6"
| "crust_status_block (Ias_report s) = 7"
| "crust_status_block (Storage s) = 8"
| "crust_status_block (Validation s) = 9"
| "crust_status_block (Upgrade s) = 16"
| "crust_status_block (For_http s) = 17"

lemma crust_status_block_code: "status_block (crust_status_code s) = crust_status_block s"
  by (cases s) (simp_all add: status_blocks, simp add: status_block_def)

lemma crust_status_code_injD:
  assumes "crust_status_code s = crust_status_code t"
  shows "s = t"
proof -
  have "crust_status_block s = crust_status_block t"
    using assms by (metis crust_status_block_code)
  with assms show ?thesis
    by (cases s; cases t; simp; blast dest: status_codes_inj)
qed

text \<open>
  The numbers of \<open>CrustStatus.h\<close> identify the status: two members with the same number are
  the same member, and \<open>CRUST_SUCCESS\<close> is the only one whose number is 0, so the service's test
  \<open>CRUST_SUCCESS != crust_status\<close> is true for every error the JSON parser reports.
\<close>

theorem crust_status_code_identifies:
  "(crust_status_code s = crust_status_code t \<longleftrightarrow> s = t)
   \<and> (crust_status_code s = 0 \<longleftrightarrow> s = CRUST_SUCCESS)"
proof -
  have "crust_status_code s = 0 \<longleftrightarrow> crust_status_code s = crust_status_code CRUST_SUCCESS"
    by simp
  then show ?thesis using crust_status_code_injD by blast
qed

text \<open>The enumerators are compared by their numbers: an order with \<open>CRUST_SUCCESS\<close> below all others.\<close>

instantiation crust_status :: "{linorder, order_bot}"
begin

definition less_eq_crust_status :: "crust_status \<Rightarrow> crust_status \<Rightarrow> bool" where
  "less_eq_crust_status s t \<longleftrightarrow> crust_status_code s \<le> crust_status_code t"

definition less_crust_status :: "crust_status \<Rightarrow> crust_status \<Rightarrow> bool" where
  "less_crust_status s t \<longleftrightarrow> crust_status_code s < crust_status_code t"

definition bot_crust_status :: crust_status where
  "bot_crust_status = CRUST_SUCCESS"

instance
  by standard
    (auto simp: less_eq_crust_status_def less_crust_status_def bot_crust_status_def dest: crust_status_code_injD)

end

lemma success_first: "s \<noteq> CRUST_SUCCESS \<longleftrightarrow> CRUST_SUCCESS < s"
  by (metis bot_crust_status_def bot.not_eq_extremum)

end
