(* ===== verification/Utils_Hex.thy ===== *)
theory Utils_Hex
  imports Prelude
begin

text \<open>
  The helpers of \<open>sgx/src/utils/Utils.cpp\<close>: the hexadecimal conversions by which the service
  decodes signatures and quotes and prints keys, \<open>remove_char\<close>, and the conversion of an SGX
  public key to an OpenSSL key with its clean-up path.

  A \<open>const char *\<close> argument is the list of bytes that may be read from it; a read past that
  list and a write past an allocation are \<open>Undefined\<close>. \<open>malloc\<close> and \<open>memset\<close> appear as the
  zero-filled block they produce. OpenSSL is not part of the sources: the calls of
  \<open>key_from_sgx_ec256\<close> are fields of the record \<open>ssl_api\<close>.
\<close>

unbundle bit_operations_syntax

section \<open>Characters and hexadecimal digits\<close>

definition remove_char :: "string \<Rightarrow> char \<Rightarrow> string" where
  "remove_char data c = filter (\<lambda>x. x \<noteq> c) data"

definition hextable :: string where
  "hextable = ''0123456789abcdef''"

definition char_to_int :: "char \<Rightarrow> int" where
  "char_to_int input =
     (if CHR ''0'' \<le> input \<and> input \<le> CHR ''9'' then int (code input) - 48
      else if CHR ''A'' \<le> input \<and> input \<le> CHR ''F'' then int (code input) - 65 + 10
      else if CHR ''a'' \<le> input \<and> input \<le> CHR ''f'' then int (code input) - 97 + 10
      else 0)"

text \<open>
  \<open>hex_decode_loop\<close> is the loop \<open>while (*src && src[1])\<close>: it stops at the first NUL of a pair
  and never looks at \<open>len\<close>. Its second argument is the size of the block \<open>target\<close> points to.
\<close>

fun hex_decode_loop :: "string \<Rightarrow> nat \<Rightarrow> byte list \<Rightarrow> byte list res" where
  "hex_decode_loop [] cap done = Inl (Undefined Read_out_of_bounds)"
| "hex_decode_loop [c] cap done =
     (if c = NUL then Inr done else Inl (Undefined Read_out_of_bounds))"
| "hex_decode_loop (c # d # src) cap done =
     (if c = NUL \<or> d = NUL then Inr done
      else if cap \<le> length done then Inl (Undefined Write_out_of_bounds)
      else hex_decode_loop src cap (done @ [word_of_int (char_to_int c * 16 + char_to_int d)]))"

definition hexstring_to_bytes :: "string \<Rightarrow> nat \<Rightarrow> byte list option res" where
  "hexstring_to_bytes src len =
     (if len mod 2 \<noteq> 0 then Inr None
      else rbind (hex_decode_loop src (len div 2) [])
             (\<lambda>bs. Inr (Some (bs @ replicate (len div 2 - length bs) 0))))"

fun hex_encode_loop :: "byte list \<Rightarrow> nat \<Rightarrow> string \<Rightarrow> string res" where
  "hex_encode_loop src 0 buf = Inr buf"
| "hex_encode_loop [] (Suc n) buf = Inl (Undefined Read_out_of_bounds)"
| "hex_encode_loop (b # src) (Suc n) buf =
     hex_encode_loop src n
       (buf @ [hextable ! unat (drop_bit 4 b), hextable ! unat (b AND 0xf)])"

text \<open>The third argument says whether the \<open>malloc\<close> of the output buffer succeeds.\<close>

definition hexstring :: "byte list \<Rightarrow> nat \<Rightarrow> bool \<Rightarrow> string res" where
  "hexstring vsrc len malloc_ok = (if \<not> malloc_ok then Inr [] else hex_encode_loop vsrc len [])"

text \<open>\<open>printf("%02x", b)\<close>, and what \<open>print_hexstring\<close> sends to the standard output.\<close>

definition printf_02x :: "byte \<Rightarrow> string" where
  "printf_02x b = [hextable ! (unat b div 16), hextable ! (unat b mod 16)]"

fun print_hexstring :: "byte list \<Rightarrow> nat \<Rightarrow> string \<Rightarrow> string res" where
  "print_hexstring vsrc 0 out = Inr out"
| "print_hexstring [] (Suc n) out = Inl (Undefined Read_out_of_bounds)"
| "print_hexstring (b # vsrc) (Suc n) out = print_hexstring vsrc n (out @ printf_02x b)"

text \<open>\<open>sprintf("%lx", n)\<close>: hexadecimal digits without leading zeros.\<close>

fun printf_lx :: "nat \<Rightarrow> string" where
  "printf_lx n =
     (if n < 16 then [hextable ! n] else printf_lx (n div 16) @ [hextable ! (n mod 16)])"

declare printf_lx.simps [simp del]

definition num_to_hexstring :: "64 word \<Rightarrow> string" where
  "num_to_hexstring num = printf_lx (unat num)"

text \<open>
  \<open>sscanf(s, "%2xhh", &v)\<close> of the GNU C library, up to the value of \<open>v\<close>: white space does not count
  for the width, a sign does; at the end of the text nothing is assigned and the result is
  \<open>EOF\<close>, which is not 0.
\<close>

datatype scanned = Scanned "32 word" | Scan_mismatch | Scan_end

definition is_hex_digit :: "char \<Rightarrow> bool" where
  "is_hex_digit c \<longleftrightarrow>
     is_digit c \<or> (CHR ''A'' \<le> c \<and> c \<le> CHR ''F'') \<or> (CHR ''a'' \<le> c \<and> c \<le> CHR ''f'')"

definition sscanf_2x :: "string \<Rightarrow> scanned" where
  "sscanf_2x s =
     (case dropWhile is_space s of
        [] \<Rightarrow> Scan_end
      | c # t \<Rightarrow>
          (let ds = (if c = CHR ''+'' \<or> c = CHR ''-'' then take 1 t else c # take 1 t);
               hs = takeWhile is_hex_digit ds;
               v = word_of_int (foldl (\<lambda>n d. n * 16 + char_to_int d) 0 hs)
           in if hs = [] then Scan_mismatch else Scanned (if c = CHR ''-'' then - v else v)))"

text \<open>\<open>from_hexstring\<close>: the value returned and the bytes written; \<open>cap\<close> is the size of \<open>dest\<close>.\<close>

primrec from_hex_loop :: "nat \<Rightarrow> string \<Rightarrow> nat \<Rightarrow> byte list \<Rightarrow> (int \<times> byte list) res" where
  "from_hex_loop 0 src cap dest = Inr (1, dest)"
| "from_hex_loop (Suc n) src cap dest =
     (if NUL \<notin> set src then Inl (Undefined Read_out_of_bounds)
      else
        (case sscanf_2x (takeWhile (\<lambda>c. c \<noteq> NUL) src) of
           Scan_mismatch \<Rightarrow> Inr (0, dest)
         | Scan_end \<Rightarrow> Inl (Undefined Read_uninitialised)
         | Scanned v \<Rightarrow>
             if cap \<le> length dest then Inl (Undefined Write_out_of_bounds)
             else from_hex_loop n (drop 2 src) cap (dest @ [ucast v])))"

definition from_hexstring :: "string \<Rightarrow> nat \<Rightarrow> nat \<Rightarrow> (int \<times> byte list) res" where
  "from_hexstring src len cap = from_hex_loop len src cap []"

section \<open>Facts about the conversions\<close>

lemma nibbles:
  fixes b :: byte
  shows "unat (drop_bit 4 b) = unat b div 16" and "unat (b AND 0xf) = unat b mod 16"
proof -
  show "unat (drop_bit 4 b) = unat b div 16"
    unfolding unat_drop_bit_eq by (simp add: drop_bit_eq_div)
  have "b AND 0xf = take_bit 4 b"
    by (simp add: take_bit_eq_mask mask_eq_decr_exp)
  then have "unat (b AND 0xf) = unat (take_bit 4 b)" by (simp only:)
  also have "\<dots> = take_bit 4 (unat b)" by (rule unsigned_take_bit_eq)
  finally show "unat (b AND 0xf) = unat b mod 16" by (simp add: take_bit_eq_mod)
qed

lemma byte_less: "unat (b :: byte) < 256"
  by (rule unsigned_less [of b, simplified])

text \<open>Reading a digit back from the table, for all sixteen of them.\<close>

lemma lt_16_cases:
  fixes n :: nat
  assumes "n < 16"
  shows "n \<in> {0, 1, 2, 3, 4, 5, 6, 7, 8, 9, 10, 11, 12, 13, 14, 15}"
proof -
  have "n \<in> set [0..<16]" using assms by simp
  also have "set [0..<16] = {0, 1, 2, 3, 4, 5, 6, 7, 8, 9, 10, 11, 12, 13, 14, 15 :: nat}"
    by (simp add: upt_rec eval_nat_numeral)
  finally show ?thesis .
qed

lemma char_to_int_hextable [simp]: "n < 16 \<Longrightarrow> char_to_int (hextable ! n) = int n"
  by (drule lt_16_cases) (auto simp: hextable_def char_to_int_def)

lemma hextable_not_NUL [simp]: "n < 16 \<Longrightarrow> hextable ! n \<noteq> NUL"
  by (drule lt_16_cases) (auto simp: hextable_def)

definition hex_pair :: "byte \<Rightarrow> string" where
  "hex_pair b = [hextable ! (unat b div 16), hextable ! (unat b mod 16)]"

lemma length_hex_pair [simp]: "length (hex_pair b) = 2"
  by (simp add: hex_pair_def)

lemma nibbles_lt: "unat (b :: byte) div 16 < 16" "unat (b :: byte) mod 16 < 16"
  using byte_less [of b] by simp_all

lemma hex_pair_value:
  fixes b :: byte
  shows "word_of_int (int (unat b div 16) * 16 + int (unat b mod 16)) = b"
proof -
  have "int (unat b div 16) * 16 + int (unat b mod 16) = int (unat b)"
    by presburger
  then show ?thesis by simp
qed

lemma hex_encode_loop_eq:
  "hex_encode_loop src n buf =
     (if n \<le> length src then Inr (buf @ concat (map hex_pair (take n src)))
      else Inl (Undefined Read_out_of_bounds))"
proof (induction src n buf rule: hex_encode_loop.induct)
  case (3 b src n buf)
  then show ?case by (simp add: hex_pair_def [of b] nibbles)
qed simp_all

lemma print_hexstring_eq:
  "print_hexstring src n out =
     (if n \<le> length src then Inr (out @ concat (map hex_pair (take n src)))
      else Inl (Undefined Read_out_of_bounds))"
proof (induction src n out rule: print_hexstring.induct)
  case (3 b src n out)
  then show ?case by (simp add: hex_pair_def [of b] printf_02x_def)
qed simp_all

lemma hexstring_all: "hexstring bs (length bs) True = Inr (concat (map hex_pair bs))"
  by (simp add: hexstring_def hex_encode_loop_eq)

lemma length_hex_pairs [simp]: "length (concat (map hex_pair bs)) = 2 * length bs"
  by (induction bs) auto

lemma hex_decode_pairs:
  "length done + length bs \<le> cap \<Longrightarrow>
   hex_decode_loop (concat (map hex_pair bs) @ NUL # rest) cap done = Inr (done @ bs)"
proof (induction bs arbitrary: "done")
  case Nil
  then show ?case by (cases rest) simp_all
next
  case (Cons b bs)
  then have "hex_decode_loop (concat (map hex_pair bs) @ NUL # rest) cap (done @ [b])
      = Inr ((done @ [b]) @ bs)" by (intro Cons.IH) simp
  with Cons.prems show ?case
    using nibbles_lt [of b] hex_pair_value [of b] by (simp add: hex_pair_def [of b])
qed

text \<open>
  The loop on a C string: at most one byte per two characters before the first NUL, and no
  undefined read as long as a NUL follows.
\<close>

lemma hex_decode_loop_c_str:
  assumes "NUL \<notin> set s" and "length done + length s div 2 \<le> cap"
  shows "\<exists>bs. hex_decode_loop (s @ NUL # rest) cap done = Inr (done @ bs)
              \<and> length bs = length s div 2"
  using assms
proof (induction s cap "done" rule: hex_decode_loop.induct)
  case (1 cap "done")
  then show ?case by (cases rest) simp_all
next
  case (2 c cap "done")
  then show ?case by (cases rest) simp_all
next
  case (3 c d src cap "done")
  from "3.prems" have "c \<noteq> NUL" "d \<noteq> NUL" "\<not> cap \<le> length done" by auto
  moreover from this "3.prems" obtain bs
    where "hex_decode_loop (src @ NUL # rest) cap
             (done @ [word_of_int (char_to_int c * 16 + char_to_int d)])
           = Inr ((done @ [word_of_int (char_to_int c * 16 + char_to_int d)]) @ bs)"
      and "length bs = length src div 2"
    using "3.IH" by fastforce
  ultimately show ?case by auto
qed

lemma hex_decode_loop_overflow:
  assumes "NUL \<notin> set s" and "length done \<le> cap" and "cap < length done + length s div 2"
  shows "hex_decode_loop (s @ NUL # rest) cap done = Inl (Undefined Write_out_of_bounds)"
  using assms
proof (induction s cap "done" rule: hex_decode_loop.induct)
  case (3 c d src cap "done")
  then show ?case by (cases "cap \<le> length done") auto
qed auto

text \<open>\<open>std::string::c_str\<close>: the characters and the terminating NUL.\<close>

definition c_str :: "string \<Rightarrow> string" where
  "c_str s = s @ [NUL]"

lemma c_str_split: "\<exists>rest. c_str s = takeWhile (\<lambda>c. c \<noteq> NUL) s @ NUL # rest"
  by (induction s) (auto simp: c_str_def)

lemma not_NUL_takeWhile: "NUL \<notin> set (takeWhile (\<lambda>c. c \<noteq> NUL) s)"
  by (auto dest: set_takeWhileD)

subsection \<open>\<open>from_hexstring\<close>\<close>

lemma hextable_digit: "n < 16 \<Longrightarrow> is_hex_digit (hextable ! n) \<and> \<not> is_space (hextable ! n) \<and> hextable ! n \<notin> {CHR ''+'', CHR ''-''}"
  by (drule lt_16_cases) (auto simp: hextable_def is_hex_digit_def is_digit_def is_space_def less_eq_char_def)

lemma sscanf_2x_pair:
  obtains v where "sscanf_2x (hex_pair b @ t) = Scanned v" and "ucast v = b"
proof
  have "ucast (word_of_int k :: 32 word) = (word_of_int k :: byte)" for k by transfer simp
  then show "ucast (word_of_int (int (unat b div 16) * 16 + int (unat b mod 16)) :: 32 word) = b"
    by (simp only: hex_pair_value)
  show "sscanf_2x (hex_pair b @ t) = Scanned (word_of_int (int (unat b div 16) * 16 + int (unat b mod 16)))"
    using hextable_digit [of "unat b div 16"] hextable_digit [of "unat b mod 16"] nibbles_lt [of b]
    by (simp add: sscanf_2x_def hex_pair_def Let_def)
qed

text \<open>On pairs of digits: all of them are read, and nothing tells when there are too few.\<close>

lemma from_hex_loop_pairs:
  assumes "length done + length bs \<le> cap"
  shows "from_hex_loop n (concat (map hex_pair bs) @ NUL # aft) cap done =
    (if n \<le> length bs then Inr (1, done @ take n bs) else Inl (Undefined Read_uninitialised))"
  using assms
proof (induction bs arbitrary: "done" n)
  case Nil
  then show ?case by (cases n) (simp_all add: sscanf_2x_def)
next
  case (Cons b bs)
  show ?case
  proof (cases n)
    case (Suc m)
    have nul: "NUL \<notin> set (hex_pair c)" for c 
      using hextable_not_NUL [of "unat c div 16"] hextable_not_NUL [of "unat c mod 16"] nibbles_lt [of c]
      by (auto simp: hex_pair_def dest: sym)
    have "takeWhile (\<lambda>c. c \<noteq> NUL) (hex_pair b @ u) = hex_pair b @ takeWhile (\<lambda>c. c \<noteq> NUL) u" for u
      using nul [of b] by (intro takeWhile_append2) auto
    moreover have "drop 2 (hex_pair b @ u) = u" for u by simp
    moreover obtain v where "sscanf_2x (hex_pair b @ takeWhile (\<lambda>c. c \<noteq> NUL) (concat (map hex_pair bs) @ NUL # aft))
        = Scanned v" "ucast v = b" by (rule sscanf_2x_pair)
    ultimately show ?thesis using Cons.IH [of "done @ [b]" m] Cons.prems Suc by simp
  qed simp
qed

text \<open>
  \<open>from_hexstring\<close> with a length behind the end of its text uses a number that \<open>sscanf\<close> has not
  assigned: \<open>EOF\<close> is not the 0 it tests for.
\<close>

lemma from_hexstring_reads_unassigned:
  assumes "length bs < len" and "len \<le> cap"
  shows "from_hexstring (c_str (concat (map hex_pair bs))) len cap = Inl (Undefined Read_uninitialised)"
  using assms from_hex_loop_pairs [of "[]" bs cap len "[]"] by (simp add: from_hexstring_def c_str_def)

section \<open>\<open>key_from_sgx_ec256\<close>\<close>

datatype error_type_t = e_none | e_crypto | e_system | e_api

record sgx_ec256_public_t =
  pub_gx :: "byte list"
  pub_gy :: "byte list"

record ('b, 'k) ssl_api =
  BN_lebin2bn :: "byte list \<Rightarrow> 'b option"
  EC_KEY_new_by_curve_name :: "'k option"
  EC_KEY_set_public_key_affine_coordinates :: "'k \<Rightarrow> 'b \<Rightarrow> 'b \<Rightarrow> 'k option"

datatype ssl_event = Bn_new | Bn_free | Key_new | Key_free

definition key_cleanup :: "'b option \<Rightarrow> 'b option \<Rightarrow> ssl_event list" where
  "key_cleanup gy gx =
     (if gy \<noteq> None then [Bn_free] else []) @ (if gx \<noteq> None then [Bn_free] else [])"

text \<open>
  The key (\<open>NULL\<close> as \<open>None\<close>), the value left in \<open>error_type\<close> and the allocations and releases
  in the order they happen; every \<open>goto cleanup\<close> is a branch that ends in \<open>key_cleanup\<close>.
\<close>

definition key_from_sgx_ec256 ::
  "('b, 'k) ssl_api \<Rightarrow> sgx_ec256_public_t \<Rightarrow> 'k option \<times> error_type_t \<times> ssl_event list" where
  "key_from_sgx_ec256 api k =
     (case BN_lebin2bn api (pub_gx k) of
        None \<Rightarrow> (None, e_crypto, key_cleanup (None :: 'b option) (None :: 'b option))
      | Some gx \<Rightarrow>
     (case BN_lebin2bn api (pub_gy k) of
        None \<Rightarrow> (None, e_crypto, [Bn_new] @ key_cleanup None (Some gx))
      | Some gy \<Rightarrow>
     (case EC_KEY_new_by_curve_name api of
        None \<Rightarrow> (None, e_crypto, [Bn_new, Bn_new] @ key_cleanup (Some gy) (Some gx))
      | Some key \<Rightarrow>
     (case EC_KEY_set_public_key_affine_coordinates api key gx gy of
        None \<Rightarrow>
          (None, e_crypto, [Bn_new, Bn_new, Key_new, Key_free] @ key_cleanup (Some gy) (Some gx))
      | Some key' \<Rightarrow>
          (Some key', e_none, [Bn_new, Bn_new, Key_new] @ key_cleanup (Some gy) (Some gx))))))"

section \<open>Properties\<close>

text \<open>
  C40. Printing bytes in hexadecimal and reading them back is the identity: \<open>hexstring\<close> returns
  twice as many characters as bytes, and \<open>hexstring_to_bytes\<close> and \<open>from_hexstring\<close> on that C string
  give a block that holds exactly the bytes.
\<close>

theorem hexstring_roundtrip:
  "\<exists>s. hexstring bs (length bs) True = Inr s \<and> length s = 2 * length bs
       \<and> hexstring_to_bytes (c_str s) (length s) = Inr (Some bs)
       \<and> from_hexstring (c_str s) (length bs) (length bs) = Inr (1, bs)"
  by (simp add: hexstring_all hexstring_to_bytes_def from_hexstring_def c_str_def hex_decode_pairs [where rest = "[]"]
      from_hex_loop_pairs)

text \<open>
  Decoding the characters of a \<open>std::string\<close> with its own size, the way the service and
  the JSON parser call \<open>hexstring_to_bytes\<close>, has no undefined behaviour whatever the string
  holds (embedded NULs and non-hexadecimal characters included): an odd size gives \<open>NULL\<close>, an
  even size a block of exactly half as many bytes.
\<close>

theorem hexstring_to_bytes_of_string_safe:
  "(odd (length s) \<and> hexstring_to_bytes (c_str s) (length s) = Inr None)
   \<or> (even (length s) \<and> (\<exists>bs. hexstring_to_bytes (c_str s) (length s) = Inr (Some bs)
                              \<and> length bs = length s div 2))"
proof (cases "even (length s)")
  case True
  let ?t = "takeWhile (\<lambda>c. c \<noteq> NUL) s"
  obtain rest where r: "c_str s = ?t @ NUL # rest" using c_str_split by blast
  have l: "length ?t div 2 \<le> length s div 2"
    by (simp add: div_le_mono length_takeWhile_le)
  obtain bs where "hex_decode_loop (c_str s) (length s div 2) [] = Inr ([] @ bs)"
    and "length bs = length ?t div 2"
    using hex_decode_loop_c_str [OF not_NUL_takeWhile, of "[]" s "length s div 2" rest] l r by auto
  with True l show ?thesis by (auto simp: hexstring_to_bytes_def)
next
  case False
  then show ?thesis by (auto simp: hexstring_to_bytes_def odd_iff_mod_2_eq_one)
qed

text \<open>
  The loop of \<open>hexstring_to_bytes\<close> follows the NUL of the source and not \<open>len\<close>: on a C
  string \<open>s\<close> and an even \<open>len\<close> it returns exactly when \<open>s\<close> has no more pairs than \<open>len\<close>
  has, and otherwise writes past the block it allocated.
\<close>

theorem hexstring_to_bytes_bounds:
  assumes "NUL \<notin> set s" and "even len"
  shows "if length s div 2 \<le> len div 2
         then \<exists>bs. hexstring_to_bytes (c_str s) len = Inr (Some bs) \<and> length bs = len div 2
         else hexstring_to_bytes (c_str s) len = Inl (Undefined Write_out_of_bounds)"
proof (cases "length s div 2 \<le> len div 2")
  case True
  then show ?thesis
    using hex_decode_loop_c_str [OF assms(1), of "[]" "len div 2" "[]"] assms(2)
    by (auto simp: hexstring_to_bytes_def c_str_def)
next
  case False
  then show ?thesis
    using hex_decode_loop_overflow [OF assms(1), of "[]" "len div 2" "[]"] assms(2)
    by (auto simp: hexstring_to_bytes_def c_str_def)
qed

theorem hexstring_to_bytes_bounds_witness:
  "hexstring_to_bytes (c_str ''a1b2'') 2 = Inl (Undefined Write_out_of_bounds)"
  using hexstring_to_bytes_bounds [of "''a1b2''" 2] by simp

text \<open>
  \<open>key_from_sgx_ec256\<close> releases what it allocates on every path: as many big numbers are
  freed as were created, the only object that outlives the call is the returned key, and
  \<open>error_type\<close> is \<open>e_crypto\<close> exactly when \<open>NULL\<close> is returned.
\<close>

theorem key_from_sgx_ec256_no_leak:
  "(case key_from_sgx_ec256 api k of (key, err, ev) \<Rightarrow>
      count_list ev Bn_new = count_list ev Bn_free
      \<and> count_list ev Key_new = count_list ev Key_free + (if key = None then 0 else 1)
      \<and> (err = e_crypto \<longleftrightarrow> key = None) \<and> (err = e_none \<longleftrightarrow> key \<noteq> None))"
  by (auto simp: key_from_sgx_ec256_def key_cleanup_def split: option.splits)

end
