(* ===== verification/Json_Value.thy ===== *)
theory Json_Value
  imports Utils_Hex
begin

text \<open>
  The class \<open>JSON\<close> of \<open>sgx/src/include/Json.h\<close>: its tagged union as a datatype, one constructor
  per member of \<open>enum class Class\<close>, and the operations on a single value that do not depend on
  the layout of ordered objects (those are in \<open>Json_Object\<close>).

  Copies of a \<open>JSON\<close> are deep and moves leave a \<open>Null\<close> behind, so a value of the class is a
  value of the datatype; a method that changes \<open>*this\<close> returns the changed value. A map is the
  list of its entries in key order (\<open>std_map\<close> in \<open>Prelude\<close>). The type variable \<open>'f\<close> stands for
  the C++ type \<open>double\<close>: nothing here looks into it beyond its zero. \<open>long\<close> is \<open>int\<close> with the
  range check \<open>in_long\<close> where the code computes. The bytes of a \<open>JHash\<close> are those that have
  been initialised: \<open>SetType\<close> allocates 32 bytes and initialises none.
\<close>

unbundle bit_operations_syntax

section \<open>Private copies of the hexadecimal helpers, and text helpers\<close>

definition HASH_TAG :: string where "HASH_TAG = ''$&JT&$''"
definition BUFF_TAG :: string where "BUFF_TAG = ''$&BT&$''"
definition hash_length :: nat where "hash_length = 32"

definition FIO_SEPARATER :: char where "FIO_SEPARATER = CHR ''-''"
definition FIO_KEY :: string where "FIO_KEY = ''key''"
definition FIO_VAL :: string where "FIO_VAL = ''val''"
definition FIO_DEQ :: string where "FIO_DEQ = ''deq''"
definition FIO_OBJ :: string where "FIO_OBJ = ''fio''"
definition FLAT_OBJ :: string where "FLAT_OBJ = ''flat''"

definition json_escape_char :: "char \<Rightarrow> string" where
  "json_escape_char c =
     (if c = QUOTE then [BACKSLASH, QUOTE]
      else if c = BACKSLASH then [BACKSLASH, BACKSLASH]
      else if c = CHR 0x08 then BACKSLASH # ''b''
      else if c = CHR 0x0C then BACKSLASH # ''f''
      else if c = LF then BACKSLASH # ''n''
      else if c = CR then BACKSLASH # ''r''
      else if c = TAB then BACKSLASH # ''t''
      else [c])"

fun json_escape :: "string \<Rightarrow> string" where
  "json_escape [] = []"
| "json_escape (c # str) = json_escape_char c @ json_escape str"

text \<open>\<open>json::_char_to_int\<close>, \<open>json::_hexstring_to_bytes\<close>, \<open>json::_hexstring\<close>.\<close>

definition json_char_to_int :: "char \<Rightarrow> int" where
  "json_char_to_int input =
     (if CHR ''0'' \<le> input \<and> input \<le> CHR ''9'' then int (code input) - 48
      else if CHR ''A'' \<le> input \<and> input \<le> CHR ''F'' then int (code input) - 65 + 10
      else if CHR ''a'' \<le> input \<and> input \<le> CHR ''f'' then int (code input) - 97 + 10
      else 0)"

fun json_hex_decode_loop :: "string \<Rightarrow> nat \<Rightarrow> byte list \<Rightarrow> byte list res" where
  "json_hex_decode_loop [] cap done = Inl (Undefined Read_out_of_bounds)"
| "json_hex_decode_loop [c] cap done =
     (if c = NUL then Inr done else Inl (Undefined Read_out_of_bounds))"
| "json_hex_decode_loop (c # d # src) cap done =
     (if c = NUL \<or> d = NUL then Inr done
      else if cap \<le> length done then Inl (Undefined Write_out_of_bounds)
      else json_hex_decode_loop src cap
             (done @ [word_of_int (json_char_to_int c * 16 + json_char_to_int d)]))"

definition json_hexstring_to_bytes :: "string \<Rightarrow> nat \<Rightarrow> byte list option res" where
  "json_hexstring_to_bytes src len =
     (if len mod 2 \<noteq> 0 then Inr None
      else rbind (json_hex_decode_loop src (len div 2) [])
             (\<lambda>bs. Inr (Some (bs @ replicate (len div 2 - length bs) 0))))"

fun json_hex_encode_loop :: "byte list \<Rightarrow> nat \<Rightarrow> string \<Rightarrow> string res" where
  "json_hex_encode_loop src 0 buf = Inr buf"
| "json_hex_encode_loop [] (Suc n) buf = Inl (Undefined Read_out_of_bounds)"
| "json_hex_encode_loop (b # src) (Suc n) buf =
     json_hex_encode_loop src n
       (buf @ [hextable ! unat (drop_bit 4 b), hextable ! unat (b AND 0xf)])"

definition json_hexstring :: "byte list \<Rightarrow> nat \<Rightarrow> bool \<Rightarrow> string res" where
  "json_hexstring vsrc len malloc_ok =
     (if \<not> malloc_ok then Inr [] else json_hex_encode_loop vsrc len [])"

definition is_number :: "string \<Rightarrow> bool" where
  "is_number s = (if s = [] then False else list_all is_digit s)"

section \<open>Values and their class\<close>

datatype json_class =
    Class_Null
  | Class_Object
  | Class_FIOObject
  | Class_FlatObject
  | Class_Pair
  | Class_Array
  | Class_Hash
  | Class_Buffer
  | Class_String
  | Class_Floating
  | Class_Integral
  | Class_Boolean

datatype 'f json =
    JNull
  | JObject "(string \<times> 'f json) list"
  | JFIO "(string \<times> 'f json) list"
  | JFlat "(string \<times> 'f json) list"
  | JPair string "'f json"
  | JArray "'f json list"
  | JHash "byte list"
  | JBuffer "byte list"
  | JString string
  | JFloating 'f
  | JIntegral int
  | JBoolean bool

type_synonym 'f jmap = "(string \<times> 'f json) list"

fun JSONType :: "'f json \<Rightarrow> json_class" where
  "JSONType JNull = Class_Null"
| "JSONType (JObject m) = Class_Object"
| "JSONType (JFIO m) = Class_FIOObject"
| "JSONType (JFlat m) = Class_FlatObject"
| "JSONType (JPair s j) = Class_Pair"
| "JSONType (JArray xs) = Class_Array"
| "JSONType (JHash bs) = Class_Hash"
| "JSONType (JBuffer bs) = Class_Buffer"
| "JSONType (JString s) = Class_String"
| "JSONType (JFloating f) = Class_Floating"
| "JSONType (JIntegral n) = Class_Integral"
| "JSONType (JBoolean b) = Class_Boolean"

definition IsNull :: "'f json \<Rightarrow> bool" where
  "IsNull j \<longleftrightarrow> JSONType j = Class_Null"

text \<open>The fresh content \<open>SetType\<close> installs for a class.\<close>

fun fresh :: "json_class \<Rightarrow> 'f::zero json" where
  "fresh Class_Null = JNull"
| "fresh Class_Object = JObject []"
| "fresh Class_FIOObject = JFIO (map_put FIO_VAL (JObject []) (map_put FIO_KEY (JObject []) []))"
| "fresh Class_FlatObject = JFlat (map_put FIO_VAL (JObject []) (map_put FIO_KEY (JObject []) []))"
| "fresh Class_Pair = JPair [] JNull"
| "fresh Class_Array = JArray []"
| "fresh Class_Hash = JHash []"
| "fresh Class_Buffer = JBuffer []"
| "fresh Class_String = JString []"
| "fresh Class_Floating = JFloating 0"
| "fresh Class_Integral = JIntegral 0"
| "fresh Class_Boolean = JBoolean False"

definition SetType :: "json_class \<Rightarrow> 'f::zero json \<Rightarrow> 'f json" where
  "SetType type j = (if type = JSONType j then j else fresh type)"

definition Make :: "json_class \<Rightarrow> 'f::zero json" where
  "Make type = SetType type JNull"

definition Make_Array :: "'f::zero json" where "Make_Array = Make Class_Array"
definition Make_Object :: "'f::zero json" where "Make_Object = Make Class_Object"
definition Make_FIOObject :: "'f::zero json" where "Make_FIOObject = Make Class_FIOObject"
definition Make_FlatObject :: "'f::zero json" where "Make_FlatObject = Make Class_FlatObject"
definition Make_Pair :: "'f::zero json" where "Make_Pair = Make Class_Pair"

text \<open>Copy construction and copy assignment: element by element. A move empties its source.\<close>

fun json_copy :: "'f json \<Rightarrow> 'f json" where
  "json_copy (JObject m) = JObject (map (\<lambda>(k, v). (k, json_copy v)) m)"
| "json_copy (JFIO m) = JFIO (map (\<lambda>(k, v). (k, json_copy v)) m)"
| "json_copy (JFlat m) = JFlat (map (\<lambda>(k, v). (k, json_copy v)) m)"
| "json_copy (JPair s j) = JPair s (json_copy j)"
| "json_copy (JArray xs) = JArray (map json_copy xs)"
| "json_copy (JHash bs) = JHash (take hash_length bs)"
| "json_copy (JBuffer bs) = JBuffer bs"
| "json_copy (JString s) = JString s"
| "json_copy j = j"

text \<open>The copy assignment releases the old content and then does what the constructor does.\<close>

definition json_assign :: "'f json \<Rightarrow> 'f json \<Rightarrow> 'f json" where
  "json_assign this other = json_copy other"

definition json_move :: "'f json \<Rightarrow> 'f json \<times> 'f json" where
  "json_move other = (other, JNull)"

definition json_move_assign :: "'f json \<Rightarrow> 'f json \<Rightarrow> 'f json \<times> 'f json" where
  "json_move_assign this other = (other, JNull)"

section \<open>Heap blocks\<close>

text \<open>
  Which block on the heap belongs to a value of each class: what \<open>SetType\<close> allocates, what
  \<open>ClearInternal\<close> and the destructor release. The assignment from a \<open>uint8_t *\<close> calls
  \<open>SetType\<close> and then allocates once more.
\<close>

datatype heap_block = Map_block | Pair_block | List_block | Hash_block | Buffer_block | String_block

fun SetType_allocates :: "json_class \<Rightarrow> heap_block list" where
  "SetType_allocates Class_Object = [Map_block]"
| "SetType_allocates Class_FIOObject = [Map_block]"
| "SetType_allocates Class_FlatObject = [Map_block]"
| "SetType_allocates Class_Pair = [Pair_block]"
| "SetType_allocates Class_Array = [List_block]"
| "SetType_allocates Class_Hash = [Hash_block]"
| "SetType_allocates Class_Buffer = [Buffer_block]"
| "SetType_allocates Class_String = [String_block]"
| "SetType_allocates _ = []"

fun ClearInternal :: "json_class \<Rightarrow> heap_block list" where
  "ClearInternal Class_Object = [Map_block]"
| "ClearInternal Class_FIOObject = [Map_block]"
| "ClearInternal Class_FlatObject = [Map_block]"
| "ClearInternal Class_Pair = [Pair_block]"
| "ClearInternal Class_Array = [List_block]"
| "ClearInternal Class_Hash = [Hash_block]"
| "ClearInternal Class_Buffer = [Buffer_block]"
| "ClearInternal Class_String = [String_block]"
| "ClearInternal _ = []"

fun json_destroy :: "json_class \<Rightarrow> heap_block list" where
  "json_destroy Class_Array = [List_block]"
| "json_destroy Class_Hash = [Hash_block]"
| "json_destroy Class_Buffer = [Buffer_block]"
| "json_destroy Class_Object = [Map_block]"
| "json_destroy Class_FIOObject = [Map_block]"
| "json_destroy Class_FlatObject = [Map_block]"
| "json_destroy Class_Pair = [Pair_block]"
| "json_destroy Class_String = [String_block]"
| "json_destroy _ = []"

text \<open>
  The blocks allocated and released over the life of a value: it starts as class \<open>c\<close>, is changed
  by a sequence of assignments and destroyed. \<open>To_class\<close> is any method that calls \<open>SetType\<close>.
\<close>

datatype storage_step = To_class json_class | From_bytes

fun storage_life :: "json_class \<Rightarrow> storage_step list \<Rightarrow> heap_block list \<times> heap_block list" where
  "storage_life c [] = ([], json_destroy c)"
| "storage_life c (To_class d # ops) =
     (let (al, rel) = storage_life d ops in
      if d = c then (al, rel) else (SetType_allocates d @ al, ClearInternal c @ rel))"
| "storage_life c (From_bytes # ops) =
     (let (al, rel) = storage_life Class_Hash ops;
          set = (if c = Class_Hash then ([], []) else (SetType_allocates Class_Hash, ClearInternal c))
      in (fst set @ [Hash_block] @ al, snd set @ rel))"

section \<open>Scalars\<close>

definition assign_bool :: "bool \<Rightarrow> 'f json" where "assign_bool b = JBoolean b"
definition assign_float :: "'f \<Rightarrow> 'f json" where "assign_float f = JFloating f"
definition assign_string :: "string \<Rightarrow> 'f json" where "assign_string s = JString s"

text \<open>
  Assignment from an integral type converts to \<open>long\<close>; the argument is the value after the
  conversion. Assignment from a \<open>uint8_t *\<close> copies 32 bytes from the pointer.
\<close>

definition assign_int :: "int \<Rightarrow> 'f json" where "assign_int i = JIntegral i"

definition assign_bytes :: "byte list \<Rightarrow> 'f json res" where
  "assign_bytes mem =
     (if hash_length \<le> length mem then Inr (JHash (take hash_length mem))
      else Inl (Undefined Read_out_of_bounds))"

fun ToString :: "'f json \<Rightarrow> string res" where
  "ToString (JString s) = Inr (json_escape s)"
| "ToString (JHash bs) = json_hexstring bs hash_length True"
| "ToString (JBuffer bs) = json_hexstring bs (length bs) True"
| "ToString (JIntegral n) = Inr (std_to_string n)"
| "ToString _ = Inr []"

definition ToFloat :: "'f::zero json \<Rightarrow> 'f" where
  "ToFloat j = (case j of JFloating f \<Rightarrow> f | _ \<Rightarrow> 0)"

definition ToInt :: "'f json \<Rightarrow> int" where
  "ToInt j = (case j of JIntegral n \<Rightarrow> n | _ \<Rightarrow> 0)"

definition ToBool :: "'f json \<Rightarrow> bool" where
  "ToBool j = (case j of JBoolean b \<Rightarrow> b | _ \<Rightarrow> False)"

definition ToCStr :: "'f json \<Rightarrow> string option" where
  "ToCStr j = (case j of JString s \<Rightarrow> Some (c_str s) | _ \<Rightarrow> None)"

definition ToBytes :: "'f json \<Rightarrow> byte list option" where
  "ToBytes j = (case j of JHash bs \<Rightarrow> Some bs | JBuffer bs \<Rightarrow> Some bs | _ \<Rightarrow> None)"

definition AddNum :: "'f::zero json \<Rightarrow> int \<Rightarrow> 'f json res" where
  "AddNum j num =
     (case (if IsNull j then SetType Class_Integral j else j) of
        JIntegral n \<Rightarrow>
          if in_long (n + num) then Inr (JIntegral (n + num)) else Inl (Undefined Signed_overflow)
      | j' \<Rightarrow> Inr j')"

section \<open>Strings and buffers\<close>

definition get_char :: "'f json \<Rightarrow> nat \<Rightarrow> char" where
  "get_char j index =
     (case j of JString s \<Rightarrow> if length s \<le> index then NUL else s ! index | _ \<Rightarrow> NUL)"

definition set_char :: "'f json \<Rightarrow> nat \<Rightarrow> char \<Rightarrow> 'f json" where
  "set_char j index c =
     (case j of
        JString s \<Rightarrow>
          if length s < index then j
          else if index = length s then JString (s @ [c])
          else JString (s[index := c])
      | _ \<Rightarrow> j)"

text \<open>The memory behind \<open>data\<close> is the first list; \<open>None\<close> is a null pointer.\<close>

definition AppendBuffer :: "'f::zero json \<Rightarrow> byte list option \<Rightarrow> nat \<Rightarrow> 'f json res" where
  "AppendBuffer j data data_size =
     (case (if IsNull j then SetType Class_Buffer j else j) of
        JBuffer bs \<Rightarrow>
          (case data of
             None \<Rightarrow> if data_size = 0 then Inr (JBuffer bs) else Inl (Undefined Null_dereference)
           | Some mem \<Rightarrow>
               if data_size \<le> length mem then Inr (JBuffer (bs @ take data_size mem))
               else Inl (Undefined Read_out_of_bounds))
      | j' \<Rightarrow> Inr j')"

definition FreeBuffer :: "'f json \<Rightarrow> 'f json" where
  "FreeBuffer j = (case j of JBuffer bs \<Rightarrow> JBuffer [] | _ \<Rightarrow> j)"

definition AppendStr :: "'f::zero json \<Rightarrow> string \<Rightarrow> 'f json" where
  "AppendStr j str =
     (case (if IsNull j then SetType Class_String j else j) of
        JString s \<Rightarrow> JString (s @ str) | j' \<Rightarrow> j')"

definition AppendStr_n :: "'f::zero json \<Rightarrow> string \<Rightarrow> nat \<Rightarrow> 'f json res" where
  "AppendStr_n j str n =
     (case (if IsNull j then SetType Class_String j else j) of
        JString s \<Rightarrow>
          if n \<le> length str then Inr (JString (s @ take n str))
          else Inl (Undefined Read_out_of_bounds)
      | j' \<Rightarrow> Inr j')"

definition AppendChar :: "'f::zero json \<Rightarrow> char \<Rightarrow> 'f json" where
  "AppendChar j c =
     (case (if IsNull j then SetType Class_String j else j) of
        JString s \<Rightarrow> JString (s @ [c]) | j' \<Rightarrow> j')"

section \<open>Arrays and pairs\<close>

definition json_append :: "'f::zero json \<Rightarrow> 'f json \<Rightarrow> 'f json" where
  "json_append j arg = (case SetType Class_Array j of JArray xs \<Rightarrow> JArray (xs @ [arg]) | j' \<Rightarrow> j')"

definition json_append_all :: "'f::zero json \<Rightarrow> 'f json list \<Rightarrow> 'f json" where
  "json_append_all j args = foldl json_append j args"

definition Array_of :: "'f::zero json list \<Rightarrow> 'f json" where
  "Array_of args = json_append_all (Make Class_Array) args"

text \<open>
  \<open>operator[](unsigned)\<close> grows the array with \<open>Null\<close> elements up to the index and returns a
  reference; \<open>f\<close> is what the caller does to the element behind the reference.
\<close>

definition array_grow :: "nat \<Rightarrow> 'f json list \<Rightarrow> 'f json list" where
  "array_grow index xs =
     (if length xs \<le> index then xs @ replicate (index + 1 - length xs) JNull else xs)"

definition index_at :: "'f::zero json \<Rightarrow> nat \<Rightarrow> ('f json \<Rightarrow> 'f json) \<Rightarrow> 'f json" where
  "index_at j index f =
     (case SetType Class_Array j of
        JArray xs \<Rightarrow> (let ys = array_grow index xs in JArray (ys[index := f (ys ! index)]))
      | j' \<Rightarrow> j')"

text \<open>The two \<open>const\<close> versions of \<open>at\<close> use the union member without a look at the tag.\<close>

definition at_key_const :: "'f json \<Rightarrow> string \<Rightarrow> 'f json res" where
  "at_key_const j key =
     (case j of
        JObject m \<Rightarrow> (case map_of m key of Some v \<Rightarrow> Inr v | None \<Rightarrow> Inl (Throws Std_out_of_range))
      | JFIO m \<Rightarrow> (case map_of m key of Some v \<Rightarrow> Inr v | None \<Rightarrow> Inl (Throws Std_out_of_range))
      | JFlat m \<Rightarrow> (case map_of m key of Some v \<Rightarrow> Inr v | None \<Rightarrow> Inl (Throws Std_out_of_range))
      | _ \<Rightarrow> Inl (Undefined Inactive_union_member))"

definition at_index_const :: "'f json \<Rightarrow> nat \<Rightarrow> 'f json res" where
  "at_index_const j index =
     (case j of
        JArray xs \<Rightarrow> if index < length xs then Inr (xs ! index) else Inl (Throws Std_out_of_range)
      | _ \<Rightarrow> Inl (Undefined Inactive_union_member))"

definition length_json :: "'f json \<Rightarrow> int" where
  "length_json j =
     (case j of JArray xs \<Rightarrow> int (length xs) | JHash bs \<Rightarrow> int hash_length | _ \<Rightarrow> - 1)"

definition SetPair :: "string \<Rightarrow> 'f json \<Rightarrow> 'f json" where
  "SetPair s j = JPair s j"

definition Pair_of :: "string \<Rightarrow> 'f json \<Rightarrow> 'f json" where
  "Pair_of s j = SetPair s j"

definition pair_first :: "'f::zero json \<Rightarrow> string \<times> 'f json" where
  "pair_first j = (case SetType Class_Pair j of JPair s v \<Rightarrow> (s, JPair s v) | j' \<Rightarrow> ([], j'))"

definition pair_second :: "'f::zero json \<Rightarrow> 'f json \<times> 'f json" where
  "pair_second j = (case SetType Class_Pair j of JPair s v \<Rightarrow> (v, JPair s v) | j' \<Rightarrow> (j', j'))"

text \<open>\<open>ObjectRange\<close> and \<open>ArrayRange\<close>: what the returned range iterates over.\<close>

definition ObjectRange :: "'f json \<Rightarrow> 'f jmap" where
  "ObjectRange j = (case j of JObject m \<Rightarrow> m | _ \<Rightarrow> [])"

definition ArrayRange :: "'f json \<Rightarrow> 'f json list" where
  "ArrayRange j = (case j of JArray xs \<Rightarrow> xs | _ \<Rightarrow> [])"

section \<open>Facts\<close>

subsection \<open>The private helpers are those of \<open>Utils.cpp\<close>\<close>

lemma json_char_to_int_eq: "json_char_to_int c = char_to_int c"
  by (simp add: json_char_to_int_def char_to_int_def)

lemma json_hex_decode_loop_eq: "json_hex_decode_loop src cap done = hex_decode_loop src cap done"
  by (induction src cap "done" rule: json_hex_decode_loop.induct) (simp_all add: json_char_to_int_eq)

lemma json_hex_encode_loop_eq: "json_hex_encode_loop src n buf = hex_encode_loop src n buf"
  by (induction src n buf rule: json_hex_encode_loop.induct) simp_all

lemma json_hexstring_to_bytes_eq: "json_hexstring_to_bytes src n = hexstring_to_bytes src n"
  by (simp add: json_hexstring_to_bytes_def hexstring_to_bytes_def json_hex_decode_loop_eq)

lemma json_hexstring_eq: "json_hexstring src n ok = hexstring src n ok"
  by (simp add: json_hexstring_def hexstring_def json_hex_encode_loop_eq)

subsection \<open>Escaping\<close>

text \<open>A character is plain when \<open>json_escape\<close> leaves it alone.\<close>

definition plain_char :: "char \<Rightarrow> bool" where
  "plain_char c \<longleftrightarrow>
     c \<notin> {QUOTE, BACKSLASH, CHR 0x08, CHR 0x0C, LF, CR, TAB}"

definition plain :: "string \<Rightarrow> bool" where
  "plain s \<longleftrightarrow> list_all plain_char s"

lemma plain_simps [simp]: "plain []" "plain (c # s) \<longleftrightarrow> plain_char c \<and> plain s"
    "plain (s @ t) \<longleftrightarrow> plain s \<and> plain t"
  by (simp_all add: plain_def)

lemma json_escape_append [simp]: "json_escape (s @ t) = json_escape s @ json_escape t"
  by (induction s) auto

lemma json_escape_plain: "plain s \<Longrightarrow> json_escape s = s"
  by (induction s) (auto simp: json_escape_char_def plain_char_def)

lemma length_json_escape_char: "1 \<le> length (json_escape_char c)"
  by (simp add: json_escape_char_def)

lemma length_json_escape_ge: "length s \<le> length (json_escape s)"
proof (induction s)
  case (Cons c s)
  then show ?case using length_json_escape_char [of c] by simp
qed simp

lemma json_escape_length_plain: "length (json_escape s) = length s \<Longrightarrow> plain s"
proof (induction s)
  case (Cons c s)
  then have "length (json_escape_char c) = 1"
    using length_json_escape_ge [of s] length_json_escape_char [of c] by simp
  then have "plain_char c"
    by (auto simp: json_escape_char_def plain_char_def split: if_splits)
  with Cons \<open>length (json_escape_char c) = 1\<close> show ?case by simp
qed simp

lemma json_escape_eq_iff: "json_escape s = s \<longleftrightarrow> plain s"
  using json_escape_plain json_escape_length_plain by metis

lemma digit_plain: "is_digit c \<Longrightarrow> plain_char c"
  by (auto simp: is_digit_code plain_char_def)

lemma is_number_plain: "is_number s \<Longrightarrow> plain s"
  by (auto simp: is_number_def plain_def list_all_iff digit_plain split: if_splits)

subsection \<open>Copies\<close>

text \<open>Every hash inside a value is at most 32 bytes long: nothing else can be stored.\<close>

fun hashes_bounded :: "'f json \<Rightarrow> bool" where
  "hashes_bounded (JObject m) = list_all (\<lambda>(k, v). hashes_bounded v) m"
| "hashes_bounded (JFIO m) = list_all (\<lambda>(k, v). hashes_bounded v) m"
| "hashes_bounded (JFlat m) = list_all (\<lambda>(k, v). hashes_bounded v) m"
| "hashes_bounded (JPair s j) = hashes_bounded j"
| "hashes_bounded (JArray xs) = list_all hashes_bounded xs"
| "hashes_bounded (JHash bs) = (length bs \<le> hash_length)"
| "hashes_bounded j = True"

lemma json_copy_id: "hashes_bounded j \<Longrightarrow> json_copy j = j"
proof (induction j rule: json_copy.induct)
  case (1 m)
  then show ?case by (auto intro!: map_idI simp: list_all_iff)
next
  case (2 m)
  then show ?case by (auto intro!: map_idI simp: list_all_iff)
next
  case (3 m)
  then show ?case by (auto intro!: map_idI simp: list_all_iff)
next
  case (5 xs)
  then show ?case by (auto intro!: map_idI simp: list_all_iff)
qed simp_all

subsection \<open>Arrays\<close>

lemma json_append_all_Array: "json_append_all (JArray xs) args = JArray (xs @ args)"
  by (induction args arbitrary: xs) (simp_all add: json_append_all_def json_append_def SetType_def)

lemma Make_simps [simp]:
  "Make Class_Array = JArray []" "Make Class_Object = JObject []" "Make Class_Null = JNull"
  "Make Class_String = JString []"
  by (simp_all add: Make_def SetType_def)

lemma Array_of_eq: "Array_of args = JArray args"
  by (simp add: Array_of_def json_append_all_Array)

lemma index_at_append: "index_at (JArray xs) (length xs) (\<lambda>_. v) = JArray (xs @ [v])"
  by (simp add: index_at_def SetType_def array_grow_def)

lemma length_array_grow: "length (array_grow i xs) = max (length xs) (Suc i)"
  by (simp add: array_grow_def)

subsection \<open>Properties\<close>

lemma storage_released: "ClearInternal c = SetType_allocates c" "json_destroy c = SetType_allocates c"
  by (cases c; simp)+

lemma storage_life_count:
  "count_list (SetType_allocates c @ fst (storage_life c ops)) b
   = count_list (snd (storage_life c ops)) b + (if b = Hash_block then count_list ops From_bytes else 0)"
proof (induction c ops rule: storage_life.induct)
  case (1 c)
  show ?case by (simp add: storage_released)
next
  case (2 c d ops)
  then show ?case by (auto simp: storage_released split_def Let_def)
next
  case (3 c ops)
  then show ?case by (auto simp: storage_released split_def Let_def)
qed

text \<open>
  A value releases what it allocates, with one exception: over any sequence of assignments
  from construction to destruction the blocks released are those allocated, except that each
  assignment from a \<open>uint8_t *\<close> leaves one 32-byte block behind.
\<close>

theorem json_storage_balance:
  "count_list (SetType_allocates c @ fst (storage_life c ops)) b
   = count_list (snd (storage_life c ops)) b + (if b = Hash_block then count_list ops From_bytes else 0)"
  by (rule storage_life_count)

end
