(* ===== verification/Json_Object.thy ===== *)
theory Json_Object
  imports Json_Value
begin

text \<open>
  Objects of the class \<open>JSON\<close>: \<open>operator[](const string &)\<close>, \<open>hasKey\<close>, \<open>erase\<close>, \<open>size\<close>
  and the ordered objects (\<open>FIOObject\<close> and its flat variant), which keep their entries in the
  order of first insertion.

  An ordered object stores, in one map, an object under \<open>"key"\<close> from each key to its internal
  name and an object under \<open>"val"\<close> from internal names to values. An internal name is a decimal
  tag, a dash and the key, and the tags are chosen so that the ascending order of the map is the
  order of insertion. \<open>fio_inv\<close> is that representation invariant, \<open>fio_view\<close> the abstract
  list of entries, and the locale \<open>ordered_dict\<close> the contract of an insertion-ordered
  dictionary, which the model of the code is shown to implement.
\<close>

section \<open>Definitions\<close>

definition slot :: "'f jmap \<Rightarrow> string \<Rightarrow> 'f json" where
  "slot m key = (case map_of m key of Some v \<Rightarrow> v | None \<Rightarrow> JNull)"

text \<open>
  \<open>(*Internal.Map)[part]\<close> for the parts \<open>"key"\<close> and \<open>"val"\<close> of an ordered object, used as an
  object: what is not an object there becomes an empty one (\<open>SetType\<close>). By \<open>fio_inv\<close> both
  parts always are objects.
\<close>

definition fio_part :: "'f jmap \<Rightarrow> string \<Rightarrow> 'f jmap" where
  "fio_part m part = ObjectRange (slot m part)"

text \<open>\<open>find_first_of("-")\<close> with the text before it and the text after it.\<close>

definition rkey_tag :: "string \<Rightarrow> string" where
  "rkey_tag t = takeWhile (\<lambda>c. c \<noteq> FIO_SEPARATER) t"

definition rkey_key :: "string \<Rightarrow> string" where
  "rkey_key t = (if FIO_SEPARATER \<in> set t then tl (dropWhile (\<lambda>c. c \<noteq> FIO_SEPARATER) t) else t)"

definition next_tag :: "string \<Rightarrow> string" where
  "next_tag tag =
     (if CHR ''9'' \<le> last tag then tag @ ''0''
      else butlast tag @ [char_of (code (last tag) + 1)])"

text \<open>The internal name of a new key: the loop over the entries from the last to the first.\<close>

fun fio_fresh_rkey :: "'f jmap \<Rightarrow> string \<Rightarrow> string" where
  "fio_fresh_rkey [] key = ''0'' @ [FIO_SEPARATER] @ key"
| "fio_fresh_rkey ((tkey, v) # rev_entries) key =
     (if FIO_SEPARATER \<in> set tkey \<and> is_number (rkey_tag tkey)
      then next_tag (rkey_tag tkey) @ [FIO_SEPARATER] @ key
      else fio_fresh_rkey rev_entries key)"

definition fio_hasKey :: "'f jmap \<Rightarrow> string \<Rightarrow> bool" where
  "fio_hasKey m key \<longleftrightarrow> map_of (fio_part m FIO_KEY) key \<noteq> None"

definition fio_rkey :: "'f jmap \<Rightarrow> string \<Rightarrow> string res" where
  "fio_rkey m key =
     (if fio_hasKey m key then ToString (slot (fio_part m FIO_KEY) key)
      else Inr (fio_fresh_rkey (rev (fio_part m FIO_VAL)) key))"

definition fio_index :: "'f jmap \<Rightarrow> string \<Rightarrow> ('f json \<Rightarrow> 'f json) \<Rightarrow> 'f jmap res" where
  "fio_index m key f =
     rbind (fio_rkey m key) (\<lambda>rkey.
       let K = fio_part m FIO_KEY;
           K' = (if fio_hasKey m key then K else map_put key (JString rkey) K);
           V = fio_part m FIO_VAL;
           V' = map_put rkey (f (slot V rkey)) V
       in Inr (map_put FIO_VAL (JObject V') (map_put FIO_KEY (JObject K') m)))"

text \<open>
  \<open>operator[](key)\<close> returns a reference; \<open>f\<close> is what the caller does to the value behind it.
  The result is the changed object; \<open>key_value\<close> is the value the reference designates before.
\<close>

definition index_key :: "'f json \<Rightarrow> string \<Rightarrow> ('f json \<Rightarrow> 'f json) \<Rightarrow> 'f json res" where
  "index_key j key f =
     (case j of
        JFIO m \<Rightarrow> rbind (fio_index m key f) (\<lambda>m'. Inr (JFIO m'))
      | JFlat m \<Rightarrow> rbind (fio_index m key f) (\<lambda>m'. Inr (JFlat m'))
      | JObject m \<Rightarrow> Inr (JObject (map_put key (f (slot m key)) m))
      | _ \<Rightarrow> Inr (JObject [(key, f JNull)]))"

definition key_value :: "'f json \<Rightarrow> string \<Rightarrow> 'f json res" where
  "key_value j key =
     (case j of
        JFIO m \<Rightarrow> rbind (fio_rkey m key) (\<lambda>rkey. Inr (slot (fio_part m FIO_VAL) rkey))
      | JFlat m \<Rightarrow> rbind (fio_rkey m key) (\<lambda>rkey. Inr (slot (fio_part m FIO_VAL) rkey))
      | JObject m \<Rightarrow> Inr (slot m key)
      | _ \<Rightarrow> Inr JNull)"

definition set_key :: "'f json \<Rightarrow> string \<Rightarrow> 'f json \<Rightarrow> 'f json res" where
  "set_key j key v = index_key j key (\<lambda>_. v)"

fun object_of_list :: "'f json \<Rightarrow> 'f json list \<Rightarrow> 'f json res" where
  "object_of_list j [] = Inr j"
| "object_of_list j [i] = Inl (Undefined Read_out_of_bounds)"
| "object_of_list j (i # v # list) =
     rbind (ToString i) (\<lambda>key. rbind (set_key j key v) (\<lambda>j'. object_of_list j' list))"

definition hasKey :: "'f json \<Rightarrow> string \<Rightarrow> bool" where
  "hasKey j key =
     (case j of
        JObject m \<Rightarrow> map_of m key \<noteq> None
      | JFIO m \<Rightarrow> fio_hasKey m key
      | JFlat m \<Rightarrow> fio_hasKey m key
      | _ \<Rightarrow> False)"

definition fio_erase :: "'f jmap \<Rightarrow> string \<Rightarrow> 'f jmap res" where
  "fio_erase m key =
     (if fio_hasKey m key
      then rbind (ToString (slot (fio_part m FIO_KEY) key)) (\<lambda>rkey.
             Inr (map_put FIO_VAL (JObject (map_erase rkey (fio_part m FIO_VAL)))
                   (map_put FIO_KEY (JObject (map_erase key (fio_part m FIO_KEY))) m)))
      else Inr m)"

definition erase_key :: "'f json \<Rightarrow> string \<Rightarrow> 'f json res" where
  "erase_key j key =
     (case j of
        JObject m \<Rightarrow> Inr (JObject (map_erase key m))
      | JFIO m \<Rightarrow> rbind (fio_erase m key) (\<lambda>m'. Inr (JFIO m'))
      | JFlat m \<Rightarrow> rbind (fio_erase m key) (\<lambda>m'. Inr (JFlat m'))
      | _ \<Rightarrow> Inr j)"

definition size_json :: "'f json \<Rightarrow> int" where
  "size_json j =
     (case j of
        JObject m \<Rightarrow> int (length m)
      | JFIO m \<Rightarrow> int (length (fio_part m FIO_KEY))
      | JFlat m \<Rightarrow> int (length (fio_part m FIO_KEY))
      | JArray xs \<Rightarrow> int (length xs)
      | JHash bs \<Rightarrow> int hash_length
      | JBuffer bs \<Rightarrow> int (length bs)
      | JString s \<Rightarrow> int (length s)
      | _ \<Rightarrow> - 1)"

definition EnableFlat :: "'f json \<Rightarrow> 'f json" where
  "EnableFlat j = (case j of JFIO m \<Rightarrow> JFlat m | _ \<Rightarrow> j)"

definition DisableFlat :: "'f json \<Rightarrow> 'f json" where
  "DisableFlat j = (case j of JFlat m \<Rightarrow> JFIO m | _ \<Rightarrow> j)"

text \<open>\<open>FIOObjectRange\<close> rebuilds the array under \<open>"deq"\<close> and iterates over it.\<close>

definition fio_range :: "'f jmap \<Rightarrow> 'f jmap \<times> 'f json list" where
  "fio_range m =
     (let m0 = map_erase FIO_DEQ m;
          pairs = map (\<lambda>(s, v). JPair (rkey_key s) v) (fio_part m FIO_VAL);
          deq = (if pairs = [] then JNull else JArray pairs)
      in (map_put FIO_DEQ deq m0, pairs))"

definition FIOObjectRange :: "'f json \<Rightarrow> 'f json \<times> 'f json list" where
  "FIOObjectRange j =
     (case j of
        JFIO m \<Rightarrow> (case fio_range m of (m', r) \<Rightarrow> (JFIO m', r))
      | JFlat m \<Rightarrow> (case fio_range m of (m', r) \<Rightarrow> (JFlat m', r))
      | _ \<Rightarrow> (j, []))"

section \<open>The representation invariant and the abstract view\<close>

definition rkey_ok :: "string \<Rightarrow> bool" where
  "rkey_ok t \<longleftrightarrow> FIO_SEPARATER \<in> set t \<and> is_number (rkey_tag t)"

definition fio_inv :: "'f jmap \<Rightarrow> bool" where
  "fio_inv m \<longleftrightarrow>
     (let K = fio_part m FIO_KEY; V = fio_part m FIO_VAL in
        map_sorted m \<and> map_of m FIO_KEY = Some (JObject K) \<and> map_of m FIO_VAL = Some (JObject V)
        \<and> map_sorted K \<and> map_sorted V
        \<and> list_all (\<lambda>(t, v). rkey_ok t \<and> map_of K (rkey_key t) = Some (JString t)) V
        \<and> list_all (\<lambda>(k, x). case x of JString t \<Rightarrow> rkey_key t = k \<and> map_of V t \<noteq> None
                                      | _ \<Rightarrow> False) K)"

definition fio_view :: "'f jmap \<Rightarrow> (string \<times> 'f json) list" where
  "fio_view m = map (\<lambda>(t, v). (rkey_key t, v)) (fio_part m FIO_VAL)"

text \<open>The abstract dictionary: update in place, or append.\<close>

fun upsert :: "'k \<Rightarrow> ('v \<Rightarrow> 'v) \<Rightarrow> 'v \<Rightarrow> ('k \<times> 'v) list \<Rightarrow> ('k \<times> 'v) list" where
  "upsert k f d [] = [(k, f d)]"
| "upsert k f d ((a, b) # xs) = (if a = k then (a, f b) # xs else (a, b) # upsert k f d xs)"

definition alist_remove :: "'k \<Rightarrow> ('k \<times> 'v) list \<Rightarrow> ('k \<times> 'v) list" where
  "alist_remove k xs = filter (\<lambda>(a, b). a \<noteq> k) xs"

lemma keys_upsert: "fst ` set (upsert k f d xs) = insert k (fst ` set xs)"
proof (induction xs)
  case (Cons x xs)
  then show ?case by (cases x) (simp add: insert_commute)
qed simp

lemma upsert_new: "k \<notin> fst ` set xs \<Longrightarrow> upsert k f d xs = xs @ [(k, f d)]"
  by (induction xs) auto

lemma upsert_old:
  "distinct (map fst xs) \<Longrightarrow> k \<in> fst ` set xs \<Longrightarrow>
   upsert k f d xs = map (\<lambda>(a, b). (a, if a = k then f b else b)) xs"
proof (induction xs)
  case (Cons x xs)
  obtain a b where x: "x = (a, b)" by fastforce
  show ?case
  proof (cases "a = k")
    case True
    with Cons.prems x have "k \<notin> fst ` set xs" by auto
    then have "map (\<lambda>(a, b). (a, if a = k then f b else b)) xs = xs"
      by (auto intro!: map_idI) (metis fst_conv image_eqI)
    with x True show ?thesis by simp
  next
    case False
    with Cons x show ?thesis by auto
  qed
qed simp

lemma map_of_upsert: "map_of (upsert k f d xs) k' =
    (if k' = k then Some (f (case map_of xs k of Some v \<Rightarrow> v | None \<Rightarrow> d)) else map_of xs k')"
  by (induction xs) auto

locale ordered_dict =
  fixes view :: "'s \<Rightarrow> ('k \<times> 'v) list"
    and update :: "'s \<Rightarrow> 'k \<Rightarrow> ('v \<Rightarrow> 'v) \<Rightarrow> 's res"
    and remove :: "'s \<Rightarrow> 'k \<Rightarrow> 's res"
    and inv :: "'s \<Rightarrow> bool"
    and good :: "'k \<Rightarrow> bool"
    and default :: 'v
  assumes update_refines: "inv s \<Longrightarrow> good k \<Longrightarrow>
      \<exists>s'. update s k f = Inr s' \<and> inv s' \<and> view s' = upsert k f default (view s)"
    and remove_refines: "inv s \<Longrightarrow> good k \<Longrightarrow>
      \<exists>s'. remove s k = Inr s' \<and> inv s' \<and> view s' = alist_remove k (view s)"
    and view_distinct: "inv s \<Longrightarrow> distinct (map fst (view s))"
begin

fun put_all :: "'s \<Rightarrow> ('k \<times> 'v) list \<Rightarrow> 's res" where
  "put_all s [] = Inr s"
| "put_all s ((k, v) # kvs) = rbind (update s k (\<lambda>_. v)) (\<lambda>s'. put_all s' kvs)"

lemma put_all_refines:
  "inv s \<Longrightarrow> list_all (\<lambda>(k, v). good k) kvs \<Longrightarrow>
   \<exists>s'. put_all s kvs = Inr s' \<and> inv s'
        \<and> view s' = foldl (\<lambda>xs (k, v). upsert k (\<lambda>_. v) default xs) (view s) kvs"
proof (induction kvs arbitrary: s)
  case (Cons kv kvs)
  obtain k v where kv: "kv = (k, v)" by fastforce
  with Cons.prems obtain s1 where "update s k (\<lambda>_. v) = Inr s1" "inv s1"
      "view s1 = upsert k (\<lambda>_. v) default (view s)"
    using update_refines [of s k "\<lambda>_. v"] by auto
  with Cons kv show ?case by fastforce
qed simp

text \<open>New keys are appended: the entries come out in the order they went in.\<close>

lemma put_all_in_order:
  assumes "inv s" and "list_all (\<lambda>(k, v). good k) kvs" and "distinct (map fst (view s @ kvs))"
  shows "\<exists>s'. put_all s kvs = Inr s' \<and> inv s' \<and> view s' = view s @ kvs"
  using assms
proof (induction kvs arbitrary: s)
  case (Cons kv kvs)
  obtain k v where kv: "kv = (k, v)" by fastforce
  have k: "k \<notin> fst ` set (view s)" using Cons.prems(3) kv by auto
  obtain s1 where s1: "update s k (\<lambda>_. v) = Inr s1" "inv s1"
      "view s1 = upsert k (\<lambda>_. v) default (view s)"
    using update_refines [of s k "\<lambda>_. v"] Cons.prems kv by auto
  then have v: "view s1 = view s @ [(k, v)]" by (simp add: upsert_new [OF k])
  obtain s' where "put_all s1 kvs = Inr s'" "inv s'" "view s' = view s1 @ kvs"
    using Cons.IH [OF s1(2)] Cons.prems kv v by auto
  then show ?case using s1 v kv by simp
qed simp

lemma remove_after_put_new:
  assumes "inv s" and "good k" and "k \<notin> fst ` set (view s)"
  shows "\<exists>s1 s2. update s k f = Inr s1 \<and> remove s1 k = Inr s2 \<and> view s2 = view s"
proof -
  obtain s1 where "update s k f = Inr s1" "inv s1" "view s1 = view s @ [(k, f default)]"
    using update_refines [OF assms(1,2)] upsert_new [OF assms(3)] by metis
  moreover from this obtain s2 where "remove s1 k = Inr s2" "view s2 = alist_remove k (view s1)"
    using remove_refines [OF _ assms(2)] by blast
  moreover have "alist_remove k (view s @ [(k, f default)]) = view s"
    using assms(3) by (auto simp: alist_remove_def intro!: filter_True) (metis fst_conv image_eqI)
  ultimately show ?thesis by auto
qed

end

section \<open>The tags ascend\<close>

lemma append_less_append [simp]: "(xs :: 'a :: linorder list) @ ys < xs @ zs \<longleftrightarrow> ys < zs"
  by (induction xs) auto

lemma is_number_digits: "is_number s \<longleftrightarrow> s \<noteq> [] \<and> (\<forall>c \<in> set s. is_digit c)"
  by (simp add: is_number_def list_all_iff)

lemma digit_not_separator: "is_digit c \<Longrightarrow> c \<noteq> FIO_SEPARATER"
  by (auto simp: FIO_SEPARATER_def is_digit_code)

lemma is_number_no_separator: "is_number tag \<Longrightarrow> FIO_SEPARATER \<notin> set tag"
  using digit_not_separator by (auto simp: is_number_digits)

lemma rkey_tag_app [simp]: "is_number tag \<Longrightarrow> rkey_tag (tag @ FIO_SEPARATER # k) = tag"
  unfolding rkey_tag_def using is_number_no_separator [of tag]
  by (subst takeWhile_append2) auto

lemma rkey_key_app [simp]: "is_number tag \<Longrightarrow> rkey_key (tag @ FIO_SEPARATER # k) = k"
  unfolding rkey_key_def using is_number_no_separator [of tag]
  by (subst dropWhile_append2) auto

lemma rkey_ok_app [simp]: "is_number tag \<Longrightarrow> rkey_ok (tag @ FIO_SEPARATER # k)"
  by (simp add: rkey_ok_def)

lemma rkey_split: "rkey_ok t \<Longrightarrow> t = rkey_tag t @ FIO_SEPARATER # rkey_key t"
proof -
  assume "rkey_ok t"
  then have s: "FIO_SEPARATER \<in> set t" by (simp add: rkey_ok_def)
  then have "dropWhile (\<lambda>c. c \<noteq> FIO_SEPARATER) t \<noteq> []" by auto
  moreover from this have "hd (dropWhile (\<lambda>c. c \<noteq> FIO_SEPARATER) t) = FIO_SEPARATER"
    by (metis (mono_tags, lifting) hd_dropWhile)
  ultimately have "dropWhile (\<lambda>c. c \<noteq> FIO_SEPARATER) t
      = FIO_SEPARATER # tl (dropWhile (\<lambda>c. c \<noteq> FIO_SEPARATER) t)"
    by (metis list.collapse)
  with s show ?thesis
    unfolding rkey_tag_def rkey_key_def by (metis takeWhile_dropWhile_id)
qed

lemma is_number_next_tag: "is_number tag \<Longrightarrow> is_number (next_tag tag)"
proof -
  assume n: "is_number tag"
  then have ne: "tag \<noteq> []" and d: "is_digit (last tag)" by (auto simp: is_number_digits)
  show ?thesis
  proof (cases "CHR ''9'' \<le> last tag")
    case True
    with n show ?thesis by (auto simp: next_tag_def is_number_digits is_digit_code)
  next
    case False
    then have "code (last tag) < 57" by (simp add: less_eq_char_def not_le)
    with d have "is_digit (char_of (code (last tag) + 1))" by (simp add: is_digit_code)
    with False n show ?thesis
      by (auto simp: next_tag_def is_number_digits dest: in_set_butlastD)
  qed
qed

lemma next_tag_less:
  assumes "is_number tag"
  shows "tag @ FIO_SEPARATER # k < next_tag tag @ FIO_SEPARATER # k'"
proof (cases "CHR ''9'' \<le> last tag")
  case True
  then show ?thesis by (simp add: next_tag_def FIO_SEPARATER_def)
next
  case False
  from assms have t: "tag = butlast tag @ [last tag]" by (simp add: is_number_digits)
  from False have "code (last tag) < 57" by (simp add: less_eq_char_def not_le)
  then have l: "last tag < char_of (code (last tag) + 1)" by (simp add: less_char_def)
  have "butlast tag @ last tag # FIO_SEPARATER # k
      < butlast tag @ char_of (code (last tag) + 1) # FIO_SEPARATER # k'"
    using l by simp
  with False show ?thesis by (subst t) (simp add: next_tag_def)
qed

lemma map_put_last: "\<forall>k' \<in> fst ` set m. k' < k \<Longrightarrow> map_put k v m = m @ [(k, v)]"
  by (induction k v m rule: map_put.induct) auto

lemma map_put_old:
  "map_sorted m \<Longrightarrow> k \<in> fst ` set m \<Longrightarrow>
   map_put k v m = map (\<lambda>(a, b). (a, if a = k then v else b)) m"
proof (induction k v m rule: map_put.induct)
  case (2 k v a b m)
  then show ?case by (auto intro!: map_idI [symmetric])
qed simp

text \<open>A fresh internal name is larger than all names in use, so its entry comes last.\<close>

lemma fio_fresh_rkey_shape:
  assumes "list_all (\<lambda>(t, v). rkey_ok t) V" and "map_sorted V"
  shows "\<exists>tag. is_number tag \<and> fio_fresh_rkey (rev V) key = tag @ FIO_SEPARATER # key
               \<and> (\<forall>t \<in> fst ` set V. t < tag @ FIO_SEPARATER # key)"
proof (cases V rule: rev_cases)
  case Nil
  then show ?thesis by (auto intro!: exI [of _ "''0''"] simp: is_number_def is_digit_code)
next
  case (snoc W e)
  obtain t v where e: "e = (t, v)" by fastforce
  from assms snoc e have ok: "rkey_ok t" and below: "\<forall>t' \<in> fst ` set W. t' < t"
    by (auto simp: map_sorted_def sorted_wrt_append)
  let ?n = "next_tag (rkey_tag t)"
  have tag: "is_number (rkey_tag t)" using ok by (simp add: rkey_ok_def)
  have "t < ?n @ FIO_SEPARATER # key"
    using next_tag_less [OF tag, of "rkey_key t" key] rkey_split [OF ok] by simp
  with below have "\<forall>t' \<in> fst ` set V. t' < ?n @ FIO_SEPARATER # key"
    using snoc e by (auto intro: less_trans)
  with ok tag snoc e show ?thesis
    by (auto intro!: exI [of _ ?n] simp: is_number_next_tag rkey_ok_def)
qed

section \<open>The ordered object implements the dictionary\<close>

text \<open>What the invariant says, in the form the proofs use it.\<close>

lemma fio_invD:
  assumes "fio_inv m"
  shows "map_sorted m" and "map_sorted (fio_part m FIO_KEY)" and "map_sorted (fio_part m FIO_VAL)"
    and "map_of m FIO_KEY = Some (JObject (fio_part m FIO_KEY))"
    and "map_of m FIO_VAL = Some (JObject (fio_part m FIO_VAL))"
    and "list_all (\<lambda>(t, v). rkey_ok t) (fio_part m FIO_VAL)"
  using assms by (auto simp: fio_inv_def Let_def list_all_iff)

lemma fio_inv_val:
  "fio_inv m \<Longrightarrow> (t, v) \<in> set (fio_part m FIO_VAL) \<Longrightarrow>
   rkey_ok t \<and> map_of (fio_part m FIO_KEY) (rkey_key t) = Some (JString t)"
  by (auto simp: fio_inv_def Let_def list_all_iff)

lemma fio_inv_key:
  assumes "fio_inv m" and "map_of (fio_part m FIO_KEY) k = Some x"
  shows "\<exists>t. x = JString t \<and> rkey_key t = k \<and> t \<in> fst ` set (fio_part m FIO_VAL)"
proof -
  from assms(2) have "(k, x) \<in> set (fio_part m FIO_KEY)" by (rule map_of_SomeD)
  with assms(1) show ?thesis
    by (auto simp: fio_inv_def Let_def list_all_iff map_of_eq_None_iff split: json.splits)
qed

lemma fio_parts_distinct [simp]: "FIO_KEY \<noteq> FIO_VAL" "FIO_VAL \<noteq> FIO_KEY"
  "FIO_DEQ \<noteq> FIO_KEY" "FIO_DEQ \<noteq> FIO_VAL" "FIO_KEY \<noteq> FIO_DEQ" "FIO_VAL \<noteq> FIO_DEQ"
  by (simp_all add: FIO_KEY_def FIO_VAL_def FIO_DEQ_def)

lemma fio_part_put [simp]:
  "fio_part (map_put FIO_VAL (JObject V) (map_put FIO_KEY (JObject K) m)) FIO_KEY = K"
  "fio_part (map_put FIO_VAL (JObject V) (map_put FIO_KEY (JObject K) m)) FIO_VAL = V"
  by (simp_all add: fio_part_def slot_def map_of_put ObjectRange_def)

text \<open>The invariant of a map whose two parts have been replaced.\<close>

lemma fio_inv_put:
  assumes "map_sorted m" "map_sorted K" "map_sorted V"
    and "\<And>t v. (t, v) \<in> set V \<Longrightarrow> rkey_ok t \<and> map_of K (rkey_key t) = Some (JString t)"
    and "\<And>k x. (k, x) \<in> set K \<Longrightarrow> \<exists>t. x = JString t \<and> rkey_key t = k \<and> t \<in> fst ` set V"
  shows "fio_inv (map_put FIO_VAL (JObject V) (map_put FIO_KEY (JObject K) m))"
proof -
  have "list_all (\<lambda>(t, v). rkey_ok t \<and> map_of K (rkey_key t) = Some (JString t)) V"
    using assms(4) by (auto simp: list_all_iff)
  moreover have "list_all (\<lambda>(k, x). case x of JString t \<Rightarrow> rkey_key t = k \<and> map_of V t \<noteq> None
                                      | _ \<Rightarrow> False) K"
    unfolding list_all_iff
  proof clarify
    fix k x assume "(k, x) \<in> set K"
    from assms(5) [OF this] obtain t where "x = JString t" "rkey_key t = k" "t \<in> fst ` set V"
      by blast
    then show "case x of JString t \<Rightarrow> rkey_key t = k \<and> map_of V t \<noteq> None | _ \<Rightarrow> False"
      by (simp add: map_of_eq_None_iff)
  qed
  ultimately show ?thesis
    unfolding fio_inv_def Let_def fio_part_put
    using assms(1-3) by (simp add: map_sorted_put map_of_put del: not_None_eq)
qed

lemma fio_view_distinct: "fio_inv m \<Longrightarrow> distinct (map fst (fio_view m))"
proof -
  assume inv: "fio_inv m"
  let ?V = "fio_part m FIO_VAL"
  have "inj_on rkey_key (fst ` set ?V)"
  proof (rule inj_onI)
    fix s t assume st: "s \<in> fst ` set ?V" "t \<in> fst ` set ?V" and e: "rkey_key s = rkey_key t"
    from st obtain v w where vw: "(s, v) \<in> set ?V" "(t, w) \<in> set ?V" by auto
    have "map_of (fio_part m FIO_KEY) (rkey_key t) = Some (JString s)"
      using fio_inv_val [OF inv vw(1)] unfolding e by (rule conjunct2)
    with fio_inv_val [OF inv vw(2)] show "s = t" by simp
  qed
  moreover have "distinct (map fst ?V)"
    using fio_invD(3) [OF inv] unfolding map_sorted_def strict_sorted_iff by (rule conjunct2)
  moreover have "map fst (fio_view m) = map rkey_key (map fst ?V)"
    by (simp add: fio_view_def case_prod_beta comp_def)
  ultimately show ?thesis unfolding distinct_map by (metis distinct_map list.set_map)
qed

lemma fio_hasKey_view: "fio_inv m \<Longrightarrow> fio_hasKey m k \<longleftrightarrow> k \<in> fst ` set (fio_view m)"
proof -
  assume inv: "fio_inv m"
  show ?thesis
  proof
    assume "fio_hasKey m k"
    then obtain x where "map_of (fio_part m FIO_KEY) k = Some x" by (auto simp: fio_hasKey_def)
    from fio_inv_key [OF inv this] obtain t where "rkey_key t = k" "t \<in> fst ` set (fio_part m FIO_VAL)"
      by auto
    then show "k \<in> fst ` set (fio_view m)" by (force simp: fio_view_def)
  next
    assume "k \<in> fst ` set (fio_view m)"
    then show "fio_hasKey m k" using fio_inv_val [OF inv] by (force simp: fio_view_def fio_hasKey_def)
  qed
qed

lemma plain_separator: "plain_char FIO_SEPARATER"
  by (simp add: FIO_SEPARATER_def plain_char_def)

text \<open>The internal name of a key: stored under it, or fresh.\<close>

lemma fio_rkey_present:
  assumes inv: "fio_inv m" and has: "fio_hasKey m k" and "plain k"
  obtains t where "fio_rkey m k = Inr t" "map_of (fio_part m FIO_KEY) k = Some (JString t)"
    "rkey_key t = k" "t \<in> fst ` set (fio_part m FIO_VAL)" "rkey_ok t"
proof -
  from has obtain x where x: "map_of (fio_part m FIO_KEY) k = Some x" by (auto simp: fio_hasKey_def)
  from fio_inv_key [OF inv x] obtain t where t: "x = JString t" "rkey_key t = k"
    "t \<in> fst ` set (fio_part m FIO_VAL)" by auto
  then have ok: "rkey_ok t" using fio_inv_val [OF inv] by force
  then have "plain (rkey_tag t @ FIO_SEPARATER # k)"
    using \<open>plain k\<close> is_number_plain by (simp add: rkey_ok_def plain_separator)
  then have "plain t" by (subst rkey_split [OF ok]) (simp add: t(2))
  then have "fio_rkey m k = Inr t"
    using has x t(1) by (simp add: fio_rkey_def slot_def json_escape_plain)
  with x t ok show ?thesis by (intro that) auto
qed

lemma fio_rkey_absent:
  assumes inv: "fio_inv m" and no: "\<not> fio_hasKey m k"
  obtains tag where "is_number tag" "fio_rkey m k = Inr (tag @ FIO_SEPARATER # k)"
    "\<forall>t \<in> fst ` set (fio_part m FIO_VAL). t < tag @ FIO_SEPARATER # k"
  using fio_fresh_rkey_shape [OF fio_invD(6,3) [OF inv], of k] no
  by (auto simp: fio_rkey_def)

lemma map_of_sorted: "map_sorted m \<Longrightarrow> (k, v) \<in> set m \<Longrightarrow> map_of m k = Some v"
  by (auto simp: map_sorted_def strict_sorted_iff)

lemma fio_index_present:
  assumes inv: "fio_inv m" and has: "fio_hasKey m k" and k: "plain k"
  shows "\<exists>m'. fio_index m k f = Inr m' \<and> fio_inv m' \<and> fio_view m' = upsert k f JNull (fio_view m)"
proof -
  let ?K = "fio_part m FIO_KEY" and ?V = "fio_part m FIO_VAL"
  obtain t where t: "fio_rkey m k = Inr t" "map_of ?K k = Some (JString t)"
    "rkey_key t = k" "t \<in> fst ` set ?V" "rkey_ok t"
    by (rule fio_rkey_present [OF assms])
  let ?V' = "map_put t (f (slot ?V t)) ?V"
  have V': "?V' = map (\<lambda>(a, b). (a, if a = t then f b else b)) ?V"
  proof -
    have "?V' = map (\<lambda>(a, b). (a, if a = t then f (slot ?V t) else b)) ?V"
      by (rule map_put_old [OF fio_invD(3) [OF inv] t(4)])
    also have "\<dots> = map (\<lambda>(a, b). (a, if a = t then f b else b)) ?V"
      using map_of_sorted [OF fio_invD(3) [OF inv]] by (auto simp: slot_def)
    finally show ?thesis .
  qed
  have keys: "fst ` set ?V' = fst ` set ?V" unfolding V' by force
  have "fio_inv (map_put FIO_VAL (JObject ?V') (map_put FIO_KEY (JObject ?K) m))"
  proof (rule fio_inv_put)
    show "rkey_ok s \<and> map_of ?K (rkey_key s) = Some (JString s)" if "(s, v) \<in> set ?V'" for s v
      using that fio_inv_val [OF inv] unfolding V' by (auto split: if_splits)
    show "\<exists>t. x = JString t \<and> rkey_key t = k' \<and> t \<in> fst ` set ?V'" if "(k', x) \<in> set ?K" for k' x
      using fio_inv_key [OF inv map_of_sorted [OF fio_invD(2) [OF inv] that]] unfolding keys .
  qed (simp_all add: fio_invD [OF inv] map_sorted_put)
  moreover have "fio_view (map_put FIO_VAL (JObject ?V') (map_put FIO_KEY (JObject ?K) m))
      = upsert k f JNull (fio_view m)"
  proof -
    have k_in: "k \<in> fst ` set (fio_view m)" using has fio_hasKey_view [OF inv] by simp
    have same: "rkey_key a = k \<longleftrightarrow> a = t" if "(a, b) \<in> set ?V" for a b
      using fio_inv_val [OF inv that] t(2,3) by auto
    show ?thesis
      unfolding upsert_old [OF fio_view_distinct [OF inv] k_in]
      using same by (auto simp: fio_view_def V')
  qed
  moreover have "fio_index m k f = Inr (map_put FIO_VAL (JObject ?V') (map_put FIO_KEY (JObject ?K) m))"
    using has t(1) by (simp add: fio_index_def Let_def)
  ultimately show ?thesis by blast
qed

lemma fio_index_absent:
  assumes inv: "fio_inv m" and no: "\<not> fio_hasKey m k"
  shows "\<exists>m'. fio_index m k f = Inr m' \<and> fio_inv m' \<and> fio_view m' = upsert k f JNull (fio_view m)"
proof -
  let ?K = "fio_part m FIO_KEY" and ?V = "fio_part m FIO_VAL"
  obtain tag where tag: "is_number tag" "fio_rkey m k = Inr (tag @ FIO_SEPARATER # k)"
    and below: "\<forall>t \<in> fst ` set ?V. t < tag @ FIO_SEPARATER # k"
    by (rule fio_rkey_absent [OF assms])
  let ?t = "tag @ FIO_SEPARATER # k"
  let ?K' = "map_put k (JString ?t) ?K"
  have "slot ?V ?t = JNull"
    using below by (auto simp: slot_def map_of_eq_None_iff split: option.splits dest!: map_of_SomeD)
  let ?V' = "map_put ?t (f JNull) ?V"
  have V': "?V' = ?V @ [(?t, f JNull)]" by (rule map_put_last [OF below])
  have k_new: "k \<notin> fst ` set (fio_view m)" using no fio_hasKey_view [OF inv] by simp
  have old: "rkey_key s \<noteq> k" if "(s, v) \<in> set ?V" for s v
    using that k_new by (force simp: fio_view_def)
  have "fio_inv (map_put FIO_VAL (JObject ?V') (map_put FIO_KEY (JObject ?K') m))"
  proof (rule fio_inv_put)
    show "rkey_ok s \<and> map_of ?K' (rkey_key s) = Some (JString s)" if "(s, v) \<in> set ?V'" for s v
      using that fio_inv_val [OF inv] old tag(1) unfolding V' by (auto simp: map_of_put)
    show "\<exists>t. x = JString t \<and> rkey_key t = k' \<and> t \<in> fst ` set ?V'" if "(k', x) \<in> set ?K'" for k' x
    proof -
      have "map_of ?K' k' = Some x"
        by (rule map_of_sorted [OF map_sorted_put [OF fio_invD(2) [OF inv]] that])
      then show ?thesis
        using fio_inv_key [OF inv, of k' x] tag(1) unfolding V'
        by (auto simp: map_of_put split: if_splits)
    qed
  qed (simp_all add: fio_invD [OF inv] map_sorted_put)
  moreover have "fio_view (map_put FIO_VAL (JObject ?V') (map_put FIO_KEY (JObject ?K') m))
      = upsert k f JNull (fio_view m)"
    using tag(1) by (simp add: upsert_new [OF k_new]) (simp add: fio_view_def V')
  moreover have "fio_index m k f = Inr (map_put FIO_VAL (JObject ?V') (map_put FIO_KEY (JObject ?K') m))"
    using no tag(2) \<open>slot ?V ?t = JNull\<close> by (simp add: fio_index_def Let_def)
  ultimately show ?thesis by blast
qed

lemma map_erase_filter: "map_sorted m \<Longrightarrow> map_erase k m = filter (\<lambda>(a, b). a \<noteq> k) m"
proof (induction k m rule: map_erase.induct)
  case (2 k a b m)
  then show ?case by (auto intro!: filter_True [symmetric])
qed simp

lemma fio_erase_refines:
  assumes inv: "fio_inv m" and k: "plain k"
  shows "\<exists>m'. fio_erase m k = Inr m' \<and> fio_inv m' \<and> fio_view m' = alist_remove k (fio_view m)"
proof (cases "fio_hasKey m k")
  case False
  then have "k \<notin> fst ` set (fio_view m)" using fio_hasKey_view [OF inv] by simp
  then have "alist_remove k (fio_view m) = fio_view m"
    by (auto simp: alist_remove_def intro!: filter_True) (metis fst_conv image_eqI)
  with False inv show ?thesis by (simp add: fio_erase_def)
next
  case True
  let ?K = "fio_part m FIO_KEY" and ?V = "fio_part m FIO_VAL"
  obtain t where t: "fio_rkey m k = Inr t" "map_of ?K k = Some (JString t)"
    "rkey_key t = k" "t \<in> fst ` set ?V" "rkey_ok t"
    by (rule fio_rkey_present [OF inv True k])
  let ?K' = "map_erase k ?K" and ?V' = "map_erase t ?V"
  have V': "?V' = filter (\<lambda>(a, b). a \<noteq> t) ?V"
    by (rule map_erase_filter [OF fio_invD(3) [OF inv]])
  have K': "map_of ?K' = (map_of ?K)(k := None)"
    by (rule map_of_erase [OF fio_invD(2) [OF inv]])
  have same: "rkey_key a = k \<longleftrightarrow> a = t" if "(a, b) \<in> set ?V" for a b
    using fio_inv_val [OF inv that] t(2,3) by auto
  have "fio_inv (map_put FIO_VAL (JObject ?V') (map_put FIO_KEY (JObject ?K') m))"
  proof (rule fio_inv_put)
    show "rkey_ok s \<and> map_of ?K' (rkey_key s) = Some (JString s)" if "(s, v) \<in> set ?V'" for s v
      using that fio_inv_val [OF inv] same unfolding V' K' by auto
    show "\<exists>t. x = JString t \<and> rkey_key t = k' \<and> t \<in> fst ` set ?V'" if "(k', x) \<in> set ?K'" for k' x
    proof -
      have "map_of ?K' k' = Some x"
        by (rule map_of_sorted [OF map_sorted_erase [OF fio_invD(2) [OF inv]] that])
      then have "k' \<noteq> k" "map_of ?K k' = Some x" unfolding K' by (auto split: if_splits)
      then show ?thesis using fio_inv_key [OF inv, of k' x] t(3) unfolding V' by force
    qed
  qed (simp_all add: fio_invD [OF inv] map_sorted_erase)
  moreover have "fio_view (map_put FIO_VAL (JObject ?V') (map_put FIO_KEY (JObject ?K') m))
      = alist_remove k (fio_view m)"
    unfolding fio_view_def alist_remove_def fio_part_put V' filter_map
    by (rule arg_cong [where f = "map _"], rule filter_cong) (use same in auto)
  moreover have "ToString (slot ?K k) = Inr t"
    using t(1) True by (simp add: fio_rkey_def)
  then have "fio_erase m k = Inr (map_put FIO_VAL (JObject ?V') (map_put FIO_KEY (JObject ?K') m))"
    using True by (simp add: fio_erase_def)
  ultimately show ?thesis by blast
qed

interpretation fio: ordered_dict fio_view fio_index fio_erase fio_inv plain JNull
proof
  show "\<exists>s'. fio_index s k f = Inr s' \<and> fio_inv s' \<and> fio_view s' = upsert k f JNull (fio_view s)"
    if "fio_inv s" "plain k" for s k f
    using fio_index_present [OF that(1) _ that(2)] fio_index_absent [OF that(1)] by blast
qed (fact fio_erase_refines fio_view_distinct)+

section \<open>Properties\<close>

definition fio_empty :: "'f jmap" where
  "fio_empty = map_put FIO_VAL (JObject []) (map_put FIO_KEY (JObject []) [])"

lemma fio_part_empty [simp]: "fio_part fio_empty p = []"
  by (simp add: fio_empty_def fio_part_def slot_def map_of_put ObjectRange_def)

lemma fio_view_empty [simp]: "fio_view fio_empty = []"
  by (simp add: fio_view_def)

lemma fio_inv_empty: "fio_inv fio_empty"
  unfolding fio_empty_def by (rule fio_inv_put) simp_all

lemma Make_FIOObject_eq: "Make_FIOObject = JFIO fio_empty"
  by (simp add: Make_FIOObject_def Make_def SetType_def fio_empty_def)

lemma set_key_JFIO: "set_key (JFIO m) k v = rbind (fio_index m k (\<lambda>_. v)) (\<lambda>m'. Inr (JFIO m'))"
  by (simp add: set_key_def index_key_def)

lemma put_all_set_key:
  "foldl (\<lambda>r (k, v). rbind r (\<lambda>j. set_key j k v)) (Inr (JFIO m)) kvs
   = rbind (fio.put_all m kvs) (\<lambda>m'. Inr (JFIO m'))"
proof (induction kvs arbitrary: m)
  case (Cons kv kvs)
  have e: "foldl (\<lambda>r (k, v). rbind r (\<lambda>j. set_key j k v)) (Inl x) kvs = Inl x" for x
    by (induction kvs) auto
  show ?case
    by (cases kv; cases "fio_index m (fst kv) (\<lambda>_. snd kv)")
      (simp_all add: set_key_JFIO Cons.IH e)
qed simp

text \<open>
  C8. Each access \<open>object[key]\<close> to an ordered object with a key that needs no escaping succeeds,
  keeps the representation invariant and acts on the entries like the abstract
  insertion-ordered dictionary: a present key is updated in place, a new key goes to the end.
\<close>

theorem index_key_refines_upsert:
  assumes "fio_inv m" and "plain key"
  shows "\<exists>m'. index_key (JFIO m) key f = Inr (JFIO m') \<and> fio_inv m'
              \<and> fio_view m' = upsert key f JNull (fio_view m)"
  using fio.update_refines [OF assms, of f] by (auto simp: index_key_def)

definition fio_example :: "int jmap" where
  "fio_example = [(FIO_KEY, JObject [(''a'', JString ''1-a''), (''b'', JString ''0-b'')]),
                  (FIO_VAL, JObject [(''0-b'', JIntegral 7), (''1-a'', JIntegral 8)])]"

lemma fio_example_inv: "fio_inv fio_example"
  by code_simp

theorem index_key_refines_upsert_witness:
  "\<exists>m'. index_key (JFIO fio_example) ''a'' (\<lambda>_. JBoolean True) = Inr (JFIO m') \<and> fio_inv m'
        \<and> fio_view m' = upsert ''a'' (\<lambda>_. JBoolean True) JNull (fio_view fio_example)"
  by (rule index_key_refines_upsert [OF fio_example_inv]) (simp add: plain_char_def)

text \<open>
  \<open>erase(key)\<close> on an ordered object with a key that needs no escaping removes exactly that
  entry, keeps the order of the others and the invariant; \<open>hasKey\<close> is then false and \<open>size\<close>
  is the number of the remaining entries.
\<close>

theorem erase_key_refines_remove:
  assumes "fio_inv m" and "plain key"
  shows "\<exists>m'. erase_key (JFIO m) key = Inr (JFIO m') \<and> fio_inv m'
              \<and> fio_view m' = alist_remove key (fio_view m) \<and> \<not> hasKey (JFIO m') key"
proof -
  obtain m' where m': "fio_erase m key = Inr m'" "fio_inv m'"
      "fio_view m' = alist_remove key (fio_view m)"
    using fio.remove_refines [OF assms] by blast
  then have "\<not> hasKey (JFIO m') key"
    by (auto simp: hasKey_def fio_hasKey_view alist_remove_def)
  with m' show ?thesis by (simp add: erase_key_def)
qed

theorem erase_key_refines_remove_witness:
  "\<exists>m'. erase_key (JFIO fio_example) ''b'' = Inr (JFIO m') \<and> fio_inv m'
        \<and> fio_view m' = alist_remove ''b'' (fio_view fio_example) \<and> \<not> hasKey (JFIO m') ''b''"
  by (rule erase_key_refines_remove [OF fio_example_inv]) (simp add: plain_char_def)

text \<open>
  An ordered object is iterated in the order in which its keys were first inserted: storing
  values under distinct keys that need no escaping into a new \<open>FIOObject\<close> succeeds, and
  \<open>FIOObjectRange\<close> then yields those pairs in that order.
\<close>

theorem fio_iterates_in_insertion_order:
  assumes "distinct (map fst kvs)" and "list_all (\<lambda>(k, v). plain k) kvs"
  shows "\<exists>j. foldl (\<lambda>r (k, v). rbind r (\<lambda>j. set_key j k v)) (Inr Make_FIOObject) kvs = Inr j
             \<and> snd (FIOObjectRange j) = map (\<lambda>(k, v). JPair k v) kvs"
proof -
  obtain m' where m': "fio.put_all fio_empty kvs = Inr m'" "fio_view m' = kvs"
    using fio.put_all_in_order [OF fio_inv_empty assms(2)] assms(1) by auto
  have "snd (FIOObjectRange (JFIO m')) = map (\<lambda>(k, v). JPair k v) (fio_view m')"
    by (simp add: FIOObjectRange_def fio_range_def Let_def fio_view_def case_prod_beta)
  then show ?thesis
    unfolding Make_FIOObject_eq put_all_set_key m' by simp
qed

theorem fio_iterates_in_insertion_order_witness:
  "\<exists>j. foldl (\<lambda>r (k, v). rbind r (\<lambda>j. set_key j k v)) (Inr Make_FIOObject)
           [(''zz'', JIntegral 1), (''aa'', JBoolean True), (''mm'', JFloating (5::int))] = Inr j
       \<and> snd (FIOObjectRange j) = map (\<lambda>(k, v). JPair k v)
           [(''zz'', JIntegral 1), (''aa'', JBoolean True), (''mm'', JFloating 5)]"
  by (rule fio_iterates_in_insertion_order) (simp_all add: plain_char_def)

text \<open>
  A value stored in a new ordered object is read back under its key exactly when the key
  needs no escaping. For any other key the internal name is looked up in its escaped form, which
  is not the form it was stored under: \<open>hasKey\<close> finds the key and the access yields \<open>Null\<close>.
\<close>

theorem fio_read_after_write:
  "\<exists>j. set_key Make_FIOObject key v = Inr j \<and> hasKey j key
       \<and> key_value j key = Inr (if plain key then v else JNull)"
proof -
  let ?K = "[(key, JString (CHR ''0'' # FIO_SEPARATER # key))]"
  let ?V = "[(CHR ''0'' # FIO_SEPARATER # key, v)]"
  let ?m = "map_put FIO_VAL (JObject ?V) (map_put FIO_KEY (JObject ?K) fio_empty)"
  have set: "set_key Make_FIOObject key v = Inr (JFIO ?m)"
    unfolding Make_FIOObject_eq set_key_JFIO
    by (simp add: fio_index_def fio_rkey_def fio_hasKey_def slot_def Let_def)
  have p: "plain (CHR ''0'' # FIO_SEPARATER # key) \<longleftrightarrow> plain key"
    by (simp add: plain_separator) (simp add: plain_char_def)
  have "json_escape (CHR ''0'' # FIO_SEPARATER # key) = CHR ''0'' # FIO_SEPARATER # key \<longleftrightarrow> plain key"
    unfolding json_escape_eq_iff p by (rule refl)
  then have "key_value (JFIO ?m) key = Inr (if plain key then v else JNull)"
    by (auto simp: key_value_def fio_rkey_def fio_hasKey_def slot_def simp del: json_escape.simps)
  with set show ?thesis
    by (auto simp: hasKey_def fio_hasKey_def)
qed

end
