(* ===== verification/Json_Dump.thy ===== *)
theory Json_Dump
  imports Json_Object Crust_Status
begin

text \<open>
  Serialisation: \<open>JSON::dump\<close> (indented text in a \<open>std::string\<close>), \<open>JSON::dump_vector\<close> (compact
  text in a \<open>vector<uint8_t>\<close>, with a status the caller passes in) and their variants.

  The loops over the entries of an object and the elements of an array are functions of their own
  that take the recursive call as an argument. The operations on \<open>double\<close> are the record
  \<open>float_ops\<close>. Memory allocation succeeds, so \<open>Insert\<close> always reports \<open>CRUST_SUCCESS\<close>.
\<close>

section \<open>Definitions\<close>

record 'f float_ops =
  f_to_string :: "'f \<Rightarrow> string"
  f_stod :: "string \<Rightarrow> exn + 'f"
  f_of_long :: "int \<Rightarrow> 'f"
  f_pow10 :: "int \<Rightarrow> 'f"
  f_mult :: "'f \<Rightarrow> 'f \<Rightarrow> 'f"

text \<open>
  The loop that cuts the zeros off \<open>std::to_string(Internal.Float)\<close>: it looks for the last
  character that is not a zero, and keeps it unless it is the point. When every character is a
  zero the index ends at -1, which \<open>substr\<close> takes as the whole string.
\<close>

fun strip_zeros_index :: "string \<Rightarrow> nat \<Rightarrow> int" where
  "strip_zeros_index s 0 = - 1"
| "strip_zeros_index s (Suc i) =
     (if s ! i = CHR ''.'' then int i
      else if s ! i \<noteq> CHR ''0'' then int i + 1
      else strip_zeros_index s i)"

definition strip_zeros :: "string \<Rightarrow> string" where
  "strip_zeros s =
     (let i = strip_zeros_index s (length s);
          t = (if i < 0 then s else take (nat i) s)
      in if t = [] then ''0'' else t)"

text \<open>
  The key of an entry of an ordered object, from its internal name. An internal name without a
  separator, with nothing after it or with a tag that is no number is passed over (\<open>continue\<close>).
\<close>

definition fio_dump_name :: "string \<Rightarrow> string option" where
  "fio_dump_name key =
     (if FIO_SEPARATER \<in> set key \<and> length (rkey_tag key) + 1 < length key \<and> is_number (rkey_tag key)
      then Some (rkey_key key) else None)"

fun dump_members ::
  "('f json \<Rightarrow> string res) \<Rightarrow> (string \<Rightarrow> string option) \<Rightarrow> string \<Rightarrow> string \<Rightarrow> 'f jmap \<Rightarrow> string \<Rightarrow> bool
   \<Rightarrow> (string \<times> bool) res" where
  "dump_members d name sep pad [] s skip = Inr (s, skip)"
| "dump_members d name sep pad ((k, v) # es) s skip =
     (case name k of
        None \<Rightarrow> dump_members d name sep pad es s skip
      | Some key \<Rightarrow>
          rbind (d v) (\<lambda>t.
            dump_members d name sep pad es
              ((if skip then s else s @ sep) @ pad @ [QUOTE] @ key @ [QUOTE] @ '' : '' @ t) False))"

fun dump_elements :: "('f json \<Rightarrow> string res) \<Rightarrow> string \<Rightarrow> 'f json list \<Rightarrow> string \<Rightarrow> bool \<Rightarrow> string res" where
  "dump_elements d sep [] s skip = Inr s"
| "dump_elements d sep (x # xs) s skip =
     rbind (d x) (\<lambda>t. dump_elements d sep xs ((if skip then s else s @ sep) @ t) False)"

lemma dump_members_cong [fundef_cong]:
  assumes "es = es'" and "\<And>k v. (k, v) \<in> set es' \<Longrightarrow> d v = d' v"
  shows "dump_members d name sep pad es s skip = dump_members d' name sep pad es' s skip"
proof -
  have "dump_members d name sep pad es' s skip = dump_members d' name sep pad es' s skip"
    using assms(2)
  proof (induction es' arbitrary: s skip)
    case (Cons e es)
    have "dump_members d name sep pad es s skip = dump_members d' name sep pad es s skip" for s skip
      by (rule Cons.IH) (auto intro: Cons.prems)
    moreover have "d (snd e) = d' (snd e)" by (rule Cons.prems [of "fst e"]) simp
    ultimately show ?case by (cases e) (simp cong: option.case_cong)
  qed simp
  with assms(1) show ?thesis by simp
qed

lemma dump_elements_cong [fundef_cong]:
  assumes "xs = xs'" and "\<And>x. x \<in> set xs' \<Longrightarrow> d x = d' x"
  shows "dump_elements d sep xs s skip = dump_elements d' sep xs' s skip"
proof -
  have "dump_elements d sep xs' s skip = dump_elements d' sep xs' s skip"
    using assms(2) by (induction xs' arbitrary: s skip) simp_all
  with assms(1) show ?thesis by simp
qed

text \<open>The entries of an ordered object are smaller than the object.\<close>

lemma size_map_of: "map_of m k = Some v \<Longrightarrow> size v < size_list (size_prod (\<lambda>_. 0) size) m"
  by (induction m) (auto split: if_splits)

lemma size_entry: "(k, v) \<in> set m \<Longrightarrow> size v < size_list (size_prod (\<lambda>_. 0) size) m"
  by (induction m) auto

lemma size_element: "x \<in> set xs \<Longrightarrow> size x < size_list size xs"
  by (induction xs) auto

lemma size_fio_part:
  assumes "(k, v) \<in> set (fio_part m p)"
  shows "size v \<le> size_list (size_prod (\<lambda>_. 0) size) m"
proof -
  from assms obtain m' where m': "map_of m p = Some (JObject m')" "(k, v) \<in> set m'"
    by (auto simp: fio_part_def slot_def ObjectRange_def split: option.splits json.splits)
  from size_entry [OF m'(2)] have "size v < size (JObject m')" by simp
  with size_map_of [OF m'(1)] show ?thesis by linarith
qed

definition repeat_tab :: "int \<Rightarrow> string \<Rightarrow> string" where
  "repeat_tab depth tab = concat (replicate (nat depth) tab)"

definition quoted :: "string \<Rightarrow> string" where
  "quoted s = [QUOTE] @ s @ [QUOTE]"

function (sequential) dump :: "'f float_ops \<Rightarrow> int \<Rightarrow> string \<Rightarrow> bool \<Rightarrow> 'f json \<Rightarrow> string res" where
  "dump fo depth tab in_type JNull = Inr ''null''"
| "dump fo depth tab in_type (JObject m) =
     (let pad = repeat_tab depth tab in
      rbind (dump_members (dump fo (depth + 1) tab in_type) Some ('','' @ [LF]) pad m (''{'' @ [LF]) True)
        (\<lambda>(s, skip). Inr (if skip then ''{}'' else s @ [LF] @ drop 2 pad @ ''}'')))"
| "dump fo depth tab in_type (JFIO m) =
     (let pad = repeat_tab depth tab in
      rbind (dump_members (dump fo (depth + 1) tab in_type) fio_dump_name ('','' @ [LF]) pad
               (fio_part m FIO_VAL) (''{'' @ (if in_type then FIO_OBJ else []) @ [LF]) True)
        (\<lambda>(s, skip). Inr (if skip then ''{}'' else s @ [LF] @ drop 2 pad @ ''}'')))"
| "dump fo depth tab in_type (JFlat m) =
     rbind (dump_members (dump fo depth tab in_type) fio_dump_name '', '' []
              (fio_part m FIO_VAL) (''{'' @ (if in_type then FLAT_OBJ else []) @ '' '') True)
       (\<lambda>(s, skip). Inr (if skip then ''{}'' else s @ '' }''))"
| "dump fo depth tab in_type (JArray xs) =
     (let pad = repeat_tab depth tab in
      rbind (dump_elements (dump fo (depth + 1) tab in_type) ('', '' @ [LF] @ pad) xs
               (''['' @ [LF] @ pad) True)
        (\<lambda>s. Inr (s @ [LF] @ drop 2 pad @ '']'')))"
| "dump fo depth tab in_type (JHash bs) =
     rbind (json_hexstring bs hash_length True) (\<lambda>s. Inr (quoted (HASH_TAG @ s)))"
| "dump fo depth tab in_type (JBuffer bs) =
     rbind (json_hexstring bs (length bs) True) (\<lambda>s. Inr (quoted (BUFF_TAG @ s)))"
| "dump fo depth tab in_type (JString s) = Inr (quoted (json_escape s))"
| "dump fo depth tab in_type (JFloating f) = Inr (strip_zeros (f_to_string fo f))"
| "dump fo depth tab in_type (JIntegral n) = Inr (std_to_string n)"
| "dump fo depth tab in_type (JBoolean b) = Inr (if b then ''true'' else ''false'')"
| "dump fo depth tab in_type (JPair s j) = Inr []"
  by pat_completeness auto
termination
  by (relation "measure (\<lambda>(fo, depth, tab, in_type, j). size j)")
    (auto dest: size_fio_part size_entry size_element simp: less_Suc_eq_le intro: less_imp_le)

definition dump_in_type :: "'f float_ops \<Rightarrow> int \<Rightarrow> string \<Rightarrow> 'f json \<Rightarrow> string res" where
  "dump_in_type fo depth tab j = dump fo depth tab True j"

subsection \<open>Into a vector\<close>

definition bytes_of :: "string \<Rightarrow> byte list" where
  "bytes_of s = map byte_of_char s"

text \<open>
  \<open>Insert(v, s)\<close>: the new vector and the status it reports; the three overloads differ in the
  form of what is inserted. A pointer and a size read \<open>size\<close> bytes from the memory behind it.
\<close>

definition Insert :: "byte list \<Rightarrow> string \<Rightarrow> crust_status \<times> byte list" where
  "Insert v s = (CRUST_SUCCESS, v @ bytes_of s)"

definition Insert_vector :: "byte list \<Rightarrow> byte list \<Rightarrow> crust_status \<times> byte list" where
  "Insert_vector v s = (CRUST_SUCCESS, v @ s)"

definition Insert_bytes :: "byte list \<Rightarrow> byte list \<Rightarrow> nat \<Rightarrow> (crust_status \<times> byte list) res" where
  "Insert_bytes v data data_size =
     (if data_size \<le> length data then Inr (CRUST_SUCCESS, v @ take data_size data)
      else Inl (Undefined Read_out_of_bounds))"

text \<open>
  The loops return the status, the vector and \<open>True\<close> when they ran to the end, \<open>False\<close> when the
  status of a recursive call made the caller \<open>return v\<close>.
\<close>

fun dumpv_members ::
  "(crust_status \<Rightarrow> 'f json \<Rightarrow> (crust_status \<times> byte list) res) \<Rightarrow> (string \<Rightarrow> string option)
   \<Rightarrow> 'f jmap \<Rightarrow> crust_status \<Rightarrow> byte list \<Rightarrow> bool \<Rightarrow> (crust_status \<times> byte list \<times> bool) res" where
  "dumpv_members d name [] st v skip = Inr (st, v, True)"
| "dumpv_members d name ((k, x) # es) st v skip =
     (case name k of
        None \<Rightarrow> dumpv_members d name es st v skip
      | Some key \<Rightarrow>
          (let v0 = (if skip then v else v @ bytes_of '','');
               (st1, v1) = Insert v0 ([QUOTE] @ key @ [QUOTE] @ '':'')
           in rbind (d st1 x) (\<lambda>(st2, sv).
                if st2 \<noteq> CRUST_SUCCESS then Inr (st2, v1, False)
                else (let (st3, v2) = Insert_vector v1 sv in dumpv_members d name es st3 v2 False))))"

fun dumpv_elements ::
  "(crust_status \<Rightarrow> 'f json \<Rightarrow> (crust_status \<times> byte list) res)
   \<Rightarrow> 'f json list \<Rightarrow> crust_status \<Rightarrow> byte list \<Rightarrow> bool \<Rightarrow> (crust_status \<times> byte list \<times> bool) res" where
  "dumpv_elements d [] st v skip = Inr (st, v, True)"
| "dumpv_elements d (x # xs) st v skip =
     (let v1 = (if skip then v else v @ bytes_of '','')
      in rbind (d st x) (\<lambda>(st2, sv).
           if st2 \<noteq> CRUST_SUCCESS then Inr (st2, v1, False)
           else (let (st3, v2) = Insert_vector v1 sv in dumpv_elements d xs st3 v2 False)))"

lemma dumpv_members_cong [fundef_cong]:
  assumes "es = es'" and "\<And>st k x. (k, x) \<in> set es' \<Longrightarrow> d st x = d' st x"
  shows "dumpv_members d name es st v skip = dumpv_members d' name es' st v skip"
proof -
  have "dumpv_members d name es' st v skip = dumpv_members d' name es' st v skip"
    using assms(2)
  proof (induction es' arbitrary: st v skip)
    case (Cons e es)
    have "dumpv_members d name es st v skip = dumpv_members d' name es st v skip" for st v skip
      by (rule Cons.IH) (auto intro: Cons.prems)
    moreover have "d st (snd e) = d' st (snd e)" for st by (rule Cons.prems [of "fst e"]) simp
    ultimately show ?case by (cases e) (simp add: Let_def split_def cong: if_cong split: option.split)
  qed simp
  with assms(1) show ?thesis by simp
qed

lemma dumpv_elements_cong [fundef_cong]:
  assumes "xs = xs'" and "\<And>st x. x \<in> set xs' \<Longrightarrow> d st x = d' st x"
  shows "dumpv_elements d xs st v skip = dumpv_elements d' xs' st v skip"
proof -
  have "dumpv_elements d xs' st v skip = dumpv_elements d' xs' st v skip"
    using assms(2) by (induction xs' arbitrary: st v skip) (simp_all add: Let_def split_def cong: if_cong)
  with assms(1) show ?thesis by simp
qed

definition dumpv_close :: "char \<Rightarrow> crust_status \<times> byte list \<times> bool \<Rightarrow> crust_status \<times> byte list" where
  "dumpv_close c = (\<lambda>(st, v, ended). (st, if ended then v @ bytes_of [c] else v))"

function (sequential) dump_vector ::
  "'f float_ops \<Rightarrow> bool \<Rightarrow> crust_status \<Rightarrow> 'f json \<Rightarrow> (crust_status \<times> byte list) res" where
  "dump_vector fo in_type st JNull = Inr (Insert [] ''null'')"
| "dump_vector fo in_type st (JObject m) =
     rbind (dumpv_members (dump_vector fo in_type) Some m st (bytes_of ''{'') True)
       (\<lambda>r. Inr (dumpv_close CHR ''}'' r))"
| "dump_vector fo in_type st (JFlat m) =
     rbind (dumpv_members (dump_vector fo in_type) fio_dump_name (fio_part m FIO_VAL) st
              (if in_type then snd (Insert (bytes_of ''{'') FLAT_OBJ) else bytes_of ''{'') True)
       (\<lambda>r. Inr (dumpv_close CHR ''}'' r))"
| "dump_vector fo in_type st (JFIO m) =
     rbind (dumpv_members (dump_vector fo in_type) fio_dump_name (fio_part m FIO_VAL) st
              (if in_type then snd (Insert (bytes_of ''{'') FIO_OBJ) else bytes_of ''{'') True)
       (\<lambda>r. Inr (dumpv_close CHR ''}'' r))"
| "dump_vector fo in_type st (JArray xs) =
     rbind (dumpv_elements (dump_vector fo in_type) xs st (bytes_of ''['') True)
       (\<lambda>r. Inr (dumpv_close CHR '']'' r))"
| "dump_vector fo in_type st (JHash bs) =
     rbind (json_hexstring bs hash_length True) (\<lambda>s. Inr (Insert [] (quoted (HASH_TAG @ s))))"
| "dump_vector fo in_type st (JBuffer bs) =
     rbind (json_hexstring bs (length bs) True) (\<lambda>s. Inr (Insert [] (quoted (BUFF_TAG @ s))))"
| "dump_vector fo in_type st (JString s) = Inr (Insert [] (quoted (json_escape s)))"
| "dump_vector fo in_type st (JFloating f) = Inr (Insert [] (strip_zeros (f_to_string fo f)))"
| "dump_vector fo in_type st (JIntegral n) = Inr (Insert [] (std_to_string n))"
| "dump_vector fo in_type st (JBoolean b) = Inr (Insert [] (if b then ''true'' else ''false''))"
| "dump_vector fo in_type st (JPair s j) = Inr (st, [])"
  by pat_completeness auto
termination
  by (relation "measure (\<lambda>(fo, in_type, st, j). size j)")
    (auto dest: size_fio_part size_entry size_element simp: less_Suc_eq_le intro: less_imp_le)

definition dump_vector_in_type ::
  "'f float_ops \<Rightarrow> crust_status \<Rightarrow> 'f json \<Rightarrow> (crust_status \<times> byte list) res" where
  "dump_vector_in_type fo st j = dump_vector fo True st j"

definition dump_vector_unsafe :: "'f float_ops \<Rightarrow> 'f json \<Rightarrow> byte list res" where
  "dump_vector_unsafe fo j = rbind (dump_vector fo False CRUST_SUCCESS j) (\<lambda>(st, v). Inr v)"

definition dump_vector_unsafe_in_type :: "'f float_ops \<Rightarrow> 'f json \<Rightarrow> byte list res" where
  "dump_vector_unsafe_in_type fo j = rbind (dump_vector fo True CRUST_SUCCESS j) (\<lambda>(st, v). Inr v)"

end
