(* ===== verification/Json_Parse.thy ===== *)
theory Json_Parse
  imports Json_Dump
begin

text \<open>
  The recursive-descent parser of \<open>Json.h\<close>: \<open>parse_next\<close> and the functions it dispatches to,
  \<open>JSON::Load\<close> and \<open>JSON::Load_unsafe\<close>.

  Every function exists twice in the source, for a \<open>const string &\<close> and for a
  \<open>const uint8_t *\<close>. The two differ only in what lies behind the last character: the datatype
  \<open>source\<close> says which overload is meant and \<open>src_mem\<close> which characters may be read, the bytes
  of a string being followed by one NUL. The functions named \<open>_raw\<close> are the second overloads.
  A read past that memory is the value \<open>Undefined Read_out_of_bounds\<close>.

  \<open>memcmp\<close> compares byte by byte and is charged only for the bytes up to the first difference.

  A position is an index into that memory. The loops over characters are recursions on the rest
  of the memory; the loops over the elements of an array and the members of an object take a
  bound on the number of iterations and the function that parses one value, and \<open>parse_next\<close>
  takes a bound on the nesting. \<open>Json_Parse_Laws\<close> proves that the bounds \<open>Load\<close> uses are
  never reached.
\<close>

section \<open>Sources\<close>

datatype source = StdString string | RawBuffer "byte list"

definition text_of :: "byte list \<Rightarrow> string" where
  "text_of bs = map char_of_byte bs"

fun src_mem :: "source \<Rightarrow> string" where
  "src_mem (StdString str) = str @ [NUL]"
| "src_mem (RawBuffer p_data) = text_of p_data"

definition src_at :: "source \<Rightarrow> nat \<Rightarrow> char res" where
  "src_at src offset =
     (if offset < length (src_mem src) then Inr (src_mem src ! offset)
      else Inl (Undefined Read_out_of_bounds))"

fun mem_eq :: "string \<Rightarrow> string \<Rightarrow> bool res" where
  "mem_eq mem [] = Inr True"
| "mem_eq [] (p # pat) = Inl (Undefined Read_out_of_bounds)"
| "mem_eq (c # mem) (p # pat) = (if c = p then mem_eq mem pat else Inr False)"

type_synonym 'f parsed = "('f json \<times> crust_status \<times> nat) res"
type_synonym 'f value_parser = "crust_status \<Rightarrow> nat \<Rightarrow> 'f parsed"

section \<open>White space, strings, numbers, literals\<close>

fun ws_loop :: "string \<Rightarrow> nat \<Rightarrow> nat res" where
  "ws_loop [] offset = Inl (Undefined Read_out_of_bounds)"
| "ws_loop (c # mem) offset = (if is_space c then ws_loop mem (offset + 1) else Inr offset)"

definition consume_ws :: "source \<Rightarrow> nat \<Rightarrow> nat res" where
  "consume_ws src offset = ws_loop (drop offset (src_mem src)) offset"

definition is_hex_char :: "char \<Rightarrow> bool" where
  "is_hex_char c \<longleftrightarrow>
     (CHR ''0'' \<le> c \<and> c \<le> CHR ''9'') \<or> (CHR ''a'' \<le> c \<and> c \<le> CHR ''f'')
     \<or> (CHR ''A'' \<le> c \<and> c \<le> CHR ''F'')"

definition unescape_char :: "char \<Rightarrow> string" where
  "unescape_char c =
     (if c = QUOTE then [QUOTE]
      else if c = BACKSLASH then [BACKSLASH]
      else if c = CHR ''/'' then ''/''
      else if c = CHR ''b'' then [CHR 0x08]
      else if c = CHR ''f'' then [CHR 0x0C]
      else if c = CHR ''n'' then [LF]
      else if c = CHR ''r'' then [CR]
      else if c = CHR ''t'' then [TAB]
      else [BACKSLASH])"

text \<open>The four characters after \<open>\u\<close>: \<open>None\<close> when one of them is no hexadecimal digit.\<close>

fun unicode_loop :: "nat \<Rightarrow> string \<Rightarrow> string \<Rightarrow> string option res" where
  "unicode_loop 0 mem val = Inr (Some val)"
| "unicode_loop (Suc n) [] val = Inl (Undefined Read_out_of_bounds)"
| "unicode_loop (Suc n) (c # mem) val =
     (if is_hex_char c then unicode_loop n mem (val @ [c]) else Inr None)"

text \<open>
  The loop of \<open>parse_string\<close>; \<open>offset\<close> is the index of the next character. The result is the
  text and the offset behind the closing quote, or \<open>None\<close> and the offset at the error return.
\<close>

fun string_loop :: "string \<Rightarrow> nat \<Rightarrow> string \<Rightarrow> (string option \<times> nat) res" where
  "string_loop [] offset val = Inl (Undefined Read_out_of_bounds)"
| "string_loop (c # mem) offset val =
     (if c = QUOTE then Inr (Some val, offset + 1)
      else if c = BACKSLASH then
        (case mem of
           [] \<Rightarrow> Inl (Undefined Read_out_of_bounds)
         | e # mem' \<Rightarrow>
             if e = CHR ''u'' then
               rbind (unicode_loop 4 mem' (val @ [BACKSLASH, CHR ''u''])) (\<lambda>r.
                 case r of
                   None \<Rightarrow> Inr (None, offset + 1)
                 | Some val' \<Rightarrow> string_loop (drop 4 mem') (offset + 6) val')
             else string_loop mem' (offset + 2) (val @ unescape_char e))
      else string_loop mem (offset + 1) (val @ [c]))"

text \<open>What the text between the quotes stands for: a hash, a buffer or itself.\<close>

definition string_value :: "string \<Rightarrow> 'f::zero json res" where
  "string_value val =
     (let mem = c_str val in
      rbind (mem_eq mem HASH_TAG) (\<lambda>hash.
        if hash then
          rbind (json_hexstring_to_bytes (drop (length HASH_TAG) mem) (length val - length HASH_TAG))
            (\<lambda>p_hash. case p_hash of Some bs \<Rightarrow> assign_bytes bs | None \<Rightarrow> Inr (assign_string val))
        else
          rbind (mem_eq mem BUFF_TAG) (\<lambda>buff.
            if buff then
              rbind (json_hexstring_to_bytes (drop (length BUFF_TAG) mem) (length val - length BUFF_TAG))
                (\<lambda>p_hash. AppendBuffer JNull p_hash ((length val - length BUFF_TAG) div 2))
            else Inr (assign_string val))))"

definition parse_string :: "source \<Rightarrow> crust_status \<Rightarrow> nat \<Rightarrow> 'f::zero parsed" where
  "parse_string src status offset =
     rbind (string_loop (drop (offset + 1) (src_mem src)) (offset + 1) []) (\<lambda>(r, offset).
       case r of
         None \<Rightarrow> Inr (Make Class_String, Json_error CRUST_JSON_STRING_ERROR, offset)
       | Some val \<Rightarrow> rbind (string_value val) (\<lambda>ans. Inr (ans, status, offset)))"

definition ends_number :: "char \<Rightarrow> bool" where
  "ends_number c \<longleftrightarrow> is_space c \<or> c = CHR '','' \<or> c = CHR '']'' \<or> c = CHR ''}''"

text \<open>\<open>val\<close>, \<open>isDouble\<close>, the character that ends the loop and the offset behind it.\<close>

fun number_loop :: "string \<Rightarrow> nat \<Rightarrow> string \<Rightarrow> bool \<Rightarrow> (string \<times> bool \<times> char \<times> nat) res" where
  "number_loop [] offset val isDouble = Inl (Undefined Read_out_of_bounds)"
| "number_loop (c # mem) offset val isDouble =
     (if c = CHR ''-'' \<or> is_digit c then number_loop mem (offset + 1) (val @ [c]) isDouble
      else if c = CHR ''.'' then number_loop mem (offset + 1) (val @ [c]) True
      else Inr (val, isDouble, c, offset + 1))"

fun exponent_loop :: "string \<Rightarrow> nat \<Rightarrow> string \<Rightarrow> (string option \<times> nat) res" where
  "exponent_loop [] offset exp_str = Inl (Undefined Read_out_of_bounds)"
| "exponent_loop (c # mem) offset exp_str =
     (if is_digit c then exponent_loop mem (offset + 1) (exp_str @ [c])
      else if \<not> ends_number c then Inr (None, offset + 1)
      else Inr (Some exp_str, offset + 1))"

definition number_value ::
  "'f float_ops \<Rightarrow> string \<Rightarrow> bool \<Rightarrow> string \<Rightarrow> int \<Rightarrow> 'f json res" where
  "number_value fo val isDouble exp_str exp =
     (if isDouble then
        (case f_stod fo val of
           Inl e \<Rightarrow> Inl (Throws e)
         | Inr d \<Rightarrow> Inr (assign_float (f_mult fo d (f_pow10 fo exp))))
      else if exp_str \<noteq> [] then
        rbind (std_stol val) (\<lambda>n. Inr (assign_float (f_mult fo (f_of_long fo n) (f_pow10 fo exp))))
      else rbind (std_stol val) (\<lambda>n. Inr (assign_int n)))"

definition parse_number :: "'f float_ops \<Rightarrow> source \<Rightarrow> crust_status \<Rightarrow> nat \<Rightarrow> 'f::zero parsed" where
  "parse_number fo src status offset =
     rbind (number_loop (drop offset (src_mem src)) offset [] False) (\<lambda>(val, isDouble, c, offset).
       if c = CHR ''E'' \<or> c = CHR ''e'' then
         rbind (src_at src offset) (\<lambda>c.
           let (offset, exp_str) = (if c = CHR ''-'' then (offset + 2, ''-'') else (offset + 1, []))
           in rbind (exponent_loop (drop offset (src_mem src)) offset exp_str) (\<lambda>(r, offset).
                case r of
                  None \<Rightarrow> Inr (Make Class_Null, Json_error CRUST_JSON_NUMBER_ERROR, offset)
                | Some exp_str \<Rightarrow>
                    rbind (std_stol exp_str) (\<lambda>exp.
                      rbind (number_value fo val isDouble exp_str exp) (\<lambda>Number.
                        Inr (Number, status, offset - 1)))))
       else if \<not> ends_number c then
         Inr (Make Class_Null, Json_error CRUST_JSON_NUMBER_ERROR, offset)
       else
         rbind (number_value fo val isDouble [] 0) (\<lambda>Number. Inr (Number, status, offset - 1)))"

text \<open>\<open>true\<close>, \<open>false\<close> and \<open>null\<close>: by \<open>substr\<close> on a string, by \<open>memcmp\<close> on a pointer.\<close>

definition src_has :: "source \<Rightarrow> nat \<Rightarrow> string \<Rightarrow> bool res" where
  "src_has src offset word =
     (case src of
        StdString str \<Rightarrow>
          if length str < offset then Inl (Throws Std_out_of_range)
          else Inr (take (length word) (drop offset str) = word)
      | RawBuffer p_data \<Rightarrow> mem_eq (drop offset (text_of p_data)) word)"

definition parse_bool :: "source \<Rightarrow> crust_status \<Rightarrow> nat \<Rightarrow> 'f::zero parsed" where
  "parse_bool src status offset =
     rbind (src_has src offset ''true'') (\<lambda>is_true.
       if is_true then Inr (assign_bool True, status, offset + 4)
       else rbind (src_has src offset ''false'') (\<lambda>is_false.
         if is_false then Inr (assign_bool False, status, offset + 5)
         else Inr (Make Class_Null, Json_error CRUST_JSON_BOOL_ERROR, offset)))"

definition parse_null :: "source \<Rightarrow> crust_status \<Rightarrow> nat \<Rightarrow> 'f::zero parsed" where
  "parse_null src status offset =
     rbind (src_has src offset ''null'') (\<lambda>is_null.
       if \<not> is_null then Inr (Make Class_Null, Json_error CRUST_JSON_NULL_ERROR, offset)
       else Inr (JNull, status, offset + 4))"

section \<open>Arrays and objects\<close>

fun array_loop ::
  "'f value_parser \<Rightarrow> source \<Rightarrow> nat \<Rightarrow> 'f::zero json \<Rightarrow> nat \<Rightarrow> crust_status \<Rightarrow> nat \<Rightarrow> 'f parsed" where
  "array_loop next_value src 0 arr index status offset = Inl Out_of_fuel"
| "array_loop next_value src (Suc n) arr index status offset =
     rbind (next_value status offset) (\<lambda>(v, status, offset).
       let arr = index_at arr index (\<lambda>_. v) in
       rbind (consume_ws src offset) (\<lambda>offset.
         rbind (src_at src offset) (\<lambda>c.
           if c = CHR '','' then array_loop next_value src n arr (index + 1) status (offset + 1)
           else if c = CHR '']'' then Inr (arr, status, offset + 1)
           else Inr (Make Class_Array, Json_error CRUST_JSON_ARRAY_ERROR, offset))))"

definition parse_array ::
  "'f value_parser \<Rightarrow> source \<Rightarrow> nat \<Rightarrow> crust_status \<Rightarrow> nat \<Rightarrow> 'f::zero parsed" where
  "parse_array next_value src n status offset =
     rbind (consume_ws src (offset + 1)) (\<lambda>offset.
       rbind (src_at src offset) (\<lambda>c.
         if c = CHR '']'' then Inr (Make Class_Array, status, offset + 1)
         else array_loop next_value src n (Make Class_Array) 0 status offset))"

fun object_loop ::
  "'f value_parser \<Rightarrow> source \<Rightarrow> nat \<Rightarrow> 'f::zero json \<Rightarrow> crust_status \<Rightarrow> nat \<Rightarrow> 'f parsed" where
  "object_loop next_value src 0 obj status offset = Inl Out_of_fuel"
| "object_loop next_value src (Suc n) obj status offset =
     rbind (next_value status offset) (\<lambda>(Key, status, offset).
       rbind (consume_ws src offset) (\<lambda>offset.
         rbind (src_at src offset) (\<lambda>c.
           if c \<noteq> CHR '':'' then Inr (obj, Json_error CRUST_JSON_OBJECT_ERROR, offset)
           else
             rbind (consume_ws src (offset + 1)) (\<lambda>offset.
               rbind (next_value status offset) (\<lambda>(Value, status, offset).
                 rbind (ToString Key) (\<lambda>key.
                   rbind (set_key obj key (json_copy Value)) (\<lambda>obj.
                     rbind (consume_ws src offset) (\<lambda>offset.
                       rbind (src_at src offset) (\<lambda>c.
                         if c = CHR '','' then object_loop next_value src n obj status (offset + 1)
                         else if c = CHR ''}'' then Inr (obj, status, offset + 1)
                         else Inr (obj, Json_error CRUST_JSON_OBJECT_ERROR, offset))))))))))"

definition parse_object ::
  "'f value_parser \<Rightarrow> source \<Rightarrow> nat \<Rightarrow> crust_status \<Rightarrow> nat \<Rightarrow> 'f::zero parsed" where
  "parse_object next_value src n status offset =
     (let offset = offset + 1 in
      rbind (mem_eq (drop offset (src_mem src)) FIO_OBJ) (\<lambda>fio.
        rbind (if fio then Inr (Make Class_FIOObject, offset + length FIO_OBJ)
               else rbind (mem_eq (drop offset (src_mem src)) FLAT_OBJ) (\<lambda>flat.
                 if flat then Inr (Make Class_FlatObject, offset + length FLAT_OBJ)
                 else Inr (Make Class_Object, offset)))
          (\<lambda>(obj, offset).
            rbind (consume_ws src offset) (\<lambda>offset.
              rbind (src_at src offset) (\<lambda>c.
                if c = CHR ''}'' then Inr (obj, status, offset + 1)
                else object_loop next_value src n obj status offset)))))"

section \<open>Values and whole texts\<close>

fun parse_next :: "'f float_ops \<Rightarrow> source \<Rightarrow> nat \<Rightarrow> 'f::zero value_parser" where
  "parse_next fo src 0 status offset = Inl Out_of_fuel"
| "parse_next fo src (Suc n) status offset =
     rbind (consume_ws src offset) (\<lambda>offset.
       rbind (src_at src offset) (\<lambda>c.
         if c = CHR ''['' then
           parse_array (parse_next fo src n) src (length (src_mem src) + 1) status offset
         else if c = CHR ''{'' then
           parse_object (parse_next fo src n) src (length (src_mem src) + 1) status offset
         else if c = QUOTE then parse_string src status offset
         else if c = CHR ''t'' \<or> c = CHR ''f'' then parse_bool src status offset
         else if c = CHR ''n'' then parse_null src status offset
         else if is_digit c \<or> c = CHR ''-'' then parse_number fo src status offset
         else Inr (JNull, Json_error CRUST_JSON_STARTING_ERROR, offset)))"

definition parse_text :: "'f float_ops \<Rightarrow> source \<Rightarrow> crust_status \<Rightarrow> ('f::zero json \<times> crust_status) res" where
  "parse_text fo src status =
     rbind (parse_next fo src (length (src_mem src) + 1) status 0)
       (\<lambda>(j, status, offset). Inr (j, status))"

definition Load :: "'f float_ops \<Rightarrow> crust_status \<Rightarrow> string \<Rightarrow> ('f::zero json \<times> crust_status) res" where
  "Load fo status str =
     (if length str = 0 then Inr (JNull, status) else parse_text fo (StdString str) status)"

text \<open>The memory behind \<open>p_data\<close> may be longer than the size that is passed along.\<close>

definition Load_raw ::
  "'f float_ops \<Rightarrow> crust_status \<Rightarrow> byte list \<Rightarrow> nat \<Rightarrow> ('f::zero json \<times> crust_status) res" where
  "Load_raw fo status p_data data_size =
     (if data_size = 0 then Inr (JNull, status) else parse_text fo (RawBuffer p_data) status)"

definition Load_unsafe :: "'f float_ops \<Rightarrow> string \<Rightarrow> 'f::zero json res" where
  "Load_unsafe fo str = rbind (Load fo CRUST_SUCCESS str) (\<lambda>(j, status). Inr j)"

definition Load_unsafe_raw :: "'f float_ops \<Rightarrow> byte list \<Rightarrow> nat \<Rightarrow> 'f::zero json res" where
  "Load_unsafe_raw fo p_data data_size =
     rbind (Load_raw fo CRUST_SUCCESS p_data data_size) (\<lambda>(j, status). Inr j)"

section \<open>The overloads for pointers\<close>

definition consume_ws_raw :: "byte list \<Rightarrow> nat \<Rightarrow> nat res" where
  "consume_ws_raw p_data offset = consume_ws (RawBuffer p_data) offset"

definition parse_string_raw :: "byte list \<Rightarrow> crust_status \<Rightarrow> nat \<Rightarrow> 'f::zero parsed" where
  "parse_string_raw p_data status offset = parse_string (RawBuffer p_data) status offset"

definition parse_number_raw :: "'f float_ops \<Rightarrow> byte list \<Rightarrow> crust_status \<Rightarrow> nat \<Rightarrow> 'f::zero parsed" where
  "parse_number_raw fo p_data status offset = parse_number fo (RawBuffer p_data) status offset"

definition parse_bool_raw :: "byte list \<Rightarrow> crust_status \<Rightarrow> nat \<Rightarrow> 'f::zero parsed" where
  "parse_bool_raw p_data status offset = parse_bool (RawBuffer p_data) status offset"

definition parse_null_raw :: "byte list \<Rightarrow> crust_status \<Rightarrow> nat \<Rightarrow> 'f::zero parsed" where
  "parse_null_raw p_data status offset = parse_null (RawBuffer p_data) status offset"

definition parse_array_raw ::
  "'f value_parser \<Rightarrow> byte list \<Rightarrow> nat \<Rightarrow> crust_status \<Rightarrow> nat \<Rightarrow> 'f::zero parsed" where
  "parse_array_raw next_value p_data n status offset =
     parse_array next_value (RawBuffer p_data) n status offset"

definition parse_object_raw ::
  "'f value_parser \<Rightarrow> byte list \<Rightarrow> nat \<Rightarrow> crust_status \<Rightarrow> nat \<Rightarrow> 'f::zero parsed" where
  "parse_object_raw next_value p_data n status offset =
     parse_object next_value (RawBuffer p_data) n status offset"

definition parse_next_raw :: "'f float_ops \<Rightarrow> byte list \<Rightarrow> nat \<Rightarrow> 'f::zero value_parser" where
  "parse_next_raw fo p_data n status offset = parse_next fo (RawBuffer p_data) n status offset"

end
