(* ===== verification/Json_Parse_Laws.thy ===== *)
theory Json_Parse_Laws
  imports Json_Parse
begin

text \<open>
  What every call of the parser promises, whatever the text: it does not run out of the bound on
  iterations and nesting, so it always ends; the offset it leaves behind is not before the one it
  was given and not behind the end of the readable memory; the status it leaves behind is the one
  it was given or one of the JSON errors, so an error is never overwritten by a success.

  The locale \<open>value_parser_laws\<close> states this for the function that parses one value, which is
  what the loops over elements and members rely on; it is interpreted on \<open>parse_next\<close> at the
  bounds \<open>Load\<close> uses.
\<close>

section \<open>The contract\<close>

definition outcome_ok :: "nat \<Rightarrow> crust_status \<Rightarrow> nat \<Rightarrow> 'f parsed \<Rightarrow> bool" where
  "outcome_ok len st off r =
     (case r of
        Inl e \<Rightarrow> e \<noteq> Out_of_fuel
      | Inr (v, st', off') \<Rightarrow> off \<le> off' \<and> off' \<le> len \<and> (st' = st \<or> (\<exists>e. st' = Json_error e)))"

definition no_fuel_error :: "'a res \<Rightarrow> bool" where
  "no_fuel_error r \<longleftrightarrow> r \<noteq> Inl Out_of_fuel"

lemma outcome_ok_Inr [simp]:
  "outcome_ok len st off (Inr (v, st', off')) \<longleftrightarrow>
     off \<le> off' \<and> off' \<le> len \<and> (st' = st \<or> (\<exists>e. st' = Json_error e))"
  by (simp add: outcome_ok_def)

lemma outcome_ok_Inl [simp]: "outcome_ok len st off (Inl e) \<longleftrightarrow> e \<noteq> Out_of_fuel"
  by (simp add: outcome_ok_def)

lemma no_fuel_simps [simp]: "no_fuel_error (Inr x)" "no_fuel_error (Inl e) \<longleftrightarrow> e \<noteq> Out_of_fuel"
  by (simp_all add: no_fuel_error_def)

lemma no_fuel_bind:
  "no_fuel_error m \<Longrightarrow> (\<And>x. m = Inr x \<Longrightarrow> no_fuel_error (f x)) \<Longrightarrow> no_fuel_error (rbind m f)"
  by (cases m) simp_all

lemma outcome_bind:
  "no_fuel_error m \<Longrightarrow> (\<And>x. m = Inr x \<Longrightarrow> outcome_ok len st off (f x))
   \<Longrightarrow> outcome_ok len st off (rbind m f)"
  by (cases m) simp_all

lemma outcome_call:
  assumes "outcome_ok len st off m"
    and "\<And>v st' off'. m = Inr (v, st', off') \<Longrightarrow> off \<le> off' \<Longrightarrow> off' \<le> len \<Longrightarrow>
           outcome_ok len st' off' (f (v, st', off'))"
  shows "outcome_ok len st off (rbind m f)"
proof (cases m)
  case (Inr x)
  obtain v st' off' where x: "x = (v, st', off')" by (cases x)
  from assms(1) Inr x have o: "off \<le> off'" "off' \<le> len" "st' = st \<or> (\<exists>e. st' = Json_error e)" by auto
  from assms(2) [of v st' off'] Inr x o have "outcome_ok len st' off' (f x)" by simp
  with o Inr show ?thesis by (auto simp: outcome_ok_def split: sum.splits)
qed (use assms(1) in simp)

lemma outcome_later:
  "outcome_ok len st off' r \<Longrightarrow> off \<le> off' \<Longrightarrow> outcome_ok len st off r"
  by (auto simp: outcome_ok_def split: sum.splits)

lemma outcome_error:
  "outcome_ok len (Json_error e) off r \<Longrightarrow> outcome_ok len st off r"
  by (auto simp: outcome_ok_def split: sum.splits)

abbreviation src_len :: "source \<Rightarrow> nat" where "src_len src \<equiv> length (src_mem src)"

section \<open>Character loops\<close>

lemma ws_loop_bounds: "ws_loop mem off = Inr off' \<Longrightarrow> off \<le> off' \<and> off' < off + length mem"
  by (induction mem off rule: ws_loop.induct) (auto split: if_splits)

lemma consume_ws_bounds:
  assumes "consume_ws src off = Inr off'"
  shows "off \<le> off'" and "off' < src_len src"
  using ws_loop_bounds [OF assms [unfolded consume_ws_def]] by (simp, simp del: add_diff_inverse_nat) arith

lemma no_fuel_ws [simp]: "no_fuel_error (consume_ws src off)"
proof -
  have "no_fuel_error (ws_loop mem off)" for mem
    by (induction mem off rule: ws_loop.induct) simp_all
  then show ?thesis by (simp add: consume_ws_def)
qed

lemma no_fuel_at [simp]: "no_fuel_error (src_at src off)"
  by (simp add: src_at_def)

lemma src_at_bound: "src_at src off = Inr c \<Longrightarrow> off < src_len src"
  by (simp add: src_at_def split: if_splits)

lemma no_fuel_mem_eq [simp]: "no_fuel_error (mem_eq mem pat)"
  by (induction mem pat rule: mem_eq.induct) simp_all

lemma mem_eq_length: "mem_eq mem pat = Inr True \<Longrightarrow> length pat \<le> length mem"
  by (induction mem pat rule: mem_eq.induct) (auto split: if_splits)

lemma no_fuel_unicode [simp]: "no_fuel_error (unicode_loop n mem val)"
  by (induction n mem val rule: unicode_loop.induct) simp_all

lemma unicode_loop_length: "unicode_loop n mem val = Inr (Some val') \<Longrightarrow> n \<le> length mem"
  by (induction n mem val rule: unicode_loop.induct) (auto split: if_splits)

lemma no_fuel_string_loop: "no_fuel_error (string_loop mem off val)"
proof (induction mem off val rule: string_loop.induct)
  case (2 c mem off val)
  then show ?case
    by (cases mem) (auto intro!: no_fuel_bind split: option.split)
qed simp

lemma string_loop_bounds:
  "string_loop mem off val = Inr (r, off') \<Longrightarrow> off \<le> off' \<and> off' \<le> off + length mem"
proof (induction mem off val rule: string_loop.induct)
  case (2 c mem off val)
  show ?case
  proof (cases "c = BACKSLASH \<and> mem \<noteq> [] \<and> hd mem = CHR ''u''")
    case True
    then obtain mem' where mem: "mem = CHR ''u'' # mem'" and c: "c = BACKSLASH"
      by (cases mem) auto
    from "2.prems" mem c consider "off' = off + 1"
      | val' where "unicode_loop 4 mem' (val @ [BACKSLASH, CHR ''u'']) = Inr (Some val')"
          "string_loop (drop 4 mem') (off + 6) val' = Inr (r, off')"
      by (auto simp: res_simps split: option.splits)
    then show ?thesis
    proof cases
      case 2
      have "off + 6 \<le> off' \<and> off' \<le> off + 6 + length (drop 4 mem')"
        by (rule "2.IH"(1) [OF _ c mem refl 2(1) refl 2(2)]) (simp add: c)
      with unicode_loop_length [OF 2(1)] mem show ?thesis by auto
    qed (simp add: mem)
  next
    case False
    with 2 show ?thesis by (cases mem) (auto split: if_splits)
  qed
qed simp

lemma no_fuel_number_loop [simp]: "no_fuel_error (number_loop mem off val d)"
  by (induction mem off val d rule: number_loop.induct) simp_all

lemma number_loop_bounds:
  "number_loop mem off val d = Inr (val', d', c, off') \<Longrightarrow> off < off' \<and> off' \<le> off + length mem"
  by (induction mem off val d rule: number_loop.induct) (auto split: if_splits)

lemma no_fuel_exponent_loop [simp]: "no_fuel_error (exponent_loop mem off e)"
  by (induction mem off e rule: exponent_loop.induct) simp_all

lemma exponent_loop_bounds:
  "exponent_loop mem off e = Inr (r, off') \<Longrightarrow> off < off' \<and> off' \<le> off + length mem"
  by (induction mem off e rule: exponent_loop.induct) (auto split: if_splits)

lemma no_fuel_stol [simp]: "no_fuel_error (std_stol s)"
  by (simp add: std_stol_def Let_def)

lemma no_fuel_number_value [simp]: "no_fuel_error (number_value fo val d e n)"
  by (auto simp: number_value_def intro!: no_fuel_bind split: sum.split)

lemma no_fuel_hex_decode [simp]: "no_fuel_error (json_hexstring_to_bytes s n)"
proof -
  have "no_fuel_error (json_hex_decode_loop s cap bs)" for cap bs
    by (induction s cap bs rule: json_hex_decode_loop.induct) simp_all
  then show ?thesis by (auto simp: json_hexstring_to_bytes_def intro!: no_fuel_bind)
qed

lemma no_fuel_string_value [simp]: "no_fuel_error (string_value val)"
  by (auto simp: string_value_def Let_def assign_bytes_def AppendBuffer_def
      intro!: no_fuel_bind split: option.split json.split)

section \<open>Leaves\<close>

lemma parse_string_ok:
  assumes "off < src_len src"
  shows "outcome_ok (src_len src) st off (parse_string src st off)"
  unfolding parse_string_def
proof (rule outcome_bind [OF no_fuel_string_loop])
  fix x assume x: "string_loop (drop (off + 1) (src_mem src)) (off + 1) [] = Inr x"
  obtain r off' where r: "x = (r, off')" by (cases x)
  from string_loop_bounds [OF x [unfolded r]] assms have "off \<le> off'" "off' \<le> src_len src" by auto
  then show "outcome_ok (src_len src) st off
      (case x of (r, offset) \<Rightarrow> case r of
         None \<Rightarrow> Inr (Make Class_String, Json_error CRUST_JSON_STRING_ERROR, offset)
       | Some val \<Rightarrow> rbind (string_value val) (\<lambda>ans. Inr (ans, st, offset)))"
    by (auto simp: r intro!: outcome_bind split: option.split)
qed

lemma parse_number_ok:
  assumes "off < src_len src"
  shows "outcome_ok (src_len src) st off (parse_number fo src st off)"
  unfolding parse_number_def
proof (rule outcome_bind [OF no_fuel_number_loop])
  fix x assume x: "number_loop (drop off (src_mem src)) off [] False = Inr x"
  obtain val d c o1 where r: "x = (val, d, c, o1)" by (cases x)
  from number_loop_bounds [OF x [unfolded r]] assms have o1: "off < o1" "o1 \<le> src_len src" by auto
  have exp: "off \<le> o3 \<and> off \<le> o3 - Suc 0 \<and> o3 \<le> src_len src \<and> o3 - Suc 0 \<le> src_len src"
    if "exponent_loop (drop o2 (src_mem src)) o2 e = Inr (r, o3)" "o1 \<le> o2" for o2 e r o3
  proof -
    have "drop o2 (src_mem src) \<noteq> []" using that(1) by (cases "drop o2 (src_mem src)") auto
    with exponent_loop_bounds [OF that(1)] that(2) o1 show ?thesis by auto
  qed
  show "outcome_ok (src_len src) st off
      (case x of (val, isDouble, c, offset) \<Rightarrow>
         if c = CHR ''E'' \<or> c = CHR ''e'' then
           rbind (src_at src offset) (\<lambda>c.
             let (offset, exp_str) = (if c = CHR ''-'' then (offset + 2, ''-'') else (offset + 1, []))
             in rbind (exponent_loop (drop offset (src_mem src)) offset exp_str) (\<lambda>(r, offset).
                  case r of
                    None \<Rightarrow> Inr (Make Class_Null, Json_error CRUST_JSON_NUMBER_ERROR, offset)
                  | Some exp_str \<Rightarrow>
                      rbind (std_stol exp_str) (\<lambda>exp.
                        rbind (number_value fo val isDouble exp_str exp) (\<lambda>Number.
                          Inr (Number, st, offset - 1)))))
         else if \<not> ends_number c then
           Inr (Make Class_Null, Json_error CRUST_JSON_NUMBER_ERROR, offset)
         else
           rbind (number_value fo val isDouble [] 0) (\<lambda>Number. Inr (Number, st, offset - 1)))"
    using o1 by (auto simp: r Let_def intro!: outcome_bind split: option.split dest!: exp)
qed

lemma no_fuel_src_has [simp]: "no_fuel_error (src_has src off w)"
  by (simp add: src_has_def split: source.split)

lemma src_has_length:
  assumes "src_has src off w = Inr True" and "off < src_len src"
  shows "off + length w \<le> src_len src"
proof (cases src)
  case (StdString str)
  then have "take (length w) (drop off str) = w"
    using assms(1) by (auto simp: src_has_def split: if_splits)
  then have "length w \<le> length str - off"
    by (metis length_drop length_take min.bounded_iff order_refl)
  with StdString assms show ?thesis by (auto simp: src_has_def split: if_splits)
next
  case (RawBuffer p_data)
  with assms mem_eq_length [of "drop off (text_of p_data)" w] show ?thesis
    by (simp add: src_has_def)
qed

lemma parse_bool_ok: "off < src_len src \<Longrightarrow> outcome_ok (src_len src) st off (parse_bool src st off)"
  using src_has_length [of src off "''true''"] src_has_length [of src off "''false''"]
  by (auto simp: parse_bool_def intro!: outcome_bind)

lemma parse_null_ok: "off < src_len src \<Longrightarrow> outcome_ok (src_len src) st off (parse_null src st off)"
  using src_has_length [of src off "''null''"]
  by (auto simp: parse_null_def intro!: outcome_bind)

section \<open>Loops\<close>

lemma no_fuel_ToString [simp]: "no_fuel_error (ToString j)"
  by (cases j) (auto simp: json_hexstring_eq hexstring_def hex_encode_loop_eq)

lemma no_fuel_set_key [simp]: "no_fuel_error (set_key obj key v)"
proof -
  have "no_fuel_error (fio_index m key f)" for m :: "'a jmap" and f
    by (auto simp: fio_index_def fio_rkey_def Let_def intro!: no_fuel_bind)
  then show ?thesis
    by (auto simp: set_key_def index_key_def intro!: no_fuel_bind split: json.split)
qed

locale value_parser_laws =
  fixes next_value :: "'f::zero value_parser" and src :: source and low :: nat
  assumes next_ok: "low \<le> off \<Longrightarrow> off \<le> src_len src \<Longrightarrow>
    outcome_ok (src_len src) st off (next_value st off)"
begin

lemma array_loop_ok:
  "low \<le> off \<Longrightarrow> off \<le> src_len src \<Longrightarrow> src_len src - off < n \<Longrightarrow>
   outcome_ok (src_len src) st off (array_loop next_value src n arr index st off)"
proof (induction n arbitrary: arr index st off)
  case (Suc n)
  show ?case
    unfolding array_loop.simps Let_def
  proof (rule outcome_call [OF next_ok [OF Suc.prems(1,2)]], simp only: prod.case, rule outcome_bind)
    fix v st1 o1 o2
    assume o1: "off \<le> o1" and o2: "consume_ws src o1 = Inr o2"
    note b = consume_ws_bounds [OF o2]
    have IH: "outcome_ok (src_len src) st1 o1 (array_loop next_value src n a i st1 (o2 + 1))" for a i
      by (rule outcome_later [where off' = "o2 + 1"], rule Suc.IH) (use b o1 Suc.prems in auto)
    from b IH show "outcome_ok (src_len src) st1 o1 (rbind (src_at src o2) (\<lambda>c.
        if c = CHR '','' then array_loop next_value src n (index_at arr index (\<lambda>_. v)) (index + 1) st1 (o2 + 1)
        else if c = CHR '']'' then Inr (index_at arr index (\<lambda>_. v), st1, o2 + 1)
        else Inr (Make Class_Array, Json_error CRUST_JSON_ARRAY_ERROR, o2)))"
      by (auto intro!: outcome_bind)
  qed simp
qed simp

lemma parse_array_ok:
  assumes "low \<le> off + 1" and "src_len src < n"
  shows "outcome_ok (src_len src) st off (parse_array next_value src n st off)"
  unfolding parse_array_def
proof (rule outcome_bind)
  fix o1 assume "consume_ws src (off + 1) = Inr o1"
  note b = consume_ws_bounds [OF this]
  have "outcome_ok (src_len src) st off (array_loop next_value src n a i st o1)" for a i
    by (rule outcome_later [where off' = o1], rule array_loop_ok) (use b assms in auto)
  with b show "outcome_ok (src_len src) st off (rbind (src_at src o1) (\<lambda>c.
      if c = CHR '']'' then Inr (Make Class_Array, st, o1 + 1)
      else array_loop next_value src n (Make Class_Array) 0 st o1))"
    by (auto intro!: outcome_bind)
qed simp

lemma object_loop_ok:
  "low \<le> off \<Longrightarrow> off \<le> src_len src \<Longrightarrow> src_len src - off < n \<Longrightarrow>
   outcome_ok (src_len src) st off (object_loop next_value src n obj st off)"
proof (induction n arbitrary: obj st off)
  case (Suc n)
  show ?case
    unfolding object_loop.simps
  proof (rule outcome_call [OF next_ok [OF Suc.prems(1,2)]], simp only: prod.case,
      rule outcome_bind, simp, rule outcome_bind, simp)
    fix Key st1 o1 o2 c1
    assume o1: "off \<le> o1" "o1 \<le> src_len src" and o2: "consume_ws src o1 = Inr o2"
    note b2 = consume_ws_bounds [OF o2]
    have rest: "outcome_ok (src_len src) st2 o4 (rbind (ToString Key) (\<lambda>key.
        rbind (set_key obj key (json_copy v)) (\<lambda>obj.
          rbind (consume_ws src o4) (\<lambda>offset.
            rbind (src_at src offset) (\<lambda>c.
              if c = CHR '','' then object_loop next_value src n obj st2 (offset + 1)
              else if c = CHR ''}'' then Inr (obj, st2, offset + 1)
              else Inr (obj, Json_error CRUST_JSON_OBJECT_ERROR, offset))))))"
      if "o2 < o4" "o4 \<le> src_len src" for v st2 o4
    proof -
      have "outcome_ok (src_len src) st2 o4 (object_loop next_value src n ob st2 (o5 + 1))"
        if "consume_ws src o4 = Inr o5" for ob o5
        by (rule outcome_later [where off' = "o5 + 1"], rule Suc.IH)
          (use consume_ws_bounds [OF that] \<open>o2 < o4\<close> o1 b2 Suc.prems in auto)
      moreover have "o4 \<le> o5 \<and> o5 < src_len src" if "consume_ws src o4 = Inr o5" for o5
        using consume_ws_bounds [OF that] by simp
      ultimately show ?thesis
        by (auto intro!: outcome_bind intro: less_imp_le le_SucI Suc_leI)
    qed
    have "outcome_ok (src_len src) st1 o1 (rbind (next_value st1 o3) (\<lambda>(Value, status, offset).
        rbind (ToString Key) (\<lambda>key. rbind (set_key obj key (json_copy Value)) (\<lambda>obj.
          rbind (consume_ws src offset) (\<lambda>offset.
            rbind (src_at src offset) (\<lambda>c.
              if c = CHR '','' then object_loop next_value src n obj status (offset + 1)
              else if c = CHR ''}'' then Inr (obj, status, offset + 1)
              else Inr (obj, Json_error CRUST_JSON_OBJECT_ERROR, offset)))))))"
      if "consume_ws src (o2 + 1) = Inr o3" for o3
    proof (rule outcome_later [where off' = o3])
      note b3 = consume_ws_bounds [OF that]
      show "o1 \<le> o3" using b2 b3 by simp
      show "outcome_ok (src_len src) st1 o3 (rbind (next_value st1 o3) (\<lambda>(Value, status, offset).
        rbind (ToString Key) (\<lambda>key. rbind (set_key obj key (json_copy Value)) (\<lambda>obj.
          rbind (consume_ws src offset) (\<lambda>offset.
            rbind (src_at src offset) (\<lambda>c.
              if c = CHR '','' then object_loop next_value src n obj status (offset + 1)
              else if c = CHR ''}'' then Inr (obj, status, offset + 1)
              else Inr (obj, Json_error CRUST_JSON_OBJECT_ERROR, offset)))))))"
        by (rule outcome_call [OF next_ok], use b2 b3 o1 Suc.prems in simp, use b3 in simp,
            simp only: prod.case, rule rest) (use b3 in auto)
    qed
    note tail = this
    show "outcome_ok (src_len src) st1 o1
        (if c1 \<noteq> CHR '':'' then Inr (obj, Json_error CRUST_JSON_OBJECT_ERROR, o2)
         else rbind (consume_ws src (o2 + 1)) (\<lambda>offset.
           rbind (next_value st1 offset) (\<lambda>(Value, status, offset).
             rbind (ToString Key) (\<lambda>key. rbind (set_key obj key (json_copy Value)) (\<lambda>obj.
               rbind (consume_ws src offset) (\<lambda>offset.
                 rbind (src_at src offset) (\<lambda>c.
                   if c = CHR '','' then object_loop next_value src n obj status (offset + 1)
                   else if c = CHR ''}'' then Inr (obj, status, offset + 1)
                   else Inr (obj, Json_error CRUST_JSON_OBJECT_ERROR, offset))))))))"
      using b2 outcome_bind [OF no_fuel_ws tail] by simp
  qed
qed simp

lemma parse_object_ok:
  assumes "low \<le> off + 1" and "src_len src < n"
  shows "outcome_ok (src_len src) st off (parse_object next_value src n st off)"
proof -
  have rest: "outcome_ok (src_len src) st off (rbind (consume_ws src o1) (\<lambda>offset.
      rbind (src_at src offset) (\<lambda>c.
        if c = CHR ''}'' then Inr (obj, st, offset + 1)
        else object_loop next_value src n obj st offset)))"
    if "off + 1 \<le> o1" for o1 obj
  proof (rule outcome_bind)
    fix o2 assume "consume_ws src o1 = Inr o2"
    note b = consume_ws_bounds [OF this]
    have "outcome_ok (src_len src) st off (object_loop next_value src n obj st o2)"
      by (rule outcome_later [where off' = o2], rule object_loop_ok) (use b that assms in auto)
    with b that show "outcome_ok (src_len src) st off (rbind (src_at src o2) (\<lambda>c.
        if c = CHR ''}'' then Inr (obj, st, o2 + 1)
        else object_loop next_value src n obj st o2))"
      by (auto intro!: outcome_bind)
  qed simp
  show ?thesis
    unfolding parse_object_def Let_def
    by (auto intro!: outcome_bind rest no_fuel_bind simp: res_simps split: if_splits)
qed

end

section \<open>The parser of one value\<close>

lemma parse_next_laws:
  "src_len src < n + low \<Longrightarrow> value_parser_laws (parse_next fo src n) src low"
proof (induction n arbitrary: low)
  case (Suc n)
  show ?case
  proof
    fix off st assume off: "low \<le> off" "off \<le> src_len src"
    show "outcome_ok (src_len src) st off (parse_next fo src (Suc n) st off)"
      unfolding parse_next.simps
    proof (rule outcome_bind)
      fix o1 assume "consume_ws src off = Inr o1"
      note b = consume_ws_bounds [OF this]
      have sub: "value_parser_laws (parse_next fo src n) src (o1 + 1)"
        by (rule Suc.IH) (use Suc.prems b off in simp)
      note leaf = outcome_later [OF _ b(1)]
      have "outcome_ok (src_len src) st off
              (parse_array (parse_next fo src n) src (src_len src + 1) st o1)"
        by (rule leaf) (rule value_parser_laws.parse_array_ok [OF sub], simp_all)
      moreover have "outcome_ok (src_len src) st off
              (parse_object (parse_next fo src n) src (src_len src + 1) st o1)"
        by (rule leaf) (rule value_parser_laws.parse_object_ok [OF sub], simp_all)
      ultimately show "outcome_ok (src_len src) st off (rbind (src_at src o1) (\<lambda>c.
         if c = CHR ''['' then parse_array (parse_next fo src n) src (src_len src + 1) st o1
         else if c = CHR ''{'' then parse_object (parse_next fo src n) src (src_len src + 1) st o1
         else if c = QUOTE then parse_string src st o1
         else if c = CHR ''t'' \<or> c = CHR ''f'' then parse_bool src st o1
         else if c = CHR ''n'' then parse_null src st o1
         else if is_digit c \<or> c = CHR ''-'' then parse_number fo src st o1
         else Inr (JNull, Json_error CRUST_JSON_STARTING_ERROR, o1)))"
        using b
        by (auto intro!: outcome_bind leaf [OF parse_string_ok] leaf [OF parse_number_ok]
            leaf [OF parse_bool_ok] leaf [OF parse_null_ok])
    qed simp
  qed
qed (unfold_locales, simp)

interpretation parser: value_parser_laws "parse_next fo src (src_len src + 1)" src 0 for fo src
  by (rule parse_next_laws) simp

section \<open>Properties\<close>

text \<open>
  C30. The parser always ends: the bounds on nesting and on the number of elements and members
  that \<open>Load\<close> passes are never reached, for either overload and whatever the text.
\<close>

theorem Load_ends: "parse_text fo src status \<noteq> Inl Out_of_fuel"
proof -
  have "outcome_ok (src_len src) status 0 (parse_next fo src (src_len src + 1) status 0)"
    by (rule parser.next_ok) simp_all
  then show ?thesis
    unfolding parse_text_def
    by (cases "parse_next fo src (src_len src + 1) status 0") (simp_all add: split_def)
qed

text \<open>
  C31. The parser stays inside its text: when a value has been parsed from an offset inside the
  memory, the offset left behind is not before it and at most the end of the memory, and the
  status is the one passed in or one of the JSON errors.
\<close>

theorem parse_next_stays_inside:
  assumes "offset \<le> length (src_mem src)"
    and "parse_next fo src (length (src_mem src) + 1) status offset = Inr (j, status', offset')"
  shows "offset \<le> offset' \<and> offset' \<le> length (src_mem src)
         \<and> (status' = status \<or> (\<exists>e. status' = Json_error e))"
  using parser.next_ok [OF _ assms(1), of status fo] assms(2) by simp

theorem parse_next_stays_inside_witness:
  "\<exists>j status' offset'. parse_next \<lparr>f_to_string = (\<lambda>_. []), f_stod = (\<lambda>_. Inr 0), f_of_long = id, f_pow10 = id, f_mult = (*)\<rparr>
        (StdString ''[12,[3]]'') (length (src_mem (StdString ''[12,[3]]'')) + 1) CRUST_SUCCESS 4 = Inr (j :: int json, status', offset')
    \<and> j = JArray [JIntegral 3] \<and> 4 \<le> offset' \<and> offset' \<le> length (src_mem (StdString ''[12,[3]]''))
    \<and> (status' = CRUST_SUCCESS \<or> (\<exists>e. status' = Json_error e))"
proof -
  let ?ops = "\<lparr>f_to_string = (\<lambda>_. []), f_stod = (\<lambda>_. Inr 0), f_of_long = id, f_pow10 = id, f_mult = (*)\<rparr> :: int float_ops"
  let ?src = "StdString ''[12,[3]]''"
  have p: "parse_next ?ops ?src (length (src_mem ?src) + 1) CRUST_SUCCESS 4 = Inr (JArray [JIntegral 3], CRUST_SUCCESS, 7)"
    by code_simp
  have "4 \<le> length (src_mem ?src)" by simp
  from parse_next_stays_inside [OF this p] p show ?thesis by blast
qed

end
