(* ===== verification/Json_Grammar.thy ===== *)
theory Json_Grammar
  imports Json_Parse_Laws
begin

text \<open>
  The texts the parser is meant for. The inductive relation \<open>json_text t j\<close> says that \<open>t\<close> is a
  text of the value \<open>j\<close>, with optional white space wherever the parser skips it; it is the
  specification that the serialisers and the parser share. This theory proves that the parser
  reads every such text as its value and stops right behind it.
\<close>

section \<open>Texts of values\<close>

definition blank :: "string \<Rightarrow> bool" where
  "blank w \<longleftrightarrow> list_all is_space w"

definition untagged :: "string \<Rightarrow> bool" where
  "untagged s \<longleftrightarrow> take (length HASH_TAG) s \<noteq> HASH_TAG \<and> take (length BUFF_TAG) s \<noteq> BUFF_TAG"

definition hex_text :: "byte list \<Rightarrow> string" where
  "hex_text bs = concat (map hex_pair bs)"

text \<open>The members of an object, stored one after the other.\<close>

fun put_members :: "'f json \<Rightarrow> (string \<times> 'f json) list \<Rightarrow> 'f json res" where
  "put_members j [] = Inr j"
| "put_members j ((k, v) # kvs) = rbind (set_key j k v) (\<lambda>j'. put_members j' kvs)"

definition object_tag :: "json_class \<Rightarrow> string" where
  "object_tag cl = (case cl of Class_FIOObject \<Rightarrow> FIO_OBJ | Class_FlatObject \<Rightarrow> FLAT_OBJ | _ \<Rightarrow> [])"

inductive json_text :: "string \<Rightarrow> 'f::zero json \<Rightarrow> bool"
  and elements_text :: "string \<Rightarrow> 'f json list \<Rightarrow> bool"
  and members_text :: "string \<Rightarrow> (string \<times> 'f json) list \<Rightarrow> bool"
where
  text_null: "json_text ''null'' JNull"
| text_true: "json_text ''true'' (JBoolean True)"
| text_false: "json_text ''false'' (JBoolean False)"
| text_integral: "in_long n \<Longrightarrow> json_text (std_to_string n) (JIntegral n)"
| text_string: "untagged s \<Longrightarrow> json_text (quoted (json_escape s)) (JString s)"
| text_hash: "length bs = hash_length \<Longrightarrow> json_text (quoted (HASH_TAG @ hex_text bs)) (JHash bs)"
| text_buffer: "json_text (quoted (BUFF_TAG @ hex_text bs)) (JBuffer bs)"
| text_array_empty: "blank w \<Longrightarrow> json_text (''['' @ w @ '']'') (JArray [])"
| text_array: "blank w \<Longrightarrow> elements_text t xs \<Longrightarrow> json_text (''['' @ w @ t @ '']'') (JArray xs)"
| text_object_empty: "blank w \<Longrightarrow> cl \<in> {Class_Object, Class_FIOObject, Class_FlatObject} \<Longrightarrow>
    json_text (''{'' @ object_tag cl @ w @ ''}'') (Make cl)"
| text_object: "blank w \<Longrightarrow> members_text t kvs \<Longrightarrow>
    cl \<in> {Class_Object, Class_FIOObject, Class_FlatObject} \<Longrightarrow> put_members (Make cl) kvs = Inr j \<Longrightarrow>
    json_text (''{'' @ object_tag cl @ w @ t @ ''}'') j"
| element_last: "json_text t x \<Longrightarrow> blank w \<Longrightarrow> elements_text (t @ w) [x]"
| element_more: "json_text t x \<Longrightarrow> blank w \<Longrightarrow> blank w' \<Longrightarrow> elements_text u xs \<Longrightarrow>
    elements_text (t @ w @ '','' @ w' @ u) (x # xs)"
| member_last: "untagged k \<Longrightarrow> blank w1 \<Longrightarrow> blank w2 \<Longrightarrow> json_text t x \<Longrightarrow> hashes_bounded x \<Longrightarrow> blank w \<Longrightarrow>
    members_text (quoted (json_escape k) @ w1 @ '':'' @ w2 @ t @ w) [(json_escape k, x)]"
| member_more: "untagged k \<Longrightarrow> blank w1 \<Longrightarrow> blank w2 \<Longrightarrow> json_text t x \<Longrightarrow> hashes_bounded x \<Longrightarrow> blank w \<Longrightarrow>
    blank w' \<Longrightarrow> members_text u kvs \<Longrightarrow>
    members_text (quoted (json_escape k) @ w1 @ '':'' @ w2 @ t @ w @ '','' @ w' @ u)
      ((json_escape k, x) # kvs)"

section \<open>Reading at an offset\<close>

text \<open>The text that begins at an offset.\<close>

definition at :: "source \<Rightarrow> nat \<Rightarrow> string \<Rightarrow> bool" where
  "at src off s \<longleftrightarrow> drop off (src_mem src) = s"

lemma at_append: "at src off (a @ b) \<Longrightarrow> at src (off + length a) b"
  unfolding at_def by (metis add.commute append_eq_conv_conj drop_drop)

lemma at_Cons: "at src off (c # s) \<Longrightarrow> at src (off + 1) s"
  using at_append [of src off "[c]" s] by simp

lemma at_src_at: "at src off (c # s) \<Longrightarrow> src_at src off = Inr c"
  unfolding at_def src_at_def
  by (cases "off < src_len src") (simp_all add: hd_drop_conv_nth [symmetric])

lemma at_length: "at src off s \<Longrightarrow> s \<noteq> [] \<Longrightarrow> off + length s = src_len src"
  by (auto simp: at_def)

lemma ws_loop_blank:
  "blank w \<Longrightarrow> \<not> is_space c \<Longrightarrow> ws_loop (w @ c # s) off = Inr (off + length w)"
  by (induction w arbitrary: off) (simp_all add: blank_def)

lemma at_consume_ws:
  "at src off (w @ c # s) \<Longrightarrow> blank w \<Longrightarrow> \<not> is_space c \<Longrightarrow> consume_ws src off = Inr (off + length w)"
  by (simp add: at_def consume_ws_def ws_loop_blank)

lemma blank_simps [simp]: "blank []" "blank (c # w) \<longleftrightarrow> is_space c \<and> blank w"
  "blank (v @ w) \<longleftrightarrow> blank v \<and> blank w"
  by (simp_all add: blank_def)

section \<open>Strings\<close>

lemma json_escape_char_cases:
  "json_escape_char c = [c] \<and> c \<noteq> QUOTE \<and> c \<noteq> BACKSLASH
   \<or> (\<exists>e. json_escape_char c = [BACKSLASH, e] \<and> e \<noteq> CHR ''u'' \<and> unescape_char e = [c])"
  by (auto simp: json_escape_char_def unescape_char_def)

lemma string_loop_escaped:
  "string_loop (json_escape s @ QUOTE # rest) off val
   = Inr (Some (val @ s), off + length (json_escape s) + 1)"
proof (induction s arbitrary: off val)
  case (Cons c s)
  from json_escape_char_cases [of c] Cons show ?case by auto
qed simp

lemma string_loop_unterminated:
  "string_loop (json_escape s @ [NUL]) off val = Inl (Undefined Read_out_of_bounds)"
proof (induction s arbitrary: off val)
  case (Cons c s)
  from json_escape_char_cases [of c] Cons show ?case by auto
qed simp

lemma mem_eq_c_str: "NUL \<notin> set pat \<Longrightarrow> mem_eq (c_str s) pat = Inr (take (length pat) s = pat)"
proof (induction pat arbitrary: s)
  case (Cons p pat)
  then show ?case by (cases s) (auto simp: c_str_def)
qed simp

lemma tags_no_NUL [simp]: "NUL \<notin> set HASH_TAG" "NUL \<notin> set BUFF_TAG"
  by (simp_all add: HASH_TAG_def BUFF_TAG_def)

lemma string_value_untagged: "untagged s \<Longrightarrow> string_value s = Inr (JString s)"
  by (simp add: string_value_def mem_eq_c_str untagged_def assign_string_def)

lemma hex_text_decode:
  "json_hexstring_to_bytes (hex_text bs @ [NUL]) (2 * length bs) = Inr (Some bs)"
  using hex_decode_pairs [of "[]" bs "length bs" "[]"]
  by (simp add: json_hexstring_to_bytes_eq hexstring_to_bytes_def hex_text_def)

lemma length_hex_text [simp]: "length (hex_text bs) = 2 * length bs"
  by (simp add: hex_text_def)

lemma string_value_hash:
  "length bs = hash_length \<Longrightarrow> string_value (HASH_TAG @ hex_text bs) = Inr (JHash bs)"
  using hex_text_decode [of bs]
  by (simp add: string_value_def mem_eq_c_str Let_def) (simp add: c_str_def assign_bytes_def)

lemma HASH_BUFF_distinct: "take (length HASH_TAG) (BUFF_TAG @ s) \<noteq> HASH_TAG"
  by (simp add: HASH_TAG_def BUFF_TAG_def)

lemma string_value_buffer: "string_value (BUFF_TAG @ hex_text bs) = Inr (JBuffer bs)"
proof -
  have "drop (length BUFF_TAG) (c_str (BUFF_TAG @ hex_text bs)) = hex_text bs @ [NUL]"
    by (simp add: c_str_def)
  moreover have "mem_eq (c_str (BUFF_TAG @ hex_text bs)) HASH_TAG = Inr False"
    using HASH_BUFF_distinct [of "hex_text bs"] by (simp only: mem_eq_c_str tags_no_NUL not_False_eq_True)
  ultimately show ?thesis
    using hex_text_decode [of bs]
    by (simp add: string_value_def mem_eq_c_str AppendBuffer_def SetType_def IsNull_def)
qed

lemma hextable_plain: "n < 16 \<Longrightarrow> plain_char (hextable ! n)"
  by (drule lt_16_cases) (auto simp: hextable_def plain_char_def)

lemma plain_hex_text [simp]: "plain (hex_text bs)"
  by (induction bs) (auto simp: hex_text_def hex_pair_def intro!: hextable_plain nibbles_lt)

lemma plain_tags [simp]: "plain HASH_TAG" "plain BUFF_TAG"
  by (simp_all add: HASH_TAG_def BUFF_TAG_def plain_char_def)

lemma parse_string_quoted:
  assumes "at src off (quoted (json_escape s) @ rest)" and "string_value s = Inr j"
  shows "parse_string src st off = Inr (j, st, off + length (quoted (json_escape s)))"
proof -
  have "drop (off + 1) (src_mem src) = json_escape s @ QUOTE # rest"
    using at_Cons [of src off QUOTE] assms(1) by (simp add: quoted_def at_def)
  then show ?thesis
    using assms(2) by (simp add: parse_string_def string_loop_escaped) (simp add: quoted_def)
qed

section \<open>Numbers and literals\<close>

lemma ends_number_not:
  "ends_number c \<Longrightarrow> c \<noteq> CHR ''-'' \<and> \<not> is_digit c \<and> c \<noteq> CHR ''.'' \<and> c \<noteq> CHR ''E'' \<and> c \<noteq> CHR ''e''"
  by (auto simp: ends_number_def is_space_code is_digit_code)

lemma number_loop_digits:
  assumes "\<forall>c \<in> set ds. is_digit c \<or> c = CHR ''-''" and "c \<noteq> CHR ''-''" "\<not> is_digit c" "c \<noteq> CHR ''.''"
  shows "number_loop (ds @ c # rest) off val d = Inr (val @ ds, d, c, off + length ds + 1)"
  using assms by (induction ds arbitrary: off val) auto

lemma std_to_string_chars: "\<forall>c \<in> set (std_to_string n). is_digit c \<or> c = CHR ''-''"
  using nat_string_digits by (auto simp: std_to_string_def)

lemma parse_number_integral:
  assumes "at src off (std_to_string n @ c # rest)" and "in_long n" and "ends_number c"
  shows "parse_number fo src st off = Inr (JIntegral n, st, off + length (std_to_string n))"
proof -
  have "number_loop (drop off (src_mem src)) off [] False
      = Inr (std_to_string n, False, c, off + length (std_to_string n) + 1)"
    using assms(1) number_loop_digits [OF std_to_string_chars, of c n rest off "[]" False]
      ends_number_not [OF assms(3)] by (simp add: at_def)
  then show ?thesis
    using assms(2,3) ends_number_not [OF assms(3)]
    by (simp add: parse_number_def number_value_def std_stol_to_string assign_int_def)
qed

lemma mem_eq_prefix: "mem_eq (pat @ rest) pat = Inr True"
  by (induction pat) simp_all

lemma at_src_has:
  assumes "at src off (word @ rest)" and "word \<noteq> []" and "NUL \<notin> set word"
  shows "src_has src off word = Inr True"
proof (cases src)
  case (StdString str)
  have "drop off (str @ [NUL]) = word @ rest" using assms(1) StdString by (simp add: at_def)
  moreover from this assms(2) have "off \<le> length str"
    by (metis append_is_Nil_conv drop_eq_Nil length_append_singleton not_less_eq_eq)
  ultimately have d: "drop off str @ [NUL] = word @ rest" by simp
  have "take (length word) (drop off str) = word"
  proof (cases "rest = []")
    case True
    then have "last word = NUL" using arg_cong [OF d, of last] assms(2) by simp
    with assms(2,3) show ?thesis by (metis last_in_set)
  next
    case False
    then have "drop off str = word @ butlast rest"
      using arg_cong [OF d, of butlast] by (simp add: butlast_append)
    then show ?thesis by simp
  qed
  with \<open>off \<le> length str\<close> StdString show ?thesis by (simp add: src_has_def)
next
  case (RawBuffer p_data)
  with assms(1) show ?thesis by (simp add: src_has_def at_def mem_eq_prefix)
qed

lemma at_src_has_not:
  assumes "at src off (d # rest)" and "d \<noteq> e"
  shows "src_has src off (e # word) = Inr False"
proof (cases src)
  case (StdString str)
  have a: "drop off (str @ [NUL]) = d # rest" using assms(1) StdString by (simp add: at_def)
  then have "off \<le> length str" by (cases "off \<le> length str") simp_all
  with a have "drop off str @ [NUL] = d # rest" by simp
  then have "take (length (e # word)) (drop off str) \<noteq> e # word"
    using assms(2) by (cases "drop off str") simp_all
  with \<open>off \<le> length str\<close> StdString show ?thesis by (simp add: src_has_def)
next
  case (RawBuffer p_data)
  with assms show ?thesis by (simp add: src_has_def at_def)
qed

section \<open>The parser reads every text\<close>

definition is_integral :: "'f json \<Rightarrow> bool" where
  "is_integral j \<longleftrightarrow> (case j of JIntegral n \<Rightarrow> True | _ \<Rightarrow> False)"

definition followed :: "'f json \<Rightarrow> string \<Rightarrow> bool" where
  "followed j rest \<longleftrightarrow> (is_integral j \<longrightarrow> rest \<noteq> [] \<and> ends_number (hd rest))"

definition reads :: "'f::zero float_ops \<Rightarrow> string \<Rightarrow> 'f json \<Rightarrow> bool" where
  "reads fo t j \<longleftrightarrow>
     (\<forall>src off w rest n st.
        at src off (w @ t @ rest) \<longrightarrow> blank w \<longrightarrow> followed j rest \<longrightarrow> src_len src < n + off \<longrightarrow>
        parse_next fo src n st off = Inr (j, st, off + length w + length t))"

definition reads_elements :: "'f::zero float_ops \<Rightarrow> string \<Rightarrow> 'f json list \<Rightarrow> bool" where
  "reads_elements fo t xs \<longleftrightarrow>
     (\<forall>src off w rest n m ys st.
        at src off (w @ t @ CHR '']'' # rest) \<longrightarrow> blank w \<longrightarrow>
        src_len src < n + off \<longrightarrow> src_len src < m + off \<longrightarrow>
        array_loop (parse_next fo src n) src m (JArray ys) (length ys) st off
        = Inr (JArray (ys @ xs), st, off + length w + length t + 1))"

definition reads_members :: "'f::zero float_ops \<Rightarrow> string \<Rightarrow> (string \<times> 'f json) list \<Rightarrow> bool" where
  "reads_members fo t kvs \<longleftrightarrow>
     (\<forall>src off w rest n m obj obj' st.
        at src off (w @ t @ CHR ''}'' # rest) \<longrightarrow> blank w \<longrightarrow>
        src_len src < n + off \<longrightarrow> src_len src < m + off \<longrightarrow> put_members obj kvs = Inr obj' \<longrightarrow>
        object_loop (parse_next fo src n) src m obj st off
        = Inr (obj', st, off + length w + length t + 1))"

lemma readsD:
  "reads fo t j \<Longrightarrow> at src off (w @ t @ rest) \<Longrightarrow> blank w \<Longrightarrow> followed j rest \<Longrightarrow>
   src_len src < n + off \<Longrightarrow> parse_next fo src n st off = Inr (j, st, off + length w + length t)"
  by (simp add: reads_def)

lemma reads_elementsD:
  "reads_elements fo t xs \<Longrightarrow> at src off (w @ t @ CHR '']'' # rest) \<Longrightarrow> blank w \<Longrightarrow>
   src_len src < n + off \<Longrightarrow> src_len src < m + off \<Longrightarrow>
   array_loop (parse_next fo src n) src m (JArray ys) (length ys) st off
   = Inr (JArray (ys @ xs), st, off + length w + length t + 1)"
  unfolding reads_elements_def by blast

lemma reads_membersD:
  "reads_members fo t kvs \<Longrightarrow> at src off (w @ t @ CHR ''}'' # rest) \<Longrightarrow> blank w \<Longrightarrow>
   src_len src < n + off \<Longrightarrow> src_len src < m + off \<Longrightarrow> put_members obj kvs = Inr obj' \<Longrightarrow>
   object_loop (parse_next fo src n) src m obj st off
   = Inr (obj', st, off + length w + length t + 1)"
  unfolding reads_members_def by blast

text \<open>The dispatch on the first character that is no white space.\<close>

lemma parse_next_dispatch:
  assumes "at src off (w @ c # s)" and "blank w" and "\<not> is_space c" and "src_len src < n + off"
  obtains m where "n = Suc m" "src_len src < m + (off + length w + 1)" "at src (off + length w) (c # s)"
    "parse_next fo src n st off =
       (if c = CHR ''['' then
          parse_array (parse_next fo src m) src (src_len src + 1) st (off + length w)
        else if c = CHR ''{'' then
          parse_object (parse_next fo src m) src (src_len src + 1) st (off + length w)
        else if c = QUOTE then parse_string src st (off + length w)
        else if c = CHR ''t'' \<or> c = CHR ''f'' then parse_bool src st (off + length w)
        else if c = CHR ''n'' then parse_null src st (off + length w)
        else if is_digit c \<or> c = CHR ''-'' then parse_number fo src st (off + length w)
        else Inr (JNull, Json_error CRUST_JSON_STARTING_ERROR, off + length w))"
proof -
  have "off + length (w @ c # s) = src_len src" by (rule at_length [OF assms(1)]) simp
  with assms(4) obtain m where m: "n = Suc m" by (cases n) auto
  have a: "at src (off + length w) (c # s)" by (rule at_append [OF assms(1)])
  show ?thesis
    by (rule that [OF m _ a])
      (use assms m in \<open>simp_all add: at_consume_ws [OF assms(1-3)] at_src_at [OF a]\<close>)
qed

lemma reads_leaf:
  assumes "\<And>src off rest st. at src off (c # s @ rest) \<Longrightarrow> followed j rest \<Longrightarrow>
             leaf src st off = Inr (j, st, off + length (c # s))"
    and "\<not> is_space c" and "c \<noteq> CHR ''[''" and "c \<noteq> CHR ''{''"
    and "leaf = (if c = QUOTE then parse_string
                 else if c = CHR ''t'' \<or> c = CHR ''f'' then parse_bool
                 else if c = CHR ''n'' then parse_null
                 else if is_digit c \<or> c = CHR ''-'' then parse_number fo
                 else (\<lambda>src st off. Inr (JNull, Json_error CRUST_JSON_STARTING_ERROR, off)))"
  shows "reads fo (c # s) j"
  unfolding reads_def
proof (intro allI impI)
  fix src off w rest n st
  assume a: "at src off (w @ (c # s) @ rest)" "blank w" "followed j rest" "src_len src < n + off"
  have a': "at src off (w @ c # s @ rest)" using a(1) by simp
  have leaf: "leaf src st o1 =
      (if c = QUOTE then parse_string src st o1
       else if c = CHR ''t'' \<or> c = CHR ''f'' then parse_bool src st o1
       else if c = CHR ''n'' then parse_null src st o1
       else if is_digit c \<or> c = CHR ''-'' then parse_number fo src st o1
       else Inr (JNull, Json_error CRUST_JSON_STARTING_ERROR, o1))" for o1
    unfolding assms(5) by simp
  have m: "at src (off + length w) (c # s @ rest)"
    "parse_next fo src n st off = leaf src st (off + length w)"
    by (rule parse_next_dispatch [OF a' a(2) assms(2) a(4), of fo st],
        simp only: leaf assms(3,4) if_False)+
  then show "parse_next fo src n st off = Inr (j, st, off + length w + length (c # s))"
    using assms(1) a(3) by simp
qed

lemma reads_quoted: "string_value s = Inr j \<Longrightarrow> reads fo (quoted (json_escape s)) j"
  unfolding quoted_def append_Cons append_Nil
  by (rule reads_leaf [where leaf = parse_string])
    (use parse_string_quoted [of _ _ s _ j] in \<open>simp_all add: quoted_def is_space_code\<close>)

lemma reads_word:
  "reads fo ''null'' JNull" "reads fo ''true'' (JBoolean True)" "reads fo ''false'' (JBoolean False)"
proof -
  show "reads fo ''null'' JNull"
    by (rule reads_leaf [where leaf = parse_null])
      (use at_src_has [of _ _ "''null''"] in \<open>simp_all add: parse_null_def is_space_code\<close>)
  show "reads fo ''true'' (JBoolean True)"
    by (rule reads_leaf [where leaf = parse_bool])
      (use at_src_has [of _ _ "''true''"] in \<open>simp_all add: parse_bool_def assign_bool_def is_space_code\<close>)
  show "reads fo ''false'' (JBoolean False)"
  proof (rule reads_leaf [where leaf = parse_bool])
    fix src off rest st
    assume a: "at src off (CHR ''f'' # ''alse'' @ rest)"
    have "src_has src off ''true'' = Inr False"
      by (rule at_src_has_not [OF a]) simp
    then show "parse_bool src st off = Inr (JBoolean False, st, off + length ''false'')"
      using at_src_has [of src off "''false''" rest] a by (simp add: parse_bool_def assign_bool_def)
  qed (simp_all add: is_space_code)
qed

lemma std_to_string_Cons:
  obtains c s where "std_to_string n = c # s" "is_digit c \<or> c = CHR ''-''"
proof -
  have "std_to_string n \<noteq> []" by (simp add: std_to_string_def)
  then obtain c s where cs: "std_to_string n = c # s" by (cases "std_to_string n") auto
  with std_to_string_chars [of n] that show ?thesis by simp
qed

lemma reads_integral:
  assumes "in_long n"
  shows "reads fo (std_to_string n) (JIntegral n)"
proof -
  obtain c s where cs: "std_to_string n = c # s" "is_digit c \<or> c = CHR ''-''"
    by (rule std_to_string_Cons)
  have "reads fo (c # s) (JIntegral n)"
  proof (rule reads_leaf [where leaf = "parse_number fo"])
    fix src off rest st
    assume a: "at src off (c # s @ rest)" and "followed (JIntegral n) rest"
    then obtain d r where "rest = d # r" "ends_number d"
      by (cases rest) (auto simp: followed_def is_integral_def)
    with a parse_number_integral [of src off n d r fo st] assms
    show "parse_number fo src st off = Inr (JIntegral n, st, off + length (c # s))"
      by (simp add: cs(1))
  qed (use cs(2) in \<open>auto simp: is_space_code is_digit_code\<close>)
  then show ?thesis by (simp add: cs(1))
qed

subsection \<open>Arrays\<close>

lemma followed_more: "blank w \<Longrightarrow> ends_number c \<Longrightarrow> followed j (w @ c # rest)"
  by (cases w) (auto simp: followed_def ends_number_def)

lemma separator_ends [simp]:
  "ends_number CHR '',''" "ends_number CHR '']''" "ends_number CHR ''}''"
  "\<not> is_space CHR '',''" "\<not> is_space CHR '']''" "\<not> is_space CHR ''}''" "\<not> is_space CHR '':''"
  by (simp_all add: ends_number_def is_space_code)

lemma reads_element_last:
  assumes "reads fo t x" and w: "blank w"
  shows "reads_elements fo (t @ w) [x]"
  unfolding reads_elements_def
proof (intro allI impI)
  fix src off w0 rest n m ys st
  assume a: "at src off (w0 @ (t @ w) @ CHR '']'' # rest)" and w0: "blank w0"
    and n: "src_len src < n + off" and m: "src_len src < m + off"
  have a1: "at src off (w0 @ t @ (w @ CHR '']'' # rest))" using a by simp
  have v: "parse_next fo src n st off = Inr (x, st, off + length w0 + length t)"
    by (rule readsD [OF assms(1) a1 w0 followed_more [OF w] n]) simp
  have a2: "at src (off + length w0 + length t) (w @ CHR '']'' # rest)"
    using at_append [OF at_append [OF a1]] .
  have c: "consume_ws src (off + length w0 + length t) = Inr (off + length w0 + length t + length w)"
    by (rule at_consume_ws [OF a2 w]) simp
  have c2: "src_at src (off + length w0 + length t + length w) = Inr CHR '']''"
    by (rule at_src_at [OF at_append [OF a2]])
  have "off + length (w0 @ (t @ w) @ CHR '']'' # rest) = src_len src"
    by (rule at_length [OF a]) simp
  with m obtain m' where m': "m = Suc m'" by (cases m) auto
  show "array_loop (parse_next fo src n) src m (JArray ys) (length ys) st off
      = Inr (JArray (ys @ [x]), st, off + length w0 + length (t @ w) + 1)"
    by (simp add: m' v c c2 index_at_append)
qed

lemma reads_element_more:
  assumes "reads fo t x" and w: "blank w" "blank w'" and "reads_elements fo u xs"
  shows "reads_elements fo (t @ w @ '','' @ w' @ u) (x # xs)"
  unfolding reads_elements_def
proof (intro allI impI)
  fix src off w0 rest n m ys st
  assume a: "at src off (w0 @ (t @ w @ '','' @ w' @ u) @ CHR '']'' # rest)" and w0: "blank w0"
    and n: "src_len src < n + off" and m: "src_len src < m + off"
  let ?r = "w' @ u @ CHR '']'' # rest"
  have a1: "at src off (w0 @ t @ (w @ CHR '','' # ?r))" using a by simp
  have v: "parse_next fo src n st off = Inr (x, st, off + length w0 + length t)"
    by (rule readsD [OF assms(1) a1 w0 followed_more [OF w(1)] n]) simp
  have a2: "at src (off + length w0 + length t) (w @ CHR '','' # ?r)"
    using at_append [OF at_append [OF a1]] .
  have c: "consume_ws src (off + length w0 + length t) = Inr (off + length w0 + length t + length w)"
    by (rule at_consume_ws [OF a2 w(1)]) simp
  have a3: "at src (off + length w0 + length t + length w) (CHR '','' # ?r)"
    by (rule at_append [OF a2])
  note c2 = at_src_at [OF a3] and a4 = at_Cons [OF a3]
  have "off + length (w0 @ (t @ w @ '','' @ w' @ u) @ CHR '']'' # rest) = src_len src"
    by (rule at_length [OF a]) simp
  with m obtain m' where m': "m = Suc m'" by (cases m) auto
  have "array_loop (parse_next fo src n) src m' (JArray (ys @ [x])) (length (ys @ [x])) st
          (off + length w0 + length t + length w + 1)
        = Inr (JArray ((ys @ [x]) @ xs), st,
               (off + length w0 + length t + length w + 1) + length w' + length u + 1)"
    by (rule reads_elementsD [OF assms(4) a4 w(2)]) (use n m m' in simp_all)
  then show "array_loop (parse_next fo src n) src m (JArray ys) (length ys) st off
      = Inr (JArray (ys @ x # xs), st, off + length w0 + length (t @ w @ '','' @ w' @ u) + 1)"
    by (simp add: m' v c [simplified add.assoc] c2 [simplified add.assoc] index_at_append add.assoc)
qed

lemma reads_array:
  assumes w: "blank w" and "t \<noteq> [] \<Longrightarrow> reads_elements fo t xs" and "t = [] \<Longrightarrow> xs = []"
    and "t \<noteq> [] \<Longrightarrow> \<not> is_space (hd t) \<and> hd t \<noteq> CHR '']''"
  shows "reads fo (''['' @ w @ t @ '']'') (JArray xs)"
  unfolding reads_def
proof (intro allI impI)
  fix src off w0 rest n st
  assume a: "at src off (w0 @ (''['' @ w @ t @ '']'') @ rest)" and w0: "blank w0"
    and n: "src_len src < n + off"
  let ?o = "off + length w0"
  have a': "at src off (w0 @ CHR ''['' # w @ t @ CHR '']'' # rest)" using a by simp
  obtain m where m: "src_len src < m + (?o + 1)"
    "at src ?o (CHR ''['' # w @ t @ CHR '']'' # rest)"
    "parse_next fo src n st off = parse_array (parse_next fo src m) src (src_len src + 1) st ?o"
    by (rule parse_next_dispatch [OF a' w0 _ n, of fo st]) (simp_all add: is_space_code)
  have a1: "at src (?o + 1) (w @ t @ CHR '']'' # rest)" by (rule at_Cons [OF m(2)])
  obtain d r where dr: "t @ CHR '']'' # rest = d # r" "\<not> is_space d" "d = CHR '']'' \<longleftrightarrow> t = []"
    using assms(4) by (cases t) auto
  have c: "consume_ws src (?o + 1) = Inr (?o + 1 + length w)"
    using at_consume_ws [of src "?o + 1" w d r] a1 w dr by simp
  have a2: "at src (?o + 1 + length w) (t @ CHR '']'' # rest)" by (rule at_append [OF a1])
  then have c2: "src_at src (?o + 1 + length w) = Inr d" by (simp add: dr(1) at_src_at)
  show "parse_next fo src n st off = Inr (JArray xs, st, ?o + length (''['' @ w @ t @ '']''))"
  proof (cases "t = []")
    case True
    then show ?thesis
      using dr(3) assms(3) by (simp add: m(3) parse_array_def c [simplified] c2 [simplified])
  next
    case False
    have "array_loop (parse_next fo src m) src (src_len src + 1) (JArray []) (length ([] :: 'a json list)) st
            (?o + 1 + length w)
        = Inr (JArray ([] @ xs), st, ?o + 1 + length w + length ([] :: string) + length t + 1)"
      by (rule reads_elementsD [OF assms(2) [OF False]]) (use a2 m(1) in simp_all)
    then show ?thesis
      using dr(3) False by (simp add: m(3) parse_array_def c [simplified] c2 [simplified])
  qed
qed

subsection \<open>Objects\<close>

definition starts_value :: "string \<Rightarrow> bool" where
  "starts_value t \<longleftrightarrow> t \<noteq> [] \<and> \<not> is_space (hd t) \<and> hd t \<noteq> CHR '']'' \<and> hd t \<noteq> CHR ''}''"

lemma object_loop_step:
  assumes k: "reads fo kt (JString k0)" and x: "reads fo t x" "json_copy x = x" "starts_value t"
    and w: "blank w0" "blank w1" "blank w2" "blank w" and c: "ends_number c" "\<not> is_space c"
    and n: "src_len src < n + off" and a: "at src off (w0 @ kt @ w1 @ CHR '':'' # w2 @ t @ w @ c # r)"
    and put: "set_key obj (json_escape k0) x = Inr obj1"
    and o5: "o5 = off + length w0 + length kt + length w1 + 1 + length w2 + length t + length w"
  shows "object_loop (parse_next fo src n) src (Suc m) obj st off =
      (if c = CHR '','' then object_loop (parse_next fo src n) src m obj1 st (o5 + 1)
       else if c = CHR ''}'' then Inr (obj1, st, o5 + 1)
       else Inr (obj1, Json_error CRUST_JSON_OBJECT_ERROR, o5)) \<and> at src (o5 + 1) r"
proof -
  define o1 where "o1 = off + length w0 + length kt"
  define o2 where "o2 = o1 + length w1"
  define o3 where "o3 = o2 + 1 + length w2"
  define o4 where "o4 = o3 + length t"
  have o5': "o5 = o4 + length w" by (simp add: o5 o1_def o2_def o3_def o4_def)
  have key: "parse_next fo src n st off = Inr (JString k0, st, o1)"
    using readsD [OF k a w(1) _ n] by (simp add: followed_def is_integral_def o1_def)
  have a1: "at src o1 (w1 @ CHR '':'' # w2 @ t @ w @ c # r)"
    unfolding o1_def by (rule at_append [OF at_append [OF a]])
  have c1: "consume_ws src o1 = Inr o2"
    unfolding o2_def by (rule at_consume_ws [OF a1 w(2)]) simp
  have a2: "at src o2 (CHR '':'' # w2 @ t @ w @ c # r)" unfolding o2_def by (rule at_append [OF a1])
  note s1 = at_src_at [OF a2]
  obtain d t' where d: "t = d # t'" "\<not> is_space d" using x(3) by (cases t) (auto simp: starts_value_def)
  have c2: "consume_ws src (o2 + 1) = Inr o3"
    using at_consume_ws [of src "o2 + 1" w2 d "t' @ w @ c # r"] at_Cons [OF a2] w(3) d
    by (simp add: o3_def)
  have a3: "at src o3 (t @ w @ c # r)" unfolding o3_def by (rule at_append [OF at_Cons [OF a2]])
  have "parse_next fo src n st o3 = Inr (x, st, o3 + length ([] :: string) + length t)"
  proof (rule readsD [OF x(1)])
    show "at src o3 ([] @ t @ w @ c # r)" using a3 by simp
    show "src_len src < n + o3" using n by (simp add: o3_def o2_def o1_def)
  qed (simp_all add: followed_more w c)
  then have val: "parse_next fo src n st o3 = Inr (x, st, o4)" by (simp add: o4_def)
  have a4: "at src o4 (w @ c # r)" unfolding o4_def by (rule at_append [OF a3])
  have c3: "consume_ws src o4 = Inr o5" unfolding o5' by (rule at_consume_ws [OF a4 w(4) c(2)])
  have a5: "at src o5 (c # r)" unfolding o5' by (rule at_append [OF a4])
  show ?thesis
    using at_Cons [OF a5] by (simp add: key c1 s1 c2 [simplified] val x(2) put c3 at_src_at [OF a5])
qed

lemma at_fuel: "at src off s \<Longrightarrow> s \<noteq> [] \<Longrightarrow> src_len src < m + off \<Longrightarrow> \<exists>m'. m = Suc m'"
  using at_length [of src off s] by (cases m) auto

lemma reads_member_last:
  assumes k: "reads fo kt (JString k0)" and x: "reads fo t x" "json_copy x = x" "starts_value t"
    and w: "blank w1" "blank w2" "blank w"
  shows "reads_members fo (kt @ w1 @ '':'' @ w2 @ t @ w) [(json_escape k0, x)]"
  unfolding reads_members_def
proof (intro allI impI)
  fix src off w0 rest n m obj obj' st
  assume a: "at src off (w0 @ (kt @ w1 @ '':'' @ w2 @ t @ w) @ CHR ''}'' # rest)" and w0: "blank w0"
    and n: "src_len src < n + off" and m: "src_len src < m + off"
    and put: "put_members obj [(json_escape k0, x)] = Inr obj'"
  obtain m' where m': "m = Suc m'" using at_fuel [OF a _ m] by auto
  have "object_loop (parse_next fo src n) src (Suc m') obj st off
      = Inr (obj', st, off + length w0 + length kt + length w1 + 1 + length w2 + length t + length w + 1)"
    using object_loop_step [OF k x w0 w separator_ends(3,6) n, of rest obj obj' _ m' st] a put
    by (simp add: res_simps)
  then show "object_loop (parse_next fo src n) src m obj st off
      = Inr (obj', st, off + length w0 + length (kt @ w1 @ '':'' @ w2 @ t @ w) + 1)"
    by (simp add: m' add.assoc)
qed

lemma reads_member_more:
  assumes k: "reads fo kt (JString k0)" and x: "reads fo t x" "json_copy x = x" "starts_value t"
    and w: "blank w1" "blank w2" "blank w" and w': "blank w'" and u: "reads_members fo u kvs"
  shows "reads_members fo (kt @ w1 @ '':'' @ w2 @ t @ w @ '','' @ w' @ u) ((json_escape k0, x) # kvs)"
  unfolding reads_members_def
proof (intro allI impI)
  fix src off w0 rest n m obj obj' st
  assume a: "at src off (w0 @ (kt @ w1 @ '':'' @ w2 @ t @ w @ '','' @ w' @ u) @ CHR ''}'' # rest)"
    and w0: "blank w0" and n: "src_len src < n + off" and m: "src_len src < m + off"
    and put: "put_members obj ((json_escape k0, x) # kvs) = Inr obj'"
  obtain m' where m': "m = Suc m'"
    using at_fuel [OF a _ m] by auto
  obtain obj1 where obj1: "set_key obj (json_escape k0) x = Inr obj1" "put_members obj1 kvs = Inr obj'"
    using put by (auto simp: res_simps)
  define o6 where
    "o6 = off + length w0 + length kt + length w1 + 1 + length w2 + length t + length w + 1"
  have s: "object_loop (parse_next fo src n) src (Suc m') obj st off
      = object_loop (parse_next fo src n) src m' obj1 st o6"
    and a6: "at src o6 (w' @ u @ CHR ''}'' # rest)"
    using object_loop_step [OF k x w0 w separator_ends(1,4) n _ obj1(1),
        of "w' @ u @ CHR ''}'' # rest" "o6 - 1" m' st] a
    by (simp_all add: o6_def)
  have "object_loop (parse_next fo src n) src m' obj1 st o6
      = Inr (obj', st, o6 + length w' + length u + 1)"
    by (rule reads_membersD [OF u a6 w' _ _ obj1(2)]) (use n m m' in \<open>simp_all add: o6_def\<close>)
  with s show "object_loop (parse_next fo src n) src m obj st off
      = Inr (obj', st, off + length w0 + length (kt @ w1 @ '':'' @ w2 @ t @ w @ '','' @ w' @ u) + 1)"
    by (simp add: m' o6_def add.assoc)
qed

lemma object_tag_choice:
  assumes "cl \<in> {Class_Object, Class_FIOObject, Class_FlatObject}"
    and "s \<noteq> []" and "hd s \<noteq> CHR ''f''"
  shows "rbind (mem_eq (object_tag cl @ s) FIO_OBJ) (\<lambda>fio.
           if fio then Inr (Make Class_FIOObject, off + length FIO_OBJ)
           else rbind (mem_eq (object_tag cl @ s) FLAT_OBJ) (\<lambda>flat.
             if flat then Inr (Make Class_FlatObject, off + length FLAT_OBJ)
             else Inr (Make Class_Object, off)))
         = Inr (Make cl :: 'f::zero json, off + length (object_tag cl))"
  using assms by (cases s) (auto simp: object_tag_def FIO_OBJ_def FLAT_OBJ_def)

lemma reads_object:
  assumes w: "blank w" and cl: "cl \<in> {Class_Object, Class_FIOObject, Class_FlatObject}"
    and t: "t \<noteq> [] \<Longrightarrow> hd t = QUOTE \<and> reads_members fo t kvs" and t0: "t = [] \<Longrightarrow> kvs = []"
    and put: "put_members (Make cl) kvs = Inr j" and j: "\<not> is_integral j"
  shows "reads fo (''{'' @ object_tag cl @ w @ t @ ''}'') j"
  unfolding reads_def
proof (intro allI impI)
  fix src off w0 rest n st
  assume a: "at src off (w0 @ (''{'' @ object_tag cl @ w @ t @ ''}'') @ rest)" and w0: "blank w0"
    and n: "src_len src < n + off"
  define o1 where "o1 = off + length w0 + 1"
  define o2 where "o2 = o1 + length (object_tag cl)"
  define o3 where "o3 = o2 + length w"
  let ?s = "w @ t @ CHR ''}'' # rest"
  have a': "at src off (w0 @ CHR ''{'' # object_tag cl @ ?s)" using a by simp
  obtain m where m: "src_len src < m + o1"
    "at src (off + length w0) (CHR ''{'' # object_tag cl @ ?s)"
    "parse_next fo src n st off
     = parse_object (parse_next fo src m) src (src_len src + 1) st (off + length w0)"
    unfolding o1_def
    by (rule parse_next_dispatch [OF a' w0 _ n, of fo st]) (simp_all add: is_space_code)
  have a1: "at src o1 (object_tag cl @ ?s)" unfolding o1_def by (rule at_Cons [OF m(2)])
  have a2: "at src o2 ?s" unfolding o2_def by (rule at_append [OF a1])
  have "hd ?s \<noteq> CHR ''f''"
    using w t by (cases w; cases t) (auto simp: is_space_code)
  then have choice: "rbind (mem_eq (drop o1 (src_mem src)) FIO_OBJ) (\<lambda>fio.
           if fio then Inr (Make Class_FIOObject, o1 + length FIO_OBJ)
           else rbind (mem_eq (drop o1 (src_mem src)) FLAT_OBJ) (\<lambda>flat.
             if flat then Inr (Make Class_FlatObject, o1 + length FLAT_OBJ)
             else Inr (Make Class_Object, o1)))
         = Inr (Make cl :: 'a json, o2)"
    unfolding a1 [unfolded at_def] o2_def by (intro object_tag_choice cl) simp_all
  obtain d r where dr: "t @ CHR ''}'' # rest = d # r" "\<not> is_space d" "d = CHR ''}'' \<longleftrightarrow> t = []"
    using t by (cases t) (auto simp: is_space_code)
  have c: "consume_ws src o2 = Inr o3"
    using at_consume_ws [of src o2 w d r] a2 w dr by (simp add: o3_def)
  have a3: "at src o3 (t @ CHR ''}'' # rest)" unfolding o3_def by (rule at_append [OF a2])
  then have c2: "src_at src o3 = Inr d" by (simp add: dr(1) at_src_at)
  have parse: "parse_next fo src n st off =
      (if d = CHR ''}'' then Inr (Make cl, st, o3 + 1)
       else object_loop (parse_next fo src m) src (src_len src + 1) (Make cl) st o3)"
  proof -
    from choice obtain fio where fio: "mem_eq (drop o1 (src_mem src)) FIO_OBJ = Inr fio"
      "(if fio then Inr (Make Class_FIOObject, o1 + length FIO_OBJ)
        else rbind (mem_eq (drop o1 (src_mem src)) FLAT_OBJ) (\<lambda>flat.
          if flat then Inr (Make Class_FlatObject, o1 + length FLAT_OBJ)
          else Inr (Make Class_Object, o1))) = Inr (Make cl :: 'a json, o2)"
      unfolding rbind_eq_Inr by blast
    show ?thesis
      unfolding m(3) parse_object_def Let_def o1_def [symmetric] fio(1) rbind_Inr fio(2) prod.case
        c c2 by (rule refl)
  qed
  show "parse_next fo src n st off
      = Inr (j, st, off + length w0 + length (''{'' @ object_tag cl @ w @ t @ ''}''))"
  proof (cases "t = []")
    case True
    then show ?thesis
      using dr(3) t0 put by (simp add: parse) (simp add: o3_def o2_def o1_def)
  next
    case False
    have "object_loop (parse_next fo src m) src (src_len src + 1) (Make cl) st o3
        = Inr (j, st, o3 + length ([] :: string) + length t + 1)"
      by (rule reads_membersD [OF conjunct2 [OF t [OF False]]])
        (use a3 m(1) put in \<open>simp_all add: o3_def o2_def\<close>)
    then show ?thesis
      using dr(3) False by (simp add: parse) (simp add: o3_def o2_def o1_def)
  qed
qed

section \<open>Every text of a value\<close>

lemma json_text_starts:
  fixes j :: "'f::zero json" and xs :: "'f json list" and kvs :: "(string \<times> 'f json) list"
  shows "json_text t j \<Longrightarrow> starts_value t"
  and "elements_text u xs \<Longrightarrow> starts_value u"
  and "members_text v kvs \<Longrightarrow> v \<noteq> [] \<and> hd v = QUOTE"
proof (induction rule: json_text_elements_text_members_text.inducts)
  case (text_integral n)
  obtain c s where "std_to_string n = c # s" "is_digit c \<or> c = CHR ''-''"
    by (rule std_to_string_Cons)
  then show ?case by (auto simp: starts_value_def is_space_code is_digit_code)
qed (auto simp: starts_value_def quoted_def is_space_code)

lemma set_key_not_integral: "set_key j k v = Inr j' \<Longrightarrow> \<not> is_integral j'"
  by (auto simp: set_key_def index_key_def is_integral_def res_simps split: json.splits)

lemma put_members_not_integral:
  "put_members j kvs = Inr j' \<Longrightarrow> \<not> is_integral j \<Longrightarrow> \<not> is_integral j'"
proof (induction j kvs rule: put_members.induct)
  case (2 j k v kvs)
  then show ?case by (auto simp: res_simps dest: set_key_not_integral)
qed simp

lemma Make_not_integral:
  "cl \<in> {Class_Object, Class_FIOObject, Class_FlatObject} \<Longrightarrow> \<not> is_integral (Make cl)"
  by (auto simp: Make_def SetType_def is_integral_def)

lemma json_text_reads:
  "json_text t j \<Longrightarrow> reads fo t j"
  and "elements_text u xs \<Longrightarrow> reads_elements fo u xs"
  and "members_text v kvs \<Longrightarrow> reads_members fo v kvs"
proof (induction rule: json_text_elements_text_members_text.inducts)
  case (text_integral n)
  then show ?case by (rule reads_integral)
next
  case (text_string s)
  then show ?case by (intro reads_quoted string_value_untagged)
next
  case (text_hash bs)
  then have "reads fo (quoted (json_escape (HASH_TAG @ hex_text bs))) (JHash bs)"
    by (intro reads_quoted string_value_hash)
  then show ?case by (simp add: json_escape_plain)
next
  case (text_buffer bs)
  have "reads fo (quoted (json_escape (BUFF_TAG @ hex_text bs))) (JBuffer bs)"
    by (intro reads_quoted string_value_buffer)
  then show ?case by (simp add: json_escape_plain)
next
  case (text_array_empty w)
  then show ?case using reads_array [of w "[]" fo "[]"] by simp
next
  case (text_array w t xs)
  show ?case
    by (rule reads_array) (use text_array json_text_starts(2) in \<open>auto simp: starts_value_def\<close>)
next
  case (text_object_empty w cl)
  then show ?case
    using reads_object [of w cl "[]" fo "[]" "Make cl"] Make_not_integral by auto
next
  case (text_object w t kvs cl j)
  show ?case
    by (rule reads_object [where kvs = kvs])
      (use text_object json_text_starts(3) [OF text_object.hyps(2)] Make_not_integral
        put_members_not_integral in auto)
next
  case (element_last t x w)
  then show ?case by (intro reads_element_last)
next
  case (element_more t x w w' u xs)
  then show ?case by (intro reads_element_more)
next
  case (member_last k w1 w2 t x w)
  then show ?case
    by (intro reads_member_last reads_quoted string_value_untagged json_copy_id json_text_starts)
next
  case (member_more k w1 w2 t x w w' u kvs)
  then show ?case
    by (intro reads_member_more reads_quoted string_value_untagged json_copy_id json_text_starts)
qed (fact reads_word)+

section \<open>Properties\<close>

lemma text_of_bytes_of [simp]: "text_of (bytes_of s) = s"
  by (simp add: text_of_def bytes_of_def comp_def)

lemma parse_text_reads:
  assumes "json_text t j" and "blank w" and "followed j rest" and "at src 0 (w @ t @ rest)"
  shows "parse_text fo src st = Inr (j, st)"
proof -
  have "parse_next fo src (src_len src + 1) st 0 = Inr (j, st, 0 + length w + length t)"
    by (rule readsD [OF json_text_reads(1) [OF assms(1)] assms(4,2,3)]) simp
  then show ?thesis by (simp add: parse_text_def)
qed

lemma Load_text_followed:
  assumes "json_text t j" and "blank w" and "followed j rest" and "data_size \<noteq> 0"
  shows "Load fo status (w @ t @ rest) = Inr (j, status)
         \<and> Load_raw fo status (bytes_of (w @ t @ rest)) data_size = Inr (j, status)"
proof -
  have "t \<noteq> []" using json_text_starts(1) [OF assms(1)] by (simp add: starts_value_def)
  moreover have "at (StdString (w @ t @ rest)) 0 (w @ t @ (rest @ [NUL]))"
    and "at (RawBuffer (bytes_of (w @ t @ rest))) 0 (w @ t @ rest)"
    by (simp_all add: at_def)
  moreover have "followed j (rest @ [NUL])" using assms(3) by (auto simp: followed_def)
  ultimately show ?thesis
    using parse_text_reads [OF assms(1,2)] assms(3,4) by (simp add: Load_def Load_raw_def)
qed

lemma Load_text:
  assumes "json_text t j" and "blank w" and "\<not> is_integral j" and "data_size \<noteq> 0"
  shows "Load fo status (w @ t @ rest) = Inr (j, status)
         \<and> Load_raw fo status (bytes_of (w @ t @ rest)) data_size = Inr (j, status)"
  using Load_text_followed [OF assms(1,2) _ assms(4)] assms(3) by (simp add: followed_def)

text \<open>
  C7. Both overloads of \<open>Load\<close>, the second with a size that is not 0, read a text of a value as that value
  and leave the status alone, with white space before it and anything behind it: what follows the value
  is never looked at. The one exception are integers, whose text must be followed by white space, a
  comma or a closing bracket or brace; a bare one is refused.
\<close>

theorem Load_reads_every_text:
  assumes "json_text t j" and "blank w" and "data_size \<noteq> 0"
    and "is_integral j \<longrightarrow> (\<exists>c u. rest = c # u \<and> ends_number c)"
  shows "Load fo status (w @ t @ rest) = Inr (j, status)
         \<and> Load_raw fo status (bytes_of (w @ t @ rest)) data_size = Inr (j, status)"
proof -
  have "followed j rest" using assms(4) by (auto simp: followed_def)
  then show ?thesis using Load_text_followed [OF assms(1,2) _ assms(3)] by blast
qed

definition int_ops :: "int float_ops" where
  "int_ops = \<lparr>f_to_string = std_to_string,
              f_stod = (\<lambda>s. case std_stol s of Inr n \<Rightarrow> Inr n | _ \<Rightarrow> Inl Invalid_argument),
              f_of_long = id, f_pow10 = (\<lambda>n. 10 ^ nat n), f_mult = (*)\<rparr>"

theorem Load_reads_every_text_witness:
  "Load int_ops CRUST_SUCCESS ('' '' @ ''[true,null]'' @ ''}}'')
     = Inr (JArray [JBoolean True, JNull], CRUST_SUCCESS)
   \<and> Load_raw int_ops CRUST_SUCCESS (bytes_of ('' '' @ ''[true,null]'' @ ''}}'')) 14
     = Inr (JArray [JBoolean True, JNull], CRUST_SUCCESS)"
proof (rule Load_reads_every_text)
  have "elements_text (''true'' @ [] @ '','' @ [] @ (''null'' @ [])) [JBoolean True, JNull :: int json]"
    by (intro element_more element_last text_true text_null) simp_all
  then have "json_text (''['' @ [] @ (''true'' @ [] @ '','' @ [] @ (''null'' @ [])) @ '']'')
      (JArray [JBoolean True, JNull :: int json])"
    by (intro text_array) simp_all
  then show "json_text ''[true,null]'' (JArray [JBoolean True, JNull :: int json])" by simp
qed (simp_all add: is_integral_def is_space_code)

text \<open>
  A bare integer is no text \<open>Load\<close> accepts: the number parser insists on a separator behind
  the digits and takes the NUL that ends the string for an unexpected character, so the result
  is \<open>Null\<close> with \<open>CRUST_JSON_NUMBER_ERROR\<close>.
\<close>

theorem Load_rejects_bare_integers:
  "Load fo status (std_to_string n) = Inr (JNull, Json_error CRUST_JSON_NUMBER_ERROR)"
proof -
  obtain c s where cs: "std_to_string n = c # s" "is_digit c \<or> c = CHR ''-''"
    by (rule std_to_string_Cons)
  have a: "at (StdString (std_to_string n)) 0 ([] @ c # s @ [NUL])" using cs by (simp add: at_def)
  have c: "\<not> is_space c" "c \<noteq> CHR ''[''" "c \<noteq> CHR ''{''" "c \<noteq> QUOTE" "c \<noteq> CHR ''t''" "c \<noteq> CHR ''f''"
      "c \<noteq> CHR ''n''" using cs(2) by (auto simp: is_digit_code is_space_code)
  have "number_loop (std_to_string n @ [NUL]) 0 [] False
      = Inr (std_to_string n, False, NUL, length (std_to_string n) + 1)"
    using number_loop_digits [OF std_to_string_chars, of NUL n "[]" 0 "[]" False]
    by (simp add: is_digit_code)
  then have num: "parse_number fo (StdString (std_to_string n)) status 0
      = Inr (JNull, Json_error CRUST_JSON_NUMBER_ERROR, length (std_to_string n) + 1)"
    by (simp add: parse_number_def ends_number_def is_space_code)
  have "parse_next fo (StdString (std_to_string n)) (src_len (StdString (std_to_string n)) + 1) status 0
      = Inr (JNull, Json_error CRUST_JSON_NUMBER_ERROR, length (std_to_string n) + 1)"
    by (rule parse_next_dispatch [OF a _ c(1), of "src_len (StdString (std_to_string n)) + 1" fo status])
      (use c cs(2) num in auto)
  then show ?thesis using cs(1) by (simp add: Load_def parse_text_def)
qed

lemma parse_next_quote:
  assumes "at src off (QUOTE # s)" and "src_len src < n + off"
  shows "parse_next fo src n st off = parse_string src st off"
  by (rule parse_next_dispatch [of src off "[]" QUOTE s n fo st])
    (use assms in \<open>simp_all add: is_space_code\<close>)

text \<open>
  A string that is not closed makes the parser read past its text: after an opening quote
  the loop looks for the closing one and for nothing else, so any escaped text without one ends
  in a read out of bounds and in no error status.
\<close>

theorem Load_overreads_unterminated_string:
  "(Load fo status (QUOTE # json_escape s) :: ('f::zero json \<times> crust_status) res)
   = Inl (Undefined Read_out_of_bounds)"
proof -
  let ?src = "StdString (QUOTE # json_escape s)"
  have a: "at ?src 0 (QUOTE # json_escape s @ [NUL])" by (simp add: at_def)
  have d: "drop (0 + 1) (src_mem ?src) = json_escape s @ [NUL]" by simp
  have "(parse_string ?src status 0 :: 'f parsed) = Inl (Undefined Read_out_of_bounds)"
    unfolding parse_string_def d string_loop_unterminated by (rule rbind_Inl)
  then have "(parse_next fo ?src (src_len ?src + 1) status 0 :: 'f parsed)
      = Inl (Undefined Read_out_of_bounds)"
    by (subst parse_next_quote [OF a]) (simp only: add_0_right, assumption)
  then show ?thesis by (simp only: Load_def parse_text_def rbind_Inl list.size if_False) simp
qed

lemma parse_number_empty_exponent:
  "number_loop (drop off (src_mem src)) off [] False = Inr (val, isd, CHR ''e'', o1) \<Longrightarrow>
   src_at src o1 = Inr c \<Longrightarrow> c \<noteq> CHR ''-'' \<Longrightarrow>
   exponent_loop (drop (o1 + 1) (src_mem src)) (o1 + 1) [] = Inr (Some [], o2) \<Longrightarrow>
   parse_number fo src st off = Inl (Throws Invalid_argument)"
  by (simp add: parse_number_def std_stol_def)

text \<open>
  The first digit of an exponent is lost: a number with a one-digit exponent leaves
  \<open>std::stol\<close> an empty string and the parser throws \<open>std::invalid_argument\<close>.
\<close>

theorem parse_number_loses_exponent_digit:
  "parse_number fo (StdString (std_to_string n @ [CHR ''e'', digit_char (d mod 10), CHR '',''])) status 0
   = Inl (Throws Invalid_argument)"
proof -
  let ?d = "digit_char (d mod 10)"
  let ?src = "StdString (std_to_string n @ [CHR ''e'', ?d, CHR '',''])"
  have num: "number_loop (src_mem ?src) 0 [] False
      = Inr (std_to_string n, False, CHR ''e'', length (std_to_string n) + 1)"
    using number_loop_digits [OF std_to_string_chars, of "CHR ''e''" n _ 0 "[]" False]
    by (simp add: is_digit_code)
  have "is_digit ?d" by simp
  then have d: "?d \<noteq> CHR ''-''" by (rule is_digit_not_sign(1))
  have at: "at ?src (length (std_to_string n) + 1) [?d, CHR '','', NUL]"
    by (simp add: at_def)
  have "drop (length (std_to_string n) + 1 + 1) (src_mem ?src) = [CHR '','', NUL]"
    using at_Cons [OF at] by (simp add: at_def)
  moreover have "exponent_loop [CHR '','', NUL] m [] = Inr (Some [], m + 1)" for m
    by (simp add: is_digit_code)
  ultimately have e: "exponent_loop (drop (length (std_to_string n) + 1 + 1) (src_mem ?src)) m []
      = Inr (Some [], m + 1)" for m by (simp only:)
  show ?thesis
    by (rule parse_number_empty_exponent [OF _ at_src_at [OF at] d e]) (simp only: drop_0 num)
qed

end
