(* ===== verification/Json_Roundtrip.thy ===== *)
theory Json_Roundtrip
  imports Json_Grammar
begin

text \<open>
  Serialisation and parsing together. \<open>json_wf\<close> describes the values whose text is read back as
  the same value; for them both serialisers produce a text of the value in the sense of
  \<open>json_text\<close>, and by the theorem of \<open>Json_Grammar\<close> the parser returns it.

  What \<open>json_wf\<close> leaves out is what the format cannot carry: a \<open>double\<close> (\<open>1.0\<close> is written as
  \<open>1\<close>), a \<open>Pair\<close> (written as nothing), a string that begins with the tag of a hash or a buffer,
  a key that is not in escaped form, an ordered object whose internal names are not those of
  a fresh insertion of its entries, and in the indented form an ordered object without entries
  (written as \<open>{}\<close>).
\<close>

section \<open>Values that survive\<close>

text \<open>Keys are written as they are: they must be the escaped form of some text.\<close>

definition key_ok :: "string \<Rightarrow> bool" where
  "key_ok k \<longleftrightarrow>
     (case string_loop (k @ [QUOTE]) 0 [] of
        Inr (Some k0, n) \<Rightarrow> json_escape k0 = k \<and> untagged k0
      | _ \<Rightarrow> False)"

definition entry_ok :: "string \<Rightarrow> bool" where
  "entry_ok t \<longleftrightarrow> fio_dump_name t = Some (rkey_key t) \<and> key_ok (rkey_key t)"

function (sequential) json_wf :: "bool \<Rightarrow> bool \<Rightarrow> 'f::zero json \<Rightarrow> bool" where
  "json_wf in_type indented JNull = True"
| "json_wf in_type indented (JBoolean b) = True"
| "json_wf in_type indented (JIntegral n) = in_long n"
| "json_wf in_type indented (JString s) = untagged s"
| "json_wf in_type indented (JHash bs) = (length bs = hash_length)"
| "json_wf in_type indented (JBuffer bs) = True"
| "json_wf in_type indented (JArray xs) = list_all (json_wf in_type indented) xs"
| "json_wf in_type indented (JObject m) =
     (map_sorted m \<and> list_all (\<lambda>(k, v). key_ok k \<and> json_wf in_type indented v) m)"
| "json_wf in_type indented (JFIO m) =
     (in_type \<and> (indented \<longrightarrow> fio_part m FIO_VAL \<noteq> [])
      \<and> put_members Make_FIOObject (fio_view m) = Inr (JFIO m)
      \<and> list_all (\<lambda>(t, v). entry_ok t \<and> json_wf in_type indented v) (fio_part m FIO_VAL))"
| "json_wf in_type indented (JFlat m) =
     (in_type \<and> (indented \<longrightarrow> fio_part m FIO_VAL \<noteq> [])
      \<and> put_members Make_FlatObject (fio_view m) = Inr (JFlat m)
      \<and> list_all (\<lambda>(t, v). entry_ok t \<and> json_wf in_type indented v) (fio_part m FIO_VAL))"
| "json_wf in_type indented (JFloating f) = False"
| "json_wf in_type indented (JPair s j) = False"
  by pat_completeness auto
termination
  by (relation "measure (\<lambda>(in_type, indented, j). size j)")
    (auto dest: size_fio_part size_entry size_element simp: less_Suc_eq_le intro: less_imp_le)

lemma key_ok_escaped: "key_ok k \<Longrightarrow> \<exists>k0. k = json_escape k0 \<and> untagged k0"
  by (auto simp: key_ok_def split: sum.splits prod.splits option.splits)

lemma plain_key_ok: "plain k \<Longrightarrow> untagged k \<Longrightarrow> key_ok k"
  using string_loop_escaped [of k "[]" 0 "[]"] by (simp add: key_ok_def json_escape_plain)

section \<open>Hashes stay bounded\<close>

lemma hashes_map_put:
  "list_all (\<lambda>(k, v). hashes_bounded v) m \<Longrightarrow> hashes_bounded x \<Longrightarrow>
   list_all (\<lambda>(k, v). hashes_bounded v) (map_put k x m)"
  by (induction k x m rule: map_put.induct) auto

lemma hashes_slot:
  "list_all (\<lambda>(k, v). hashes_bounded v) m \<Longrightarrow> hashes_bounded (slot m k)"
  by (auto simp: slot_def list_all_iff dest: map_of_SomeD split: option.split)

lemma hashes_fio_part:
  "list_all (\<lambda>(k, v). hashes_bounded v) m \<Longrightarrow> list_all (\<lambda>(k, v). hashes_bounded v) (fio_part m p)"
  using hashes_slot [of m p] by (auto simp: fio_part_def ObjectRange_def split: json.split)

lemma hashes_fio_index:
  assumes "list_all (\<lambda>(k, v). hashes_bounded v) m" "hashes_bounded v" "fio_index m k (\<lambda>_. v) = Inr m'"
  shows "list_all (\<lambda>(k, v). hashes_bounded v) m'"
  using assms
  by (auto simp: fio_index_def Let_def res_simps intro!: hashes_map_put hashes_fio_part split: if_splits)

lemma hashes_set_key:
  "hashes_bounded j \<Longrightarrow> hashes_bounded v \<Longrightarrow> set_key j k v = Inr j' \<Longrightarrow> hashes_bounded j'"
  by (cases j) (auto simp: set_key_def index_key_def res_simps
      intro: hashes_map_put dest: hashes_fio_index)

lemma hashes_put_members:
  "put_members j kvs = Inr j' \<Longrightarrow> hashes_bounded j \<Longrightarrow> \<forall>(k, v) \<in> set kvs. hashes_bounded v \<Longrightarrow>
   hashes_bounded j'"
proof (induction j kvs rule: put_members.induct)
  case (2 j k v kvs)
  then show ?case by (auto simp: res_simps dest: hashes_set_key)
qed simp

lemma Make_FlatObject_eq: "Make_FlatObject = JFlat fio_empty"
  by (simp add: Make_FlatObject_def Make_def SetType_def fio_empty_def)

lemma hashes_Make [simp]: "hashes_bounded Make_FIOObject" "hashes_bounded Make_FlatObject"
  by (auto simp: Make_FIOObject_eq Make_FlatObject_eq fio_empty_def intro!: hashes_map_put)

lemma json_wf_hashes: "json_wf in_type indented j \<Longrightarrow> hashes_bounded j"
proof (induction in_type indented j rule: json_wf.induct)
  case (9 in_type indented m)
  show ?case
    by (rule hashes_put_members [of Make_FIOObject "fio_view m"])
      (use 9 in \<open>auto simp: fio_view_def list_all_iff\<close>)
next
  case (10 in_type indented m)
  show ?case
    by (rule hashes_put_members [of Make_FlatObject "fio_view m"])
      (use 10 in \<open>auto simp: fio_view_def list_all_iff\<close>)
qed (auto simp: list_all_iff)

section \<open>Objects are rebuilt\<close>

lemma put_members_sorted: "map_sorted (acc @ kvs) \<Longrightarrow> put_members (JObject acc) kvs = Inr (JObject (acc @ kvs))"
proof (induction kvs arbitrary: acc)
  case (Cons kv kvs)
  obtain k v where kv: "kv = (k, v)" by fastforce
  have "map_put k v acc = acc @ [(k, v)]"
    by (rule map_put_last) (use Cons.prems kv in \<open>auto simp: map_sorted_def sorted_wrt_append\<close>)
  then show ?case using Cons.IH [of "acc @ [(k, v)]"] Cons.prems kv
    by (simp add: set_key_def index_key_def)
qed simp

section \<open>The loops of \<open>dump_vector\<close>\<close>

definition dumpv_text ::
  "(crust_status \<Rightarrow> 'f::zero json \<Rightarrow> (crust_status \<times> byte list) res) \<Rightarrow> 'f json \<Rightarrow> bool" where
  "dumpv_text d x \<longleftrightarrow> (\<exists>t. d CRUST_SUCCESS x = Inr (CRUST_SUCCESS, bytes_of t) \<and> json_text t x)"

lemma bytes_of_simps [simp]: "bytes_of (s @ t) = bytes_of s @ bytes_of t"
  "bytes_of (c # s) = byte_of_char c # bytes_of s" "bytes_of [] = []"
  by (simp_all add: bytes_of_def)

lemma dumpv_elements_text:
  "list_all (dumpv_text d) (x # xs) \<Longrightarrow>
   \<exists>u. elements_text u (x # xs)
     \<and> (\<forall>v. dumpv_elements d (x # xs) CRUST_SUCCESS v True = Inr (CRUST_SUCCESS, v @ bytes_of u, True))
     \<and> (\<forall>v. dumpv_elements d (x # xs) CRUST_SUCCESS v False
           = Inr (CRUST_SUCCESS, v @ bytes_of ('','' @ u), True))"
proof (induction xs arbitrary: x)
  case Nil
  then obtain t where t: "d CRUST_SUCCESS x = Inr (CRUST_SUCCESS, bytes_of t)" "json_text t x"
    by (auto simp: dumpv_text_def)
  then have "elements_text (t @ []) [x]" by (intro element_last) simp_all
  with t show ?case by (auto simp: Insert_vector_def intro!: exI [of _ t])
next
  case (Cons y ys)
  then obtain t where t: "d CRUST_SUCCESS x = Inr (CRUST_SUCCESS, bytes_of t)" "json_text t x"
    by (auto simp: dumpv_text_def)
  from Cons obtain u where u: "elements_text u (y # ys)"
    "\<And>v. dumpv_elements d (y # ys) CRUST_SUCCESS v False
         = Inr (CRUST_SUCCESS, v @ bytes_of ('','' @ u), True)" by fastforce
  have "elements_text (t @ [] @ '','' @ [] @ u) (x # y # ys)"
    by (intro element_more t u) simp_all
  with t u(2) show ?case
    by (intro exI [of _ "t @ '','' @ u"]) (simp add: Insert_vector_def Let_def del: dumpv_elements.simps(2)
        add: dumpv_elements.simps(2) [of d x])
qed

lemma dumpv_members_text:
  assumes "list_all (\<lambda>(k, x). name k = Some (nm k) \<and> key_ok (nm k) \<and> hashes_bounded x \<and> dumpv_text d x)
             (e # es)"
  shows "\<exists>u. members_text u (map (\<lambda>(k, x). (nm k, x)) (e # es))
     \<and> (\<forall>v. dumpv_members d name (e # es) CRUST_SUCCESS v True
           = Inr (CRUST_SUCCESS, v @ bytes_of u, True))
     \<and> (\<forall>v. dumpv_members d name (e # es) CRUST_SUCCESS v False
           = Inr (CRUST_SUCCESS, v @ bytes_of ('','' @ u), True))"
  using assms
proof (induction es arbitrary: e)
  case Nil
  obtain k x where e: "e = (k, x)" by fastforce
  from Nil e obtain t k0 where t: "d CRUST_SUCCESS x = Inr (CRUST_SUCCESS, bytes_of t)" "json_text t x"
    and k: "nm k = json_escape k0" "untagged k0" "name k = Some (json_escape k0)"
    and h: "hashes_bounded x"
    using key_ok_escaped by (fastforce simp: dumpv_text_def)
  have "members_text (quoted (json_escape k0) @ [] @ '':'' @ [] @ t @ []) [(json_escape k0, x)]"
    by (intro member_last k t h) simp_all
  with t k show ?case
    by (auto simp: e Insert_def Insert_vector_def quoted_def Let_def
        intro!: exI [of _ "quoted (json_escape k0) @ '':'' @ t"])
next
  case (Cons e' es)
  obtain k x where e: "e = (k, x)" by fastforce
  from Cons.prems e obtain t k0 where t: "d CRUST_SUCCESS x = Inr (CRUST_SUCCESS, bytes_of t)" "json_text t x"
    and k: "nm k = json_escape k0" "untagged k0" "name k = Some (json_escape k0)"
    and h: "hashes_bounded x"
    using key_ok_escaped by (fastforce simp: dumpv_text_def)
  from Cons obtain u where u: "members_text u (map (\<lambda>(k, x). (nm k, x)) (e' # es))"
    "\<And>v. dumpv_members d name (e' # es) CRUST_SUCCESS v False
         = Inr (CRUST_SUCCESS, v @ bytes_of ('','' @ u), True)" by fastforce
  have "members_text (quoted (json_escape k0) @ [] @ '':'' @ [] @ t @ [] @ '','' @ [] @ u)
      ((json_escape k0, x) # map (\<lambda>(k, x). (nm k, x)) (e' # es))"
    by (intro member_more k t h u) simp_all
  with t k u(2) show ?case
    by (intro exI [of _ "quoted (json_escape k0) @ '':'' @ t @ '','' @ u"])
      (simp add: e Insert_def Insert_vector_def Let_def quoted_def del: dumpv_members.simps(2)
        add: dumpv_members.simps(2) [of d name k x])
qed

lemma dumpv_leaf: "d CRUST_SUCCESS x = Inr (Insert [] t) \<Longrightarrow> json_text t x \<Longrightarrow> dumpv_text d x"
  by (auto simp: dumpv_text_def Insert_def)

lemma json_hexstring_text: "json_hexstring bs (length bs) True = Inr (hex_text bs)"
  by (simp add: json_hexstring_eq hexstring_all hex_text_def)

lemma dumpv_object:
  assumes "list_all (\<lambda>(k, x). name k = Some (nm k) \<and> key_ok (nm k) \<and> hashes_bounded x \<and> dumpv_text d x) es"
    and "cl \<in> {Class_Object, Class_FIOObject, Class_FlatObject}"
    and "put_members (Make cl) (map (\<lambda>(k, x). (nm k, x)) es) = Inr j"
  shows "\<exists>t. rbind (dumpv_members d name es CRUST_SUCCESS (bytes_of (''{'' @ object_tag cl)) True)
               (\<lambda>r. Inr (dumpv_close CHR ''}'' r)) = Inr (CRUST_SUCCESS, bytes_of t) \<and> json_text t j"
proof (cases es)
  case Nil
  have "json_text (''{'' @ object_tag cl @ [] @ ''}'') (Make cl :: 'a json)"
    by (rule text_object_empty [OF _ assms(2)]) simp
  with Nil assms(3) show ?thesis
    by (intro exI [of _ "''{'' @ object_tag cl @ [] @ ''}''"]) (simp add: dumpv_close_def)
next
  case (Cons e es')
  with assms(1) obtain u where "members_text u (map (\<lambda>(k, x). (nm k, x)) es)"
    "\<And>v. dumpv_members d name es CRUST_SUCCESS v True = Inr (CRUST_SUCCESS, v @ bytes_of u, True)"
    using dumpv_members_text [of name nm d e es'] by fastforce
  with assms(2,3) text_object [of "[]" u _ cl j] show ?thesis
    by (intro exI [of _ "''{'' @ object_tag cl @ [] @ u @ ''}''"]) (simp add: dumpv_close_def)
qed

lemma fio_entries_view:
  "map (\<lambda>(k, x). (rkey_key k, x)) (fio_part m FIO_VAL) = fio_view m"
  by (simp add: fio_view_def)

lemma entry_okD: "entry_ok t \<Longrightarrow> fio_dump_name t = Some (rkey_key t) \<and> key_ok (rkey_key t)"
  by (simp add: entry_ok_def)

lemma dump_vector_text: "json_wf True indented j \<Longrightarrow> dumpv_text (dump_vector fo True) j"
proof (induction True indented j rule: json_wf.induct)
  case (7 indented xs)
  show ?case
  proof (cases xs)
    case Nil
    with text_array_empty [of "[]"] show ?thesis
      by (auto simp: dumpv_text_def dumpv_close_def intro!: exI [of _ "''[]''"])
  next
    case (Cons x xs')
    from 7 have "list_all (dumpv_text (dump_vector fo True)) xs" by (auto simp: list_all_iff)
    then obtain u where "elements_text u xs" "\<And>v. dumpv_elements (dump_vector fo True) xs CRUST_SUCCESS v True
        = Inr (CRUST_SUCCESS, v @ bytes_of u, True)"
      using dumpv_elements_text [of "dump_vector fo True" x xs'] Cons by auto
    with text_array [of "[]" u xs] show ?thesis
      by (auto simp: dumpv_text_def dumpv_close_def intro!: exI [of _ "''['' @ u @ '']''"])
  qed
next
  case (8 indented m)
  have "list_all (\<lambda>(k, x). Some k = Some (id k) \<and> key_ok (id k) \<and> hashes_bounded x
          \<and> dumpv_text (dump_vector fo True) x) m"
    using 8 json_wf_hashes by (fastforce simp: list_all_iff)
  from dumpv_object [OF this, of Class_Object "JObject m"] 8 put_members_sorted [of "[]" m]
  show ?case by (simp add: dumpv_text_def object_tag_def)
next
  case (9 indented m)
  have "list_all (\<lambda>(k, x). fio_dump_name k = Some (rkey_key k) \<and> key_ok (rkey_key k) \<and> hashes_bounded x
          \<and> dumpv_text (dump_vector fo True) x) (fio_part m FIO_VAL)"
    using 9 json_wf_hashes entry_okD by (fastforce simp: list_all_iff)
  from dumpv_object [OF this, of Class_FIOObject "JFIO m"] 9(2)
  show ?case
    by (simp add: dumpv_text_def object_tag_def fio_entries_view Insert_def flip: Make_FIOObject_def)
next
  case (10 indented m)
  have "list_all (\<lambda>(k, x). fio_dump_name k = Some (rkey_key k) \<and> key_ok (rkey_key k) \<and> hashes_bounded x
          \<and> dumpv_text (dump_vector fo True) x) (fio_part m FIO_VAL)"
    using 10 json_wf_hashes entry_okD by (fastforce simp: list_all_iff)
  from dumpv_object [OF this, of Class_FlatObject "JFlat m"] 10(2)
  show ?case
    by (simp add: dumpv_text_def object_tag_def fio_entries_view Insert_def flip: Make_FlatObject_def)
next
  case (5 indented bs)
  then show ?case
    using json_hexstring_text [of bs] by (intro dumpv_leaf [OF _ text_hash]) simp_all
next
  case (6 indented bs)
  then show ?case
    using json_hexstring_text [of bs] by (intro dumpv_leaf [OF _ text_buffer]) simp_all
next
  case (2 indented b)
  then show ?case
    by (cases b) (auto intro: dumpv_leaf [OF _ text_true] dumpv_leaf [OF _ text_false])
qed (auto intro: dumpv_leaf [OF _ text_null] dumpv_leaf [OF _ text_integral]
      dumpv_leaf [OF _ text_string])

section \<open>The loops of \<open>dump\<close>\<close>

definition dump_text :: "('f::zero json \<Rightarrow> string res) \<Rightarrow> 'f json \<Rightarrow> bool" where
  "dump_text d x \<longleftrightarrow> (\<exists>t. d x = Inr t \<and> json_text t x)"

lemma dump_leaf: "d x = Inr t \<Longrightarrow> json_text t x \<Longrightarrow> dump_text d x"
  by (auto simp: dump_text_def)

lemma dump_elements_text:
  assumes "list_all (dump_text d) (x # xs)" and "blank w'"
  shows "\<exists>u. (\<forall>w. blank w \<longrightarrow> elements_text (u @ w) (x # xs))
     \<and> (\<forall>s. dump_elements d ('','' @ w') (x # xs) s True = Inr (s @ u))
     \<and> (\<forall>s. dump_elements d ('','' @ w') (x # xs) s False = Inr (s @ '','' @ w' @ u))"
  using assms(1)
proof (induction xs arbitrary: x)
  case Nil
  then obtain t where t: "d x = Inr t" "json_text t x" by (auto simp: dump_text_def)
  then show ?case by (intro exI [of _ t]) (auto intro: element_last)
next
  case (Cons y ys)
  then obtain t where t: "d x = Inr t" "json_text t x" by (auto simp: dump_text_def)
  have "list_all (dump_text d) (y # ys)" using Cons.prems by simp
  from Cons.IH [OF this] obtain u where u: "\<And>w. blank w \<Longrightarrow> elements_text (u @ w) (y # ys)"
    "\<And>s. dump_elements d ('','' @ w') (y # ys) s False = Inr (s @ '','' @ w' @ u)" by blast
  have "elements_text ((t @ '','' @ w' @ u) @ w) (x # y # ys)" if "blank w" for w
    using element_more [OF t(2) _ assms(2) u(1) [OF that], of "[]"] by simp
  with t(1) u(2) show ?case
    by (intro exI [of _ "t @ '','' @ w' @ u"])
      (simp del: dump_elements.simps(2) append_Cons add: dump_elements.simps(2) [of d _ x])
qed

lemma dump_members_text:
  assumes "list_all (\<lambda>(k, x). name k = Some (nm k) \<and> key_ok (nm k) \<and> hashes_bounded x \<and> dump_text d x)
             (e # es)"
    and b: "blank w'" "blank pad"
  shows "\<exists>u. (\<forall>w. blank w \<longrightarrow> members_text (u @ w) (map (\<lambda>(k, x). (nm k, x)) (e # es)))
     \<and> (\<forall>s. dump_members d name ('','' @ w') pad (e # es) s True = Inr (s @ pad @ u, False))
     \<and> (\<forall>s. dump_members d name ('','' @ w') pad (e # es) s False
           = Inr (s @ '','' @ w' @ pad @ u, False))"
  using assms(1)
proof (induction es arbitrary: e)
  case Nil
  obtain k x where e: "e = (k, x)" by fastforce
  from Nil e obtain t k0 where t: "d x = Inr t" "json_text t x"
    and k: "nm k = json_escape k0" "untagged k0" "name k = Some (json_escape k0)"
    and h: "hashes_bounded x"
    using key_ok_escaped by (fastforce simp: dump_text_def)
  have "members_text (quoted (json_escape k0) @ '' '' @ '':'' @ '' '' @ t @ w) [(json_escape k0, x)]"
    if "blank w" for w
    by (intro member_last k t h that) (simp_all add: is_space_code)
  with t k show ?case
    by (intro exI [of _ "quoted (json_escape k0) @ '' : '' @ t"]) (simp add: e quoted_def)
next
  case (Cons e' es)
  obtain k x where e: "e = (k, x)" by fastforce
  from Cons.prems e obtain t k0 where t: "d x = Inr t" "json_text t x"
    and k: "nm k = json_escape k0" "untagged k0" "name k = Some (json_escape k0)"
    and h: "hashes_bounded x"
    using key_ok_escaped by (fastforce simp: dump_text_def)
  have "list_all (\<lambda>(k, x). name k = Some (nm k) \<and> key_ok (nm k) \<and> hashes_bounded x \<and> dump_text d x)
          (e' # es)" using Cons.prems by simp
  from Cons.IH [OF this] obtain u where u:
    "\<And>w. blank w \<Longrightarrow> members_text (u @ w) (map (\<lambda>(k, x). (nm k, x)) (e' # es))"
    "\<And>s. dump_members d name ('','' @ w') pad (e' # es) s False
         = Inr (s @ '','' @ w' @ pad @ u, False)" by blast
  have "members_text (quoted (json_escape k0) @ '' '' @ '':'' @ '' '' @ t @ [] @ '','' @ (w' @ pad) @ u @ w)
      ((json_escape k0, x) # map (\<lambda>(k, x). (nm k, x)) (e' # es))" if "blank w" for w
    by (intro member_more k t h u that) (simp_all add: is_space_code b)
  with t k u(2) show ?case
    by (intro exI [of _ "quoted (json_escape k0) @ '' : '' @ t @ '','' @ w' @ pad @ u"])
      (simp add: e quoted_def del: dump_members.simps(2) add: dump_members.simps(2) [of d name _ pad k x])
qed

lemma blank_repeat: "blank tab \<Longrightarrow> blank (repeat_tab depth tab)"
  by (auto simp: repeat_tab_def blank_def list_all_iff)

lemma blank_drop: "blank w \<Longrightarrow> blank (drop n w)"
  by (auto simp: blank_def list_all_iff dest: in_set_dropD)

lemma dump_object:
  assumes "list_all (\<lambda>(k, x). name k = Some (nm k) \<and> key_ok (nm k) \<and> hashes_bounded x \<and> dump_text d x)
             (e # es)"
    and b: "blank w'" "blank pad" "blank w0" "blank w1"
    and cl: "cl \<in> {Class_Object, Class_FIOObject, Class_FlatObject}"
    and put: "put_members (Make cl) (map (\<lambda>(k, x). (nm k, x)) (e # es)) = Inr j"
  shows "\<exists>t. rbind (dump_members d name ('','' @ w') pad (e # es) (''{'' @ object_tag cl @ w0) True)
               (\<lambda>(s, skip). Inr (if skip then ''{}'' else s @ w1 @ ''}'')) = Inr t \<and> json_text t j"
proof -
  obtain u where u: "\<And>w. blank w \<Longrightarrow> members_text (u @ w) (map (\<lambda>(k, x). (nm k, x)) (e # es))"
    "\<And>s. dump_members d name ('','' @ w') pad (e # es) s True = Inr (s @ pad @ u, False)"
    using dump_members_text [OF assms(1) b(1,2)] by blast
  have "json_text (''{'' @ object_tag cl @ (w0 @ pad) @ (u @ w1) @ ''}'') j"
    by (rule text_object [OF _ u(1) [OF b(4)] cl put]) (simp add: b)
  then show ?thesis unfolding u(2) by simp
qed

lemma dump_gives_text:
  "json_wf in_type True j \<Longrightarrow> blank tab \<Longrightarrow> dump_text (dump fo depth tab in_type) j"
proof (induction in_type True j arbitrary: depth rule: json_wf.induct)
  case (7 in_type xs)
  let ?pad = "repeat_tab depth tab"
  have pad: "blank ([LF] @ ?pad)" "blank ([LF] @ drop 2 ?pad)"
    using blank_repeat [OF 7(3)] blank_drop by (auto simp: is_space_code)
  show ?case
  proof (cases xs)
    case Nil
    have "json_text (''['' @ ([LF] @ ?pad @ [LF] @ drop 2 ?pad) @ '']'') (JArray [])"
      by (rule text_array_empty) (use pad in simp)
    with Nil show ?thesis by (simp add: dump_text_def Let_def)
  next
    case (Cons x xs')
    have sep: "'', '' @ [LF] @ ?pad = '','' @ ('' '' @ [LF] @ ?pad)" by simp
    from 7 have "list_all (dump_text (dump fo (depth + 1) tab in_type)) xs" by (auto simp: list_all_iff)
    then obtain u where u: "\<And>w. blank w \<Longrightarrow> elements_text (u @ w) xs"
      "\<And>s. dump_elements (dump fo (depth + 1) tab in_type) ('', '' @ [LF] @ ?pad) xs s True = Inr (s @ u)"
      using dump_elements_text [of "dump fo (depth + 1) tab in_type" x xs' "'' '' @ [LF] @ ?pad"] Cons pad
      unfolding sep by (auto simp: is_space_code)
    have "json_text (''['' @ ([LF] @ ?pad) @ (u @ [LF] @ drop 2 ?pad) @ '']'') (JArray xs)"
      by (intro text_array u pad)
    then show ?thesis using u(2) by (simp add: dump_text_def Let_def)
  qed
next
  case (8 in_type m)
  let ?pad = "repeat_tab depth tab"
  have pad: "blank ?pad" "blank ([LF] @ drop 2 ?pad)" "blank [LF]"
    using blank_repeat [OF 8(3)] blank_drop by (auto simp: is_space_code)
  show ?case
  proof (cases m)
    case Nil
    have "json_text (''{'' @ object_tag Class_Object @ [] @ ''}'') (Make Class_Object :: 'a json)"
      by (rule text_object_empty) simp_all
    with Nil show ?thesis by (simp add: dump_text_def object_tag_def)
  next
    case (Cons e es)
    have "list_all (\<lambda>(k, x). Some k = Some (id k) \<and> key_ok (id k) \<and> hashes_bounded x
            \<and> dump_text (dump fo (depth + 1) tab in_type) x) (e # es)"
      using 8 json_wf_hashes Cons by (fastforce simp: list_all_iff)
    from dump_object [OF this pad(3) pad(1) pad(3) pad(2), of Class_Object "JObject m"]
      8 put_members_sorted [of "[]" m] Cons
    show ?thesis by (simp add: dump_text_def object_tag_def Let_def cong: if_cong)
  qed
next
  case (9 in_type m)
  let ?pad = "repeat_tab depth tab"
  have pad: "blank ?pad" "blank ([LF] @ drop 2 ?pad)" "blank [LF]"
    using blank_repeat [OF 9(3)] blank_drop by (auto simp: is_space_code)
  from 9 obtain e es where V: "fio_part m FIO_VAL = e # es" by (cases "fio_part m FIO_VAL") auto
  have "list_all (\<lambda>(k, x). fio_dump_name k = Some (rkey_key k) \<and> key_ok (rkey_key k) \<and> hashes_bounded x
          \<and> dump_text (dump fo (depth + 1) tab in_type) x) (e # es)"
    using 9 json_wf_hashes entry_okD V by (fastforce simp: list_all_iff)
  from dump_object [OF this pad(3) pad(1) pad(3) pad(2), of Class_FIOObject "JFIO m"]
    9(2) fio_entries_view [of m] V
  show ?case
    by (simp add: dump_text_def object_tag_def Let_def cong: if_cong flip: Make_FIOObject_def)
next
  case (10 in_type m)
  have pad: "blank []" "blank '' ''" by (simp_all add: is_space_code)
  from 10 obtain e es where V: "fio_part m FIO_VAL = e # es" by (cases "fio_part m FIO_VAL") auto
  have "list_all (\<lambda>(k, x). fio_dump_name k = Some (rkey_key k) \<and> key_ok (rkey_key k) \<and> hashes_bounded x
          \<and> dump_text (dump fo depth tab in_type) x) (e # es)"
    using 10 json_wf_hashes entry_okD V by (fastforce simp: list_all_iff)
  from dump_object [OF this pad(2) pad(1) pad(2) pad(2), of Class_FlatObject "JFlat m"]
    10(2) fio_entries_view [of m] V
  show ?case
    by (simp add: dump_text_def object_tag_def Let_def cong: if_cong flip: Make_FlatObject_def)
next
  case (2 in_type b)
  then show ?case
    by (cases b) (auto intro: dump_leaf [OF _ text_true] dump_leaf [OF _ text_false])
next
  case (5 in_type bs)
  then show ?case
    using json_hexstring_text [of bs] by (intro dump_leaf [OF _ text_hash]) simp_all
next
  case (6 in_type bs)
  then show ?case
    using json_hexstring_text [of bs] by (intro dump_leaf [OF _ text_buffer]) simp_all
qed (auto intro: dump_leaf [OF _ text_null] dump_leaf [OF _ text_integral]
      dump_leaf [OF _ text_string])

section \<open>Properties\<close>

text \<open>
  C6. What \<open>dump\<close> writes, \<open>Load\<close> reads back: for a well-formed value that is no bare integer
  and any indentation made of white space, \<open>dump\<close> succeeds and loading its text yields the same
  value and leaves the status as it was.
\<close>

theorem Load_dump_roundtrip:
  assumes "json_wf in_type True j" and "\<not> is_integral j" and "blank tab"
  shows "\<exists>t. dump fo depth tab in_type j = Inr t \<and> Load fo' status t = Inr (j, status)"
proof -
  obtain t where t: "dump fo depth tab in_type j = Inr t" "json_text t j"
    using dump_gives_text [OF assms(1,3)] by (auto simp: dump_text_def)
  have "Load fo' status ([] @ t @ []) = Inr (j, status)"
    by (rule conjunct1 [OF Load_text [OF t(2) _ assms(2), where data_size = 1]]) simp_all
  with t(1) show ?thesis by auto
qed

definition json_example :: "int json" where
  "json_example =
     JArray [JObject [(''id'', JIntegral (- 12)), (''k'', JHash (replicate 32 255))],
             JString [QUOTE, LF, CHR ''x''], JBuffer [1, 171], JNull, JBoolean False,
             JFIO [(FIO_KEY, JObject [(''a'', JString ''1-a''), (''b'', JString ''0-b'')]),
                   (FIO_VAL, JObject [(''0-b'', JIntegral 7), (''1-a'', JArray [])])]]"

lemma json_example_wf: "json_wf True True json_example" "json_wf True False json_example"
  by code_simp+

theorem Load_dump_roundtrip_witness:
  "\<exists>t. dump int_ops 1 ''  '' True json_example = Inr t
       \<and> Load int_ops CRUST_SUCCESS t = Inr (json_example, CRUST_SUCCESS)"
  by (rule Load_dump_roundtrip [OF json_example_wf(1)])
    (simp_all add: json_example_def is_integral_def is_space_code)

text \<open>
  What \<open>dump_vector\<close> writes with type tags, the overload of \<open>Load\<close> for a pointer reads back:
  the status stays \<open>CRUST_SUCCESS\<close>, the bytes are a complete text and no byte behind them is
  read.
\<close>

theorem Load_dump_vector_roundtrip:
  assumes "json_wf True indented j" and "\<not> is_integral j"
  shows "\<exists>v. dump_vector_in_type fo CRUST_SUCCESS j = Inr (CRUST_SUCCESS, v)
             \<and> Load_raw fo' status v (length v) = Inr (j, status)"
proof -
  obtain t where t: "dump_vector fo True CRUST_SUCCESS j = Inr (CRUST_SUCCESS, bytes_of t)"
    "json_text t j"
    using dump_vector_text [OF assms(1)] by (auto simp: dumpv_text_def)
  have "length (bytes_of t) \<noteq> 0"
    using json_text_starts(1) [OF t(2)] by (simp add: starts_value_def bytes_of_def)
  then have "Load_raw fo' status (bytes_of ([] @ t @ [])) (length (bytes_of t)) = Inr (j, status)"
    by (intro conjunct2 [OF Load_text [OF t(2) _ assms(2)]]) simp_all
  with t(1) show ?thesis by (auto simp: dump_vector_in_type_def)
qed

theorem Load_dump_vector_roundtrip_witness:
  "\<exists>v. dump_vector_in_type int_ops CRUST_SUCCESS json_example = Inr (CRUST_SUCCESS, v)
       \<and> Load_raw int_ops CRUST_SUCCESS v (length v) = Inr (json_example, CRUST_SUCCESS)"
  by (rule Load_dump_vector_roundtrip [OF json_example_wf(2)])
    (simp add: json_example_def is_integral_def)

text \<open>
  An entry of an ordered object under the empty key is stored and counted but never written:
  its internal name ends with the separator, which both serialisers pass over.
\<close>

theorem dump_omits_empty_key:
  "\<exists>j. set_key Make_FIOObject [] v = Inr j \<and> hasKey j [] \<and> size_json j = 1
       \<and> dump fo depth tab in_type j = Inr ''{}''"
proof -
  let ?m = "map_put FIO_VAL (JObject [([CHR ''0'', FIO_SEPARATER], v)])
              (map_put FIO_KEY (JObject [([], JString [CHR ''0'', FIO_SEPARATER])]) fio_empty)"
  have "set_key Make_FIOObject [] v = Inr (JFIO ?m)"
    unfolding Make_FIOObject_eq set_key_JFIO
    by (simp add: fio_index_def fio_rkey_def fio_hasKey_def slot_def Let_def)
  moreover have "fio_dump_name [CHR ''0'', FIO_SEPARATER] = None"
    by (simp add: fio_dump_name_def rkey_tag_def FIO_SEPARATER_def)
  ultimately show ?thesis
    by (simp add: hasKey_def fio_hasKey_def size_json_def Let_def)
qed

end
