(* ===== verification/Thread_Pool.thy ===== *)
theory Thread_Pool
  imports Prelude "HOL-Library.Multiset"
begin

text \<open>
  The class \<open>ThreadPool\<close> (\<open>sgx/src/include/httplib.h\<close>): the queue of jobs through which the
  thread that listens hands each accepted connection to the workers.

  The pool is a step relation. One thread owns the pool: it calls \<open>enqueue\<close> any number of times
  and then \<open>shutdown\<close>, as \<open>listen_internal\<close> does. The other threads are the workers. Every
  acquisition and release of \<open>mutex_\<close>, every test of the predicate of the condition variable and
  every change of the shared state is a step of its own, and the steps of the threads interleave
  in any order. A thread that waits for the condition variable goes on when it is notified or at
  any other moment (a spurious wakeup), and then takes the mutex and tests the predicate again.
\<close>

section \<open>The pool\<close>

text \<open>
  Where a worker is in its loop. \<open>W_lock\<close>: about to take the mutex, at the head of the loop or
  after a wakeup; \<open>W_test\<close>: about to test the predicate; \<open>W_blocked\<close>: waiting for the condition
  variable; \<open>W_decide\<close>: the predicate was true; \<open>W_run\<close>: running a job; \<open>W_exited\<close>: out of the
  loop.
\<close>

datatype 'j worker_pc = W_lock | W_test | W_blocked | W_decide | W_run 'j | W_exited

text \<open>
  Where the owner is: outside the pool, in \<open>enqueue\<close> (before the mutex, before \<open>push_back\<close>,
  before \<open>notify_one\<close>, before the end of the scope of the lock), in \<open>shutdown\<close> (before the
  mutex, before \<open>shutdown_ = true\<close>, before the end of the scope, before \<open>notify_all\<close>, joining
  the threads from number \<open>k\<close> on) or after it.
\<close>

datatype 'j owner_pc =
    O_idle
  | O_enq_lock 'j
  | O_push 'j
  | O_notify
  | O_enq_unlock
  | O_sd_lock
  | O_sd_set
  | O_sd_unlock
  | O_notify_all
  | O_join nat
  | O_done

datatype pool_thread = Owner | Worker nat

record 'j pool =
  jobs_list :: "'j list"
  shutdown_flag :: bool
  pool_mutex :: "pool_thread option"
  worker_pcs :: "nat \<Rightarrow> 'j worker_pc"
  owner_at :: "'j owner_pc"
  enqueued :: "'j list"
  begun :: "'j list"
  ended :: "'j list"

definition pool_init :: "'j pool" where
  "pool_init =
     \<lparr>jobs_list = [], shutdown_flag = False, pool_mutex = None, worker_pcs = (\<lambda>_. W_lock),
      owner_at = O_idle, enqueued = [], begun = [], ended = []\<rparr>"

text \<open>
  The steps of the owner: \<open>enqueue\<close> and \<open>shutdown\<close>. \<open>notify_one\<close> wakes one of the waiting
  threads if there is one; \<open>join\<close> waits until the thread has ended.
\<close>

inductive owner_step :: "nat \<Rightarrow> 'j pool \<Rightarrow> 'j pool \<Rightarrow> bool" for n where
  call_enqueue: "owner_at s = O_idle \<Longrightarrow> owner_step n s (s\<lparr>owner_at := O_enq_lock j\<rparr>)"
| enq_lock: "owner_at s = O_enq_lock j \<Longrightarrow> pool_mutex s = None \<Longrightarrow>
    owner_step n s (s\<lparr>owner_at := O_push j, pool_mutex := Some Owner\<rparr>)"
| push_back: "owner_at s = O_push j \<Longrightarrow>
    owner_step n s (s\<lparr>owner_at := O_notify, jobs_list := jobs_list s @ [j],
                      enqueued := enqueued s @ [j]\<rparr>)"
| notify_one: "owner_at s = O_notify \<Longrightarrow> t < n \<Longrightarrow> worker_pcs s t = W_blocked \<Longrightarrow>
    owner_step n s (s\<lparr>owner_at := O_enq_unlock, worker_pcs := (worker_pcs s)(t := W_lock)\<rparr>)"
| notify_none: "owner_at s = O_notify \<Longrightarrow> (\<forall>t < n. worker_pcs s t \<noteq> W_blocked) \<Longrightarrow>
    owner_step n s (s\<lparr>owner_at := O_enq_unlock\<rparr>)"
| enq_unlock: "owner_at s = O_enq_unlock \<Longrightarrow>
    owner_step n s (s\<lparr>owner_at := O_idle, pool_mutex := None\<rparr>)"
| call_shutdown: "owner_at s = O_idle \<Longrightarrow> owner_step n s (s\<lparr>owner_at := O_sd_lock\<rparr>)"
| sd_lock: "owner_at s = O_sd_lock \<Longrightarrow> pool_mutex s = None \<Longrightarrow>
    owner_step n s (s\<lparr>owner_at := O_sd_set, pool_mutex := Some Owner\<rparr>)"
| sd_set: "owner_at s = O_sd_set \<Longrightarrow>
    owner_step n s (s\<lparr>owner_at := O_sd_unlock, shutdown_flag := True\<rparr>)"
| sd_unlock: "owner_at s = O_sd_unlock \<Longrightarrow>
    owner_step n s (s\<lparr>owner_at := O_notify_all, pool_mutex := None\<rparr>)"
| notify_all: "owner_at s = O_notify_all \<Longrightarrow>
    owner_step n s (s\<lparr>owner_at := O_join 0,
      worker_pcs := (\<lambda>t. if worker_pcs s t = W_blocked then W_lock else worker_pcs s t)\<rparr>)"
| join: "owner_at s = O_join k \<Longrightarrow> k < n \<Longrightarrow> worker_pcs s k = W_exited \<Longrightarrow>
    owner_step n s (s\<lparr>owner_at := O_join (k + 1)\<rparr>)"
| joined: "owner_at s = O_join n \<Longrightarrow> owner_step n s (s\<lparr>owner_at := O_done\<rparr>)"

text \<open>The steps of worker \<open>t\<close>: the loop of \<open>worker::operator()\<close>.\<close>

inductive worker_step :: "nat \<Rightarrow> 'j pool \<Rightarrow> 'j pool \<Rightarrow> bool" for t where
  w_lock: "worker_pcs s t = W_lock \<Longrightarrow> pool_mutex s = None \<Longrightarrow>
    worker_step t s (s\<lparr>worker_pcs := (worker_pcs s)(t := W_test), pool_mutex := Some (Worker t)\<rparr>)"
| w_true: "worker_pcs s t = W_test \<Longrightarrow> jobs_list s \<noteq> [] \<or> shutdown_flag s \<Longrightarrow>
    worker_step t s (s\<lparr>worker_pcs := (worker_pcs s)(t := W_decide)\<rparr>)"
| w_wait: "worker_pcs s t = W_test \<Longrightarrow> jobs_list s = [] \<Longrightarrow> \<not> shutdown_flag s \<Longrightarrow>
    worker_step t s (s\<lparr>worker_pcs := (worker_pcs s)(t := W_blocked), pool_mutex := None\<rparr>)"
| w_break: "worker_pcs s t = W_decide \<Longrightarrow> shutdown_flag s \<Longrightarrow> jobs_list s = [] \<Longrightarrow>
    worker_step t s (s\<lparr>worker_pcs := (worker_pcs s)(t := W_exited), pool_mutex := None\<rparr>)"
| w_pop: "worker_pcs s t = W_decide \<Longrightarrow> jobs_list s = j # js \<Longrightarrow>
    worker_step t s (s\<lparr>worker_pcs := (worker_pcs s)(t := W_run j), jobs_list := js,
                       begun := begun s @ [j], pool_mutex := None\<rparr>)"
| w_return: "worker_pcs s t = W_run j \<Longrightarrow>
    worker_step t s (s\<lparr>worker_pcs := (worker_pcs s)(t := W_lock), ended := ended s @ [j]\<rparr>)"

definition prompt_step :: "nat \<Rightarrow> 'j pool \<Rightarrow> 'j pool \<Rightarrow> bool" where
  "prompt_step n s s' \<longleftrightarrow> owner_step n s s' \<or> (\<exists>t < n. worker_step t s s')"

definition pool_step :: "nat \<Rightarrow> 'j pool \<Rightarrow> 'j pool \<Rightarrow> bool" where
  "pool_step n s s' \<longleftrightarrow>
     prompt_step n s s'
     \<or> (\<exists>t < n. worker_pcs s t = W_blocked \<and> s' = s\<lparr>worker_pcs := (worker_pcs s)(t := W_lock)\<rparr>)"

lemma pool_stepE:
  assumes "pool_step n s s'"
  obtains "owner_step n s s'"
  | t where "t < n" "worker_step t s s'"
  | t where "t < n" "worker_pcs s t = W_blocked" "s' = s\<lparr>worker_pcs := (worker_pcs s)(t := W_lock)\<rparr>"
  using assms unfolding pool_step_def prompt_step_def by blast

section \<open>The jobs\<close>

text \<open>The jobs that the workers are running.\<close>

fun job_of :: "'j worker_pc \<Rightarrow> 'j multiset" where
  "job_of (W_run j) = {#j#}"
| "job_of _ = {#}"

definition running :: "nat \<Rightarrow> 'j pool \<Rightarrow> 'j multiset" where
  "running n s = (\<Sum>t<n. job_of (worker_pcs s t))"

lemma sum_upd:
  fixes f :: "'a \<Rightarrow> 'b::comm_monoid_add" and n :: nat
  assumes "t < n"
  shows "(\<Sum>u<n. f ((g(t := x)) u)) + f (g t) = (\<Sum>u<n. f (g u)) + f x"
proof -
  have t: "t \<in> {..<n}" using assms by simp
  have "sum (\<lambda>u. f ((g(t := x)) u)) ({..<n} - {t}) = sum (\<lambda>u. f (g u)) ({..<n} - {t})"
    by (rule sum.cong) auto
  then have "(\<Sum>u<n. f ((g(t := x)) u)) = f x + (\<Sum>u\<in>{..<n} - {t}. f (g u))"
    using sum.remove [OF finite_lessThan t, of "\<lambda>u. f ((g(t := x)) u)"] by simp
  then show ?thesis
    by (simp only: sum.remove [OF finite_lessThan t, of "\<lambda>u. f (g u)"] ac_simps)
qed

text \<open>What was enqueued has begun or is queued, in this order; what has begun is running or has ended.\<close>

definition jobs_inv :: "nat \<Rightarrow> 'j pool \<Rightarrow> bool" where
  "jobs_inv n s \<longleftrightarrow>
     enqueued s = begun s @ jobs_list s \<and> mset (begun s) = mset (ended s) + running n s"

lemma running_upd:
  "t < n \<Longrightarrow> worker_pcs s' = (worker_pcs s)(t := pc) \<Longrightarrow>
   running n s' + job_of (worker_pcs s t) = running n s + job_of pc"
  unfolding running_def by (simp only: sum_upd)

lemma running_cong:
  "(\<And>t. t < n \<Longrightarrow> job_of (worker_pcs s' t) = job_of (worker_pcs s t)) \<Longrightarrow> running n s' = running n s"
  unfolding running_def by (rule sum.cong) auto

lemma jobs_inv_owner: "owner_step n s s' \<Longrightarrow> jobs_inv n s \<Longrightarrow> jobs_inv n s'"
  by (cases rule: owner_step.cases, assumption) (auto simp: jobs_inv_def cong: running_cong intro: running_cong)

lemma jobs_inv_worker:
  assumes "worker_step t s s'" and "t < n" and "jobs_inv n s"
  shows "jobs_inv n s'"
  using assms(1)
proof (cases rule: worker_step.cases)
  case w_lock
  with assms running_upd [of t n s' s W_test] show ?thesis by (simp add: jobs_inv_def)
next
  case w_true
  with assms running_upd [of t n s' s W_decide] show ?thesis by (simp add: jobs_inv_def)
next
  case w_wait
  with assms running_upd [of t n s' s W_blocked] show ?thesis by (simp add: jobs_inv_def)
next
  case w_break
  with assms running_upd [of t n s' s W_exited] show ?thesis by (simp add: jobs_inv_def)
next
  case (w_pop j js)
  with assms running_upd [of t n s' s "W_run j"] show ?thesis by (simp add: jobs_inv_def)
next
  case (w_return j)
  with assms running_upd [of t n s' s W_lock] show ?thesis by (simp add: jobs_inv_def)
qed

lemma jobs_inv_step:
  assumes "pool_step n s s'" and "jobs_inv n s"
  shows "jobs_inv n s'"
  using assms(1)
proof (cases rule: pool_stepE)
  case (3 t)
  with assms(2) running_upd [of t n s' s W_lock] show ?thesis by (simp add: jobs_inv_def)
qed (use assms(2) jobs_inv_owner jobs_inv_worker in blast)+

lemma jobs_inv_init: "jobs_inv n pool_init"
  by (simp add: jobs_inv_def pool_init_def running_def)

lemma jobs_inv_reachable: "(pool_step n)\<^sup>*\<^sup>* pool_init s \<Longrightarrow> jobs_inv n s"
  by (induction rule: rtranclp_induct) (auto intro: jobs_inv_init jobs_inv_step)

section \<open>Control\<close>

text \<open>Who is in a critical section, and where the owner is with respect to \<open>shutdown\<close>.\<close>

fun w_holds :: "'j worker_pc \<Rightarrow> bool" where
  "w_holds W_test = True"
| "w_holds W_decide = True"
| "w_holds _ = False"

fun o_holds :: "'j owner_pc \<Rightarrow> bool" where
  "o_holds (O_push j) = True"
| "o_holds O_notify = True"
| "o_holds O_enq_unlock = True"
| "o_holds O_sd_set = True"
| "o_holds O_sd_unlock = True"
| "o_holds _ = False"

fun o_shut :: "'j owner_pc \<Rightarrow> bool" where
  "o_shut O_sd_unlock = True"
| "o_shut O_notify_all = True"
| "o_shut (O_join k) = True"
| "o_shut O_done = True"
| "o_shut _ = False"

fun o_notified :: "'j owner_pc \<Rightarrow> bool" where
  "o_notified (O_join k) = True"
| "o_notified O_done = True"
| "o_notified _ = False"

fun joined_upto :: "nat \<Rightarrow> 'j owner_pc \<Rightarrow> nat" where
  "joined_upto n (O_join k) = k"
| "joined_upto n O_done = n"
| "joined_upto n _ = 0"

fun asleep :: "'j worker_pc \<Rightarrow> bool" where
  "asleep W_blocked = True"
| "asleep W_exited = True"
| "asleep _ = False"

definition mutex_inv :: "nat \<Rightarrow> 'j pool \<Rightarrow> bool" where
  "mutex_inv n s \<longleftrightarrow>
     (\<forall>t < n. w_holds (worker_pcs s t) = (pool_mutex s = Some (Worker t)))
     \<and> o_holds (owner_at s) = (pool_mutex s = Some Owner)
     \<and> (\<forall>t. pool_mutex s = Some (Worker t) \<longrightarrow> t < n)"

text \<open>What a worker's place says of the flag, of the queue being empty and of \<open>notify_all\<close>.\<close>

fun w_fine :: "bool \<Rightarrow> bool \<Rightarrow> bool \<Rightarrow> 'j worker_pc \<Rightarrow> bool" where
  "w_fine flag none notified W_exited \<longleftrightarrow> flag \<and> none"
| "w_fine flag none notified W_decide \<longleftrightarrow> flag \<or> \<not> none"
| "w_fine flag none notified W_blocked \<longleftrightarrow> \<not> notified"
| "w_fine flag none notified _ \<longleftrightarrow> True"

definition shutdown_inv :: "nat \<Rightarrow> 'j pool \<Rightarrow> bool" where
  "shutdown_inv n s \<longleftrightarrow>
     shutdown_flag s = o_shut (owner_at s)
     \<and> (\<forall>t < n. w_fine (shutdown_flag s) (jobs_list s = []) (o_notified (owner_at s)) (worker_pcs s t))
     \<and> joined_upto n (owner_at s) \<le> n
     \<and> (\<forall>t < joined_upto n (owner_at s). worker_pcs s t = W_exited)"

text \<open>A queued job is never left to sleeping workers, except just before \<open>notify_one\<close>.\<close>

definition awake_inv :: "nat \<Rightarrow> 'j pool \<Rightarrow> bool" where
  "awake_inv n s \<longleftrightarrow>
     jobs_list s \<noteq> [] \<longrightarrow> owner_at s = O_notify \<or> shutdown_flag s \<or> (\<exists>t < n. \<not> asleep (worker_pcs s t))"

definition pool_inv :: "nat \<Rightarrow> 'j pool \<Rightarrow> bool" where
  "pool_inv n s \<longleftrightarrow> jobs_inv n s \<and> mutex_inv n s \<and> shutdown_inv n s \<and> awake_inv n s"

lemma mutex_invI:
  "(\<And>u. u < n \<Longrightarrow> w_holds (worker_pcs s u) = (pool_mutex s = Some (Worker u))) \<Longrightarrow>
   o_holds (owner_at s) = (pool_mutex s = Some Owner) \<Longrightarrow>
   (\<And>u. pool_mutex s = Some (Worker u) \<Longrightarrow> u < n) \<Longrightarrow> mutex_inv n s"
  by (simp add: mutex_inv_def)

lemma mutex_invD:
  assumes "mutex_inv n s"
  shows "u < n \<Longrightarrow> w_holds (worker_pcs s u) = (pool_mutex s = Some (Worker u))"
    and "o_holds (owner_at s) = (pool_mutex s = Some Owner)"
    and "pool_mutex s = Some (Worker u) \<Longrightarrow> u < n"
  using assms by (simp_all add: mutex_inv_def)

lemma mutex_inv_step:
  assumes "pool_step n s s'" and inv: "mutex_inv n s"
  shows "mutex_inv n s'"
proof -
  note w = mutex_invD(1) [OF inv] and o = mutex_invD(2) [OF inv] and r = mutex_invD(3) [OF inv]
  from assms(1) show ?thesis
  proof (cases rule: pool_stepE)
    case 1
    then show ?thesis by (cases rule: owner_step.cases) (use w o r in \<open>intro mutex_invI; force\<close>)+
  next
    case (2 t)
    note wt = w [OF \<open>t < n\<close>]
    from 2(2) show ?thesis
      by (cases rule: worker_step.cases) (use w o r wt \<open>t < n\<close> in \<open>intro mutex_invI; force\<close>)+
  next
    case (3 t)
    note wt = w [OF \<open>t < n\<close>]
    from 3 w o r wt show ?thesis by (intro mutex_invI) auto
  qed
qed

lemma w_fine_push: "w_fine False e no pc \<Longrightarrow> w_fine False False no pc"
  by (cases pc) auto

lemma w_fine_shut: "w_fine False e no pc \<Longrightarrow> w_fine True e no pc"
  by (cases pc) auto

lemma w_fine_notify_all: "w_fine f e no pc \<Longrightarrow> w_fine f e no' (if pc = W_blocked then W_lock else pc)"
  by (cases pc) auto

lemma w_fine_pop: "w_fine f False no pc \<Longrightarrow> pc \<noteq> W_decide \<Longrightarrow> w_fine f e no pc"
  by (cases pc) auto

lemma shutdown_invI:
  "shutdown_flag s = o_shut (owner_at s) \<Longrightarrow>
   (\<And>u. u < n \<Longrightarrow> w_fine (shutdown_flag s) (jobs_list s = []) (o_notified (owner_at s)) (worker_pcs s u)) \<Longrightarrow>
   joined_upto n (owner_at s) \<le> n \<Longrightarrow>
   (\<And>u. u < joined_upto n (owner_at s) \<Longrightarrow> worker_pcs s u = W_exited) \<Longrightarrow> shutdown_inv n s"
  by (simp add: shutdown_inv_def)

lemma shutdown_invD:
  assumes "shutdown_inv n s"
  shows "shutdown_flag s = o_shut (owner_at s)"
    and "u < n \<Longrightarrow> w_fine (shutdown_flag s) (jobs_list s = []) (o_notified (owner_at s)) (worker_pcs s u)"
    and "joined_upto n (owner_at s) \<le> n"
    and "u < joined_upto n (owner_at s) \<Longrightarrow> worker_pcs s u = W_exited"
  using assms unfolding shutdown_inv_def by blast+

lemma shutdown_inv_owner:
  assumes "owner_step n s s'" and inv: "shutdown_inv n s"
  shows "shutdown_inv n s'"
proof -
  note flag = shutdown_invD(1) [OF inv] and fine = shutdown_invD(2) [OF inv]
    and upto = shutdown_invD(3,4) [OF inv]
  from assms(1) show ?thesis
  proof (cases rule: owner_step.cases)
    case (push_back j)
    with flag fine w_fine_push show ?thesis by (intro shutdown_invI) auto
  next
    case sd_set
    with flag fine w_fine_shut show ?thesis by (intro shutdown_invI) auto
  next
    case notify_all
    then have "w_fine True (jobs_list s = []) True (if worker_pcs s u = W_blocked then W_lock else worker_pcs s u)"
      if "u < n" for u using w_fine_notify_all [OF fine [OF that]] flag by simp
    with notify_all flag show ?thesis by (intro shutdown_invI) simp_all
  next
    case (join k)
    with flag fine upto show ?thesis by (intro shutdown_invI) (auto simp: less_Suc_eq)
  next
    case joined
    with flag fine upto show ?thesis by (intro shutdown_invI) auto
  qed (use flag fine upto in \<open>intro shutdown_invI; auto\<close>)+
qed

lemma shutdown_inv_worker:
  assumes "worker_step t s s'" and "t < n" and mutex: "mutex_inv n s" and inv: "shutdown_inv n s"
  shows "shutdown_inv n s'"
proof -
  note flag = shutdown_invD(1) [OF inv] and fine = shutdown_invD(2) [OF inv]
    and upto = shutdown_invD(3,4) [OF inv]
  have other: "worker_pcs s u \<noteq> W_decide" if "worker_pcs s t = W_decide" "u < n" "u \<noteq> t" for u
    using mutex_invD(1) [OF mutex, of t] mutex_invD(1) [OF mutex, of u] that \<open>t < n\<close> by auto
  have here: "\<not> t < joined_upto n (owner_at s)" if "worker_pcs s t \<noteq> W_exited"
    using upto(2) that by blast
  from assms(1) show ?thesis
  proof (cases rule: worker_step.cases)
    case w_wait
    with flag fine upto here show ?thesis by (intro shutdown_invI) (auto elim: o_notified.elims)
  next
    case (w_pop j js)
    then have "w_fine (shutdown_flag s) (js = []) (o_notified (owner_at s)) (worker_pcs s u)"
      if "u < n" "u \<noteq> t" for u
      using w_fine_pop [OF _ other] fine [of u] that by simp
    with w_pop flag upto here show ?thesis by (intro shutdown_invI) auto
  qed (use flag fine upto here in \<open>intro shutdown_invI; auto\<close>)+
qed

lemma shutdown_inv_step:
  assumes "pool_step n s s'" and "mutex_inv n s" and inv: "shutdown_inv n s"
  shows "shutdown_inv n s'"
  using assms(1)
proof (cases rule: pool_stepE)
  case (3 t)
  with shutdown_invD [OF inv] show ?thesis by (intro shutdown_invI) auto
qed (use assms shutdown_inv_owner shutdown_inv_worker in blast)+

lemma awake_inv_owner:
  assumes "owner_step n s s'" and "0 < n" and "shutdown_inv n s" and "awake_inv n s"
  shows "awake_inv n s'"
  using assms(1)
proof (cases rule: owner_step.cases)
  case (notify_one t)
  then show ?thesis by (auto simp: awake_inv_def intro: exI [of _ t])
next
  case notify_none
  have "\<not> asleep (worker_pcs s 0) \<or> shutdown_flag s"
    using notify_none(3) shutdown_invD(2) [OF assms(3,2)] assms(2)
    by (cases "worker_pcs s 0") auto
  with notify_none assms(2) show ?thesis by (auto simp: awake_inv_def)
qed (use assms in \<open>auto simp: awake_inv_def\<close>)

lemma awake_inv_worker:
  assumes "worker_step t s s'" and "t < n" and "awake_inv n s"
  shows "awake_inv n s'"
proof -
  have "\<exists>u<n. \<not> asleep (((worker_pcs s)(t := pc)) u)" if "\<not> asleep pc" for pc
    using that \<open>t < n\<close> by (intro exI [of _ t]) simp
  with assms show ?thesis by (cases rule: worker_step.cases) (auto simp: awake_inv_def)
qed

lemma pool_inv_step:
  assumes "pool_step n s s'" and "0 < n" and inv: "pool_inv n s"
  shows "pool_inv n s'"
proof -
  have "awake_inv n s'" using assms(1)
  proof (cases rule: pool_stepE)
    case (3 t)
    then show ?thesis by (auto simp: awake_inv_def intro: exI [of _ t])
  qed (use inv assms(2) awake_inv_owner awake_inv_worker in \<open>unfold pool_inv_def, blast+\<close>)
  with assms jobs_inv_step mutex_inv_step shutdown_inv_step show ?thesis
    unfolding pool_inv_def by blast
qed

lemma pool_inv_init: "pool_inv n pool_init"
  unfolding pool_inv_def
  by (intro conjI jobs_inv_init mutex_invI shutdown_invI) (simp_all add: pool_init_def awake_inv_def)

lemma pool_inv_reachable: "(pool_step n)\<^sup>*\<^sup>* pool_init s \<Longrightarrow> 0 < n \<Longrightarrow> pool_inv n s"
  by (induction rule: rtranclp_induct) (auto intro: pool_inv_init pool_inv_step)

section \<open>Every run gets there\<close>

text \<open>
  \<open>inevitably step goal s\<close>: every run of \<open>step\<close> from \<open>s\<close> comes to a state with \<open>goal\<close>; in
  particular no run ends or goes on for ever before.
\<close>

inductive inevitably :: "('s \<Rightarrow> 's \<Rightarrow> bool) \<Rightarrow> ('s \<Rightarrow> bool) \<Rightarrow> 's \<Rightarrow> bool" for step goal where
  now: "goal s \<Longrightarrow> inevitably step goal s"
| later: "step s s' \<Longrightarrow> (\<forall>t. step s t \<longrightarrow> inevitably step goal t) \<Longrightarrow> inevitably step goal s"

text \<open>
  A system whose steps keep an invariant and lower a rank, and that can step wherever the goal is
  not reached.
\<close>

locale ranked_system =
  fixes step :: "'s \<Rightarrow> 's \<Rightarrow> bool" and inv :: "'s \<Rightarrow> bool" and goal :: "'s \<Rightarrow> bool"
    and rank :: "'s \<Rightarrow> nat"
  assumes keeps: "inv s \<Longrightarrow> step s s' \<Longrightarrow> inv s'"
    and lowers: "inv s \<Longrightarrow> step s s' \<Longrightarrow> rank s' < rank s"
    and progress: "inv s \<Longrightarrow> \<not> goal s \<Longrightarrow> \<exists>s'. step s s'"
begin

lemma inevitable: "inv s \<Longrightarrow> inevitably step goal s"
proof (induction "rank s" arbitrary: s rule: less_induct)
  case less
  show ?case
  proof (cases "goal s")
    case False
    with progress less.prems obtain s' where "step s s'" by blast
    moreover have "\<forall>t. step s t \<longrightarrow> inevitably step goal t"
      using less keeps lowers by blast
    ultimately show ?thesis by (rule later)
  qed (rule now)
qed

end

text \<open>The rank of the pool: no worker step and no step of \<open>shutdown\<close> raises it.\<close>

fun w_rank :: "'j worker_pc \<Rightarrow> nat" where
  "w_rank W_exited = 0"
| "w_rank W_blocked = 1"
| "w_rank W_decide = 2"
| "w_rank W_test = 3"
| "w_rank W_lock = 4"
| "w_rank (W_run j) = 5"

fun o_rank :: "nat \<Rightarrow> 'j owner_pc \<Rightarrow> nat" where
  "o_rank n O_sd_lock = 4 * n + 5"
| "o_rank n O_sd_set = 4 * n + 4"
| "o_rank n O_sd_unlock = 4 * n + 3"
| "o_rank n O_notify_all = 4 * n + 2"
| "o_rank n (O_join k) = n - k + 1"
| "o_rank n _ = 0"

definition workers_rank :: "nat \<Rightarrow> 'j pool \<Rightarrow> nat" where
  "workers_rank n s = (\<Sum>t<n. w_rank (worker_pcs s t))"

definition pool_rank :: "nat \<Rightarrow> 'j pool \<Rightarrow> nat" where
  "pool_rank n s = workers_rank n s + 4 * length (jobs_list s) + o_rank n (owner_at s)"

lemma workers_rank_upd:
  "t < n \<Longrightarrow> worker_pcs s' = (worker_pcs s)(t := pc) \<Longrightarrow>
   workers_rank n s' + w_rank (worker_pcs s t) = workers_rank n s + w_rank pc"
  unfolding workers_rank_def by (simp only: sum_upd)

lemma worker_step_lowers:
  assumes "worker_step t s s'" and "t < n"
  shows "pool_rank n s' < pool_rank n s"
  using assms(1)
proof (cases rule: worker_step.cases)
  case w_lock
  with workers_rank_upd [OF \<open>t < n\<close>, of s' s W_test] show ?thesis by (simp add: pool_rank_def)
next
  case w_true
  with workers_rank_upd [OF \<open>t < n\<close>, of s' s W_decide] show ?thesis by (simp add: pool_rank_def)
next
  case w_wait
  with workers_rank_upd [OF \<open>t < n\<close>, of s' s W_blocked] show ?thesis by (simp add: pool_rank_def)
next
  case w_break
  with workers_rank_upd [OF \<open>t < n\<close>, of s' s W_exited] show ?thesis by (simp add: pool_rank_def)
next
  case (w_pop j js)
  with workers_rank_upd [OF \<open>t < n\<close>, of s' s "W_run j"] show ?thesis by (simp add: pool_rank_def)
next
  case (w_return j)
  with workers_rank_upd [OF \<open>t < n\<close>, of s' s W_lock] show ?thesis by (simp add: pool_rank_def)
qed

text \<open>Any worker that is awake can step, or the one that holds the mutex can.\<close>

lemma worker_can_step:
  assumes "shutdown_inv n s" and "t < n" and "\<not> asleep (worker_pcs s t)"
    and "pool_mutex s = None \<or> worker_pcs s t \<noteq> W_lock"
  shows "\<exists>s'. worker_step t s s'"
proof (cases "worker_pcs s t")
  case W_lock
  with assms(4) w_lock show ?thesis by blast
next
  case W_test
  then show ?thesis using w_true w_wait by blast
next
  case W_decide
  with shutdown_invD(2) [OF assms(1,2)] have "jobs_list s \<noteq> [] \<or> shutdown_flag s \<and> jobs_list s = []" by auto
  with W_decide show ?thesis by (cases "jobs_list s") (auto intro: w_pop w_break)
next
  case (W_run j)
  with w_return [of s t j] show ?thesis by blast
qed (use assms(3) in simp_all)

lemma some_worker_can_step:
  assumes "mutex_inv n s" and "shutdown_inv n s" and "t < n" and "\<not> asleep (worker_pcs s t)"
    and "\<not> o_holds (owner_at s)"
  shows "\<exists>u<n. \<exists>s'. worker_step u s s'"
proof (cases "pool_mutex s = None \<or> worker_pcs s t \<noteq> W_lock")
  case True
  with worker_can_step assms show ?thesis by blast
next
  case False
  with assms(5) mutex_invD(2) [OF assms(1)] obtain u where u: "pool_mutex s = Some (Worker u)"
    by (metis option.exhaust pool_thread.exhaust)
  with mutex_invD(3) [OF assms(1)] have "u < n" by blast
  moreover from this u mutex_invD(1) [OF assms(1)] have "w_holds (worker_pcs s u)" by blast
  then have "\<not> asleep (worker_pcs s u)" "worker_pcs s u \<noteq> W_lock"
    by (cases "worker_pcs s u"; simp)+
  ultimately show ?thesis using worker_can_step [OF assms(2)] by blast
qed

section \<open>The workers alone\<close>

definition workers_step :: "nat \<Rightarrow> 'j pool \<Rightarrow> 'j pool \<Rightarrow> bool" where
  "workers_step n s s' \<longleftrightarrow> (\<exists>t < n. worker_step t s s')"

definition all_jobs_ended :: "nat \<Rightarrow> 'j list \<Rightarrow> 'j pool \<Rightarrow> bool" where
  "all_jobs_ended n js s \<longleftrightarrow>
     begun s = js \<and> mset (ended s) = mset js \<and> jobs_list s = [] \<and> (\<forall>t < n. asleep (worker_pcs s t))"

lemma asleep_ended:
  assumes "jobs_inv n s" and "\<forall>t<n. asleep (worker_pcs s t)" and "jobs_list s = []"
  shows "all_jobs_ended n (enqueued s) s"
proof -
  have "job_of pc = {#}" if "asleep pc" for pc :: "'a worker_pc"
    using that by (cases pc) auto
  with assms(2) have "running n s = {#}" by (simp add: running_def)
  with assms show ?thesis by (simp add: all_jobs_ended_def jobs_inv_def)
qed

lemma worker_step_keeps:
  "worker_step t s s' \<Longrightarrow> owner_at s' = owner_at s \<and> shutdown_flag s' = shutdown_flag s \<and> enqueued s' = enqueued s"
  by (cases rule: worker_step.cases, assumption) auto

lemma worker_pool_step: "worker_step t s s' \<Longrightarrow> t < n \<Longrightarrow> pool_step n s s'"
  unfolding pool_step_def prompt_step_def by blast

definition idle_inv :: "nat \<Rightarrow> 'j list \<Rightarrow> 'j pool \<Rightarrow> bool" where
  "idle_inv n js s \<longleftrightarrow> 0 < n \<and> pool_inv n s \<and> owner_at s = O_idle \<and> enqueued s = js"

interpretation idle_pool: ranked_system "workers_step n" "idle_inv n js" "all_jobs_ended n js" "pool_rank n"
proof
  fix s s' :: "'a pool"
  assume inv: "idle_inv n js s"
  show "workers_step n s s' \<Longrightarrow> idle_inv n js s'"
    using inv worker_step_keeps worker_pool_step pool_inv_step
    unfolding workers_step_def idle_inv_def by metis
  show "workers_step n s s' \<Longrightarrow> pool_rank n s' < pool_rank n s"
    using worker_step_lowers unfolding workers_step_def by blast
  show "\<exists>s'. workers_step n s s'" if "\<not> all_jobs_ended n js s"
  proof -
    have i: "jobs_inv n s" "mutex_inv n s" "shutdown_inv n s" "awake_inv n s" "owner_at s = O_idle"
      using inv by (simp_all add: idle_inv_def pool_inv_def)
    have "\<exists>t<n. \<not> asleep (worker_pcs s t)"
    proof (rule ccontr)
      assume none: "\<not> ?thesis"
      with i(4,5) shutdown_invD(1) [OF i(3)] have "jobs_list s = []" by (auto simp: awake_inv_def)
      with asleep_ended [OF i(1)] none inv that show False by (auto simp: idle_inv_def)
    qed
    with some_worker_can_step [OF i(2,3)] i(5) show ?thesis unfolding workers_step_def by fastforce
  qed
qed

section \<open>Shutting down\<close>

fun shutting_down :: "'j owner_pc \<Rightarrow> bool" where
  "shutting_down O_sd_lock = True"
| "shutting_down O_sd_set = True"
| "shutting_down O_sd_unlock = True"
| "shutting_down O_notify_all = True"
| "shutting_down (O_join k) = True"
| "shutting_down O_done = True"
| "shutting_down _ = False"

lemma owner_shutting_down:
  "owner_step n s s' \<Longrightarrow> shutting_down (owner_at s) \<Longrightarrow>
   shutting_down (owner_at s') \<and> enqueued s' = enqueued s"
  by (cases rule: owner_step.cases, assumption) auto

lemma workers_rank_notify_all:
  "workers_rank n (s\<lparr>owner_at := pc, worker_pcs :=
      (\<lambda>t. if worker_pcs s t = W_blocked then W_lock else worker_pcs s t)\<rparr>) \<le> workers_rank n s + 3 * n"
proof -
  have "(\<Sum>t<n. w_rank (if worker_pcs s t = W_blocked then W_lock else worker_pcs s t))
        \<le> (\<Sum>t<n. w_rank (worker_pcs s t) + 3)"
    by (rule sum_mono) simp
  also have "\<dots> = workers_rank n s + 3 * n" by (simp add: workers_rank_def sum.distrib)
  finally show ?thesis by (simp add: workers_rank_def)
qed

lemma owner_step_lowers:
  assumes "owner_step n s s'" and "shutting_down (owner_at s)"
  shows "pool_rank n s' < pool_rank n s"
  using assms(1)
proof (cases rule: owner_step.cases)
  case notify_all
  with workers_rank_notify_all [of n s "O_join 0"] show ?thesis by (simp add: pool_rank_def)
qed (use assms(2) in \<open>simp_all add: pool_rank_def workers_rank_def\<close>)

definition pool_closed :: "nat \<Rightarrow> 'j list \<Rightarrow> 'j pool \<Rightarrow> bool" where
  "pool_closed n js s \<longleftrightarrow>
     owner_at s = O_done \<and> (\<forall>t < n. worker_pcs s t = W_exited)
     \<and> jobs_list s = [] \<and> begun s = js \<and> mset (ended s) = mset js"

definition closing_inv :: "nat \<Rightarrow> 'j list \<Rightarrow> 'j pool \<Rightarrow> bool" where
  "closing_inv n js s \<longleftrightarrow>
     0 < n \<and> pool_inv n s \<and> shutting_down (owner_at s) \<and> enqueued s = js"

lemma done_is_closed:
  assumes "0 < n" and "pool_inv n s" and "owner_at s = O_done"
  shows "pool_closed n (enqueued s) s"
proof -
  have i: "jobs_inv n s" "shutdown_inv n s" using assms(2) by (simp_all add: pool_inv_def)
  have ex: "worker_pcs s t = W_exited" if "t < n" for t
    using shutdown_invD(4) [OF i(2), of t] assms(3) that by simp
  with shutdown_invD(2) [OF i(2) assms(1)] assms(1) have "jobs_list s = []" by simp
  with asleep_ended [OF i(1)] ex assms(3) show ?thesis
    by (simp add: all_jobs_ended_def pool_closed_def)
qed

text \<open>Where the owner waits while it shuts down, some worker is awake.\<close>

lemma owner_can_step:
  assumes "mutex_inv n s" and "shutdown_inv n s" and "shutting_down (owner_at s)" and "owner_at s \<noteq> O_done"
  shows "(\<exists>s'. owner_step n s s') \<or> \<not> o_holds (owner_at s) \<and> (\<exists>t<n. \<not> asleep (worker_pcs s t))"
proof (cases "owner_at s")
  case O_sd_lock
  show ?thesis
  proof (cases "pool_mutex s")
    case None
    with O_sd_lock sd_lock show ?thesis by blast
  next
    case (Some a)
    with mutex_invD(2) [OF assms(1)] O_sd_lock obtain t where t: "pool_mutex s = Some (Worker t)"
      by (cases a) auto
    with mutex_invD(3) [OF assms(1)] have "t < n" by blast
    moreover from this t mutex_invD(1) [OF assms(1)] have "w_holds (worker_pcs s t)" by blast
    then have "\<not> asleep (worker_pcs s t)" by (cases "worker_pcs s t") auto
    ultimately show ?thesis using O_sd_lock by auto
  qed
next
  case (O_join k)
  with shutdown_invD(3) [OF assms(2)] have "k < n \<or> k = n" by auto
  then show ?thesis
  proof
    assume k: "k < n"
    with shutdown_invD(2) [OF assms(2) k] O_join have "worker_pcs s k \<noteq> W_blocked" by auto
    with k O_join show ?thesis using join [of s k n] by (cases "worker_pcs s k") auto
  next
    assume "k = n"
    with O_join joined [of s n] show ?thesis by blast
  qed
qed (use assms(3,4) sd_set sd_unlock notify_all in \<open>simp; blast\<close>)+

interpretation closing_pool: ranked_system "prompt_step n" "closing_inv n js" "pool_closed n js" "pool_rank n"
proof
  fix s s' :: "'a pool"
  assume inv: "closing_inv n js s"
  show "prompt_step n s s' \<Longrightarrow> closing_inv n js s'"
    using inv owner_shutting_down worker_step_keeps pool_inv_step
    unfolding pool_step_def prompt_step_def closing_inv_def by metis
  show "prompt_step n s s' \<Longrightarrow> pool_rank n s' < pool_rank n s"
    using inv owner_step_lowers worker_step_lowers unfolding prompt_step_def closing_inv_def by blast
  show "\<exists>s'. prompt_step n s s'" if "\<not> pool_closed n js s"
  proof -
    have i: "0 < n" "pool_inv n s" "mutex_inv n s" "shutdown_inv n s" "shutting_down (owner_at s)"
      using inv by (simp_all add: closing_inv_def pool_inv_def)
    with done_is_closed that inv have "owner_at s \<noteq> O_done" unfolding closing_inv_def by metis
    from owner_can_step [OF i(3-5) this] some_worker_can_step [OF i(3,4)]
    show ?thesis unfolding prompt_step_def by blast
  qed
qed

section \<open>A run\<close>

text \<open>
  Two jobs are enqueued and the first of two workers takes the first; then the owner calls
  \<open>shutdown\<close>.
\<close>

lemma reach_owner:
  "(pool_step n)\<^sup>*\<^sup>* pool_init s \<Longrightarrow> owner_step n s s' \<Longrightarrow> (pool_step n)\<^sup>*\<^sup>* pool_init s'"
  by (erule rtranclp.rtrancl_into_rtrancl) (simp add: pool_step_def prompt_step_def)

lemma reach_worker:
  "(pool_step n)\<^sup>*\<^sup>* pool_init s \<Longrightarrow> t < n \<Longrightarrow> worker_step t s s' \<Longrightarrow> (pool_step n)\<^sup>*\<^sup>* pool_init s'"
  by (erule rtranclp.rtrancl_into_rtrancl) (auto simp: pool_step_def prompt_step_def)

definition pool_example :: "string pool" where
  "pool_example =
     \<lparr>jobs_list = [''b''], shutdown_flag = False, pool_mutex = None,
      worker_pcs = (\<lambda>_. W_lock)(0 := W_run ''a''), owner_at = O_idle,
      enqueued = [''a'', ''b''], begun = [''a''], ended = []\<rparr>"

lemma pool_example_reached: "(pool_step 2)\<^sup>*\<^sup>* pool_init pool_example"
proof -
  have init: "(pool_step 2)\<^sup>*\<^sup>* pool_init
    \<lparr>jobs_list = [], shutdown_flag = False, pool_mutex = None, worker_pcs = (\<lambda>_. W_lock),
     owner_at = O_idle, enqueued = [], begun = [], ended = []\<rparr>" by (simp add: pool_init_def)
  note a = reach_owner [OF reach_owner [OF reach_owner [OF reach_owner [OF reach_owner
    [OF init call_enqueue [of _ _ "''a''"], simplified] enq_lock, simplified] push_back, simplified]
    notify_none, simplified] enq_unlock, simplified]
  note b = reach_owner [OF reach_owner [OF reach_owner [OF reach_owner [OF reach_owner
    [OF a call_enqueue [of _ _ "''b''"], simplified] enq_lock, simplified] push_back, simplified]
    notify_none, simplified] enq_unlock, simplified]
  note w = reach_worker [OF reach_worker [OF reach_worker
    [OF b _ w_lock [of _ 0], simplified] _ w_true [of _ 0], simplified] _ w_pop [of _ 0], simplified]
  show ?thesis using w by (simp add: pool_example_def)
qed

lemma pool_example_shutdown: "(pool_step 2)\<^sup>*\<^sup>* pool_init (pool_example\<lparr>owner_at := O_sd_lock\<rparr>)"
  by (rule reach_owner [OF pool_example_reached call_shutdown]) (simp add: pool_example_def)

section \<open>Properties\<close>

text \<open>
  The queue loses nothing, doubles nothing and keeps the order: in every state the pool can
  reach, however its threads interleave, the jobs enqueued are the jobs that have begun followed
  by the jobs still queued, and the jobs that have begun are, each as often as it was enqueued,
  those that have ended and those that some worker is running.
\<close>

theorem pool_begins_in_order:
  assumes "(pool_step n)\<^sup>*\<^sup>* pool_init s"
  shows "enqueued s = begun s @ jobs_list s \<and> mset (begun s) = mset (ended s) + running n s"
  using jobs_inv_reachable [OF assms] by (simp add: jobs_inv_def)

theorem pool_begins_in_order_witness:
  "enqueued pool_example = begun pool_example @ jobs_list pool_example
   \<and> mset (begun pool_example) = mset (ended pool_example) + running 2 pool_example"
  by (rule pool_begins_in_order [OF pool_example_reached])

text \<open>
  C24. No job waits for the next one (no wakeup is lost): from every reachable state in which the
  owner is outside the pool and has not shut it down, every run of the workers alone comes to a
  state where all jobs enqueued so far have begun in their order and have ended and every worker
  sleeps, when each job returns.
\<close>

theorem idle_pool_ends_all_jobs:
  assumes "(pool_step n)\<^sup>*\<^sup>* pool_init s" and "0 < n" and "owner_at s = O_idle"
  shows "inevitably (workers_step n) (all_jobs_ended n (enqueued s)) s"
  using pool_inv_reachable [OF assms(1,2)] assms(2,3)
  by (intro idle_pool.inevitable) (simp add: idle_inv_def)

theorem idle_pool_ends_all_jobs_witness:
  "inevitably (workers_step 2) (all_jobs_ended 2 [''a'', ''b'']) pool_example"
  using idle_pool_ends_all_jobs [OF pool_example_reached] by (simp add: pool_example_def)

text \<open>
  C9. \<open>shutdown\<close> drains the pool and returns: from every reachable state in which the owner is in
  \<open>shutdown\<close>, every run without spurious wakeups comes to the end of \<open>shutdown\<close>, where every
  worker has left its loop, no job is queued, and every job ever enqueued has begun in order and
  has ended, when each job returns.
\<close>

theorem shutdown_drains:
  assumes "(pool_step n)\<^sup>*\<^sup>* pool_init s" and "0 < n" and "shutting_down (owner_at s)"
  shows "inevitably (prompt_step n) (pool_closed n (enqueued s)) s"
  using pool_inv_reachable [OF assms(1,2)] assms(2,3)
  by (intro closing_pool.inevitable) (simp add: closing_inv_def)

theorem shutdown_drains_witness:
  "inevitably (prompt_step 2) (pool_closed 2 [''a'', ''b'']) (pool_example\<lparr>owner_at := O_sd_lock\<rparr>)"
  using shutdown_drains [OF pool_example_shutdown] by (simp add: pool_example_def)

end
