(* ===== verification/Http_Data.thy ===== *)
theory Http_Data
  imports Prelude
begin

text \<open>
  The data of the HTTP server in \<open>sgx/src/include/httplib.h\<close>: header fields and parameters as
  multimaps, \<open>Request\<close> and \<open>Response\<close> with their accessors and setters.

  A \<open>std::multimap\<close> is the list of its entries in iteration order: ascending by key, and for
  equal keys in the order of insertion. Header fields are compared without regard to case
  (\<open>detail::ci\<close>): two keys are equal when their lower-case forms are. The functions \<open>mm_\<close> take
  the function that brings a key to the form it is compared in. The locale \<open>multimap_laws\<close> is
  what the rest of the development needs of a multimap.
\<close>

section \<open>Multimaps\<close>

definition mm_lower :: "('k \<Rightarrow> 'n::linorder) \<Rightarrow> ('k \<times> 'v) list \<Rightarrow> 'k \<Rightarrow> nat" where
  "mm_lower norm m k = length (takeWhile (\<lambda>(a, b). norm a < norm k) m)"

definition mm_upper :: "('k \<Rightarrow> 'n::linorder) \<Rightarrow> ('k \<times> 'v) list \<Rightarrow> 'k \<Rightarrow> nat" where
  "mm_upper norm m k = length (takeWhile (\<lambda>(a, b). norm a \<le> norm k) m)"

text \<open>\<open>emplace\<close> puts a new entry behind those with an equal key.\<close>

definition mm_emplace :: "('k \<Rightarrow> 'n::linorder) \<Rightarrow> 'k \<Rightarrow> 'v \<Rightarrow> ('k \<times> 'v) list \<Rightarrow> ('k \<times> 'v) list" where
  "mm_emplace norm k v m = take (mm_upper norm m k) m @ (k, v) # drop (mm_upper norm m k) m"

definition mm_erase_range :: "('k \<Rightarrow> 'n::linorder) \<Rightarrow> 'k \<Rightarrow> ('k \<times> 'v) list \<Rightarrow> ('k \<times> 'v) list" where
  "mm_erase_range norm k m = take (mm_lower norm m k) m @ drop (mm_upper norm m k) m"

definition mm_count :: "('k \<Rightarrow> 'n::linorder) \<Rightarrow> ('k \<times> 'v) list \<Rightarrow> 'k \<Rightarrow> nat" where
  "mm_count norm m k = mm_upper norm m k - mm_lower norm m k"

definition mm_has :: "('k \<Rightarrow> 'n::linorder) \<Rightarrow> ('k \<times> 'v) list \<Rightarrow> 'k \<Rightarrow> bool" where
  "mm_has norm m k = (mm_lower norm m k < mm_upper norm m k)"

text \<open>
  \<open>equal_range\<close>, \<open>std::advance\<close> by \<open>id\<close>, comparison with the end of the range: \<open>None\<close> stands for
  the default. Advancing or reading past the end of the map is undefined.
\<close>

definition mm_get :: "('k \<Rightarrow> 'n::linorder) \<Rightarrow> ('k \<times> 'v) list \<Rightarrow> 'k \<Rightarrow> nat \<Rightarrow> 'v option res" where
  "mm_get norm m k idx =
     (let it = mm_lower norm m k + idx in
      if length m < it then Inl (Undefined Read_out_of_bounds)
      else if it = mm_upper norm m k then Inr None
      else if it = length m then Inl (Undefined Read_out_of_bounds)
      else Inr (Some (snd (m ! it))))"

definition mm_values :: "('k \<Rightarrow> 'n::linorder) \<Rightarrow> ('k \<times> 'v) list \<Rightarrow> 'k \<Rightarrow> 'v list" where
  "mm_values norm m k = map snd (filter (\<lambda>(a, b). norm a = norm k) m)"

definition mm_sorted :: "('k \<Rightarrow> 'n::linorder) \<Rightarrow> ('k \<times> 'v) list \<Rightarrow> bool" where
  "mm_sorted norm m \<longleftrightarrow> sorted (map (\<lambda>(a, b). norm a) m)"

locale multimap_laws =
  fixes emplace :: "'k \<Rightarrow> 'v \<Rightarrow> 'm \<Rightarrow> 'm"
    and erase_range :: "'k \<Rightarrow> 'm \<Rightarrow> 'm"
    and values_of :: "'m \<Rightarrow> 'k \<Rightarrow> 'v list"
    and same :: "'k \<Rightarrow> 'k \<Rightarrow> bool"
    and inv :: "'m \<Rightarrow> bool"
  assumes values_emplace: "inv m \<Longrightarrow>
      values_of (emplace k v m) k' = (if same k k' then values_of m k' @ [v] else values_of m k')"
    and values_erase: "inv m \<Longrightarrow>
      values_of (erase_range k m) k' = (if same k k' then [] else values_of m k')"
    and inv_emplace: "inv m \<Longrightarrow> inv (emplace k v m)"
    and inv_erase: "inv m \<Longrightarrow> inv (erase_range k m)"
    and same_refl: "same k k"
begin

text \<open>Erasing a range and emplacing one entry replaces all values of the key by the new one.\<close>

lemma values_replace: "inv m \<Longrightarrow>
    values_of (emplace k v (erase_range k m)) k' = (if same k k' then [v] else values_of m k')"
  by (simp add: values_emplace values_erase inv_erase)

lemma inv_replace: "inv m \<Longrightarrow> inv (emplace k v (erase_range k m))"
  by (simp add: inv_emplace inv_erase)

lemma values_emplace_all: "inv m \<Longrightarrow>
    values_of (fold (\<lambda>(k, v). emplace k v) kvs m) k'
    = values_of m k' @ map snd (filter (\<lambda>(k, v). same k k') kvs)"
proof (induction kvs arbitrary: m)
  case (Cons kv kvs)
  obtain k v where kv: "kv = (k, v)" by fastforce
  show ?case
    using Cons.IH [OF inv_emplace [OF Cons.prems, of k v]] Cons.prems
    by (simp add: kv values_emplace)
qed simp

end

text \<open>Sorted lists are split by the two bounds of a key.\<close>

lemma mm_split:
  assumes "mm_sorted norm m"
  shows "take (mm_lower norm m k) m = filter (\<lambda>(a, b). norm a < norm k) m"
    and "take (mm_upper norm m k) m = filter (\<lambda>(a, b). norm a \<le> norm k) m"
    and "drop (mm_upper norm m k) m = filter (\<lambda>(a, b). norm k < norm a) m"
proof -
  have t: "takeWhile P m = filter P m \<and> dropWhile P m = filter (\<lambda>x. \<not> P x) m"
    if "\<And>x y. norm (fst x) \<le> norm (fst y) \<Longrightarrow> P y \<Longrightarrow> P x" for P
    using assms
  proof (induction m)
    case (Cons x m)
    show ?case
    proof (cases "P x")
      case True
      with Cons show ?thesis by (simp add: mm_sorted_def)
    next
      case False
      have "\<not> P y" if "y \<in> set m" for y
      proof
        assume "P y"
        moreover have "norm (fst x) \<le> norm (fst y)"
          using Cons.prems that by (auto simp: mm_sorted_def split_def)
        ultimately show False using that False \<open>\<And>x y. norm (fst x) \<le> norm (fst y) \<Longrightarrow> P y \<Longrightarrow> P x\<close>
          by blast
      qed
      with False show ?thesis by (simp add: filter_empty_conv)
    qed
  qed simp
  have lt: "takeWhile (\<lambda>(a, b). norm a < norm k) m = filter (\<lambda>(a, b). norm a < norm k) m"
    using t [of "\<lambda>(a, b). norm a < norm k"] by (auto simp: split_def)
  have le: "takeWhile (\<lambda>(a, b). norm a \<le> norm k) m = filter (\<lambda>(a, b). norm a \<le> norm k) m"
    "dropWhile (\<lambda>(a, b). norm a \<le> norm k) m = filter (\<lambda>(a, b). norm k < norm a) m"
    using t [of "\<lambda>(a, b). norm a \<le> norm k"] by (auto simp: split_def not_le)
  show "take (mm_lower norm m k) m = filter (\<lambda>(a, b). norm a < norm k) m"
    unfolding mm_lower_def takeWhile_eq_take [symmetric] by (rule lt)
  show "take (mm_upper norm m k) m = filter (\<lambda>(a, b). norm a \<le> norm k) m"
    unfolding mm_upper_def takeWhile_eq_take [symmetric] by (rule le(1))
  show "drop (mm_upper norm m k) m = filter (\<lambda>(a, b). norm k < norm a) m"
    unfolding mm_upper_def dropWhile_eq_drop [symmetric] by (rule le(2))
qed

lemma mm_sorted_parts:
  assumes "mm_sorted norm (xs @ ys)"
  shows "mm_sorted norm xs" and "mm_sorted norm ys"
  using assms by (simp_all add: mm_sorted_def sorted_append)

lemma mm_sorted_emplace:
  assumes "mm_sorted norm m"
  shows "mm_sorted norm (mm_emplace norm k v m)"
proof -
  have "mm_sorted norm (take n m)" "mm_sorted norm (drop n m)" for n
    using mm_sorted_parts [of norm "take n m" "drop n m"] assms by simp_all
  moreover have "\<forall>x \<in> set (take (mm_upper norm m k) m). norm (fst x) \<le> norm k"
    "\<forall>x \<in> set (drop (mm_upper norm m k) m). norm k \<le> norm (fst x)"
    unfolding mm_split [OF assms] by auto
  ultimately show ?thesis
    by (auto simp: mm_sorted_def mm_emplace_def sorted_append split_def intro: order_trans)
qed

lemma set_mm_emplace [simp]: "set (mm_emplace norm k v m) = insert (k, v) (set m)"
proof -
  have "set m = set (take n m) \<union> set (drop n m)" for n by (metis append_take_drop_id set_append)
  then show ?thesis by (auto simp: mm_emplace_def)
qed

lemma mm_sorted_erase:
  assumes "mm_sorted norm m"
  shows "mm_sorted norm (mm_erase_range norm k m)"
  unfolding mm_erase_range_def mm_split [OF assms] mm_sorted_def
proof -
  have "sorted (map (\<lambda>(a, b). norm a) (filter P m))" for P
    using assms unfolding mm_sorted_def by (induction m) auto
  then show "sorted (map (\<lambda>(a, b). norm a)
      (filter (\<lambda>(a, b). norm a < norm k) m @ filter (\<lambda>(a, b). norm k < norm a) m))"
    by (auto simp: sorted_append intro: less_imp_le less_trans)
qed

lemma mm_values_append [simp]: "mm_values norm (m @ m') k = mm_values norm m k @ mm_values norm m' k"
  by (simp add: mm_values_def)

lemma mm_values_split:
  "mm_values norm m k' = mm_values norm (take n m) k' @ mm_values norm (drop n m) k'"
  by (metis append_take_drop_id mm_values_append)

lemma mm_values_emplace:
  assumes "mm_sorted norm m"
  shows "mm_values norm (mm_emplace norm k v m) k' =
    (if norm k = norm k' then mm_values norm m k' @ [v] else mm_values norm m k')"
proof -
  have "norm k = norm k' \<Longrightarrow> mm_values norm (drop (mm_upper norm m k) m) k' = []"
    unfolding mm_split(3) [OF assms] by (auto simp: mm_values_def filter_empty_conv)
  then show ?thesis
    using mm_values_split [of norm m k' "mm_upper norm m k"] by (auto simp: mm_values_def mm_emplace_def)
qed

lemma mm_values_erase:
  assumes "mm_sorted norm m"
  shows "mm_values norm (mm_erase_range norm k m) k' =
    (if norm k = norm k' then [] else mm_values norm m k')"
proof -
  let ?key = "\<lambda>x. norm (fst x)"
  have lt: "filter (\<lambda>x. ?key x = norm k' \<and> ?key x < norm k) m
      = (if norm k' < norm k then filter (\<lambda>x. ?key x = norm k') m else [])"
    by (auto simp: filter_empty_conv intro!: filter_cong)
  have gt: "filter (\<lambda>x. ?key x = norm k' \<and> norm k < ?key x) m
      = (if norm k < norm k' then filter (\<lambda>x. ?key x = norm k') m else [])"
    by (auto simp: filter_empty_conv intro!: filter_cong)
  have "filter (\<lambda>x. ?key x = norm k') (filter (\<lambda>x. ?key x < norm k) m @ filter (\<lambda>x. norm k < ?key x) m)
      = (if norm k = norm k' then [] else filter (\<lambda>x. ?key x = norm k') m)"
    by (auto simp: lt gt conj_commute not_less_iff_gr_or_eq)
  then show ?thesis
    unfolding mm_values_def mm_erase_range_def mm_split [OF assms] split_def by auto
qed

interpretation mm: multimap_laws "mm_emplace norm" "mm_erase_range norm" "mm_values norm"
    "\<lambda>k k'. norm k = norm k'" "mm_sorted norm" for norm :: "'k \<Rightarrow> 'n::linorder"
  by unfold_locales (simp_all add: mm_values_emplace mm_values_erase mm_sorted_emplace mm_sorted_erase)

text \<open>The accessors in terms of the values of a key.\<close>

lemma mm_upper_lower:
  assumes "mm_sorted norm m"
  shows "mm_upper norm m k = mm_lower norm m k + length (mm_values norm m k)"
    and "drop (mm_lower norm m k) m
         = filter (\<lambda>(a, b). norm a = norm k) m @ drop (mm_upper norm m k) m"
proof -
  have ab: "filter (\<lambda>x. norm (fst x) \<le> norm k) m
        = filter (\<lambda>x. norm (fst x) < norm k) m @ filter (\<lambda>x. norm (fst x) = norm k) m
      \<and> filter (\<lambda>x. norm k \<le> norm (fst x)) m
        = filter (\<lambda>x. norm (fst x) = norm k) m @ filter (\<lambda>x. norm k < norm (fst x)) m"
    using assms
  proof (induction m)
    case (Cons x m)
    then have s: "\<forall>y \<in> set m. norm (fst x) \<le> norm (fst y)" "mm_sorted norm m"
      by (auto simp: mm_sorted_def split_def)
    have "filter (\<lambda>y. norm (fst y) < norm k) m = []" if "norm (fst x) = norm k"
      using s(1) that by (auto simp: filter_empty_conv)
    moreover have "filter (\<lambda>y. norm (fst y) = norm k) m = []" if "norm k < norm (fst x)"
      using s(1) that by (auto simp: filter_empty_conv)
    ultimately show ?case using Cons.IH [OF s(2)] by auto
  qed simp
  note a = conjunct1 [OF ab] and b = conjunct2 [OF ab]
  have len: "length (take (mm_lower norm m k) m) = mm_lower norm m k"
    "length (take (mm_upper norm m k) m) = mm_upper norm m k"
    unfolding mm_lower_def mm_upper_def by (simp_all add: length_takeWhile_le min_absorb2)
  show "mm_upper norm m k = mm_lower norm m k + length (mm_values norm m k)"
    using len a unfolding mm_split [OF assms] by (simp add: mm_values_def split_def)
  have "dropWhile (\<lambda>x. norm (fst x) < norm k) m = filter (\<lambda>x. norm k \<le> norm (fst x)) m"
    using assms unfolding mm_sorted_def
    by (induction m)
      (auto simp: split_def not_less intro!: filter_True [symmetric] intro: order_trans)
  then have "drop (mm_lower norm m k) m = filter (\<lambda>x. norm k \<le> norm (fst x)) m"
    by (simp add: mm_lower_def split_def dropWhile_eq_drop)
  then show "drop (mm_lower norm m k) m
         = filter (\<lambda>(a, b). norm a = norm k) m @ drop (mm_upper norm m k) m"
    unfolding mm_split(3) [OF assms] by (simp add: b split_def)
qed

lemma mm_has_values: "mm_sorted norm m \<Longrightarrow> mm_has norm m k \<longleftrightarrow> mm_values norm m k \<noteq> []"
  by (simp add: mm_has_def mm_upper_lower(1))

lemma mm_count_values: "mm_sorted norm m \<Longrightarrow> mm_count norm m k = length (mm_values norm m k)"
  by (simp add: mm_count_def mm_upper_lower(1))

lemma mm_get_first:
  assumes "mm_sorted norm m"
  shows "mm_get norm m k 0 = Inr (case mm_values norm m k of [] \<Rightarrow> None | v # vs \<Rightarrow> Some v)"
proof -
  have l: "mm_lower norm m k \<le> length m" by (simp add: mm_lower_def length_takeWhile_le)
  show ?thesis
  proof (cases "filter (\<lambda>(a, b). norm a = norm k) m")
    case Nil
    then show ?thesis using mm_upper_lower(1) [OF assms, of k] l by (simp add: mm_get_def mm_values_def)
  next
    case (Cons x xs)
    then have d: "drop (mm_lower norm m k) m = x # xs @ drop (mm_upper norm m k) m"
      using mm_upper_lower(2) [OF assms, of k] by simp
    then have "mm_lower norm m k < length m" and "m ! mm_lower norm m k = x"
      by (metis drop_eq_Nil leI list.distinct(1), metis d hd_drop_conv_nth drop_eq_Nil leI list.distinct(1) list.sel(1))
    with Cons show ?thesis
      using mm_upper_lower(1) [OF assms, of k] by (simp add: mm_get_def mm_values_def Let_def)
  qed
qed

section \<open>Header fields and parameters\<close>

definition to_lower :: "string \<Rightarrow> string" where
  "to_lower s = map to_lower_char s"

text \<open>\<open>detail::ci\<close>: the lexicographic order of the lower-case forms.\<close>

definition ci :: "string \<Rightarrow> string \<Rightarrow> bool" where
  "ci s1 s2 \<longleftrightarrow> to_lower s1 < to_lower s2"

type_synonym headers = "(string \<times> string) list"
type_synonym params = "(string \<times> string) list"

definition has_header :: "headers \<Rightarrow> string \<Rightarrow> bool" where
  "has_header hs key = mm_has to_lower hs key"

definition get_header_value :: "headers \<Rightarrow> string \<Rightarrow> nat \<Rightarrow> string \<Rightarrow> string res" where
  "get_header_value hs key idx def =
     rbind (mm_get to_lower hs key idx) (\<lambda>v. Inr (case v of Some s \<Rightarrow> s | None \<Rightarrow> def))"

text \<open>
  \<open>strtoull(s, nullptr, 10)\<close>: white space, an optional sign, digits. What does not fit is
  \<open>ULLONG_MAX\<close>, and a minus sign negates modulo \<open>2 ^ 64\<close>.
\<close>

definition strtoull :: "string \<Rightarrow> nat" where
  "strtoull s =
     (let t = dropWhile is_space s;
          neg = (t \<noteq> [] \<and> hd t = CHR ''-'');
          u = (if t \<noteq> [] \<and> (hd t = CHR ''-'' \<or> hd t = CHR ''+'') then tl t else t);
          n = dec_val (takeWhile is_digit u)
      in if 2 ^ 64 \<le> n then 2 ^ 64 - 1
         else if neg then (2 ^ 64 - n) mod 2 ^ 64 else n)"

definition get_header_value_u64 :: "headers \<Rightarrow> string \<Rightarrow> nat \<Rightarrow> nat \<Rightarrow> nat res" where
  "get_header_value_u64 hs key idx def =
     rbind (mm_get to_lower hs key idx) (\<lambda>v. Inr (case v of Some s \<Rightarrow> strtoull s | None \<Rightarrow> def))"

text \<open>The argument is a C string: what follows its first NUL is not looked at.\<close>

definition has_crlf :: "string \<Rightarrow> bool" where
  "has_crlf s = list_ex (\<lambda>c. c = CR \<or> c = LF) (takeWhile (\<lambda>c. c \<noteq> NUL) s)"

section \<open>Requests\<close>

record multipart_form_data =
  mp_name :: string
  mp_content :: string
  mp_filename :: string
  mp_content_type :: string

definition empty_form_data :: multipart_form_data where
  "empty_form_data = \<lparr>mp_name = [], mp_content = [], mp_filename = [], mp_content_type = []\<rparr>"

record request =
  req_method :: string
  path :: string
  req_headers :: headers
  req_body :: string
  remote_addr :: string
  remote_port :: int
  req_version :: string
  target :: string
  params :: params
  files :: "(string \<times> multipart_form_data) list"
  ranges :: "(int \<times> int) list"
  matches :: "string list"

definition empty_request :: request where
  "empty_request = \<lparr>req_method = [], path = [], req_headers = [], req_body = [],
                    remote_addr = [], remote_port = - 1, req_version = [],
                    target = [], params = [], files = [], ranges = [], matches = []\<rparr>"

definition Request_has_header :: "request \<Rightarrow> string \<Rightarrow> bool" where
  "Request_has_header req key = has_header (req_headers req) key"

definition Request_get_header_value :: "request \<Rightarrow> string \<Rightarrow> nat \<Rightarrow> string res" where
  "Request_get_header_value req key idx = get_header_value (req_headers req) key idx []"

definition Request_get_header_value_count :: "request \<Rightarrow> string \<Rightarrow> nat" where
  "Request_get_header_value_count req key = mm_count to_lower (req_headers req) key"

definition Request_set_header :: "string \<Rightarrow> string \<Rightarrow> request \<Rightarrow> request" where
  "Request_set_header key val req =
     (if \<not> has_crlf key \<and> \<not> has_crlf val
      then req\<lparr>req_headers := mm_emplace to_lower key val (req_headers req)\<rparr> else req)"

definition Request_has_param :: "request \<Rightarrow> string \<Rightarrow> bool" where
  "Request_has_param req key = mm_has id (params req) key"

definition Request_get_param_value :: "request \<Rightarrow> string \<Rightarrow> nat \<Rightarrow> string res" where
  "Request_get_param_value req key idx =
     rbind (mm_get id (params req) key idx) (\<lambda>v. Inr (case v of Some s \<Rightarrow> s | None \<Rightarrow> []))"

definition Request_get_param_value_count :: "request \<Rightarrow> string \<Rightarrow> nat" where
  "Request_get_param_value_count req key = mm_count id (params req) key"

definition starts_with :: "string \<Rightarrow> string \<Rightarrow> bool" where
  "starts_with s pre = (take (length pre) s = pre)"

definition Request_is_multipart_form_data :: "request \<Rightarrow> bool res" where
  "Request_is_multipart_form_data req =
     rbind (Request_get_header_value req ''Content-Type'' 0) (\<lambda>content_type.
       Inr (starts_with content_type ''multipart/form-data''))"

definition Request_has_file :: "request \<Rightarrow> string \<Rightarrow> bool" where
  "Request_has_file req key = mm_has id (files req) key"

definition Request_get_file_value :: "request \<Rightarrow> string \<Rightarrow> multipart_form_data res" where
  "Request_get_file_value req key =
     rbind (mm_get id (files req) key 0) (\<lambda>v. Inr (case v of Some f \<Rightarrow> f | None \<Rightarrow> empty_form_data))"

definition expect_content :: "request \<Rightarrow> bool" where
  "expect_content req \<longleftrightarrow>
     req_method req = ''POST'' \<or> req_method req = ''PUT'' \<or> req_method req = ''PATCH''
     \<or> req_method req = ''PRI'' \<or> req_method req = ''DELETE''"

section \<open>Responses\<close>

text \<open>A response with a body; content providers are in \<open>Http_Server_Provider\<close>.\<close>

record response =
  rsp_version :: string
  status :: int
  rsp_headers :: headers
  body :: string

definition empty_response :: response where
  "empty_response = \<lparr>rsp_version = [], status = - 1, rsp_headers = [], body = []\<rparr>"

definition Response_has_header :: "response \<Rightarrow> string \<Rightarrow> bool" where
  "Response_has_header res key = mm_has to_lower (rsp_headers res) key"

definition Response_get_header_value :: "response \<Rightarrow> string \<Rightarrow> nat \<Rightarrow> string res" where
  "Response_get_header_value res key idx = get_header_value (rsp_headers res) key idx []"

definition Response_get_header_value_count :: "response \<Rightarrow> string \<Rightarrow> nat" where
  "Response_get_header_value_count res key = mm_count to_lower (rsp_headers res) key"

definition set_header :: "string \<Rightarrow> string \<Rightarrow> response \<Rightarrow> response" where
  "set_header key val res =
     (if \<not> has_crlf key \<and> \<not> has_crlf val
      then res\<lparr>rsp_headers := mm_emplace to_lower key val (rsp_headers res)\<rparr> else res)"

definition set_redirect :: "string \<Rightarrow> int \<Rightarrow> response \<Rightarrow> response" where
  "set_redirect url stat res =
     (if \<not> has_crlf url
      then (set_header ''Location'' url res)\<lparr>status := (if 300 \<le> stat \<and> stat < 400 then stat else 302)\<rparr>
      else res)"

definition set_content :: "string \<Rightarrow> string \<Rightarrow> response \<Rightarrow> response" where
  "set_content s content_type res =
     set_header ''Content-Type'' content_type
       (res\<lparr>body := s, rsp_headers := mm_erase_range to_lower ''Content-Type'' (rsp_headers res)\<rparr>)"

section \<open>Facts\<close>

definition headers_wf :: "headers \<Rightarrow> bool" where
  "headers_wf hs \<longleftrightarrow> mm_sorted to_lower hs \<and> list_all (\<lambda>(k, v). \<not> has_crlf k \<and> \<not> has_crlf v) hs"

lemma headers_wf_sorted: "headers_wf hs \<Longrightarrow> mm_sorted to_lower hs"
  by (simp add: headers_wf_def)

lemma headers_wf_emplace:
  "headers_wf hs \<Longrightarrow> \<not> has_crlf k \<Longrightarrow> \<not> has_crlf v \<Longrightarrow> headers_wf (mm_emplace to_lower k v hs)"
  unfolding headers_wf_def using mm.inv_emplace [of to_lower hs k v]
  by (auto simp: mm_emplace_def list_all_iff dest: in_set_takeD in_set_dropD)

lemma headers_wf_erase: "headers_wf hs \<Longrightarrow> headers_wf (mm_erase_range to_lower k hs)"
  unfolding headers_wf_def using mm.inv_erase [of to_lower hs k]
  by (auto simp: mm_erase_range_def list_all_iff dest: in_set_takeD in_set_dropD)

lemma headers_wf_set_header: "headers_wf (rsp_headers res) \<Longrightarrow> headers_wf (rsp_headers (set_header k v res))"
  by (simp add: set_header_def headers_wf_emplace)

lemma headers_wf_set_content: "headers_wf (rsp_headers res) \<Longrightarrow> headers_wf (rsp_headers (set_content s ct res))"
  by (simp add: set_content_def headers_wf_set_header headers_wf_erase)

lemma headers_wf_set_redirect: "headers_wf (rsp_headers res) \<Longrightarrow> headers_wf (rsp_headers (set_redirect url st res))"
  by (simp add: set_redirect_def headers_wf_set_header)

datatype response_op = Set_header string string | Set_redirect string int | Set_content string string

fun apply_response_op :: "response_op \<Rightarrow> response \<Rightarrow> response" where
  "apply_response_op (Set_header k v) res = set_header k v res"
| "apply_response_op (Set_redirect url st) res = set_redirect url st res"
| "apply_response_op (Set_content s ct) res = set_content s ct res"

lemma headers_wf_ops: "headers_wf (rsp_headers res) \<Longrightarrow> headers_wf (rsp_headers (fold apply_response_op ops res))"
proof (induction ops arbitrary: res)
  case (Cons op ops)
  then show ?case
    by (cases op) (simp_all add: headers_wf_set_header headers_wf_set_content headers_wf_set_redirect)
qed simp

section \<open>Properties\<close>

text \<open>
  \<open>set_content\<close> replaces body and type: on a response with ordered header fields it leaves
  exactly one \<open>Content-Type\<close>, the one passed in, whatever the spelling of those set before, and
  every other field as it was.
\<close>

theorem set_content_replaces:
  assumes "mm_sorted to_lower (rsp_headers res)" and "\<not> has_crlf content_type"
  shows "body (set_content s content_type res) = s
    \<and> mm_values to_lower (rsp_headers (set_content s content_type res)) key
      = (if to_lower key = to_lower ''Content-Type'' then [content_type]
         else mm_values to_lower (rsp_headers res) key)"
proof -
  have "\<not> has_crlf ''Content-Type''" by (simp add: has_crlf_def)
  then show ?thesis
    using assms by (simp add: set_content_def set_header_def mm.values_replace)
qed

theorem set_content_replaces_witness:
  "body (set_content ''{}'' ''application/json''
     (empty_response\<lparr>rsp_headers := [(''Allow'', ''GET''), (''content-type'', ''text/plain'')]\<rparr>)) = ''{}''
   \<and> mm_values to_lower (rsp_headers (set_content ''{}'' ''application/json''
       (empty_response\<lparr>rsp_headers := [(''Allow'', ''GET''), (''content-type'', ''text/plain'')]\<rparr>)))
       ''CONTENT-TYPE''
     = (if to_lower ''CONTENT-TYPE'' = to_lower ''Content-Type'' then [''application/json'']
        else mm_values to_lower (rsp_headers (empty_response\<lparr>rsp_headers :=
               [(''Allow'', ''GET''), (''content-type'', ''text/plain'')]\<rparr>)) ''CONTENT-TYPE'')"
proof (rule set_content_replaces)
  show "mm_sorted to_lower (rsp_headers
      (empty_response\<lparr>rsp_headers := [(''Allow'', ''GET''), (''content-type'', ''text/plain'')]\<rparr>))"
    by code_simp
qed (simp add: has_crlf_def)

end
