(* ===== verification/Http_Text.thy ===== *)
theory Http_Text
  imports Utils_Hex Http_Data "HOL-Library.Sublist"
begin

text \<open>
  The text functions of \<open>sgx/src/include/httplib.h\<close> (namespace \<open>detail\<close>) that a request passes
  through: hexadecimal numbers, UTF-8, percent-encoding in both directions, base64, trimming and
  splitting, query strings, and the check that keeps a path below its base directory.

  \<open>int\<close> is modelled by the mathematical integers where the values stay in its range
  (\<open>from_hex_to_i\<close> reads four digits at most); \<open>base64_encode\<close> shifts an \<open>int\<close> left once per
  input byte and is modelled on 32 bits. Random access to a text is by index.
\<close>

section \<open>Hexadecimal numbers and UTF-8\<close>

definition is_hex :: "char \<Rightarrow> nat option" where
  "is_hex c =
     (if is_digit c then Some (code c - 48)
      else if CHR ''A'' \<le> c \<and> c \<le> CHR ''F'' then Some (code c - 65 + 10)
      else if CHR ''a'' \<le> c \<and> c \<le> CHR ''f'' then Some (code c - 97 + 10)
      else None)"

text \<open>
  \<open>from_hex_to_i(s, i, cnt, val)\<close>: \<open>None\<close> is \<open>false\<close>. The character behind the last one of a
  \<open>std::string\<close> is NUL, which ends the loop.
\<close>

fun hex_loop :: "string \<Rightarrow> nat \<Rightarrow> nat \<Rightarrow> nat option" where
  "hex_loop s 0 val = Some val"
| "hex_loop [] (Suc cnt) val = None"
| "hex_loop (c # s) (Suc cnt) val =
     (if c = NUL then None
      else case is_hex c of Some v \<Rightarrow> hex_loop s cnt (val * 16 + v) | None \<Rightarrow> None)"

definition from_hex_to_i :: "string \<Rightarrow> nat \<Rightarrow> nat \<Rightarrow> nat option" where
  "from_hex_to_i s i cnt = (if length s \<le> i then None else hex_loop (drop i s) cnt 0)"

text \<open>\<open>from_i_to_hex\<close> is a \<open>do\<close> loop that puts digits in front of the result.\<close>

function hex_digits_loop :: "nat \<Rightarrow> string \<Rightarrow> string" where
  "hex_digits_loop n ret =
     (let ret' = hextable ! (n mod 16) # ret; n' = n div 16
      in if 0 < n' then hex_digits_loop n' ret' else ret')"
  by pat_completeness auto
termination by (relation "measure fst") auto

declare hex_digits_loop.simps [simp del]

definition from_i_to_hex :: "64 word \<Rightarrow> string" where
  "from_i_to_hex n = hex_digits_loop (unat n) []"

definition to_utf8 :: "nat \<Rightarrow> string" where
  "to_utf8 cp =
     (if cp < 0x80 then [char_of cp]
      else if cp < 0x800 then [char_of (0xC0 + cp div 0x40 mod 0x20), char_of (0x80 + cp mod 0x40)]
      else if cp < 0xD800 then
        [char_of (0xE0 + cp div 0x1000 mod 0x10), char_of (0x80 + cp div 0x40 mod 0x40), char_of (0x80 + cp mod 0x40)]
      else if cp < 0xE000 then []
      else if cp < 0x10000 then
        [char_of (0xE0 + cp div 0x1000 mod 0x10), char_of (0x80 + cp div 0x40 mod 0x40), char_of (0x80 + cp mod 0x40)]
      else if cp < 0x110000 then
        [char_of (0xF0 + cp div 0x40000 mod 0x8), char_of (0x80 + cp div 0x1000 mod 0x40),
         char_of (0x80 + cp div 0x40 mod 0x40), char_of (0x80 + cp mod 0x40)]
      else [])"

section \<open>Percent-encoding\<close>

definition upper_hex_pair :: "char \<Rightarrow> string" where
  "upper_hex_pair c =
     (let d = ''0123456789ABCDEF'' in [d ! (code c div 16), d ! (code c mod 16)])"

definition query_char_kept :: "char \<Rightarrow> bool" where
  "query_char_kept c \<longleftrightarrow>
     is_alnum c \<or> c \<in> {CHR ''-'', CHR ''_'', CHR ''.'', CHR ''!'', CHR ''~'', CHR ''*'', CHR 0x27,
                        CHR ''('', CHR '')''}"

definition encode_query_param :: "string \<Rightarrow> string" where
  "encode_query_param val =
     concat (map (\<lambda>c. if query_char_kept c then [c] else CHR ''%'' # upper_hex_pair c) val)"

definition encode_url_char :: "char \<Rightarrow> string" where
  "encode_url_char c =
     (if c = CHR '' '' then ''%20''
      else if c = CHR ''+'' then ''%2B''
      else if c = CR then ''%0D''
      else if c = LF then ''%0A''
      else if c = CHR 0x27 then ''%27''
      else if c = CHR '','' then ''%2C''
      else if c = CHR '';'' then ''%3B''
      else if 0x80 \<le> code c then CHR ''%'' # upper_hex_pair c
      else [c])"

text \<open>The loop of \<open>encode_url\<close> ends at the first NUL.\<close>

definition encode_url :: "string \<Rightarrow> string" where
  "encode_url s = concat (map encode_url_char (takeWhile (\<lambda>c. c \<noteq> NUL) s))"

text \<open>The loop of \<open>decode_url\<close> on the index \<open>i\<close>.\<close>

function decode_url_loop :: "string \<Rightarrow> bool \<Rightarrow> nat \<Rightarrow> string \<Rightarrow> string" where
  "decode_url_loop s to_space i result =
     (if length s \<le> i then result
      else if s ! i = CHR ''%'' \<and> i + 1 < length s then
        (if s ! (i + 1) = CHR ''u'' then
           (case from_hex_to_i s (i + 2) 4 of
              Some val \<Rightarrow> decode_url_loop s to_space (i + 6) (result @ to_utf8 val)
            | None \<Rightarrow> decode_url_loop s to_space (i + 1) (result @ [s ! i]))
         else
           (case from_hex_to_i s (i + 1) 2 of
              Some val \<Rightarrow> decode_url_loop s to_space (i + 3) (result @ [char_of val])
            | None \<Rightarrow> decode_url_loop s to_space (i + 1) (result @ [s ! i])))
      else if to_space \<and> s ! i = CHR ''+'' then decode_url_loop s to_space (i + 1) (result @ '' '')
      else decode_url_loop s to_space (i + 1) (result @ [s ! i]))"
  by pat_completeness auto
termination by (relation "measure (\<lambda>(s, to_space, i, result). length s - i)") auto

declare decode_url_loop.simps [simp del]

definition decode_url :: "string \<Rightarrow> bool \<Rightarrow> string" where
  "decode_url s convert_plus_to_space = decode_url_loop s convert_plus_to_space 0 []"

section \<open>Base64\<close>

definition base64_table :: string where
  "base64_table = ''ABCDEFGHIJKLMNOPQRSTUVWXYZabcdefghijklmnopqrstuvwxyz0123456789+/''"

definition base64_char :: "32 word \<Rightarrow> int \<Rightarrow> char" where
  "base64_char val sh = base64_table ! unat (signed_drop_bit (nat sh) val AND 0x3F)"

function base64_inner :: "32 word \<Rightarrow> int \<Rightarrow> string \<Rightarrow> int \<times> string" where
  "base64_inner val valb out =
     (if 0 \<le> valb then base64_inner val (valb - 6) (out @ [base64_char val valb]) else (valb, out))"
  by pat_completeness auto
termination by (relation "measure (\<lambda>(val, valb, out). nat (valb + 6))") auto

declare base64_inner.simps [simp del]

fun base64_outer :: "string \<Rightarrow> 32 word \<Rightarrow> int \<Rightarrow> string \<Rightarrow> 32 word \<times> int \<times> string" where
  "base64_outer [] val valb out = (val, valb, out)"
| "base64_outer (c # cs) val valb out =
     (let val' = push_bit 8 val + ucast (byte_of_char c);
          (valb', out') = base64_inner val' (valb + 8) out
      in base64_outer cs val' valb' out')"

definition base64_pad :: "string \<Rightarrow> string" where
  "base64_pad out = out @ replicate ((4 - length out mod 4) mod 4) CHR ''=''"

definition base64_encode :: "string \<Rightarrow> string" where
  "base64_encode s =
     (let (val, valb, out) = base64_outer s 0 (- 6) [];
          out' = (if - 6 < valb then out @ [base64_char (push_bit 8 val) (valb + 8)] else out)
      in base64_pad out')"

section \<open>Trimming and splitting\<close>

definition is_space_or_tab :: "char \<Rightarrow> bool" where
  "is_space_or_tab c \<longleftrightarrow> c = CHR '' '' \<or> c = TAB"

text \<open>
  \<open>trim(b, e, left, right)\<close>: \<open>s\<close> is the text between \<open>b\<close> and \<open>e\<close>. The two loops move the bounds
  inwards; the right one may pass the left one.
\<close>

function trim_left :: "string \<Rightarrow> nat \<Rightarrow> nat" where
  "trim_left s left =
     (if left < length s \<and> is_space_or_tab (s ! left) then trim_left s (left + 1) else left)"
  by pat_completeness auto
termination by (relation "measure (\<lambda>(s, left). length s - left)") auto

declare trim_left.simps [simp del]

fun trim_right :: "string \<Rightarrow> nat \<Rightarrow> nat" where
  "trim_right s 0 = 0"
| "trim_right s (Suc right) = (if is_space_or_tab (s ! right) then trim_right s right else Suc right)"

definition trim :: "string \<Rightarrow> nat \<Rightarrow> nat \<Rightarrow> nat \<times> nat" where
  "trim s left right = (trim_left s left, trim_right s right)"

text \<open>\<open>substr(left, right - left)\<close>, with the difference modulo \<open>2 ^ 64\<close>.\<close>

definition substr :: "string \<Rightarrow> nat \<Rightarrow> nat \<Rightarrow> string res" where
  "substr s pos n = (if length s < pos then Inl (Throws Std_out_of_range) else Inr (take n (drop pos s)))"

definition trim_copy :: "string \<Rightarrow> string res" where
  "trim_copy s =
     (let (l, r) = trim s 0 (length s)
      in substr s l (nat ((int r - int l) mod 2 ^ 64)))"

text \<open>
  \<open>split(b, e, d, fn)\<close>: the pieces \<open>fn\<close> is called on, in order. A piece is trimmed, but its left
  bound may run to the end of the whole text; pieces with nothing left are skipped.
\<close>

definition split_piece :: "string \<Rightarrow> nat \<Rightarrow> nat \<Rightarrow> string list" where
  "split_piece s beg i =
     (let (l, r) = trim s beg i in if l < r then [take (r - l) (drop l s)] else [])"

function split_loop :: "string \<Rightarrow> char \<Rightarrow> nat \<Rightarrow> nat \<Rightarrow> string list \<Rightarrow> string list" where
  "split_loop s d i beg pieces =
     (if i < length s then
        (if s ! i = d then split_loop s d (i + 1) (i + 1) (pieces @ split_piece s beg i)
         else split_loop s d (i + 1) beg pieces)
      else if i \<noteq> 0 then pieces @ split_piece s beg i else pieces)"
  by pat_completeness auto
termination by (relation "measure (\<lambda>(s, d, i, beg, pieces). length s - i)") auto

declare split_loop.simps [simp del]

definition split :: "string \<Rightarrow> char \<Rightarrow> string list" where
  "split s d = split_loop s d 0 0 []"

section \<open>Query strings\<close>

text \<open>The callback on the pieces of one \<open>key=value\<close>: the first non-empty one is the key, the last other one the value.\<close>

definition query_key_val :: "string list \<Rightarrow> string \<times> string" where
  "query_key_val pieces =
     fold (\<lambda>p (key, val). if key = [] then (p, val) else (key, p)) pieces ([], [])"

fun parse_query_pieces :: "string list \<Rightarrow> string set \<Rightarrow> params \<Rightarrow> params" where
  "parse_query_pieces [] cache ps = ps"
| "parse_query_pieces (kv # kvs) cache ps =
     (if kv \<in> cache then parse_query_pieces kvs cache ps
      else
        (let (key, val) = query_key_val (split kv CHR ''='')
         in parse_query_pieces kvs (insert kv cache)
              (if key \<noteq> [] then mm_emplace id (decode_url key True) (decode_url val True) ps else ps)))"

definition parse_query_text :: "string \<Rightarrow> params \<Rightarrow> params" where
  "parse_query_text s ps = parse_query_pieces (split s CHR ''&'') {} ps"

text \<open>\<open>params_to_query_str\<close>: the parameters in the order of the multimap.\<close>

fun params_to_query_loop :: "params \<Rightarrow> bool \<Rightarrow> string \<Rightarrow> string" where
  "params_to_query_loop [] first query = query"
| "params_to_query_loop ((k, v) # ps) first query =
     params_to_query_loop ps False
       ((if first then query else query @ ''&'') @ k @ ''='' @ encode_query_param v)"

definition params_to_query_str :: "params \<Rightarrow> string" where
  "params_to_query_str ps = params_to_query_loop ps True []"

section \<open>Paths\<close>

text \<open>
  \<open>is_valid_path\<close>: the levels the components of the path go down and up. The loop takes one
  component and the slashes behind it at a time.
\<close>

definition skip_slashes :: "string \<Rightarrow> string" where
  "skip_slashes p = dropWhile (\<lambda>c. c = CHR ''/'') p"

lemma skip_component_less:
  "p \<noteq> [] \<Longrightarrow> length (skip_slashes (dropWhile (\<lambda>c. c \<noteq> CHR ''/'') p)) < length p"
  by (cases p) (auto simp: skip_slashes_def less_Suc_eq_le intro: order_trans [OF length_dropWhile_le])

function valid_path_loop :: "string \<Rightarrow> nat \<Rightarrow> bool" where
  "valid_path_loop p level =
     (if p = [] then True
      else
        (let comp = takeWhile (\<lambda>c. c \<noteq> CHR ''/'') p;
             rest = skip_slashes (dropWhile (\<lambda>c. c \<noteq> CHR ''/'') p)
         in if comp = ''.'' then valid_path_loop rest level
            else if comp = ''..'' then (if level = 0 then False else valid_path_loop rest (level - 1))
            else valid_path_loop rest (level + 1)))"
  by pat_completeness auto
termination by (relation "measure (\<lambda>(p, level). length p)") (auto simp: skip_component_less)

declare valid_path_loop.simps [simp del]

definition is_valid_path :: "string \<Rightarrow> bool" where
  "is_valid_path p = valid_path_loop (skip_slashes p) 0"

section \<open>Facts\<close>

subsection \<open>Decoding what was encoded\<close>

abbreviation upper_digit :: "nat \<Rightarrow> char" where
  "upper_digit n \<equiv> ''0123456789ABCDEF'' ! n"

lemma upper_digit_all:
  "list_all (\<lambda>n. is_hex (upper_digit n) = Some n \<and> upper_digit n \<noteq> NUL \<and> upper_digit n \<noteq> CHR ''u''
     \<and> is_alnum (upper_digit n)) [0..<16]"
  by code_simp

lemma upper_digit_props [simp]:
  assumes "n < 16"
  shows "is_hex (upper_digit n) = Some n" "upper_digit n \<noteq> NUL" "upper_digit n \<noteq> CHR ''u''"
    "is_alnum (upper_digit n)"
  using upper_digit_all assms by (auto simp: list_all_iff)

lemma code_halves: "code c div 16 < 16" "code c mod 16 < 16" "16 * (code c div 16) + code c mod 16 = code c"
proof -
  show "code c div 16 < 16" using nat_of_char_less_256 [of c] by linarith
qed simp_all

lemma hex_loop_pair:
  "hex_loop (upper_digit (code c div 16) # upper_digit (code c mod 16) # s) 2 0 = Some (code c)"
  using code_halves [of c] by (simp add: numeral_2_eq_2 mult.commute)

lemma kept_not_special: "query_char_kept c \<Longrightarrow> c \<noteq> CHR ''%'' \<and> c \<noteq> CHR ''+''"
  by (auto simp: query_char_kept_def is_alnum_def is_digit_code is_upper_def is_lower_def less_eq_char_def)

text \<open>An encoder that writes every character as it is or as a percent sign and two digits.\<close>

lemma decode_chars_loop:
  assumes "\<And>c. c \<in> set s \<Longrightarrow> enc c = [c] \<and> c \<noteq> CHR ''%'' \<and> (b \<longrightarrow> c \<noteq> CHR ''+'') \<or> enc c = CHR ''%'' # upper_hex_pair c"
  shows "decode_url_loop (pre @ concat (map enc s)) b (length pre) result = result @ s"
  using assms
proof (induction s arbitrary: pre result)
  case Nil
  show ?case by (subst decode_url_loop.simps) simp
next
  case (Cons c s)
  consider (kept) "enc c = [c]" "c \<noteq> CHR ''%''" "b \<longrightarrow> c \<noteq> CHR ''+''" | (pair) "enc c = CHR ''%'' # upper_hex_pair c"
    using Cons.prems [of c] by auto
  then show ?case
  proof cases
    case kept
    with Cons.IH [of "pre @ [c]" "result @ [c]"] Cons.prems show ?thesis
      by (subst decode_url_loop.simps) auto
  next
    case pair
    let ?pair = "CHR ''%'' # upper_hex_pair c"
    have "from_hex_to_i (pre @ ?pair @ concat (map enc s)) (length pre + 1) 2 = Some (code c)"
      by (simp add: from_hex_to_i_def upper_hex_pair_def Let_def hex_loop_pair)
    moreover have "length (pre @ ?pair) = length pre + 3" by (simp add: upper_hex_pair_def Let_def)
    ultimately show ?thesis
      using Cons.IH [of "pre @ ?pair" "result @ [c]"] Cons.prems code_halves [of c] pair
      by (subst decode_url_loop.simps) (simp add: nth_append upper_hex_pair_def Let_def numeral_3_eq_3)
  qed
qed

lemma decode_encode: "decode_url (encode_query_param s) b = s"
  using decode_chars_loop [of s "\<lambda>c. if query_char_kept c then [c] else CHR ''%'' # upper_hex_pair c" b "[]" "[]"]
    kept_not_special
  by (auto simp: decode_url_def encode_query_param_def)

lemma decode_kept: "list_all query_char_kept s \<Longrightarrow> decode_url s b = s"
proof -
  assume "list_all query_char_kept s"
  then have "encode_query_param s = s" by (induction s) (simp_all add: encode_query_param_def)
  then show ?thesis using decode_encode [of s b] by simp
qed

lemma encode_url_char_specials:
  "list_all (\<lambda>c. encode_url_char c = CHR ''%'' # upper_hex_pair c)
    [CHR '' '', CHR ''+'', CR, LF, CHR 0x27, CHR '','', CHR '';'']"
  by code_simp

lemma encode_url_char_cases:
  "c \<noteq> CHR ''%'' \<Longrightarrow> encode_url_char c = [c] \<and> c \<noteq> CHR ''+'' \<or> encode_url_char c = CHR ''%'' # upper_hex_pair c"
proof -
  have special: "encode_url_char c = CHR ''%'' # upper_hex_pair c"
    if "c \<in> {CHR '' '', CHR ''+'', CR, LF, CHR 0x27, CHR '','', CHR '';''}"
    using encode_url_char_specials that by (elim insertE) simp_all
  assume "c \<noteq> CHR ''%''"
  show ?thesis
  proof (cases "c \<in> {CHR '' '', CHR ''+'', CR, LF, CHR 0x27, CHR '','', CHR '';''}")
    case False
    then show ?thesis by (simp add: encode_url_char_def)
  qed (use special in blast)
qed

lemma decode_encode_url: "NUL \<notin> set s \<Longrightarrow> CHR ''%'' \<notin> set s \<Longrightarrow> decode_url (encode_url s) b = s"
proof -
  assume s: "NUL \<notin> set s" "CHR ''%'' \<notin> set s"
  have tw: "takeWhile (\<lambda>c. c \<noteq> NUL) s = s" using s(1) by (auto simp: takeWhile_eq_all_conv)
  have "encode_url_char c = [c] \<and> c \<noteq> CHR ''%'' \<and> (b \<longrightarrow> c \<noteq> CHR ''+'') \<or> encode_url_char c = CHR ''%'' # upper_hex_pair c"
    if "c \<in> set s" for c
    using encode_url_char_cases [of c] that s(2) by blast
  from decode_chars_loop [where s = s and enc = encode_url_char and b = b and pre = "[]" and result = "[]", OF this]
  show "decode_url (encode_url s) b = s"
    unfolding decode_url_def encode_url_def tw by simp
qed

text \<open>What \<open>encode_url\<close> leaves can stand in a request line.\<close>

lemma encode_url_plain:
  assumes "s \<noteq> []" and "list_all (\<lambda>c. c \<notin> {NUL, TAB, CHR ''?''}) s"
  shows "encode_url s \<noteq> []" and "list_all (\<lambda>c. \<not> is_space_or_tab c \<and> c \<notin> {NUL, CR, LF, CHR ''?''}) (encode_url s)"
proof -
  have percent: "encode_url_char CHR ''%'' = ''%''" by code_simp
  have special: "encode_url_char c = CHR ''%'' # upper_hex_pair c" if "c \<in> {CHR '' '', CR, LF}" for c
    using encode_url_char_specials that by (auto simp: list_all_iff)
  have hex: "list_all (\<lambda>n. upper_digit n \<notin> {CHR '' '', TAB, NUL, CR, LF, CHR ''?''}) [0..<16]" by code_simp
  let ?P = "\<lambda>c. \<not> is_space_or_tab c \<and> c \<notin> {NUL, CR, LF, CHR ''?''}"
  have step: "list_all ?P (encode_url_char c)" if "c \<notin> {NUL, TAB, CHR ''?''}" for c
  proof (cases "encode_url_char c = CHR ''%'' # upper_hex_pair c")
    case True
    have "upper_digit n \<notin> {CHR '' '', TAB, NUL, CR, LF, CHR ''?''}" if "n < 16" for n
      using hex that by (simp add: list_all_iff)
    from this [OF code_halves(1) [of c]] this [OF code_halves(2) [of c]] show ?thesis
      unfolding True by (simp add: upper_hex_pair_def Let_def is_space_or_tab_def)
  next
    case False
    have "c = CHR ''%'' \<or> encode_url_char c = [c]" using encode_url_char_cases [of c] False by blast
    moreover note percent
    moreover have "c \<notin> {CHR '' '', CR, LF}" using False special by blast
    ultimately have "encode_url_char c = [c]" "c \<notin> {CHR '' '', CR, LF}" by blast+
    then show ?thesis using that by (simp add: is_space_or_tab_def)
  qed
  have tw: "takeWhile (\<lambda>c. c \<noteq> NUL) s = s" using assms(2) by (auto simp: takeWhile_eq_all_conv list_all_iff)
  have "list_all ?P (concat (map encode_url_char s))"
    using assms(2) step by (induction s) simp_all
  then show "list_all ?P (encode_url s)" unfolding encode_url_def tw .
  have "encode_url_char c \<noteq> []" for c using encode_url_char_cases [of c] percent by (cases "c = CHR ''%''") auto
  then show "encode_url s \<noteq> []" unfolding encode_url_def tw using assms(1) by (cases s) simp_all
qed

subsection \<open>Splitting\<close>

text \<open>The pieces between the separators, and a text without the blanks around it.\<close>

fun pieces_of :: "char \<Rightarrow> string \<Rightarrow> string list" where
  "pieces_of d [] = [[]]"
| "pieces_of d (c # s) =
     (if c = d then [] # pieces_of d s
      else case pieces_of d s of p # ps \<Rightarrow> (c # p) # ps | [] \<Rightarrow> [[c]])"

definition strip :: "string \<Rightarrow> string" where
  "strip s = rev (dropWhile is_space_or_tab (rev (dropWhile is_space_or_tab s)))"

lemma pieces_of_not_Nil [simp]: "pieces_of d s \<noteq> []"
  by (induction s) (auto split: list.splits)

lemma trim_left_eq:
  "l \<le> length s \<Longrightarrow> trim_left s l = l + length (takeWhile is_space_or_tab (drop l s))"
proof (induction s l rule: trim_left.induct)
  case (1 s l)
  show ?case
  proof (cases "l < length s")
    case True
    then have "drop l s = s ! l # drop (Suc l) s" by (simp add: Cons_nth_drop_Suc)
    with 1 True show ?thesis by (subst trim_left.simps) simp
  qed (use 1 in \<open>subst trim_left.simps, simp\<close>)
qed

lemma trim_right_eq:
  "r \<le> length s \<Longrightarrow> trim_right s r = r - length (takeWhile is_space_or_tab (rev (take r s)))"
proof (induction s r rule: trim_right.induct)
  case (2 s r)
  then show ?case by (simp add: take_Suc_conv_app_nth)
qed simp

lemma strip_split:
  obtains (blank) "list_all is_space_or_tab s" "strip s = []"
  | (inner) u v where "s = u @ strip s @ v" "list_all is_space_or_tab u" "list_all is_space_or_tab v"
      "strip s \<noteq> []" "\<not> is_space_or_tab (hd (strip s))" "\<not> is_space_or_tab (last (strip s))"
proof (cases "list_all is_space_or_tab s")
  case True
  then have "dropWhile is_space_or_tab s = []" by (simp add: list_all_iff)
  with blank True show ?thesis by (simp add: strip_def)
next
  case False
  let ?t = "dropWhile is_space_or_tab s"
  let ?r = "dropWhile is_space_or_tab (rev ?t)"
  from False have t: "?t \<noteq> []" by (simp add: list_all_iff dropWhile_eq_Nil_conv)
  then have h: "\<not> is_space_or_tab (hd ?t)" by (rule hd_dropWhile)
  with hd_in_set [OF t] have "\<not> list_all is_space_or_tab (rev ?t)" by (auto simp: list_all_iff)
  then have r: "?r \<noteq> []" by (simp add: list_all_iff dropWhile_eq_Nil_conv)
  have u: "list_all is_space_or_tab (takeWhile is_space_or_tab x)" for x
    by (auto simp: list_all_iff dest: set_takeWhileD)
  have tv: "?t = rev ?r @ rev (takeWhile is_space_or_tab (rev ?t))"
    by (metis rev_append rev_rev_ident takeWhile_dropWhile_id)
  show ?thesis
  proof (rule inner)
    show "s = takeWhile is_space_or_tab s @ strip s @ rev (takeWhile is_space_or_tab (rev ?t))"
      using tv by (simp add: strip_def)
    show "\<not> is_space_or_tab (last (strip s))" using hd_dropWhile [OF r] r by (simp add: strip_def last_rev)
    have "hd (rev ?r) = hd ?t" using tv r by (metis hd_append2 rev_is_Nil_conv)
    with h show "\<not> is_space_or_tab (hd (strip s))" by (simp add: strip_def)
  qed (use u r in \<open>simp_all add: strip_def list_all_rev\<close>)
qed

lemma split_piece_eq:
  "split_piece (pre @ cur @ rest) (length pre) (length pre + length cur)
     = (if strip cur = [] then [] else [strip cur])"
proof (cases rule: strip_split [of cur])
  case blank
  then have "takeWhile is_space_or_tab (cur @ rest) = cur @ takeWhile is_space_or_tab rest"
    by (simp add: list_all_iff)
  with blank(2) show ?thesis by (simp add: split_piece_def trim_def trim_left_eq trim_right_eq)
next
  case (inner u v)
  let ?m = "strip cur"
  have l: "takeWhile is_space_or_tab (cur @ rest) = u"
    using inner(2,4,5) by (subst inner(1)) (cases ?m; auto simp: list_all_iff takeWhile_append)
  have "rev (pre @ cur) = rev v @ last ?m # rev (butlast ?m) @ rev u @ rev pre"
    using inner(4) by (subst inner(1)) (simp add: rev_eq_Cons_iff flip: append_butlast_last_id)
  then have r: "takeWhile is_space_or_tab (rev (pre @ cur)) = rev v"
    using inner(3,6) by (simp add: list_all_iff takeWhile_append)
  have len: "length cur = length u + length ?m + length v" by (subst inner(1)) simp
  have "take (length ?m) (drop (length u) (cur @ rest)) = ?m" by (subst inner(1)) simp
  with inner(4) l r len show ?thesis
    by (simp add: split_piece_def trim_def trim_left_eq trim_right_eq Let_def)
qed

lemma split_loop_eq:
  assumes "d \<notin> set cur" and "pre @ cur @ rest \<noteq> []"
  shows "split_loop (pre @ cur @ rest) d (length pre + length cur) (length pre) ps
     = ps @ filter (\<lambda>p. p \<noteq> []) (map strip
         (case pieces_of d rest of p # qs \<Rightarrow> (cur @ p) # qs | [] \<Rightarrow> []))"
  using assms
proof (induction rest arbitrary: pre cur ps)
  case Nil
  then show ?case
    using split_piece_eq [of pre cur "[]"] by (subst split_loop.simps) auto
next
  case (Cons c rest)
  have nth: "(pre @ cur @ c # rest) ! (length pre + length cur) = c" by (simp add: nth_append)
  show ?case
  proof (cases "c = d")
    case True
    let ?ps = "ps @ split_piece (pre @ cur @ c # rest) (length pre) (length pre + length cur)"
    have "split_loop (pre @ cur @ c # rest) d (length pre + length cur) (length pre) ps
        = split_loop ((pre @ cur @ [c]) @ [] @ rest) d (length (pre @ cur @ [c]) + length ([] :: string)) (length (pre @ cur @ [c])) ?ps"
      by (subst split_loop.simps) (simp add: nth True)
    also have "\<dots> = ?ps @ filter (\<lambda>p. p \<noteq> []) (map strip (pieces_of d rest))"
      by (subst Cons.IH) (auto split: list.splits)
    finally show ?thesis using True split_piece_eq [of pre cur "c # rest"] by simp
  next
    case False
    then have "split_loop (pre @ cur @ c # rest) d (length pre + length cur) (length pre) ps
        = split_loop (pre @ (cur @ [c]) @ rest) d (length pre + length (cur @ [c])) (length pre) ps"
      by (subst split_loop.simps) (simp add: nth)
    also have "\<dots> = ps @ filter (\<lambda>p. p \<noteq> []) (map strip
         (case pieces_of d rest of p # qs \<Rightarrow> ((cur @ [c]) @ p) # qs | [] \<Rightarrow> []))"
      by (subst Cons.IH) (use Cons.prems False in auto)
    finally show ?thesis using False by (simp split: list.splits)
  qed
qed

lemma split_eq: "split s d = filter (\<lambda>p. p \<noteq> []) (map strip (pieces_of d s))"
proof (cases "s = []")
  case True
  then show ?thesis by (simp add: split_def split_loop.simps strip_def)
next
  case False
  with split_loop_eq [of d "[]" "[]" s "[]"] show ?thesis by (simp add: split_def split: list.splits)
qed

lemma pieces_of_none: "d \<notin> set s \<Longrightarrow> pieces_of d s = [s]"
  by (induction s) auto

lemma pieces_of_app: "d \<notin> set s \<Longrightarrow> pieces_of d (s @ d # t) = s # pieces_of d t"
  by (induction s) auto

lemma pieces_of_join:
  "d \<notin> set s \<Longrightarrow> list_all (\<lambda>x. d \<notin> set x) xs \<Longrightarrow>
   pieces_of d (s @ concat (map (\<lambda>x. d # x) xs)) = s # xs"
proof (induction xs arbitrary: s)
  case (Cons x xs)
  then have "pieces_of d (x @ concat (map (\<lambda>x. d # x) xs)) = x # xs" by simp
  then show ?case using Cons.prems by (simp add: pieces_of_app)
qed (simp add: pieces_of_none)

lemma strip_id: "list_all (\<lambda>c. \<not> is_space_or_tab c) s \<Longrightarrow> strip s = s"
proof -
  assume s: "list_all (\<lambda>c. \<not> is_space_or_tab c) s"
  then have "dropWhile is_space_or_tab s = s" "dropWhile is_space_or_tab (rev s) = rev s"
    by (cases s, simp_all add: list_all_iff, cases "rev s", simp_all)
  then show "strip s = s" by (simp add: strip_def)
qed

subsection \<open>Query strings\<close>

text \<open>What an encoded text is made of: no blank and none of the separators.\<close>

definition query_text :: "string \<Rightarrow> bool" where
  "query_text s \<longleftrightarrow> list_all (\<lambda>c. query_char_kept c \<or> c = CHR ''%'') s"

lemma query_text_encode: "query_text (encode_query_param s)"
proof -
  have "query_char_kept (upper_digit n)" if "n < 16" for n
    using that by (simp add: query_char_kept_def)
  then have "list_all (\<lambda>c. query_char_kept c \<or> c = CHR ''%'') (upper_hex_pair c)" for c
    using code_halves [of c] by (simp add: upper_hex_pair_def Let_def)
  then show ?thesis by (induction s) (simp_all add: query_text_def encode_query_param_def)
qed

lemma query_text_chars:
  "query_text s \<Longrightarrow> list_all (\<lambda>c. \<not> is_space_or_tab c) s"
  "query_text s \<Longrightarrow> CHR ''&'' \<notin> set s" "query_text s \<Longrightarrow> CHR ''='' \<notin> set s"
  by (auto simp: query_text_def list_all_iff query_char_kept_def is_space_or_tab_def is_alnum_def
      is_digit_code is_upper_def is_lower_def less_eq_char_def)

definition query_entry :: "string \<times> string \<Rightarrow> string" where
  "query_entry = (\<lambda>(k, v). k @ ''='' @ encode_query_param v)"

definition query_key_ok :: "string \<Rightarrow> bool" where
  "query_key_ok k \<longleftrightarrow> k \<noteq> [] \<and> list_all query_char_kept k"

lemma query_key_text: "query_key_ok k \<Longrightarrow> query_text k"
  by (auto simp: query_key_ok_def query_text_def list_all_iff)

lemma params_to_query_loop_eq:
  "params_to_query_loop ps False q = q @ concat (map (\<lambda>x. CHR ''&'' # x) (map query_entry ps))"
  by (induction ps arbitrary: q) (auto simp: query_entry_def)

lemma query_entry_chars:
  assumes "query_key_ok (fst kv)"
  shows "CHR ''&'' \<notin> set (query_entry kv)" "list_all (\<lambda>c. \<not> is_space_or_tab c) (query_entry kv)"
    "query_entry kv \<noteq> []"
  using query_text_chars [OF query_key_text [OF assms]] query_text_chars [OF query_text_encode [of "snd kv"]]
  by (auto simp: query_entry_def split_beta is_space_or_tab_def)

lemma split_query:
  assumes "list_all (\<lambda>kv. query_key_ok (fst kv)) ps"
  shows "split (params_to_query_str ps) CHR ''&'' = map query_entry ps"
proof (cases ps)
  case Nil
  then show ?thesis by (simp add: params_to_query_str_def split_eq strip_def)
next
  case (Cons kv qs)
  have "params_to_query_str ps = query_entry kv @ concat (map (\<lambda>x. CHR ''&'' # x) (map query_entry qs))"
    by (cases kv) (simp add: Cons params_to_query_str_def params_to_query_loop_eq query_entry_def)
  moreover have "list_all (\<lambda>x. CHR ''&'' \<notin> set x) (map query_entry ps)"
    using assms query_entry_chars(1) by (auto simp: list_all_iff)
  ultimately have "pieces_of CHR ''&'' (params_to_query_str ps) = map query_entry ps"
    using pieces_of_join [of "CHR ''&''" "query_entry kv" "map query_entry qs"] Cons by simp
  moreover have "map strip (map query_entry ps) = map query_entry ps"
    using assms query_entry_chars(2) by (auto simp: list_all_iff intro!: map_idI strip_id)
  moreover have "filter (\<lambda>p. p \<noteq> []) (map query_entry ps) = map query_entry ps"
    using assms query_entry_chars(3) by (auto simp: list_all_iff intro!: filter_True)
  ultimately show ?thesis by (simp only: split_eq)
qed

lemma query_entry_pieces:
  assumes "query_key_ok k"
  shows "query_key_val (split (query_entry (k, v)) CHR ''='') = (k, encode_query_param v)"
proof -
  let ?e = "encode_query_param v"
  have "pieces_of CHR ''='' (query_entry (k, v)) = [k, ?e]"
    using query_text_chars(3) [OF query_key_text [OF assms]] query_text_chars(3) [OF query_text_encode [of v]]
    by (simp add: query_entry_def pieces_of_app pieces_of_none)
  moreover have "strip k = k" "strip ?e = ?e"
    using query_text_chars(1) query_key_text [OF assms] query_text_encode strip_id by blast+
  ultimately show ?thesis using assms by (simp add: split_eq query_key_val_def query_key_ok_def)
qed

lemma parse_query_entries:
  assumes "list_all (\<lambda>kv. query_key_ok (fst kv)) ps" and "mm_sorted id (done @ ps)"
    and "distinct ps" and "query_entry ` set ps \<inter> cache = {}"
  shows "parse_query_pieces (map query_entry ps) cache done = done @ ps"
  using assms
proof (induction ps arbitrary: cache "done")
  case (Cons kv ps)
  obtain k v where kv: "kv = (k, v)" by fastforce
  with Cons.prems have k: "query_key_ok k" by simp
  have "mm_upper id done k = length done"
  proof -
    have "takeWhile (\<lambda>(a, b). id a \<le> id k) done = done"
      using Cons.prems(2) by (auto simp: mm_sorted_def kv sorted_append takeWhile_eq_all_conv)
    then show ?thesis by (simp only: mm_upper_def)
  qed
  then have em: "mm_emplace id k v done = done @ [(k, v)]" by (simp add: mm_emplace_def)
  have inj: "query_entry kv \<notin> query_entry ` set ps"
  proof
    assume "query_entry kv \<in> query_entry ` set ps"
    then obtain k' v' where e: "(k', v') \<in> set ps" "query_entry (k, v) = query_entry (k', v')" by (auto simp: kv)
    then have "query_key_ok k'" using Cons.prems(1) by (auto simp: list_all_iff)
    with e(2) k have "(k, encode_query_param v) = (k', encode_query_param v')"
      using query_entry_pieces by metis
    then have "k = k'" "v = v'" using decode_encode by (auto, metis)
    with e(1) Cons.prems(3) kv show False by simp
  qed
  have dk: "decode_url k True = k" using k by (simp add: query_key_ok_def decode_kept)
  have "parse_query_pieces (map query_entry ps) (insert (query_entry kv) cache) (done @ [kv])
      = (done @ [kv]) @ ps"
    using Cons.prems inj by (intro Cons.IH) auto
  moreover have "query_entry kv \<notin> cache" using Cons.prems(4) by auto
  ultimately show ?case
    using k by (simp add: query_entry_pieces kv em dk decode_encode query_key_ok_def)
qed simp

subsection \<open>Paths\<close>

text \<open>The components of a path and how many levels they lead down from where they start.\<close>

definition path_components :: "string \<Rightarrow> string list" where
  "path_components p = filter (\<lambda>c. c \<noteq> []) (pieces_of CHR ''/'' p)"

definition path_depth :: "string list \<Rightarrow> int" where
  "path_depth cs = (\<Sum>c \<leftarrow> cs. if c = ''.'' then 0 else if c = ''..'' then - 1 else 1)"

lemma path_components_slash: "path_components (CHR ''/'' # p) = path_components p"
  by (simp add: path_components_def)

lemma path_components_skip: "path_components (skip_slashes p) = path_components p"
proof (induction p)
  case (Cons c p)
  then show ?case by (auto simp: skip_slashes_def path_components_slash)
qed (simp add: skip_slashes_def)

lemma path_components_step:
  assumes "p \<noteq> []" and "hd p \<noteq> CHR ''/''"
  shows "path_components p = takeWhile (\<lambda>c. c \<noteq> CHR ''/'') p
     # path_components (skip_slashes (dropWhile (\<lambda>c. c \<noteq> CHR ''/'') p))"
proof -
  let ?c = "takeWhile (\<lambda>c. c \<noteq> CHR ''/'') p" and ?r = "dropWhile (\<lambda>c. c \<noteq> CHR ''/'') p"
  have c1: "CHR ''/'' \<notin> set ?c" by (auto dest: set_takeWhileD)
  have c2: "?c \<noteq> []" using assms by (cases p) simp_all
  have p: "p = ?c @ ?r" by (simp only: takeWhile_dropWhile_id)
  show ?thesis
  proof (cases ?r)
    case Nil
    with p have e: "p = ?c" by simp
    then have "pieces_of CHR ''/'' p = [?c]" using c1 pieces_of_none by metis
    with c2 have "path_components p = [?c]" by (simp only: path_components_def filter.simps if_True simp_thms)
    then show ?thesis unfolding Nil by (simp add: skip_slashes_def path_components_def)
  next
    case (Cons d r)
    then have d: "d = CHR ''/''" using hd_dropWhile [of "\<lambda>c. c \<noteq> CHR ''/''" p] by simp
    have "pieces_of CHR ''/'' p = ?c # pieces_of CHR ''/'' r"
      by (subst p) (simp only: Cons d pieces_of_app [OF c1])
    with c2 have "path_components p = ?c # path_components r"
      by (simp only: path_components_def filter.simps if_True simp_thms)
    then show ?thesis unfolding Cons d by (simp only: path_components_skip path_components_slash)
  qed
qed

lemma skip_slashes_hd: "skip_slashes p = [] \<or> hd (skip_slashes p) \<noteq> CHR ''/''"
  unfolding skip_slashes_def by (metis (mono_tags, lifting) hd_dropWhile)

lemma valid_path_loop_eq:
  "p = [] \<or> hd p \<noteq> CHR ''/'' \<Longrightarrow>
   valid_path_loop p level \<longleftrightarrow> list_all (\<lambda>cs. 0 \<le> int level + path_depth cs) (prefixes (path_components p))"
proof (induction p level rule: valid_path_loop.induct)
  case (1 p level)
  show ?case
  proof (cases "p = []")
    case True
    then show ?thesis by (subst valid_path_loop.simps) (simp add: path_components_def path_depth_def)
  next
    case False
    let ?c = "takeWhile (\<lambda>c. c \<noteq> CHR ''/'') p"
    let ?r = "skip_slashes (dropWhile (\<lambda>c. c \<noteq> CHR ''/'') p)"
    have step: "path_components p = ?c # path_components ?r"
      using 1(4) False by (intro path_components_step) auto
    have ih: "valid_path_loop ?r n \<longleftrightarrow>
        list_all (\<lambda>cs. 0 \<le> int n + path_depth cs) (prefixes (path_components ?r))"
      if "?c = ''.'' \<and> n = level \<or> ?c = ''..'' \<and> 0 < level \<and> n = level - 1
          \<or> ?c \<noteq> ''.'' \<and> ?c \<noteq> ''..'' \<and> n = level + 1" for n
      using that 1(1-3) False skip_slashes_hd by auto
    have depth: "path_depth (?c # cs)
        = (if ?c = ''.'' then 0 else if ?c = ''..'' then - 1 else 1) + path_depth cs" for cs
      by (simp add: path_depth_def)
    have nil: "path_depth [] = 0" by (simp add: path_depth_def)
    show ?thesis
    proof (cases "?c = ''.'' \<or> ?c = ''..'' \<and> level = 0")
      case True
      then show ?thesis
        by (subst valid_path_loop.simps) (auto simp: Let_def False step ih depth nil list_all_iff intro!: bexI [of _ "[]"])
    next
      case c: False
      have "int (level - 1) = int level - 1" if "0 < level" using that by simp
      with c show ?thesis
        by (subst valid_path_loop.simps)
          (auto simp: Let_def False step ih depth nil list_all_iff algebra_simps)
    qed
  qed
qed

text \<open>Paths that stay below where they start, and their prefixes.\<close>

lemma pieces_of_append:
  "pieces_of d (t @ u) = butlast (pieces_of d t) @ (last (pieces_of d t) @ hd (pieces_of d u)) # tl (pieces_of d u)"
proof (induction t)
  case (Cons c t)
  obtain p ps where t: "pieces_of d t = p # ps" by (cases "pieces_of d t") auto
  show ?case
  proof (cases "c = d")
    case True
    then show ?thesis using Cons.IH by (simp add: t)
  next
    case False
    have "pieces_of d (c # t @ u) = (case pieces_of d (t @ u) of p # ps \<Rightarrow> (c # p) # ps | [] \<Rightarrow> [[c]])"
      using False by simp
    then show ?thesis using False by (cases ps) (simp_all add: Cons.IH t)
  qed
qed simp

definition path_below :: "string \<Rightarrow> bool" where
  "path_below p \<longleftrightarrow> list_all (\<lambda>cs. 0 \<le> path_depth cs) (prefixes (path_components p))"

lemma path_below_prefix:
  assumes "path_below (t @ u)" and "path_components t = [] \<or> last (path_components t) \<noteq> ''..''"
  shows "path_below t"
proof -
  define cs where "cs = filter (\<lambda>c. c \<noteq> []) (butlast (pieces_of CHR ''/'' t))"
  define l where "l = last (pieces_of CHR ''/'' t)"
  have "path_components t = filter (\<lambda>c. c \<noteq> []) (butlast (pieces_of CHR ''/'' t) @ [l])"
    unfolding path_components_def l_def by (metis append_butlast_last_id pieces_of_not_Nil)
  then have t: "path_components t = cs @ (if l = [] then [] else [l])" by (simp add: cs_def)
  have "path_components (t @ u) = cs @ filter (\<lambda>c. c \<noteq> []) ((l @ hd (pieces_of CHR ''/'' u)) # tl (pieces_of CHR ''/'' u))"
    unfolding path_components_def pieces_of_append cs_def l_def by (rule filter_append)
  then have "prefix cs (path_components (t @ u))" by (simp only: prefixI)
  then have a: "0 \<le> path_depth xs" if "prefix xs cs" for xs
    using assms(1) that prefix_order.trans unfolding path_below_def list_all_iff by (metis in_set_prefixes)
  have "0 \<le> path_depth xs" if "prefix xs (path_components t)" for xs
  proof (cases "l = []")
    case True
    then show ?thesis using that a t by simp
  next
    case False
    then have "l \<noteq> ''..''" using assms(2) t by auto
    then have "path_depth cs \<le> path_depth (cs @ [l])" by (simp add: path_depth_def)
    then have "0 \<le> path_depth (cs @ [l])" using a [of cs] by simp
    then show ?thesis using False that a t by (auto simp: prefix_snoc)
  qed
  then show ?thesis by (simp add: path_below_def list_all_iff)
qed

lemma is_valid_path_below: "is_valid_path p \<longleftrightarrow> path_below p"
  using valid_path_loop_eq [OF skip_slashes_hd, of p 0]
  by (simp add: is_valid_path_def path_components_skip path_below_def)

lemma path_below_component:
  assumes "path_below p" and "p \<noteq> []" and "last p = CHR ''/''" and "CHR ''/'' \<notin> set f" and "f \<notin> {'''', ''.'', ''..''}"
  shows "path_below (p @ f)"
proof -
  obtain q where p: "p = q @ [CHR ''/'']" using assms(2,3) by (metis append_butlast_last_id)
  let ?q = "pieces_of CHR ''/'' q"
  have q: "butlast ?q @ [last ?q] = ?q" by (rule append_butlast_last_id) simp
  have "pieces_of CHR ''/'' p = butlast ?q @ [last ?q] @ [[]]"
    unfolding p pieces_of_append by simp
  then have "pieces_of CHR ''/'' p = ?q @ [[]]" unfolding append_assoc [symmetric] q .
  then have "path_components (p @ f) = path_components p @ [f]"
    using assms(4,5) by (simp add: path_components_def pieces_of_append pieces_of_none)
  then show ?thesis using assms(1,5)
    by (auto simp: path_below_def list_all_iff prefix_snoc path_depth_def)
qed

lemma path_components_app:
  "path_components (a @ CHR ''/'' # t) = path_components a @ path_components (CHR ''/'' # t)"
proof -
  let ?A = "pieces_of CHR ''/'' a"
  have q: "butlast ?A @ [last ?A] = ?A" by (rule append_butlast_last_id) simp
  have "pieces_of CHR ''/'' (a @ CHR ''/'' # t) = butlast ?A @ [last ?A] @ pieces_of CHR ''/'' t"
    by (simp add: pieces_of_append)
  then have "pieces_of CHR ''/'' (a @ CHR ''/'' # t) = ?A @ pieces_of CHR ''/'' t"
    unfolding append_assoc [symmetric] q .
  then show ?thesis by (simp add: path_components_def)
qed

subsection \<open>Hexadecimal numbers\<close>

lemma hex_digits_loop_eq: "hex_digits_loop n ret = printf_lx n @ ret"
proof (induction n ret rule: hex_digits_loop.induct)
  case (1 n ret)
  then show ?case
    by (subst hex_digits_loop.simps, subst printf_lx.simps) (auto simp: Let_def)
qed

section \<open>Properties\<close>

text \<open>
  \<open>split\<close> gives the pieces between the separators, each without the blanks around it, and
  leaves out those with nothing left, although its left bound may run past the end of a piece.
\<close>

theorem split_is_trimmed_pieces:
  "split s d = filter (\<lambda>p. p \<noteq> []) (map strip (pieces_of d s))"
  by (rule split_eq)

text \<open>
  Reading back a query string: for parameters in the order of the multimap, no pair twice,
  with keys that need no encoding, parsing the text \<open>params_to_query_str\<close> writes gives the same
  parameters, whatever bytes the values hold.
\<close>

theorem query_roundtrip:
  assumes "mm_sorted id ps" and "distinct ps" and "list_all (\<lambda>kv. query_key_ok (fst kv)) ps"
  shows "parse_query_text (params_to_query_str ps) [] = ps"
  using parse_query_entries [OF assms(3), of "[]" "{}"] assms
  by (simp add: parse_query_text_def split_query)

theorem query_roundtrip_witness:
  "parse_query_text (params_to_query_str [(''id'', ''7''), (''q'', ''a=b & 100%''), (''q'', [])]) []
     = [(''id'', ''7''), (''q'', ''a=b & 100%''), (''q'', [])]"
  by (rule query_roundtrip; code_simp)

text \<open>
  \<open>is_valid_path\<close> accepts exactly the paths that never climb above where they start: after every
  one of its components the path has gone up (\<open>..\<close>) at most as often as down.
\<close>

theorem is_valid_path_stays_below:
  "is_valid_path p \<longleftrightarrow> list_all (\<lambda>cs. 0 \<le> path_depth cs) (prefixes (path_components p))"
  by (simp add: is_valid_path_below path_below_def)

text \<open>
  The two routines of the service that print a number in hexadecimal, \<open>from_i_to_hex\<close> of the
  HTTP library (for the sizes of chunks) and \<open>num_to_hexstring\<close> of the utilities, agree.
\<close>

theorem from_i_to_hex_eq_num_to_hexstring: "from_i_to_hex n = num_to_hexstring n"
  by (simp add: from_i_to_hex_def num_to_hexstring_def hex_digits_loop_eq)

end
