(* ===== verification/Http_Stream.thy ===== *)
theory Http_Stream
  imports Http_Text
begin

text \<open>
  Reading a request from a connection and writing to it (\<open>sgx/src/include/httplib.h\<close>): the line
  reader, header fields, and the three ways a body is delimited.

  A \<open>Stream\<close> hands out the bytes of the peer packet by packet: \<open>read\<close> gives what is left of the
  first packet, at most as many bytes as it is asked for, 0 at the end or a negative number when
  the connection is broken. How many bytes each \<open>write\<close> takes is the list \<open>sends\<close>: a negative
  entry is a failed call, and behind the last entry every call takes all it is given.

  A \<open>ContentReceiver\<close> is a function from the bytes it is called with and its state to the new
  state, or \<open>None\<close> when it returns \<open>false\<close>. Whether the packets show in the result depends on the
  receiver; the locale \<open>seamless_receiver\<close> is the law under which they do not.
\<close>

section \<open>Streams\<close>

record conn =
  packets :: "string list"
  broken :: bool
  sends :: "int list"
  sent :: string

datatype read_result = Got string | End_of_stream | Read_failed

definition strm_read :: "nat \<Rightarrow> conn \<Rightarrow> read_result \<times> conn" where
  "strm_read n st =
     (case dropWhile (\<lambda>p. p = []) (packets st) of
        [] \<Rightarrow> (if broken st then Read_failed else End_of_stream, st\<lparr>packets := []\<rparr>)
      | p # ps \<Rightarrow> (Got (take n p), st\<lparr>packets := drop n p # ps\<rparr>))"

definition strm_write :: "string \<Rightarrow> conn \<Rightarrow> int \<times> conn" where
  "strm_write s st =
     (case sends st of
        [] \<Rightarrow> (int (length s), st\<lparr>sent := sent st @ s\<rparr>)
      | l # ls \<Rightarrow>
          if l < 0 then (- 1, st\<lparr>sends := ls\<rparr>)
          else (let k = min (nat l) (length s)
                in (int k, st\<lparr>sends := ls, sent := sent st @ take k s\<rparr>)))"

text \<open>What the peer still has to say.\<close>

definition rest :: "conn \<Rightarrow> string" where
  "rest st = concat (packets st)"

lemma concat_dropWhile_Nil [simp]: "concat (dropWhile (\<lambda>p. p = []) ps) = concat ps"
  by (induction ps) auto

lemma strm_read_cases:
  assumes "strm_read n st = (r, st')" and "0 < n"
  obtains (got) xs where "r = Got xs" "xs \<noteq> []" "length xs \<le> n" "rest st = xs @ rest st'"
      "broken st' = broken st" "sent st' = sent st" "sends st' = sends st"
  | (ended) "r = (if broken st then Read_failed else End_of_stream)" "rest st = []" "rest st' = []"
      "broken st' = broken st" "sent st' = sent st" "sends st' = sends st"
proof (cases "dropWhile (\<lambda>p. p = []) (packets st)")
  case Nil
  then have e: "rest st = []" by (metis concat.simps(1) concat_dropWhile_Nil rest_def)
  have "r = (if broken st then Read_failed else End_of_stream)" "st' = st\<lparr>packets := []\<rparr>"
    using assms(1) unfolding strm_read_def Nil by simp_all
  with e show ?thesis by (intro ended) (simp_all add: rest_def)
next
  case (Cons p ps)
  then have "p \<noteq> []" using hd_dropWhile [of "\<lambda>p. p = []" "packets st"] by simp
  moreover have "rest st = p @ concat ps" using Cons by (metis concat.simps(2) concat_dropWhile_Nil rest_def)
  moreover have "r = Got (take n p)" "st' = st\<lparr>packets := drop n p # ps\<rparr>"
    using assms(1) unfolding strm_read_def Cons by simp_all
  ultimately show ?thesis using assms(2) by (intro got [of "take n p"]) (simp_all add: rest_def)
qed

lemma rest_read: "strm_read n st = (Got xs, st') \<Longrightarrow> 0 < n \<Longrightarrow> length (rest st') < length (rest st)"
  by (erule strm_read_cases) auto

section \<open>Streams in memory\<close>

text \<open>\<open>BufferStream\<close>: the position never passes the end, so \<open>std::string::copy\<close> does not throw.\<close>

record buffer_stream =
  bs_buffer :: string
  bs_position :: nat

definition BufferStream_read :: "nat \<Rightarrow> buffer_stream \<Rightarrow> string \<times> buffer_stream" where
  "BufferStream_read n b =
     (let s = take n (drop (bs_position b) (bs_buffer b)) in (s, b\<lparr>bs_position := bs_position b + length s\<rparr>))"

definition BufferStream_write :: "string \<Rightarrow> buffer_stream \<Rightarrow> int \<times> buffer_stream" where
  "BufferStream_write s b = (int (length s), b\<lparr>bs_buffer := bs_buffer b @ s\<rparr>)"

definition bs_ok :: "buffer_stream \<Rightarrow> bool" where
  "bs_ok b \<longleftrightarrow> bs_position b \<le> length (bs_buffer b)"

lemma bs_ok_kept:
  "bs_ok b \<Longrightarrow> bs_ok (snd (BufferStream_read n b))" "bs_ok b \<Longrightarrow> bs_ok (snd (BufferStream_write s b))"
  by (auto simp: bs_ok_def BufferStream_read_def BufferStream_write_def Let_def)

text \<open>What is left to read is what was written and not yet read.\<close>

definition bs_rest :: "buffer_stream \<Rightarrow> string" where
  "bs_rest b = drop (bs_position b) (bs_buffer b)"

lemma bs_rest_read: "bs_ok b \<Longrightarrow> BufferStream_read n b = (s, b') \<Longrightarrow> bs_rest b = s @ bs_rest b' \<and> s = take n (bs_rest b)"
  by (auto simp: bs_ok_def bs_rest_def BufferStream_read_def Let_def add.commute min_def simp flip: drop_drop)
    (metis append_take_drop_id drop_drop add.commute)?

lemma bs_rest_write: "bs_ok b \<Longrightarrow> bs_rest (snd (BufferStream_write s b)) = bs_rest b @ s"
  by (simp add: bs_ok_def bs_rest_def BufferStream_write_def)

section \<open>Lines\<close>

text \<open>
  \<open>stream_line_reader\<close>: characters go to the fixed buffer until one place is left for the NUL,
  then to the buffer that grows.
\<close>

record line_reader =
  fixed_buffer :: string
  fixed_buffer_size :: nat
  glowable_buffer :: string

definition new_line_reader :: "nat \<Rightarrow> line_reader" where
  "new_line_reader n = \<lparr>fixed_buffer = [], fixed_buffer_size = n, glowable_buffer = []\<rparr>"

definition lr_ptr :: "line_reader \<Rightarrow> string" where
  "lr_ptr lr = (if glowable_buffer lr = [] then fixed_buffer lr else glowable_buffer lr)"

definition lr_size :: "line_reader \<Rightarrow> nat" where
  "lr_size lr = (if glowable_buffer lr = [] then length (fixed_buffer lr) else length (glowable_buffer lr))"

definition end_with_crlf :: "line_reader \<Rightarrow> bool" where
  "end_with_crlf lr \<longleftrightarrow>
     2 \<le> lr_size lr \<and> lr_ptr lr ! (lr_size lr - 2) = CR \<and> lr_ptr lr ! (lr_size lr - 1) = LF"

definition lr_append :: "char \<Rightarrow> line_reader \<Rightarrow> line_reader" where
  "lr_append c lr =
     (if length (fixed_buffer lr) < fixed_buffer_size lr - 1
      then lr\<lparr>fixed_buffer := fixed_buffer lr @ [c]\<rparr>
      else if glowable_buffer lr = [] then lr\<lparr>glowable_buffer := fixed_buffer lr @ [c]\<rparr>
      else lr\<lparr>glowable_buffer := glowable_buffer lr @ [c]\<rparr>)"

function getline_loop :: "line_reader \<Rightarrow> nat \<Rightarrow> conn \<Rightarrow> bool \<times> line_reader \<times> conn" where
  "getline_loop lr i st =
     (case strm_read 1 st of
        (Read_failed, st') \<Rightarrow> (False, lr, st')
      | (End_of_stream, st') \<Rightarrow> (i \<noteq> 0, lr, st')
      | (Got byte, st') \<Rightarrow>
          (let lr' = lr_append (hd byte) lr
           in if hd byte = LF then (True, lr', st') else getline_loop lr' (i + 1) st'))"
  by pat_completeness auto
termination by (relation "measure (\<lambda>(lr, i, st). length (rest st))") (auto dest: rest_read [OF sym])

declare getline_loop.simps [simp del]

definition getline :: "line_reader \<Rightarrow> conn \<Rightarrow> bool \<times> line_reader \<times> conn" where
  "getline lr st = getline_loop (lr\<lparr>fixed_buffer := [], glowable_buffer := []\<rparr>) 0 st"

text \<open>The buffers together hold one line; \<open>lr_ok\<close> says how.\<close>

definition lr_ok :: "line_reader \<Rightarrow> bool" where
  "lr_ok lr \<longleftrightarrow> (glowable_buffer lr = [] \<or> fixed_buffer_size lr - 1 \<le> length (fixed_buffer lr))"

lemma lr_append_ptr:
  "lr_ok lr \<Longrightarrow> lr_ptr (lr_append c lr) = lr_ptr lr @ [c] \<and> lr_ok (lr_append c lr)
     \<and> fixed_buffer_size (lr_append c lr) = fixed_buffer_size lr"
  by (auto simp: lr_ptr_def lr_append_def lr_ok_def)

lemma lr_size_ptr: "lr_size lr = length (lr_ptr lr)"
  by (simp add: lr_size_def lr_ptr_def)

text \<open>The line up to and with the first line feed, or what there is before the end.\<close>

definition line_of :: "string \<Rightarrow> string" where
  "line_of s = takeWhile (\<lambda>c. c \<noteq> LF) s @ take 1 (dropWhile (\<lambda>c. c \<noteq> LF) s)"

lemma line_of_simps [simp]:
  "line_of [] = []" "line_of (c # s) = (if c = LF then [c] else c # line_of s)"
  by (simp_all add: line_of_def)

lemma line_of_LF: "LF \<notin> set l \<Longrightarrow> line_of (l @ LF # s) = l @ [LF]"
  by (induction l) auto

lemma line_of_length: "s \<noteq> [] \<Longrightarrow> line_of s \<noteq> []"
  by (cases s) auto

lemma getline_loop_spec:
  assumes "lr_ok lr" and "getline_loop lr i st = (ok, lr', st')"
  shows "(if LF \<in> set (rest st) then ok else ok = (\<not> broken st \<and> (i \<noteq> 0 \<or> rest st \<noteq> [])))
    \<and> lr_ptr lr' = lr_ptr lr @ line_of (rest st) \<and> lr_ok lr'
    \<and> rest st = line_of (rest st) @ rest st'
    \<and> broken st' = broken st \<and> sent st' = sent st \<and> sends st' = sends st
    \<and> fixed_buffer_size lr' = fixed_buffer_size lr"
  using assms
proof (induction lr i st rule: getline_loop.induct)
  case (1 lr i st)
  obtain r st1 where r: "strm_read 1 st = (r, st1)" by fastforce
  from r zero_less_one show ?case
  proof (cases rule: strm_read_cases)
    case (got xs)
    from got(2,3) obtain c where xs: "xs = [c]" by (cases xs) auto
    show ?thesis
    proof (cases "c = LF")
      case True
      with 1(2,3) r got xs lr_append_ptr [OF 1(2), of c] show ?thesis
        by (subst (asm) getline_loop.simps) (auto simp: Let_def)
    next
      case False
      then have g: "getline_loop (lr_append c lr) (i + 1) st1 = (ok, lr', st')"
        using 1(3) r got xs by (subst (asm) getline_loop.simps) (simp add: Let_def)
      have "lr_ok (lr_append c lr)" using lr_append_ptr [OF 1(2)] by blast
      with 1(1) [OF r [symmetric], of xs "lr_append (hd xs) lr"] got xs False g
      have "(if LF \<in> set (rest st1) then ok else ok = (\<not> broken st1 \<and> (i + 1 \<noteq> 0 \<or> rest st1 \<noteq> [])))
        \<and> lr_ptr lr' = lr_ptr (lr_append c lr) @ line_of (rest st1) \<and> lr_ok lr'
        \<and> rest st1 = line_of (rest st1) @ rest st'
        \<and> broken st' = broken st1 \<and> sent st' = sent st1 \<and> sends st' = sends st1
        \<and> fixed_buffer_size lr' = fixed_buffer_size (lr_append c lr)" by simp
      with lr_append_ptr [OF 1(2), of c] got xs False show ?thesis by auto
    qed
  next
    case ended
    with 1(2,3) r show ?thesis by (subst (asm) getline_loop.simps) (auto split: if_splits)
  qed
qed

lemma getline_spec:
  assumes "getline lr st = (ok, lr', st')"
  shows "if LF \<in> set (rest st) then ok else ok = (\<not> broken st \<and> rest st \<noteq> [])"
    and "lr_ptr lr' = line_of (rest st)" and "rest st = line_of (rest st) @ rest st'"
    and "broken st' = broken st" and "sent st' = sent st" and "sends st' = sends st"
proof -
  have "lr_ok (lr\<lparr>fixed_buffer := [], glowable_buffer := []\<rparr>)"
    "lr_ptr (lr\<lparr>fixed_buffer := [], glowable_buffer := []\<rparr>) = []"
    by (simp_all add: lr_ok_def lr_ptr_def)
  with getline_loop_spec assms
  show "if LF \<in> set (rest st) then ok else ok = (\<not> broken st \<and> rest st \<noteq> [])"
    and "lr_ptr lr' = line_of (rest st)" and "rest st = line_of (rest st) @ rest st'"
    and "broken st' = broken st" and "sent st' = sent st" and "sends st' = sends st"
    unfolding getline_def by fastforce+
qed

lemma getline_less: "getline lr st = (True, lr', st') \<Longrightarrow> length (rest st') < length (rest st)"
  using getline_spec(1,3) [of lr st True lr' st'] line_of_length [of "rest st"]
  by (cases "rest st = []") (auto split: if_splits dest: arg_cong [of "rest st" _ length])

lemma getline_le: "getline lr st = (ok, lr', st') \<Longrightarrow> length (rest st') \<le> length (rest st)"
  using arg_cong [OF getline_spec(3) [of lr st ok lr' st'], of length] by simp

lemma getline_line:
  assumes "rest st = l @ LF # aft" and "LF \<notin> set l"
  obtains lr' st' where "getline lr st = (True, lr', st')" "lr_ptr lr' = l @ [LF]" "rest st' = aft"
    "broken st' = broken st" "sent st' = sent st" "sends st' = sends st"
proof -
  obtain ok lr' st' where g: "getline lr st = (ok, lr', st')" by (metis prod_cases3)
  note sp = getline_spec [OF g]
  from sp(1) assms have "ok" by simp
  moreover have "lr_ptr lr' = l @ [LF]" using sp(2) assms line_of_LF by simp
  moreover have "rest st' = aft" using sp(3) assms line_of_LF [OF assms(2), of aft] by simp
  ultimately show ?thesis using g sp(4-6) by (intro that [of lr' st']) simp_all
qed

lemma getline_ex:
  assumes "rest st = l @ LF # aft" and "LF \<notin> set l"
  shows "\<exists>lr' st'. getline lr st = (True, lr', st') \<and> lr_ptr lr' = l @ [LF] \<and> rest st' = aft"
  using getline_line [OF assms, of lr] by metis

section \<open>Header fields\<close>

text \<open>\<open>parse_header\<close> on the text between its pointers: the arguments of the callback, if it is called.\<close>

definition parse_header :: "string \<Rightarrow> (string \<times> string) option" where
  "parse_header s =
     (let t = rev (dropWhile is_space_or_tab (rev s));
          key = takeWhile (\<lambda>c. c \<noteq> CHR '':'') t;
          p = dropWhile (\<lambda>c. c \<noteq> CHR '':'') t
      in if p = [] then None
         else (let v = dropWhile is_space_or_tab (tl p)
               in if v = [] then None else Some (key, decode_url v False)))"

function read_headers_loop :: "line_reader \<Rightarrow> conn \<Rightarrow> headers \<Rightarrow> bool \<times> conn \<times> headers" where
  "read_headers_loop lr st hs =
     (case getline lr st of (ok, lr', st') \<Rightarrow>
        if \<not> ok then (False, st', hs)
        else if end_with_crlf lr' then
          (if lr_size lr' = 2 then (True, st', hs)
           else read_headers_loop lr' st'
                  (case parse_header (take (lr_size lr' - 2) (lr_ptr lr')) of
                     None \<Rightarrow> hs
                   | Some (key, val) \<Rightarrow> mm_emplace to_lower key val hs))
        else read_headers_loop lr' st' hs)"
  by pat_completeness auto
termination by (relation "measure (\<lambda>(lr, st, hs). length (rest st))") (auto dest: getline_less [OF sym])

declare read_headers_loop.simps [simp del]

definition read_headers :: "conn \<Rightarrow> headers \<Rightarrow> bool \<times> conn \<times> headers" where
  "read_headers st hs = read_headers_loop (new_line_reader 2048) st hs"

section \<open>Bodies\<close>

type_synonym 'r receiver = "string \<Rightarrow> 'r \<Rightarrow> 'r option"

definition CPPHTTPLIB_RECV_BUFSIZ :: nat where "CPPHTTPLIB_RECV_BUFSIZ = 4096"

text \<open>The second argument is \<open>len - r\<close>, what is still to be read.\<close>

lemma read_some: "strm_read (min left CPPHTTPLIB_RECV_BUFSIZ) st = (Got buf, st') \<Longrightarrow> left \<noteq> 0 \<Longrightarrow> buf \<noteq> []"
  by (erule strm_read_cases) (auto simp: CPPHTTPLIB_RECV_BUFSIZ_def)

function read_content_with_length :: "'r receiver \<Rightarrow> nat \<Rightarrow> conn \<Rightarrow> 'r \<Rightarrow> 'r option \<times> conn" where
  "read_content_with_length out left st r =
     (if left = 0 then (Some r, st)
      else case strm_read (min left CPPHTTPLIB_RECV_BUFSIZ) st of
        (Got buf, st') \<Rightarrow>
          (case out buf r of
             None \<Rightarrow> (None, st')
           | Some r' \<Rightarrow> read_content_with_length out (left - length buf) st' r')
      | (_, st') \<Rightarrow> (None, st'))"
  by pat_completeness auto
termination
  by (relation "measure (\<lambda>(out, left, st, r). left)") (auto dest!: read_some [OF sym] simp: neq_Nil_conv)

declare read_content_with_length.simps [simp del]

function skip_content_with_length :: "nat \<Rightarrow> conn \<Rightarrow> conn" where
  "skip_content_with_length left st =
     (if left = 0 then st
      else case strm_read (min left CPPHTTPLIB_RECV_BUFSIZ) st of
        (Got buf, st') \<Rightarrow> skip_content_with_length (left - length buf) st'
      | (_, st') \<Rightarrow> st')"
  by pat_completeness auto
termination
  by (relation "measure (\<lambda>(left, st). left)") (auto dest!: read_some [OF sym] simp: neq_Nil_conv)

declare skip_content_with_length.simps [simp del]

function read_content_without_length :: "'r receiver \<Rightarrow> conn \<Rightarrow> 'r \<Rightarrow> 'r option \<times> conn" where
  "read_content_without_length out st r =
     (case strm_read CPPHTTPLIB_RECV_BUFSIZ st of
        (Read_failed, st') \<Rightarrow> (None, st')
      | (End_of_stream, st') \<Rightarrow> (Some r, st')
      | (Got buf, st') \<Rightarrow>
          (case out buf r of None \<Rightarrow> (None, st') | Some r' \<Rightarrow> read_content_without_length out st' r'))"
  by pat_completeness auto
termination
  by (relation "measure (\<lambda>(out, st, r). length (rest st))")
    (auto simp: CPPHTTPLIB_RECV_BUFSIZ_def dest: rest_read [OF sym])

declare read_content_without_length.simps [simp del]

lemma read_content_with_length_le:
  "read_content_with_length out n st r = (res, st') \<Longrightarrow> length (rest st') \<le> length (rest st)"
proof (induction out n st r rule: read_content_with_length.induct)
  case (1 out left st r)
  show ?case
  proof (cases "left = 0")
    case False
    obtain x st1 where x: "strm_read (min left CPPHTTPLIB_RECV_BUFSIZ) st = (x, st1)" by fastforce
    have "0 < min left CPPHTTPLIB_RECV_BUFSIZ" using False by (simp add: CPPHTTPLIB_RECV_BUFSIZ_def)
    with x show ?thesis
    proof (cases rule: strm_read_cases)
      case (got buf)
      show ?thesis
      proof (cases "out buf r")
        case None
        with 1(2) False x got show ?thesis by (subst (asm) read_content_with_length.simps) simp
      next
        case (Some r')
        with 1(2) False x got have "read_content_with_length out (left - length buf) st1 r' = (res, st')"
          by (subst (asm) read_content_with_length.simps) simp
        with 1(1) [OF False x [symmetric] got(1)] Some have "length (rest st') \<le> length (rest st1)" by blast
        with got show ?thesis by simp
      qed
    next
      case ended
      with 1(2) False x show ?thesis by (subst (asm) read_content_with_length.simps) (auto split: if_splits)
    qed
  qed (use 1(2) in \<open>subst (asm) read_content_with_length.simps, simp\<close>)
qed

subsection \<open>Chunks\<close>

text \<open>
  \<open>strtoul(s, &end, 16)\<close>: the number, and whether \<open>end\<close> has moved off \<open>s\<close>.
\<close>

definition hex_value :: "string \<Rightarrow> nat" where
  "hex_value ds = foldl (\<lambda>n c. n * 16 + the (is_hex c)) 0 ds"

definition strtoul16 :: "string \<Rightarrow> nat \<times> bool" where
  "strtoul16 s =
     (let t = dropWhile is_space s;
          neg = (t \<noteq> [] \<and> hd t = CHR ''-'');
          u = (if t \<noteq> [] \<and> (hd t = CHR ''-'' \<or> hd t = CHR ''+'') then tl t else t);
          u' = (if take 2 u \<in> {''0x'', ''0X''} \<and> 2 < length u \<and> is_hex (u ! 2) \<noteq> None then drop 2 u else u);
          ds = takeWhile (\<lambda>c. is_hex c \<noteq> None) u';
          n = hex_value ds
      in if ds = [] then (0, False)
         else if 2 ^ 64 \<le> n then (2 ^ 64 - 1, True)
         else if neg then ((2 ^ 64 - n) mod 2 ^ 64, True) else (n, True))"

text \<open>\<open>strcmp(line_reader.ptr(), "\\r\\n") == 0\<close>.\<close>

definition is_crlf_line :: "line_reader \<Rightarrow> bool" where
  "is_crlf_line lr \<longleftrightarrow> takeWhile (\<lambda>c. c \<noteq> NUL) (lr_ptr lr) = CRLF"

function chunk_loop :: "'r receiver \<Rightarrow> line_reader \<Rightarrow> conn \<Rightarrow> 'r \<Rightarrow> 'r option \<times> conn" where
  "chunk_loop out lr st r =
     (case strtoul16 (lr_ptr lr) of (chunk_len, moved) \<Rightarrow>
        if \<not> moved \<or> chunk_len = 2 ^ 64 - 1 then (None, st)
        else if chunk_len = 0 then
          (case getline lr st of (ok, lr', st') \<Rightarrow>
             (if \<not> ok \<or> \<not> is_crlf_line lr' then None else Some r, st'))
        else
          (case read_content_with_length out chunk_len st r of
             (None, st1) \<Rightarrow> (None, st1)
           | (Some r', st1) \<Rightarrow>
               (case getline lr st1 of (ok1, lr1, st2) \<Rightarrow>
                  if \<not> ok1 then (None, st2)
                  else if \<not> is_crlf_line lr1 then (Some r', st2)
                  else
                    (case getline lr1 st2 of (ok2, lr2, st3) \<Rightarrow>
                       if \<not> ok2 then (None, st3) else chunk_loop out lr2 st3 r'))))"
  by pat_completeness auto
termination
  by (relation "measure (\<lambda>(out, lr, st, r). length (rest st))")
    (auto dest!: getline_less [OF sym] read_content_with_length_le [OF sym])

declare chunk_loop.simps [simp del]

definition read_content_chunked :: "'r receiver \<Rightarrow> conn \<Rightarrow> 'r \<Rightarrow> 'r option \<times> conn" where
  "read_content_chunked out st r =
     (case getline (new_line_reader 16) st of (ok, lr, st') \<Rightarrow>
        if \<not> ok then (None, st') else chunk_loop out lr st' r)"

subsection \<open>The choice between them\<close>

definition is_chunked_transfer_encoding :: "headers \<Rightarrow> bool res" where
  "is_chunked_transfer_encoding hs =
     rbind (get_header_value hs ''Transfer-Encoding'' 0 []) (\<lambda>v.
       Inr (to_lower (takeWhile (\<lambda>c. c \<noteq> NUL) v) = ''chunked''))"

text \<open>
  \<open>prepare_content_receiver\<close> of a build without zlib and brotli, as that of the service: encodings
  that would need them are refused. The result is the status to set, if any.
\<close>

definition contains :: "string \<Rightarrow> string \<Rightarrow> bool" where
  "contains s pat = list_ex (\<lambda>t. starts_with t pat) (suffixes s)"

definition unsupported_encoding :: "string \<Rightarrow> bool" where
  "unsupported_encoding enc \<longleftrightarrow>
     enc = ''gzip'' \<or> enc = ''deflate'' \<or> contains enc ''br''"

text \<open>
  \<open>detail::read_content\<close>: what the receiver ends with, the status, the stream. \<open>read_body\<close> is the
  call of the receiver once the encoding is settled.
\<close>

definition read_body ::
  "'r receiver \<Rightarrow> headers \<Rightarrow> nat \<Rightarrow> int \<Rightarrow> conn \<Rightarrow> 'r \<Rightarrow> ('r option \<times> int \<times> conn) res" where
  "read_body out hs payload_max_length stat st r =
     rbind (is_chunked_transfer_encoding hs) (\<lambda>chunked.
       if chunked then
         (case read_content_chunked out st r of
            (res, st') \<Rightarrow> Inr (res, if res = None then 400 else stat, st'))
       else if \<not> has_header hs ''Content-Length'' then
         (case read_content_without_length out st r of
            (res, st') \<Rightarrow> Inr (res, if res = None then 400 else stat, st'))
       else
         rbind (get_header_value_u64 hs ''Content-Length'' 0 0) (\<lambda>len.
           if payload_max_length < len then Inr (None, 413, skip_content_with_length len st)
           else
             (case read_content_with_length out len st r of
                (res, st') \<Rightarrow> Inr (res, if res = None then 400 else stat, st'))))"

definition detail_read_content ::
  "'r receiver \<Rightarrow> headers \<Rightarrow> nat \<Rightarrow> int \<Rightarrow> conn \<Rightarrow> 'r \<Rightarrow> ('r option \<times> int \<times> conn) res" where
  "detail_read_content out hs payload_max_length stat st r =
     rbind (get_header_value hs ''Content-Encoding'' 0 []) (\<lambda>encoding.
       if unsupported_encoding encoding then Inr (None, 415, st)
       else read_body out hs payload_max_length stat st r)"

section \<open>Writing\<close>

function write_data :: "string \<Rightarrow> nat \<Rightarrow> conn \<Rightarrow> bool \<times> conn" where
  "write_data d offset st =
     (if offset < length d then
        (case strm_write (drop offset d) st of (n, st') \<Rightarrow>
           if n < 0 then (False, st') else write_data d (offset + nat n) st')
      else (True, st))"
  by pat_completeness auto
termination
  by (relation "measures [\<lambda>(d, offset, st). length (sends st), \<lambda>(d, offset, st). length d - offset]")
    (auto simp: strm_write_def Let_def split: list.splits if_splits)

declare write_data.simps [simp del]

text \<open>\<open>write_headers\<close> into a \<open>BufferStream\<close>, whose writes all succeed. \<open>%s\<close> takes a C string.\<close>

definition c_text :: "string \<Rightarrow> string" where
  "c_text s = takeWhile (\<lambda>c. c \<noteq> NUL) s"

definition write_headers :: "headers \<Rightarrow> string" where
  "write_headers hs = concat (map (\<lambda>(k, v). c_text k @ '': '' @ c_text v @ CRLF) hs) @ CRLF"

text \<open>
  \<open>data_sink.write\<close> and \<open>data_sink.done\<close> of \<open>write_content_chunked\<close> with the \<open>nocompressor\<close>:
  \<open>ok\<close>, \<open>data_available\<close> and the stream.
\<close>

definition chunk_text :: "string \<Rightarrow> string" where
  "chunk_text payload = from_i_to_hex (word_of_nat (length payload)) @ CRLF @ payload @ CRLF"

definition chunked_write :: "string \<Rightarrow> bool \<times> bool \<times> conn \<Rightarrow> bool \<times> bool \<times> conn" where
  "chunked_write d = (\<lambda>(ok, avail, st).
     if ok then
       (if d = [] then (True, False, st)
        else (case write_data (chunk_text d) 0 st of (ok', st') \<Rightarrow> (ok', True, st')))
     else (ok, avail, st))"

definition done_marker :: string where "done_marker = ''0'' @ CRLF @ CRLF"

definition chunked_done :: "bool \<times> bool \<times> conn \<Rightarrow> bool \<times> bool \<times> conn" where
  "chunked_done = (\<lambda>(ok, avail, st).
     if \<not> ok then (ok, avail, st)
     else (case write_data done_marker 0 st of (ok', st') \<Rightarrow> (ok', False, st')))"

section \<open>Receivers that do not see the packets\<close>

definition deliver :: "'r receiver \<Rightarrow> string \<Rightarrow> 'r \<Rightarrow> 'r option" where
  "deliver out s r = (if s = [] then Some r else out s r)"

lemma read_with_length_got:
  assumes "left \<noteq> 0" and "rest st \<noteq> []"
  obtains buf st1 where "buf \<noteq> []" "length buf \<le> left" "rest st = buf @ rest st1" "broken st1 = broken st"
    "sent st1 = sent st" "sends st1 = sends st"
    "read_content_with_length out left st r = (case out buf r of
       None \<Rightarrow> (None, st1) | Some r' \<Rightarrow> read_content_with_length out (left - length buf) st1 r')"
proof -
  obtain x st1 where x: "strm_read (min left CPPHTTPLIB_RECV_BUFSIZ) st = (x, st1)" by fastforce
  have "0 < min left CPPHTTPLIB_RECV_BUFSIZ" using assms(1) by (simp add: CPPHTTPLIB_RECV_BUFSIZ_def)
  with x show ?thesis
  proof (cases rule: strm_read_cases)
    case (got buf)
    with assms(1) x show ?thesis
      by (intro that [of buf st1]) (simp_all add: read_content_with_length.simps [of out left])
  qed (use assms(2) in simp)
qed

lemma read_with_length_short:
  "length (rest st) < n \<Longrightarrow> fst (read_content_with_length out n st r) = None"
proof (induction n arbitrary: st r rule: less_induct)
  case (less n)
  show ?case
  proof (cases "rest st = []")
    case True
    obtain x st1 where x: "strm_read (min n CPPHTTPLIB_RECV_BUFSIZ) st = (x, st1)" by fastforce
    have "0 < min n CPPHTTPLIB_RECV_BUFSIZ" using less(2) by (simp add: CPPHTTPLIB_RECV_BUFSIZ_def)
    with x have "x = Read_failed \<or> x = End_of_stream"
      by (rule strm_read_cases) (use True in auto)
    with less(2) x show ?thesis by (subst read_content_with_length.simps) auto
  next
    case False
    with less(2) obtain buf st1 where b: "buf \<noteq> []" "rest st = buf @ rest st1"
      "read_content_with_length out n st r = (case out buf r of
         None \<Rightarrow> (None, st1) | Some r' \<Rightarrow> read_content_with_length out (n - length buf) st1 r')"
      by (elim read_with_length_got [of n st out r, rotated]) auto
    with less show ?thesis by (cases buf) (auto split: option.splits)
  qed
qed

locale seamless_receiver =
  fixes out :: "string \<Rightarrow> 'r \<Rightarrow> 'r option"
  assumes seam: "a \<noteq> [] \<Longrightarrow> b \<noteq> [] \<Longrightarrow>
    out (a @ b) r = (case out a r of None \<Rightarrow> None | Some r' \<Rightarrow> out b r')"
begin

lemma deliver_append:
  "deliver out (a @ b) r = (case deliver out a r of None \<Rightarrow> None | Some r' \<Rightarrow> deliver out b r')"
  by (cases "a = []"; cases "b = []") (auto simp: deliver_def seam split: option.splits)

text \<open>With a length: the receiver gets exactly that many bytes, however they are cut into packets.\<close>

lemma with_length:
  assumes "n \<le> length (rest st)" and "read_content_with_length out n st r = (res, st')"
  shows "res = deliver out (take n (rest st)) r
    \<and> (res \<noteq> None \<longrightarrow> rest st' = drop n (rest st) \<and> broken st' = broken st
                     \<and> sent st' = sent st \<and> sends st' = sends st)"
  using assms
proof (induction n arbitrary: st r rule: less_induct)
  case (less n)
  show ?case
  proof (cases "n = 0")
    case True
    with less(3) show ?thesis by (simp add: read_content_with_length.simps deliver_def)
  next
    case False
    with less(2) have "rest st \<noteq> []" by auto
    with False obtain buf st1 where b: "buf \<noteq> []" "length buf \<le> n" "rest st = buf @ rest st1"
        "broken st1 = broken st" "sent st1 = sent st" "sends st1 = sends st"
        "read_content_with_length out n st r = (case out buf r of
           None \<Rightarrow> (None, st1) | Some r' \<Rightarrow> read_content_with_length out (n - length buf) st1 r')"
      by (rule read_with_length_got)
    then have t: "take n (rest st) = buf @ take (n - length buf) (rest st1)"
      "drop n (rest st) = drop (n - length buf) (rest st1)" by simp_all
    show ?thesis
    proof (cases "out buf r")
      case None
      with b less(3) have "res = None" by simp
      with None b(1) show ?thesis unfolding t deliver_append by (simp add: deliver_def)
    next
      case (Some r')
      with b less(3) have "read_content_with_length out (n - length buf) st1 r' = (res, st')" by simp
      moreover have "n - length buf < n" "n - length buf \<le> length (rest st1)"
        using b(1,3) False less(2) by (cases buf; auto)+
      ultimately have "res = deliver out (take (n - length buf) (rest st1)) r'
        \<and> (res \<noteq> None \<longrightarrow> rest st' = drop (n - length buf) (rest st1) \<and> broken st' = broken st1
                     \<and> sent st' = sent st1 \<and> sends st' = sends st1)"
        using less(1) by blast
      with Some b t(2) show ?thesis unfolding t(1) deliver_append by (simp add: deliver_def)
    qed
  qed
qed

text \<open>Without one: all there is.\<close>

lemma without_length:
  assumes "\<not> broken st" and "read_content_without_length out st r = (res, st')"
  shows "res = deliver out (rest st) r"
  using assms
proof (induction "length (rest st)" arbitrary: st r rule: less_induct)
  case less
  obtain x st1 where x: "strm_read CPPHTTPLIB_RECV_BUFSIZ st = (x, st1)" by fastforce
  have "0 < CPPHTTPLIB_RECV_BUFSIZ" by (simp add: CPPHTTPLIB_RECV_BUFSIZ_def)
  with x show ?case
  proof (cases rule: strm_read_cases)
    case (got buf)
    show ?thesis
    proof (cases "out buf r")
      case None
      with less(3) x got show ?thesis
        by (subst (asm) read_content_without_length.simps)
          (simp add: got(4) deliver_append del: append_is_Nil_conv, simp add: deliver_def)
    next
      case (Some r')
      with less(3) x got have "read_content_without_length out st1 r' = (res, st')"
        by (subst (asm) read_content_without_length.simps) simp
      moreover have "length (rest st1) < length (rest st)" using got by simp
      ultimately have "res = deliver out (rest st1) r'" using less(1,2) got by blast
      moreover have "deliver out buf r = Some r'" using Some got(2) by (simp add: deliver_def)
      ultimately show ?thesis by (simp add: got(4) deliver_append)
    qed
  next
    case ended
    with less(2,3) x show ?thesis
      by (subst (asm) read_content_without_length.simps) (simp add: deliver_def)
  qed
qed

end

subsection \<open>Chunks that were written\<close>

lemma hextable_is_hex: "n < 16 \<Longrightarrow> is_hex (hextable ! n) = Some n"
proof -
  have "list_all (\<lambda>n. is_hex (hextable ! n) = Some n) [0..<16]" by code_simp
  then show "n < 16 \<Longrightarrow> is_hex (hextable ! n) = Some n" by (simp add: list_all_iff)
qed

lemma printf_lx_hex: "\<forall>c \<in> set (printf_lx n). is_hex c \<noteq> None"
proof (induction n rule: printf_lx.induct)
  case (1 n)
  then show ?case by (subst printf_lx.simps) (auto simp: hextable_is_hex)
qed

lemma printf_lx_not_Nil [simp]: "printf_lx n \<noteq> []"
  by (subst printf_lx.simps) simp

lemma hex_value_snoc: "hex_value (ds @ [c]) = hex_value ds * 16 + the (is_hex c)"
  by (simp add: hex_value_def)

lemma hex_value_printf_lx: "hex_value (printf_lx n) = n"
proof (induction n rule: printf_lx.induct)
  case (1 n)
  show ?case
  proof (cases "n < 16")
    case True
    then show ?thesis by (subst printf_lx.simps) (simp add: hex_value_def hextable_is_hex)
  next
    case False
    with 1 show ?thesis by (subst printf_lx.simps) (simp add: hex_value_snoc hextable_is_hex)
  qed
qed

lemma is_hex_not:
  "is_hex c \<noteq> None \<Longrightarrow> \<not> is_space c" "is_hex c \<noteq> None \<Longrightarrow> c \<noteq> CHR ''-''" "is_hex c \<noteq> None \<Longrightarrow> c \<noteq> CHR ''+''"
  "is_hex c \<noteq> None \<Longrightarrow> c \<noteq> CHR ''x''" "is_hex c \<noteq> None \<Longrightarrow> c \<noteq> CHR ''X''"
  "is_hex c \<noteq> None \<Longrightarrow> c \<noteq> LF" "is_hex c \<noteq> None \<Longrightarrow> c \<noteq> CR" "is_hex c \<noteq> None \<Longrightarrow> c \<noteq> NUL"
  by (auto simp: is_hex_def is_digit_code is_space_code less_eq_char_def split: if_splits)

lemma strtoul16_printf_lx:
  assumes "n < 2 ^ 64"
  shows "strtoul16 (printf_lx n @ CRLF) = (n, True)"
proof -
  obtain c s where cs: "printf_lx n = c # s" by (cases "printf_lx n") auto
  have all: "\<forall>c \<in> set (printf_lx n). is_hex c \<noteq> None" by (rule printf_lx_hex)
  then have c: "is_hex c \<noteq> None" using cs by simp
  have "hd (s @ CRLF) \<noteq> CHR ''x''" "hd (s @ CRLF) \<noteq> CHR ''X''"
    using all is_hex_not(4,5) cs by (cases s; auto)+
  then have p: "take 2 (c # s @ CRLF) \<notin> {''0x'', ''0X''}" by (cases s) auto
  have "is_hex CR = None" by (simp add: is_hex_def is_digit_code less_eq_char_def)
  then have t: "takeWhile (\<lambda>c. is_hex c \<noteq> None) (c # s @ CRLF) = printf_lx n"
    using all unfolding cs by (simp add: takeWhile_append)
  have "dropWhile is_space (printf_lx n @ CRLF) = c # s @ CRLF" using is_hex_not(1) [OF c] cs by simp
  moreover obtain u where u: "u = s @ CRLF" by blast
  ultimately show ?thesis
    using p t is_hex_not(2,3) [OF c] assms unfolding u [symmetric]
    by (auto simp: strtoul16_def Let_def hex_value_printf_lx simp del: takeWhile.simps)
qed

lemma chunk_head:
  assumes "length d < 2 ^ 64"
  shows "from_i_to_hex (word_of_nat (length d)) = printf_lx (length d)"
  using assms by (simp add: from_i_to_hex_def hex_digits_loop_eq unat_of_nat)

lemma write_data_all: "sends st = [] \<Longrightarrow> write_data d 0 st = (True, st\<lparr>sent := sent st @ d\<rparr>)"
proof -
  assume s: "sends st = []"
  have fin: "write_data d (length d) st' = (True, st')" for st' by (subst write_data.simps) simp
  show "write_data d 0 st = (True, st\<lparr>sent := sent st @ d\<rparr>)"
  proof (cases "d = []")
    case True
    then show ?thesis using fin [of st] by (cases st) simp
  next
    case False
    then show ?thesis using s fin by (subst write_data.simps) (simp add: strm_write_def)
  qed
qed

definition chunks_text :: "string list \<Rightarrow> string" where
  "chunks_text ds = concat (map chunk_text ds) @ done_marker"

lemma chunked_writes:
  "sends st = [] \<Longrightarrow> list_all (\<lambda>d. d \<noteq> []) ds \<Longrightarrow>
   chunked_done (fold chunked_write ds (True, True, st)) = (True, False, st\<lparr>sent := sent st @ chunks_text ds\<rparr>)"
proof (induction ds arbitrary: st)
  case (Cons d ds)
  then show ?case by (simp add: chunked_write_def write_data_all chunks_text_def)
qed (simp add: chunked_done_def write_data_all chunks_text_def)

lemma printf_lx_no_LF: "LF \<notin> set (printf_lx n)" "NUL \<notin> set (printf_lx n)"
  using bspec [OF printf_lx_hex] is_hex_not(6,8) by blast+

text \<open>The line a list of chunks begins with.\<close>

lemma chunks_text_line:
  assumes "list_all (\<lambda>d. d \<noteq> [] \<and> length d < 2 ^ 64 - 1) ds"
  obtains body where "chunks_text ds = (printf_lx (case ds of [] \<Rightarrow> 0 | d # _ \<Rightarrow> length d) @ [CR]) @ LF # body"
    "body = (case ds of [] \<Rightarrow> CRLF | d # ds' \<Rightarrow> d @ CRLF @ chunks_text ds')"
proof (cases ds)
  case Nil
  have "printf_lx 0 = ''0''" by code_simp
  with Nil that show ?thesis by (simp add: chunks_text_def done_marker_def)
next
  case (Cons d ds')
  with assms that chunk_head [of d] show ?thesis by (simp add: chunks_text_def chunk_text_def)
qed

context seamless_receiver
begin

lemma chunk_loop_reads:
  assumes "list_all (\<lambda>d. d \<noteq> [] \<and> length d < 2 ^ 64 - 1) ds"
    and "lr_ptr lr = printf_lx (case ds of [] \<Rightarrow> 0 | d # _ \<Rightarrow> length d) @ CRLF"
    and "rest st = (case ds of [] \<Rightarrow> CRLF | d # ds' \<Rightarrow> d @ CRLF @ chunks_text ds') @ aft"
    and "chunk_loop out lr st r = (res, st')"
  shows "res = deliver out (concat ds) r \<and> (res \<noteq> None \<longrightarrow> rest st' = aft)"
  using assms
proof (induction ds arbitrary: lr st r)
  case Nil
  have "strtoul16 (lr_ptr lr) = (0, True)" using Nil(2) strtoul16_printf_lx [of 0] by simp
  moreover obtain lr1 st1 where g: "getline lr st = (True, lr1, st1)" "lr_ptr lr1 = [CR] @ [LF]" "rest st1 = aft"
    using getline_ex [of st "[CR]" aft lr] Nil(3) by auto
  moreover have "is_crlf_line lr1" by (simp add: is_crlf_line_def g(2))
  ultimately show ?case
    using Nil(4) by (subst (asm) chunk_loop.simps) (simp add: deliver_def)
next
  case (Cons d ds)
  have n: "strtoul16 (lr_ptr lr) = (length d, True)" "length d \<noteq> 2 ^ 64 - 1" "length d \<noteq> 0"
    using Cons(2,3) strtoul16_printf_lx [of "length d"] by auto
  obtain res1 st1 where w: "read_content_with_length out (length d) st r = (res1, st1)" by fastforce
  have sp: "res1 = deliver out d r" "res1 \<noteq> None \<Longrightarrow> rest st1 = CRLF @ chunks_text ds @ aft"
    using with_length [OF _ w] Cons(4) by auto
  show ?case
  proof (cases res1)
    case None
    with Cons(5) n w have "res = None" by (subst (asm) chunk_loop.simps) simp
    with sp(1) None show ?thesis by (simp add: deliver_append)
  next
    case (Some r')
    obtain lr1 st2 where g: "getline lr st1 = (True, lr1, st2)" "lr_ptr lr1 = [CR] @ [LF]"
        "rest st2 = chunks_text ds @ aft"
      using getline_ex [of st1 "[CR]" "chunks_text ds @ aft" lr] sp(2) Some by auto
    have ds: "list_all (\<lambda>d. d \<noteq> [] \<and> length d < 2 ^ 64 - 1) ds" using Cons(2) by simp
    obtain body where b: "chunks_text ds = (printf_lx (case ds of [] \<Rightarrow> 0 | d # _ \<Rightarrow> length d) @ [CR]) @ LF # body"
        "body = (case ds of [] \<Rightarrow> CRLF | d # ds' \<Rightarrow> d @ CRLF @ chunks_text ds')"
      by (rule chunks_text_line [OF ds])
    obtain lr2 st3 where g2: "getline lr1 st2 = (True, lr2, st3)"
        "lr_ptr lr2 = (printf_lx (case ds of [] \<Rightarrow> 0 | d # _ \<Rightarrow> length d) @ [CR]) @ [LF]" "rest st3 = body @ aft"
      using getline_ex [of st2 "printf_lx (case ds of [] \<Rightarrow> 0 | d # _ \<Rightarrow> length d) @ [CR]" "body @ aft" lr1]
        g(3) b(1) printf_lx_no_LF(1) by auto
    have "is_crlf_line lr1" by (simp add: is_crlf_line_def g(2))
    then have "chunk_loop out lr2 st3 r' = (res, st')"
      using Cons(5) n w Some g(1) g2(1) by (subst (asm) chunk_loop.simps) simp
    with Cons(1) [OF ds _ _ this] g2(2,3) b(2)
    have "res = deliver out (concat ds) r' \<and> (res \<noteq> None \<longrightarrow> rest st' = aft)" by simp
    moreover have "deliver out d r = Some r'" using sp(1) Some by simp
    ultimately show ?thesis by (simp add: deliver_append)
  qed
qed

lemma chunked_reads:
  assumes "list_all (\<lambda>d. d \<noteq> [] \<and> length d < 2 ^ 64 - 1) ds" and "rest st = chunks_text ds @ aft"
    and "read_content_chunked out st r = (res, st')"
  shows "res = deliver out (concat ds) r \<and> (res \<noteq> None \<longrightarrow> rest st' = aft)"
proof -
  obtain body where b: "chunks_text ds = (printf_lx (case ds of [] \<Rightarrow> 0 | d # _ \<Rightarrow> length d) @ [CR]) @ LF # body"
      "body = (case ds of [] \<Rightarrow> CRLF | d # ds' \<Rightarrow> d @ CRLF @ chunks_text ds')"
    by (rule chunks_text_line [OF assms(1)])
  obtain lr st1 where g: "getline (new_line_reader 16) st = (True, lr, st1)"
      "lr_ptr lr = (printf_lx (case ds of [] \<Rightarrow> 0 | d # _ \<Rightarrow> length d) @ [CR]) @ [LF]" "rest st1 = body @ aft"
    using getline_ex [of st "printf_lx (case ds of [] \<Rightarrow> 0 | d # _ \<Rightarrow> length d) @ [CR]" "body @ aft"
        "new_line_reader 16"] assms(2) b(1) printf_lx_no_LF(1) by auto
  with assms(3) have "chunk_loop out lr st1 r = (res, st')" by (simp add: read_content_chunked_def)
  from chunk_loop_reads [OF assms(1) _ _ this] g(2,3) b(2) show ?thesis by simp
qed

end

text \<open>The receiver that appends to \<open>req.body\<close>.\<close>

definition body_receiver :: "string receiver" where
  "body_receiver buf b = Some (b @ buf)"

interpretation body: seamless_receiver body_receiver
  by unfold_locales (simp add: body_receiver_def)

lemma deliver_body [simp]: "deliver body_receiver s b = Some (b @ s)"
  by (simp add: deliver_def body_receiver_def)

subsection \<open>Header fields that were written\<close>

definition field_ok :: "string \<Rightarrow> string \<Rightarrow> bool" where
  "field_ok k v \<longleftrightarrow>
     list_all (\<lambda>c. c \<notin> {NUL, CR, LF, CHR '':''}) k \<and> list_all (\<lambda>c. c \<notin> {NUL, CR, LF, CHR ''%''}) v
     \<and> v \<noteq> [] \<and> \<not> is_space_or_tab (hd v) \<and> \<not> is_space_or_tab (last v)"

lemma decode_url_plain: "CHR ''%'' \<notin> set s \<Longrightarrow> decode_url s False = s"
proof -
  have "decode_url_loop (pre @ s) False (length pre) res = res @ s" if "CHR ''%'' \<notin> set s" for pre s res
    using that
  proof (induction s arbitrary: pre res)
    case Nil
    show ?case by (subst decode_url_loop.simps) simp
  next
    case (Cons c s)
    then have "c \<noteq> CHR ''%''" by auto
    with Cons show ?case
      using Cons.IH [of "pre @ [c]" "res @ [c]"] by (subst decode_url_loop.simps) simp
  qed
  from this [of s "[]" "[]"] show "CHR ''%'' \<notin> set s \<Longrightarrow> decode_url s False = s"
    by (simp add: decode_url_def)
qed

lemma mm_emplace_last:
  assumes "mm_sorted norm (done @ [(k, v)])"
  shows "mm_emplace norm k v done = done @ [(k, v)]"
proof -
  have "takeWhile (\<lambda>(a, b). norm a \<le> norm k) done = done"
    using assms by (auto simp: mm_sorted_def sorted_append takeWhile_eq_all_conv)
  then have "mm_upper norm done k = length done" by (simp only: mm_upper_def)
  then show ?thesis by (simp add: mm_emplace_def)
qed

text \<open>
  What becomes of a field on the wire: the value is written up to its first NUL, the reader takes the
  blanks off both ends, drops a field whose value is then empty and decodes the percent escapes of the
  others. A well-formed field comes back as it is. A field can be sent when its line can be found again.
\<close>

definition field_sendable :: "string \<Rightarrow> string \<Rightarrow> bool" where
  "field_sendable k v \<longleftrightarrow> list_all (\<lambda>c. c \<notin> {NUL, LF, CHR '':''}) k \<and> LF \<notin> set (c_text v)"

definition trim_blanks :: "string \<Rightarrow> string" where
  "trim_blanks s = dropWhile is_space_or_tab (rev (dropWhile is_space_or_tab (rev s)))"

definition value_back :: "string \<Rightarrow> string list" where
  "value_back v = (let t = trim_blanks (c_text v) in if t = [] then [] else [decode_url t False])"

definition fields_back :: "headers \<Rightarrow> headers" where
  "fields_back hs = concat (map (\<lambda>(k, v). map (Pair k) (value_back v)) hs)"

lemma fields_back_simps [simp]:
  "fields_back [] = []" "fields_back ((k, v) # hs) = map (Pair k) (value_back v) @ fields_back hs"
  by (simp_all add: fields_back_def)

lemma field_ok_back:
  assumes "field_ok k v"
  shows "field_sendable k v" and "value_back v = [v]"
proof -
  have n: "NUL \<notin> set v" "LF \<notin> set v" "CHR ''%'' \<notin> set v" "v \<noteq> []" "\<not> is_space_or_tab (hd v)" "\<not> is_space_or_tab (last v)"
    using assms by (auto simp: field_ok_def list_all_iff)
  have c: "c_text v = v" using n(1) unfolding c_text_def by (auto simp: takeWhile_eq_all_conv)
  have "dropWhile is_space_or_tab v = v" using n(4,5) by (cases v) simp_all
  moreover have "dropWhile is_space_or_tab (rev v) = rev v" using n(4,6) by (cases v rule: rev_cases) simp_all
  ultimately have t: "trim_blanks v = v" by (simp add: trim_blanks_def)
  show "value_back v = [v]" using c t n(3,4) by (simp add: value_back_def decode_url_plain)
  show "field_sendable k v" using assms c n(2) by (auto simp: field_sendable_def field_ok_def list_all_iff)
qed

lemma fields_ok_back:
  "list_all (\<lambda>(k, v). field_ok k v) hs \<Longrightarrow> list_all (\<lambda>(k, v). field_sendable k v) hs \<and> fields_back hs = hs"
  by (induction hs) (auto simp: field_ok_back)

lemma fields_back_values: "mm_values norm (fields_back hs) key = concat (map value_back (mm_values norm hs key))"
  by (induction hs) (auto simp: mm_values_def value_back_def Let_def)

lemma fields_back_keys: "(k, v) \<in> set (fields_back hs) \<Longrightarrow> \<exists>u. (k, u) \<in> set hs"
  by (auto simp: fields_back_def)

lemma fields_back_sorted: "mm_sorted norm hs \<Longrightarrow> mm_sorted norm (fields_back hs)"
proof (induction hs)
  case (Cons kv hs)
  obtain k v where kv: "kv = (k, v)" by fastforce
  have s: "mm_sorted norm hs" and le: "\<forall>(a, b) \<in> set hs. norm k \<le> norm a"
    using Cons.prems by (auto simp: mm_sorted_def kv)
  have "\<forall>(a, b) \<in> set (fields_back hs). norm k \<le> norm a" using le fields_back_keys [of _ _ hs] by fast
  with Cons.IH [OF s] show ?case by (auto simp: kv mm_sorted_def value_back_def Let_def)
qed (simp add: mm_sorted_def)

lemma drop_blanks_back:
  "dropWhile is_space_or_tab (w @ CHR '' '' # CHR '':'' # r) =
    (if dropWhile is_space_or_tab w = [] then CHR '':'' # r else dropWhile is_space_or_tab w @ CHR '' '' # CHR '':'' # r)"
proof -
  have "is_space_or_tab CHR '' ''" "\<not> is_space_or_tab CHR '':''" by (simp_all add: is_space_or_tab_def)
  then show ?thesis by (induction w) simp_all
qed

lemma parse_header_sent:
  assumes "CHR '':'' \<notin> set k"
  shows "parse_header (k @ CHR '':'' # CHR '' '' # v) =
    (if trim_blanks v = [] then None else Some (k, decode_url (trim_blanks v) False))"
proof -
  let ?v = "dropWhile is_space_or_tab (rev v)"
  have "rev (dropWhile is_space_or_tab (rev (k @ CHR '':'' # CHR '' '' # v)))
      = k @ CHR '':'' # (if ?v = [] then [] else CHR '' '' # rev ?v)"
    using drop_blanks_back [of "rev v" "rev k"] by (simp del: dropWhile_eq_Nil_conv)
  moreover have "takeWhile (\<lambda>c. c \<noteq> CHR '':'') (k @ CHR '':'' # w) = k"
    "dropWhile (\<lambda>c. c \<noteq> CHR '':'') (k @ CHR '':'' # w) = CHR '':'' # w" for w
    using assms by (induction k) auto
  moreover have "dropWhile is_space_or_tab (CHR '' '' # w) = dropWhile is_space_or_tab w" for w
    by (simp add: is_space_or_tab_def)
  ultimately show ?thesis
    unfolding parse_header_def Let_def trim_blanks_def by (cases "?v = []") (simp_all del: dropWhile_eq_Nil_conv)
qed

lemma read_headers_sent:
  assumes "list_all (\<lambda>(k, v). field_sendable k v) hs" and "mm_sorted to_lower (done @ fields_back hs)"
    and "rest st = write_headers hs @ aft"
  shows "\<exists>st'. read_headers_loop lr st done = (True, st', done @ fields_back hs) \<and> rest st' = aft"
  using assms
proof (induction hs arbitrary: lr st "done")
  case Nil
  then have "rest st = [CR] @ LF # aft" by (simp add: write_headers_def)
  from getline_ex [OF this, of lr]
  obtain lr1 st1 where g: "getline lr st = (True, lr1, st1)" "lr_ptr lr1 = CRLF" "rest st1 = aft" by auto
  then have "end_with_crlf lr1" "lr_size lr1 = 2" by (simp_all add: end_with_crlf_def lr_size_ptr)
  with g show ?case by (subst read_headers_loop.simps) simp
next
  case (Cons kv hs)
  obtain k v where kv: "kv = (k, v)" by fastforce
  let ?t = "k @ '': '' @ c_text v" and ?b = "map (Pair k) (value_back v)"
  have n: "NUL \<notin> set k" "LF \<notin> set k" "CHR '':'' \<notin> set k" "LF \<notin> set (c_text v)"
    using Cons(2) kv by (auto simp: field_sendable_def list_all_iff)
  have c: "c_text k = k" using n(1) unfolding c_text_def by (auto simp: takeWhile_eq_all_conv)
  have lf: "LF \<notin> set (?t @ [CR])" using n(2,4) by simp
  have "rest st = (?t @ [CR]) @ LF # write_headers hs @ aft"
    using Cons(4) c by (simp add: write_headers_def kv)
  from getline_ex [OF this lf, of lr]
  obtain lr1 st1 where g: "getline lr st = (True, lr1, st1)" "lr_ptr lr1 = ?t @ CRLF"
      "rest st1 = write_headers hs @ aft" by auto
  have e: "end_with_crlf lr1" "lr_size lr1 \<noteq> 2" "take (lr_size lr1 - 2) (lr_ptr lr1) = ?t"
    unfolding end_with_crlf_def lr_size_ptr g(2) by (simp_all add: nth_append)
  have s: "mm_sorted to_lower ((done @ ?b) @ fields_back hs)" using Cons(3) kv by simp
  have em: "(case parse_header ?t of None \<Rightarrow> done | Some (key, val) \<Rightarrow> mm_emplace to_lower key val done) = done @ ?b"
    using mm_emplace_last [of to_lower "done" k] mm_sorted_parts(1) [OF s]
    by (cases "trim_blanks (c_text v) = []") (simp_all add: parse_header_sent [OF n(3)] value_back_def Let_def)
  from g(1) e em have "read_headers_loop lr st done = read_headers_loop lr1 st1 (done @ ?b)"
    by (subst read_headers_loop.simps) simp
  moreover have "\<exists>st'. read_headers_loop lr1 st1 (done @ ?b) = (True, st', (done @ ?b) @ fields_back hs) \<and> rest st' = aft"
    using Cons.IH [OF _ s g(3)] Cons(2) by simp
  ultimately show ?case by (simp add: kv)
qed

lemma lines_clean:
  assumes "\<And>x. x \<in> set xs \<Longrightarrow> CR \<notin> set (f x) \<and> LF \<notin> set (f x) \<and> f x \<noteq> []"
  shows "[] \<notin> set (map f xs) \<and> CR \<notin> set (concat (map f xs)) \<and> LF \<notin> set (concat (map f xs))"
  using assms by (induction xs) fastforce+

lemma read_headers_written:
  assumes "list_all (\<lambda>(k, v). field_ok k v) hs" and "mm_sorted to_lower (done @ hs)"
    and "rest st = write_headers hs @ aft"
  shows "\<exists>st'. read_headers_loop lr st done = (True, st', done @ hs) \<and> rest st' = aft"
  using read_headers_sent [of hs "done" st aft lr] fields_ok_back [OF assms(1)] assms(2,3) by simp

section \<open>Properties\<close>

text \<open>
  A body with a length: the reader appends to the body exactly the next \<open>n\<close> bytes of the
  connection, however they are cut into packets, and leaves the rest; it fails exactly when the
  connection has fewer bytes to give.
\<close>

theorem read_content_with_length_exact:
  "case read_content_with_length body_receiver n st b of (res, st') \<Rightarrow>
     if n \<le> length (rest st) then res = Some (b @ take n (rest st)) \<and> rest st' = drop n (rest st)
     else res = None"
proof (cases "n \<le> length (rest st)")
  case True
  then show ?thesis using body.with_length [OF True, of b] by (auto split: prod.splits)
next
  case False
  then show ?thesis using read_with_length_short [of st n body_receiver b] by (auto split: prod.splits)
qed

text \<open>
  Chunked transfer: what the writing side of the library sends for a list of chunks, the
  reading side reads back as their concatenation, however it arrives in packets, and it stops
  right behind the last chunk.
\<close>

theorem chunked_roundtrip:
  assumes "list_all (\<lambda>d. d \<noteq> [] \<and> length d < 2 ^ 64 - 1) ds" and "sends w = []" and "sent w = []"
    and "chunked_done (fold chunked_write ds (True, True, w)) = (ok, avail, w')"
    and "rest st = sent w' @ aft"
  shows "ok \<and> (\<exists>st'. read_content_chunked body_receiver st [] = (Some (concat ds), st') \<and> rest st' = aft)"
proof -
  have "list_all (\<lambda>d. d \<noteq> []) ds" using assms(1) by (auto simp: list_all_iff)
  with chunked_writes [OF assms(2), of ds] assms(3,4) have "ok" "sent w' = chunks_text ds" by auto
  moreover obtain res st' where "read_content_chunked body_receiver st [] = (res, st')" by fastforce
  moreover from calculation assms(5) have "rest st = chunks_text ds @ aft" by simp
  ultimately show ?thesis using body.chunked_reads [OF assms(1), of st aft "[]" res st'] by simp
qed

definition conn_example :: "string list \<Rightarrow> conn" where
  "conn_example ps = \<lparr>packets = ps, broken = False, sends = [], sent = []\<rparr>"

theorem chunked_roundtrip_witness:
  "\<exists>st'. read_content_chunked body_receiver (conn_example [''3'' @ [CR], LF # ''ab'', ''c'' @ CRLF @ ''1'' @ CRLF,
       ''d'' @ CRLF @ ''0'' @ CRLF @ CRLF @ ''GET'']) [] = (Some (concat [''abc'', ''d'']), st') \<and> rest st' = ''GET''"
proof -
  obtain ok avail w' where w: "chunked_done (fold chunked_write [''abc'', ''d''] (True, True, conn_example [])) = (ok, avail, w')"
    by (metis prod_cases3)
  then have "sent w' = ''3'' @ CRLF @ ''abc'' @ CRLF @ ''1'' @ CRLF @ ''d'' @ CRLF @ ''0'' @ CRLF @ CRLF"
    using chunked_writes [of "conn_example []" "[''abc'', ''d'']"]
    by (simp add: conn_example_def chunks_text_def chunk_text_def done_marker_def from_i_to_hex_def
        hex_digits_loop.simps hextable_def)
  with chunked_roundtrip [OF _ _ _ w, of "conn_example [''3'' @ [CR], LF # ''ab'', ''c'' @ CRLF @ ''1'' @ CRLF,
       ''d'' @ CRLF @ ''0'' @ CRLF @ CRLF @ ''GET'']" "''GET''"]
  show ?thesis by (simp add: conn_example_def rest_def)
qed

text \<open>
  A chunk that is not followed by a line break ends the body without an error: the reader
  reports success with the bytes up to there, and what the message still holds is left in the
  connection.
\<close>

theorem chunk_without_end_is_accepted:
  assumes "rest st = printf_lx (length d) @ CRLF @ d @ l @ LF # aft" and "0 < length d" and "length d < 2 ^ 64 - 1"
    and "LF \<notin> set l" and "takeWhile (\<lambda>c. c \<noteq> NUL) (l @ [LF]) \<noteq> CRLF"
  shows "\<exists>st'. read_content_chunked body_receiver st b = (Some (b @ d), st') \<and> rest st' = aft"
proof -
  obtain lr st1 where g: "getline (new_line_reader 16) st = (True, lr, st1)"
      "lr_ptr lr = printf_lx (length d) @ CRLF" "rest st1 = d @ l @ LF # aft"
    using getline_ex [of st "printf_lx (length d) @ [CR]" "d @ l @ LF # aft" "new_line_reader 16"]
      assms(1) printf_lx_no_LF(1) by auto
  obtain res st2 where w: "read_content_with_length body_receiver (length d) st1 b = (res, st2)" by fastforce
  have r: "res = Some (b @ d)" "rest st2 = l @ LF # aft"
    using body.with_length [OF _ w] g(3) by auto
  obtain lr1 st3 where g2: "getline lr st2 = (True, lr1, st3)" "lr_ptr lr1 = l @ [LF]" "rest st3 = aft"
    using getline_ex [OF r(2) assms(4), of lr] by auto
  have "\<not> is_crlf_line lr1" using assms(5) by (simp add: is_crlf_line_def g2(2))
  moreover have "strtoul16 (lr_ptr lr) = (length d, True)"
    using strtoul16_printf_lx [of "length d"] assms(3) g(2) by simp
  ultimately have "chunk_loop body_receiver lr st1 b = (Some (b @ d), st3)"
    using assms(2,3) w r(1) g2(1) by (subst chunk_loop.simps) simp
  with g(1) g2(3) show ?thesis by (simp add: read_content_chunked_def)
qed

theorem chunk_without_end_is_accepted_witness:
  "\<exists>st'. read_content_chunked body_receiver (conn_example [''2'' @ CRLF @ ''ab'' @ ''cd'' @ CRLF @ ''x'']) []
     = (Some ''ab'', st') \<and> rest st' = ''x''"
proof -
  have "printf_lx (length ''ab'') = ''2''" by code_simp
  then have "rest (conn_example [''2'' @ CRLF @ ''ab'' @ ''cd'' @ CRLF @ ''x''])
      = printf_lx (length ''ab'') @ CRLF @ ''ab'' @ (''cd'' @ [CR]) @ LF # ''x''"
    by (simp add: conn_example_def rest_def)
  from chunk_without_end_is_accepted [OF this, of "[]"] show ?thesis by simp
qed

text \<open>
  C16. Header fields cross the wire as \<open>fields_back\<close> says, and this is all that is lost: what
  \<open>write_headers\<close> writes for fields in the order of the multimap, with no colon, line feed or NUL in a
  key and no line feed in a value, is read by \<open>read_headers\<close>, in whatever packets it comes, as the same
  keys in the same order with each value cut at its first NUL, stripped of the blanks at both ends and
  percent-decoded, where a field whose value is then empty is dropped; the reader stops right behind the
  block. Fields whose values need none of this (\<open>field_ok\<close>) come back as they are.
\<close>

theorem headers_roundtrip:
  assumes "list_all (\<lambda>(k, v). field_sendable k v) hs" and "mm_sorted to_lower hs"
    and "rest st = write_headers hs @ aft"
  shows "(\<exists>st'. read_headers st [] = (True, st', fields_back hs) \<and> rest st' = aft)
    \<and> (list_all (\<lambda>(k, v). field_ok k v) hs \<longrightarrow> fields_back hs = hs)"
  using read_headers_sent [OF assms(1), of "[]" st aft] fields_back_sorted [OF assms(2)] assms(3) fields_ok_back [of hs]
  by (simp add: read_headers_def)

theorem headers_roundtrip_witness:
  "(\<exists>st'. read_headers (conn_example [''Host: a b'' @ [CR], LF # ''host:  %41 '' @ CRLF @ ''X: '' @ CRLF @ CRLF @ ''rest'']) []
      = (True, st', [(''Host'', ''a b''), (''host'', ''A'')]) \<and> rest st' = ''rest'')
   \<and> fields_back [(''Host'', ''a b''), (''host'', ''c'')] = [(''Host'', ''a b''), (''host'', ''c'')]"
proof
  let ?hs = "[(''Host'', ''a b''), (''host'', '' %41 ''), (''X'', [])]"
  have "fields_back ?hs = [(''Host'', ''a b''), (''host'', ''A'')]" by code_simp
  moreover have "list_all (\<lambda>(k, v). field_sendable k v) ?hs" "mm_sorted to_lower ?hs" by code_simp+
  moreover have "rest (conn_example [''Host: a b'' @ [CR], LF # ''host:  %41 '' @ CRLF @ ''X: '' @ CRLF @ CRLF @ ''rest''])
      = write_headers ?hs @ ''rest''"
    by (simp add: conn_example_def rest_def write_headers_def c_text_def)
  ultimately show "\<exists>st'. read_headers (conn_example
        [''Host: a b'' @ [CR], LF # ''host:  %41 '' @ CRLF @ ''X: '' @ CRLF @ CRLF @ ''rest'']) []
      = (True, st', [(''Host'', ''a b''), (''host'', ''A'')]) \<and> rest st' = ''rest''"
    using headers_roundtrip [of ?hs] by metis
  let ?gs = "[(''Host'', ''a b''), (''host'', ''c'')]"
  have "list_all (\<lambda>(k, v). field_ok k v) ?gs" "list_all (\<lambda>(k, v). field_sendable k v) ?gs" "mm_sorted to_lower ?gs"
    by code_simp+
  moreover have "rest (conn_example [write_headers ?gs]) = write_headers ?gs @ []" by (simp add: conn_example_def rest_def)
  ultimately show "fields_back ?gs = ?gs" using headers_roundtrip by blast
qed

text \<open>
  C38. No handler can split a response: whatever sequence of \<open>set_header\<close>, \<open>set_redirect\<close> and
  \<open>set_content\<close> with whatever strings a handler applies to a new response, the text \<open>write_headers\<close> puts
  on the wire for it is one line for each field and the empty line that ends the block: no line is
  empty, and none holds a carriage return or a line feed but the two that end it.
\<close>

theorem response_never_split:
  "\<exists>lines. write_headers (rsp_headers (fold apply_response_op ops empty_response)) = concat (map (\<lambda>l. l @ CRLF) lines) @ CRLF
    \<and> length lines = length (rsp_headers (fold apply_response_op ops empty_response))
    \<and> [] \<notin> set lines \<and> CR \<notin> set (concat lines) \<and> LF \<notin> set (concat lines)"
proof -
  let ?hs = "rsp_headers (fold apply_response_op ops empty_response)"
  let ?line = "\<lambda>(k, v). c_text k @ '': '' @ c_text v"
  have "headers_wf ?hs" by (rule headers_wf_ops) (simp add: headers_wf_def empty_response_def mm_sorted_def)
  then have "\<forall>(k, v) \<in> set ?hs. \<not> has_crlf k \<and> \<not> has_crlf v" by (simp add: headers_wf_def list_all_iff)
  then have c: "\<not> has_crlf k" "\<not> has_crlf v" if "(k, v) \<in> set ?hs" for k v using that by auto
  have t: "CR \<notin> set (c_text t)" "LF \<notin> set (c_text t)" if "\<not> has_crlf t" for t
    using that by (auto simp: has_crlf_def list_ex_iff c_text_def)
  have n: "CR \<notin> set (?line kv) \<and> LF \<notin> set (?line kv) \<and> ?line kv \<noteq> []" if "kv \<in> set ?hs" for kv
  proof (cases kv)
    case (Pair k v)
    with c [of k v] that t show ?thesis by simp
  qed
  have "write_headers ?hs = concat (map (\<lambda>l. l @ CRLF) (map ?line ?hs)) @ CRLF"
    by (simp add: write_headers_def comp_def case_prod_unfold)
  moreover have "[] \<notin> set (map ?line ?hs) \<and> CR \<notin> set (concat (map ?line ?hs)) \<and> LF \<notin> set (concat (map ?line ?hs))"
    by (rule lines_clean) (rule n)
  ultimately show ?thesis by (intro exI [of _ "map ?line ?hs"]) (simp only: length_map simp_thms)
qed

end
