(* ===== verification/Http_Multipart.thy ===== *)
theory Http_Multipart
  imports Http_Stream
begin

text \<open>
  Multipart bodies in \<open>sgx/src/include/httplib.h\<close>: the boundary in a \<open>Content-Type\<close>, the class
  \<open>MultipartFormDataParser\<close>, the functions \<open>Server::read_content\<close> and \<open>read_content_core\<close> that
  feed it, and the body that \<open>ClientImpl::Post\<close> makes of a list of items.

  The parser gets the body piece by piece and keeps what it cannot use yet in its buffer. Its
  callbacks work on a state of their own and may refuse, which ends the parsing with \<open>false\<close>; what
  the callbacks have done before is then lost in the model, and nothing in the server looks at it
  except a logger or an error handler. The counter \<open>off_\<close> is written only and left out.
\<close>

section \<open>The parser\<close>

text \<open>\<open>std::string::find\<close> from the start.\<close>

fun str_find :: "string \<Rightarrow> string \<Rightarrow> nat option" where
  "str_find pat [] = (if pat = [] then Some 0 else None)"
| "str_find pat (c # s) = (if starts_with (c # s) pat then Some 0 else map_option Suc (str_find pat s))"

definition parse_multipart_boundary :: "string \<Rightarrow> string option" where
  "parse_multipart_boundary content_type =
     (case str_find ''boundary='' content_type of
        None \<Rightarrow> None
      | Some pos \<Rightarrow>
          (let boundary = drop (pos + 9) content_type;
               boundary = (if 2 \<le> length boundary \<and> hd boundary = QUOTE \<and> last boundary = QUOTE
                           then take (length boundary - 2) (tl boundary) else boundary)
           in if boundary = [] then None else Some boundary))"

text \<open>The positions of the parser: \<open>state_\<close> from 0 to 5.\<close>

datatype mp_state = Initial_boundary | New_entry | In_headers | In_body | At_boundary | Parsed

record mp_parser =
  mp_boundary :: string
  mp_buf :: string
  mp_state :: mp_state
  mp_is_valid :: bool
  mp_file :: multipart_form_data

definition new_mp_parser :: "string \<Rightarrow> mp_parser" where
  "new_mp_parser boundary =
     \<lparr>mp_boundary = boundary, mp_buf = [], mp_state = Initial_boundary, mp_is_valid = False,
      mp_file = empty_form_data\<rparr>"

definition clear_file_info :: "multipart_form_data \<Rightarrow> multipart_form_data" where
  "clear_file_info f = f\<lparr>mp_name := [], mp_filename := [], mp_content_type := []\<rparr>"

definition start_with_case_ignore :: "string \<Rightarrow> string \<Rightarrow> bool" where
  "start_with_case_ignore a b \<longleftrightarrow> length b \<le> length a \<and> to_lower (take (length b) a) = to_lower b"

text \<open>
  The position of \<open>pattern\<close> in \<open>s\<close>, or of its first character where less of \<open>s\<close> is left than the
  pattern is long, or the length of \<open>s\<close>.
\<close>

fun find_string :: "string \<Rightarrow> string \<Rightarrow> nat" where
  "find_string [] pattern = 0"
| "find_string (c # s) pattern =
     (if c = hd pattern \<and> (length (c # s) < length pattern \<or> starts_with (c # s) pattern) then 0
      else Suc (find_string s pattern))"

text \<open>
  \<open>^Content-Disposition:\s*form-data;\s*name="(.*?)"(?:;\s*filename="(.*?)")?\s*$\<close> without regard
  to case: the two groups. A group \<open>(.*?)\<close> takes as few characters as lets the rest match, and no
  line terminator.
\<close>

fun lazy_group :: "(string \<Rightarrow> 'a option) \<Rightarrow> string \<Rightarrow> (string \<times> 'a) option" where
  "lazy_group k [] = None"
| "lazy_group k (c # s) =
     (case (if c = QUOTE then k s else None) of
        Some a \<Rightarrow> Some ([], a)
      | None \<Rightarrow>
          if c = CR \<or> c = LF then None
          else map_option (\<lambda>(g, a). (c # g, a)) (lazy_group k s))"

definition only_space :: "string \<Rightarrow> unit option" where
  "only_space s = (if list_all is_space s then Some () else None)"

definition match_filename :: "string \<Rightarrow> string option" where
  "match_filename s =
     (case s of
        [] \<Rightarrow> None
      | c # t \<Rightarrow>
          (let u = dropWhile is_space t in
           if c = CHR '';'' \<and> start_with_case_ignore u (''filename='' @ [QUOTE])
           then map_option fst (lazy_group only_space (drop 10 u)) else None))"

definition match_tail :: "string \<Rightarrow> string option" where
  "match_tail s =
     (case match_filename s of
        Some f \<Rightarrow> Some f
      | None \<Rightarrow> map_option (\<lambda>_. []) (only_space s))"

definition match_content_disposition :: "string \<Rightarrow> (string \<times> string) option" where
  "match_content_disposition header =
     (let s = drop 20 header; t = dropWhile is_space s; u = dropWhile is_space (drop 10 t) in
      if start_with_case_ignore header ''Content-Disposition:'' \<and> start_with_case_ignore t ''form-data;''
         \<and> start_with_case_ignore u (''name='' @ [QUOTE])
      then lazy_group match_tail (drop 6 u) else None)"

text \<open>One header line of an entry. \<open>trim_copy\<close> never throws: see \<open>trim_copy_returns\<close>.\<close>

definition entry_header :: "string \<Rightarrow> multipart_form_data \<Rightarrow> multipart_form_data" where
  "entry_header header f =
     (if start_with_case_ignore header ''content-type:''
      then (case trim_copy (drop 13 header) of Inr t \<Rightarrow> f\<lparr>mp_content_type := t\<rparr> | Inl e \<Rightarrow> f)
      else (case match_content_disposition header of
              Some (n, fname) \<Rightarrow> f\<lparr>mp_name := n, mp_filename := fname\<rparr>
            | None \<Rightarrow> f))"

lemma trim_left_le: "l \<le> length s \<Longrightarrow> trim_left s l \<le> length s"
  by (induction s l rule: trim_left.induct) (subst trim_left.simps, auto)

lemma trim_copy_returns: "\<exists>t. trim_copy s = Inr t"
  using trim_left_le [of 0 s] by (simp add: trim_copy_def trim_def substr_def)

type_synonym 'r header_callback = "multipart_form_data \<Rightarrow> 'r \<Rightarrow> 'r option"

text \<open>The loop of state 2: whether the empty line was met, the rest, the entry, the callbacks.\<close>

lemma str_find_bound: "str_find pat s = Some pos \<Longrightarrow> pos + length pat \<le> length s"
proof (induction s arbitrary: pos)
  case (Cons c s)
  show ?case
  proof (cases "starts_with (c # s) pat")
    case True
    then have "length pat \<le> length (c # s)" unfolding starts_with_def by (metis length_take min.cobounded1)
    with True Cons.prems show ?thesis by simp
  qed (use Cons in auto)
qed (simp split: if_splits)

function mp_headers ::
  "'r header_callback \<Rightarrow> string \<Rightarrow> multipart_form_data \<Rightarrow> 'r
   \<Rightarrow> (bool \<times> string \<times> multipart_form_data \<times> 'r) option" where
  "mp_headers header_callback buf f r =
     (case str_find CRLF buf of
        None \<Rightarrow> Some (False, buf, f, r)
      | Some pos \<Rightarrow>
          if pos = 0 then
            (case header_callback f r of
               None \<Rightarrow> None
             | Some r' \<Rightarrow> Some (True, drop 2 buf, f, r'))
          else mp_headers header_callback (drop (pos + 2) buf) (entry_header (take pos buf) f) r)"
  by pat_completeness auto
termination
  by (relation "measure (\<lambda>(h, buf, f, r). length buf)") (auto dest: str_find_bound)

declare mp_headers.simps [simp del]

datatype 'r mp_outcome = Fails | Waits mp_parser 'r | Goes_on mp_parser 'r

definition mp_body :: "'r receiver \<Rightarrow> mp_parser \<Rightarrow> 'r \<Rightarrow> 'r mp_outcome" where
  "mp_body content_callback p r =
     (let buf = mp_buf p in
      if length buf < 4 then Waits p r
      else
        (let pos = find_string buf (CRLF @ ''--'') in
         case content_callback (take pos buf) r of
           None \<Rightarrow> Fails
         | Some r \<Rightarrow>
             (let buf = drop pos buf; pattern = CRLF @ ''--'' @ mp_boundary p in
              if length buf < length pattern then Waits (p\<lparr>mp_buf := buf\<rparr>) r
              else
                (case str_find pattern buf of
                   Some pos \<Rightarrow>
                     (case content_callback (take pos buf) r of
                        None \<Rightarrow> Fails
                      | Some r \<Rightarrow>
                          Goes_on (p\<lparr>mp_buf := drop (pos + length pattern) buf, mp_state := At_boundary\<rparr>) r)
                 | None \<Rightarrow>
                     (case content_callback (take (length pattern) buf) r of
                        None \<Rightarrow> Fails
                      | Some r \<Rightarrow> Goes_on (p\<lparr>mp_buf := drop (length pattern) buf\<rparr>) r)))))"

definition mp_step :: "'r header_callback \<Rightarrow> 'r receiver \<Rightarrow> mp_parser \<Rightarrow> 'r \<Rightarrow> 'r mp_outcome" where
  "mp_step header_callback content_callback p r =
     (case mp_state p of
        Initial_boundary \<Rightarrow>
          (let pattern = ''--'' @ mp_boundary p @ CRLF in
           if length (mp_buf p) < length pattern then Waits p r
           else if str_find pattern (mp_buf p) \<noteq> Some 0 then Fails
           else Goes_on (p\<lparr>mp_buf := drop (length pattern) (mp_buf p), mp_state := New_entry\<rparr>) r)
      | New_entry \<Rightarrow> Goes_on (p\<lparr>mp_file := clear_file_info (mp_file p), mp_state := In_headers\<rparr>) r
      | In_headers \<Rightarrow>
          (case mp_headers header_callback (mp_buf p) (mp_file p) r of
             None \<Rightarrow> Fails
           | Some (found, buf, f, r') \<Rightarrow>
               if found then Goes_on (p\<lparr>mp_buf := buf, mp_file := f, mp_state := In_body\<rparr>) r'
               else Waits (p\<lparr>mp_buf := buf, mp_file := f\<rparr>) r')
      | In_body \<Rightarrow> mp_body content_callback p r
      | At_boundary \<Rightarrow>
          if length (mp_buf p) < 2 then Waits p r
          else if starts_with (mp_buf p) CRLF then
            Goes_on (p\<lparr>mp_buf := drop 2 (mp_buf p), mp_state := New_entry\<rparr>) r
          else if length (mp_buf p) < 4 then Waits p r
          else if starts_with (mp_buf p) (''--'' @ CRLF) then
            Goes_on (p\<lparr>mp_buf := drop 4 (mp_buf p), mp_is_valid := True, mp_state := Parsed\<rparr>) r
          else Waits p r
      | Parsed \<Rightarrow> Fails)"

definition mp_rank :: "mp_parser \<Rightarrow> nat" where
  "mp_rank p = 2 * length (mp_buf p) + (if mp_state p = New_entry then 1 else 0)"

lemma mp_headers_shrinks:
  "mp_headers h buf f r = Some (found, buf', f', r') \<Longrightarrow> found \<Longrightarrow> buf \<noteq> [] \<Longrightarrow> length buf' < length buf"
proof (induction h buf f r rule: mp_headers.induct)
  case (1 h buf f r)
  show ?case
  proof (cases "str_find CRLF buf")
    case None
    with 1(2,3) show ?thesis by (subst (asm) mp_headers.simps) simp
  next
    case (Some pos)
    show ?thesis
    proof (cases "pos = 0")
      case True
      with Some 1(2-4) show ?thesis by (subst (asm) mp_headers.simps) (auto split: option.splits)
    next
      case False
      with Some 1(2) have rec: "mp_headers h (drop (pos + 2) buf) (entry_header (take pos buf) f) r = Some (found, buf', f', r')"
        by (subst (asm) mp_headers.simps) simp
      show ?thesis
      proof (cases "drop (pos + 2) buf = []")
        case True
        with rec 1(3) show ?thesis by (subst (asm) mp_headers.simps) simp
      next
        case nonempty: False
        with 1(1) [OF Some False rec 1(3)] show ?thesis by simp
      qed
    qed
  qed
qed

lemma mp_step_lowers:
  "mp_step h c p r = Goes_on p' r' \<Longrightarrow> mp_buf p \<noteq> [] \<Longrightarrow> mp_rank p' < mp_rank p"
proof -
  assume step: "mp_step h c p r = Goes_on p' r'" and buf: "mp_buf p \<noteq> []"
  show ?thesis
  proof (cases "mp_state p")
    case In_headers
    with step buf show ?thesis
      by (auto simp: mp_step_def mp_rank_def split: option.splits if_splits dest!: mp_headers_shrinks)
  next
    case In_body
    with step buf show ?thesis
      by (auto simp: mp_step_def mp_body_def mp_rank_def Let_def split: option.splits if_splits)
  qed (use step buf in \<open>auto simp: mp_step_def mp_rank_def Let_def split: if_splits\<close>)
qed

text \<open>\<open>parse\<close>: \<open>None\<close> when it returns \<open>false\<close>.\<close>

function mp_loop :: "'r header_callback \<Rightarrow> 'r receiver \<Rightarrow> mp_parser \<Rightarrow> 'r \<Rightarrow> (mp_parser \<times> 'r) option" where
  "mp_loop header_callback content_callback p r =
     (if mp_buf p = [] then Some (p, r)
      else
        (case mp_step header_callback content_callback p r of
           Fails \<Rightarrow> None
         | Waits p' r' \<Rightarrow> Some (p', r')
         | Goes_on p' r' \<Rightarrow> mp_loop header_callback content_callback p' r'))"
  by pat_completeness auto
termination
  by (relation "measure (\<lambda>(h, c, p, r). mp_rank p)") (auto intro: mp_step_lowers)

declare mp_loop.simps [simp del]

definition mp_parse :: "'r header_callback \<Rightarrow> 'r receiver \<Rightarrow> string \<Rightarrow> mp_parser \<Rightarrow> 'r \<Rightarrow> (mp_parser \<times> 'r) option" where
  "mp_parse header_callback content_callback buf p r =
     mp_loop header_callback content_callback (p\<lparr>mp_buf := mp_buf p @ buf\<rparr>) r"

section \<open>Reading the content of a request\<close>

text \<open>The callbacks of \<open>read_content\<close>: the files so far and the one that is being filled.\<close>

type_synonym upload = "(string \<times> multipart_form_data) list \<times> nat"

definition add_file :: "upload header_callback" where
  "add_file f up =
     (case up of (fs, cur) \<Rightarrow> Some (mm_emplace id (mp_name f) f fs, mm_upper id fs (mp_name f)))"

definition append_content :: "upload receiver" where
  "append_content buf up =
     (case up of (fs, cur) \<Rightarrow>
        Some (fs[cur := (fst (fs ! cur), (snd (fs ! cur))\<lparr>mp_content := mp_content (snd (fs ! cur)) @ buf\<rparr>)], cur))"

definition mp_receiver :: "(mp_parser \<times> upload) receiver" where
  "mp_receiver buf = (\<lambda>(p, up). mp_parse add_file append_content buf p up)"

text \<open>
  \<open>read_content_core\<close> with these callbacks: whether it returned \<open>true\<close>, the stream, the request
  and the response. \<open>std::string::max_size\<close> is never reached.
\<close>

definition read_content_core ::
  "nat \<Rightarrow> conn \<Rightarrow> request \<Rightarrow> response \<Rightarrow> (bool \<times> conn \<times> request \<times> response) res" where
  "read_content_core payload_max_length st req res =
     rbind (Request_is_multipart_form_data req) (\<lambda>multipart.
       rbind (Request_get_header_value req ''Content-Type'' 0) (\<lambda>content_type.
         if multipart then
           (case parse_multipart_boundary content_type of
              None \<Rightarrow> Inr (False, st, req, res\<lparr>status := 400\<rparr>)
            | Some boundary \<Rightarrow>
                if req_method req = ''DELETE'' \<and> \<not> Request_has_header req ''Content-Length'' then
                  Inr (True, st, req, res)
                else
                  rbind (detail_read_content mp_receiver (req_headers req) payload_max_length (status res) st
                           (new_mp_parser boundary, (files req, 0))) (\<lambda>(r, stat, st).
                    case r of
                      None \<Rightarrow> Inr (False, st, req, res\<lparr>status := stat\<rparr>)
                    | Some (p, (fs, cur)) \<Rightarrow>
                        if mp_is_valid p then Inr (True, st, req\<lparr>files := fs\<rparr>, res\<lparr>status := stat\<rparr>)
                        else Inr (False, st, req\<lparr>files := fs\<rparr>, res\<lparr>status := 400\<rparr>)))
         else if req_method req = ''DELETE'' \<and> \<not> Request_has_header req ''Content-Length'' then
           Inr (True, st, req, res)
         else
           rbind (detail_read_content body_receiver (req_headers req) payload_max_length (status res) st
                    (req_body req)) (\<lambda>(r, stat, st).
             case r of
               None \<Rightarrow> Inr (False, st, req, res\<lparr>status := stat\<rparr>)
             | Some b \<Rightarrow> Inr (True, st, req\<lparr>req_body := b\<rparr>, res\<lparr>status := stat\<rparr>))))"

definition Server_read_content ::
  "nat \<Rightarrow> conn \<Rightarrow> request \<Rightarrow> response \<Rightarrow> (bool \<times> conn \<times> request \<times> response) res" where
  "Server_read_content payload_max_length st req res =
     rbind (read_content_core payload_max_length st req res) (\<lambda>(ok, st, req, res).
       if \<not> ok then Inr (False, st, req, res)
       else
         rbind (Request_get_header_value req ''Content-Type'' 0) (\<lambda>content_type.
           Inr (True, st,
                if starts_with content_type ''application/x-www-form-urlencoded''
                then req\<lparr>params := parse_query_text (req_body req) (params req)\<rparr> else req, res)))"

section \<open>Writing multipart bodies\<close>

text \<open>The body that \<open>ClientImpl::Post\<close> builds, after its check of the boundary.\<close>

definition multipart_boundary_ok :: "string \<Rightarrow> bool" where
  "multipart_boundary_ok boundary \<longleftrightarrow>
     list_all (\<lambda>c. is_alnum c \<or> c = CHR ''-'' \<or> c = CHR ''_'') boundary"

definition multipart_item :: "string \<Rightarrow> multipart_form_data \<Rightarrow> string" where
  "multipart_item boundary item =
     ''--'' @ boundary @ CRLF
     @ ''Content-Disposition: form-data; name='' @ [QUOTE] @ mp_name item @ [QUOTE]
     @ (if mp_filename item \<noteq> [] then ''; filename='' @ [QUOTE] @ mp_filename item @ [QUOTE] else [])
     @ CRLF
     @ (if mp_content_type item \<noteq> [] then ''Content-Type: '' @ mp_content_type item @ CRLF else [])
     @ CRLF
     @ mp_content item @ CRLF"

definition multipart_body :: "string \<Rightarrow> multipart_form_data list \<Rightarrow> string" where
  "multipart_body boundary items =
     concat (map (multipart_item boundary) items) @ ''--'' @ boundary @ ''--'' @ CRLF"

section \<open>Facts\<close>

subsection \<open>Finding\<close>

lemma starts_with_append [simp]: "starts_with (p @ s) p"
  by (simp add: starts_with_def)

lemma starts_withE:
  assumes "starts_with s p"
  obtains t where "s = p @ t"
  using assms unfolding starts_with_def by (metis append_take_drop_id)

lemma starts_with_longer: "starts_with s p \<Longrightarrow> starts_with (s @ t) p"
  by (metis append.assoc starts_withE starts_with_append)

lemma starts_with_shorter: "starts_with (s @ t) p \<Longrightarrow> length p \<le> length s \<Longrightarrow> starts_with s p"
  by (simp add: starts_with_def)

lemma starts_with_length: "starts_with s p \<Longrightarrow> length p \<le> length s"
  by (metis starts_withE length_append le_add1)

lemma str_find_here: "starts_with s p \<Longrightarrow> str_find p s = Some 0"
  by (cases s) (auto simp: starts_with_def)

text \<open>Found in a text, the pattern is found at the same place in any longer one.\<close>

lemma str_find_longer: "str_find p s = Some pos \<Longrightarrow> str_find p (s @ t) = Some pos"
proof (induction s arbitrary: pos)
  case Nil
  then have "p = []" "pos = 0" by (simp_all split: if_splits)
  then show ?case by (cases t) (simp_all add: starts_with_def)
next
  case (Cons c s)
  show ?case
  proof (cases "starts_with (c # s) p")
    case True
    with Cons.prems starts_with_longer [of "c # s" p t] show ?thesis by simp
  next
    case False
    with Cons.prems obtain pos' where p: "str_find p s = Some pos'" "pos = Suc pos'" by auto
    then have "length p \<le> length s" using str_find_bound by fastforce
    with False starts_with_shorter [of "c # s" t p] have "\<not> starts_with (c # s @ t) p" by auto
    with Cons.IH [OF p(1)] p(2) show ?thesis by simp
  qed
qed

lemma str_find_line: "CR \<notin> set l \<Longrightarrow> str_find CRLF (l @ CRLF @ s) = Some (length l)"
proof (induction l)
  case Nil
  show ?case by (simp add: starts_with_def)
next
  case (Cons c l)
  then have "\<not> starts_with ((c # l) @ CRLF @ s) CRLF" by (auto simp: starts_with_def)
  with Cons show ?case by simp
qed

text \<open>
  Where the delimiter is first found, \<open>find_string\<close> looking for its beginning stops there or
  earlier, and the rest starts with that beginning.
\<close>

lemma find_string_delimiter:
  assumes "str_find (p @ q) s = Some pos" and "p \<noteq> []"
  shows "find_string s p \<le> pos \<and> str_find (p @ q) (drop (find_string s p) s) = Some (pos - find_string s p)"
  using assms(1)
proof (induction s arbitrary: pos)
  case (Cons c s)
  show ?case
  proof (cases "c = hd p \<and> (length (c # s) < length p \<or> starts_with (c # s) p)")
    case True
    then have "find_string (c # s) p = 0" by auto
    with Cons.prems show ?thesis by (simp del: find_string.simps str_find.simps)
  next
    case False
    have "\<not> starts_with (c # s) (p @ q)"
    proof
      assume "starts_with (c # s) (p @ q)"
      then obtain t where "c # s = p @ q @ t" by (metis append.assoc starts_withE)
      moreover from this assms(2) have "c = hd p" by (metis hd_append2 list.sel(1))
      ultimately show False using False by simp
    qed
    with Cons.prems obtain pos' where "str_find (p @ q) s = Some pos'" "pos = Suc pos'" by auto
    with Cons.IH False show ?thesis by auto
  qed
qed (use assms(2) in simp)

subsection \<open>Entries\<close>

definition quoted_ok :: "string \<Rightarrow> bool" where
  "quoted_ok s \<longleftrightarrow> list_all (\<lambda>c. c \<notin> {QUOTE, CR, LF}) s"

text \<open>What the parser can give back: the delimiter is not in the content.\<close>

definition item_ok :: "string \<Rightarrow> multipart_form_data \<Rightarrow> bool" where
  "item_ok boundary item \<longleftrightarrow>
     quoted_ok (mp_name item) \<and> quoted_ok (mp_filename item)
     \<and> list_all (\<lambda>c. c \<notin> {CR, LF}) (mp_content_type item)
     \<and> strip (mp_content_type item) = mp_content_type item \<and> length (mp_content_type item) < 2 ^ 63
     \<and> str_find (CRLF @ ''--'' @ boundary) (mp_content item @ CRLF @ ''--'' @ boundary)
       = Some (length (mp_content item))"

lemma lazy_group_quoted: "quoted_ok g \<Longrightarrow> k s = Some a \<Longrightarrow> lazy_group k (g @ QUOTE # s) = Some (g, a)"
  by (induction g) (simp_all add: quoted_ok_def)

definition disposition :: "multipart_form_data \<Rightarrow> string" where
  "disposition item =
     ''Content-Disposition: form-data; name='' @ [QUOTE] @ mp_name item @ [QUOTE]
     @ (if mp_filename item \<noteq> [] then ''; filename='' @ [QUOTE] @ mp_filename item @ [QUOTE] else [])"

lemma match_disposition:
  assumes "quoted_ok (mp_name item)" and "quoted_ok (mp_filename item)"
  shows "match_content_disposition (disposition item) = Some (mp_name item, mp_filename item)"
proof -
  let ?rest = "if mp_filename item \<noteq> [] then ''; filename='' @ [QUOTE] @ mp_filename item @ [QUOTE] else []"
  have f: "match_filename (''; filename='' @ [QUOTE] @ f @ [QUOTE]) = Some f" if "quoted_ok f" for f
  proof -
    have "start_with_case_ignore ((''filename='' @ [QUOTE]) @ x) (''filename='' @ [QUOTE])" for x
      by (simp add: start_with_case_ignore_def)
    with lazy_group_quoted [OF that, of only_space "[]" "()"] show ?thesis
      by (simp add: match_filename_def only_space_def is_space_code)
  qed
  have "match_tail ?rest = Some (mp_filename item)"
    using f [OF assms(2)] by (simp add: match_tail_def match_filename_def only_space_def)
  then have g: "lazy_group match_tail (mp_name item @ QUOTE # ?rest) = Some (mp_name item, mp_filename item)"
    by (rule lazy_group_quoted [OF assms(1)])
  have s: "start_with_case_ignore (p @ x) p" for p x
    by (simp add: start_with_case_ignore_def)
  let ?u = "(''name='' @ [QUOTE]) @ mp_name item @ QUOTE # ?rest"
  let ?t = "''form-data;'' @ '' '' @ ?u"
  have d: "disposition item = ''Content-Disposition:'' @ '' '' @ ?t" by (simp add: disposition_def)
  have "dropWhile is_space (drop 20 (disposition item)) = ?t" unfolding d by (simp add: is_space_code)
  moreover have "dropWhile is_space (drop 10 ?t) = ?u" by (simp add: is_space_code)
  moreover have "drop 6 ?u = mp_name item @ QUOTE # ?rest" by simp
  moreover have "start_with_case_ignore (disposition item) ''Content-Disposition:''" unfolding d by (rule s)
  ultimately show ?thesis
    unfolding match_content_disposition_def Let_def using g s by presburger
qed

lemma start_with_case_ignore_append:
  "length p = length b \<Longrightarrow> start_with_case_ignore (p @ x) b \<longleftrightarrow> to_lower p = to_lower b"
  by (simp add: start_with_case_ignore_def)

lemma entry_header_disposition:
  assumes "quoted_ok (mp_name item)" and "quoted_ok (mp_filename item)"
  shows "entry_header (disposition item) f = f\<lparr>mp_name := mp_name item, mp_filename := mp_filename item\<rparr>"
proof -
  have "disposition item = ''Content-Dispo'' @ drop 13 (disposition item)"
    by (simp add: disposition_def)
  moreover have "to_lower ''Content-Dispo'' \<noteq> to_lower ''content-type:''" by code_simp
  ultimately have "\<not> start_with_case_ignore (disposition item) ''content-type:''"
    using start_with_case_ignore_append [of "''Content-Dispo''" "''content-type:''" "drop 13 (disposition item)"]
    by simp
  with match_disposition [OF assms] show ?thesis by (simp add: entry_header_def)
qed

lemma strip_ends:
  assumes "strip s = s" and "s \<noteq> []"
  shows "\<not> is_space_or_tab (hd s)" and "\<not> is_space_or_tab (last s)"
  using assms by (cases s rule: strip_split; simp)+

lemma trim_copy_blank:
  assumes "strip s = s" and "s \<noteq> []" and "length s < 2 ^ 63"
  shows "trim_copy (CHR '' '' # s) = Inr s"
proof -
  note ends = strip_ends [OF assms(1,2)]
  have "trim_left (CHR '' '' # s) 0 = 1"
    using ends(1) assms(2) by (cases s) (subst trim_left.simps, subst trim_left.simps, simp add: is_space_or_tab_def)+
  moreover have "trim_right (CHR '' '' # s) (Suc (length s)) = Suc (length s)"
    using ends(2) assms(2) by (cases s rule: rev_cases) (simp_all add: nth_append)
  ultimately show ?thesis
    using assms(2,3) by (simp add: trim_copy_def trim_def substr_def)
qed

lemma entry_header_type:
  assumes "strip t = t" and "t \<noteq> []" and "length t < 2 ^ 63"
  shows "entry_header (''Content-Type: '' @ t) f = f\<lparr>mp_content_type := t\<rparr>"
proof -
  have "to_lower ''Content-Type:'' = to_lower ''content-type:''" by code_simp
  then have "start_with_case_ignore (''Content-Type:'' @ '' '' @ t) ''content-type:''"
    by (simp only: start_with_case_ignore_append list.size)
  with trim_copy_blank [OF assms] show ?thesis by (simp add: entry_header_def)
qed

subsection \<open>A body in one piece\<close>

definition type_line :: "multipart_form_data \<Rightarrow> string" where
  "type_line item =
     (if mp_content_type item \<noteq> [] then ''Content-Type: '' @ mp_content_type item @ CRLF else [])"

text \<open>The entries behind a boundary, and the end.\<close>

fun boundary_rest :: "string \<Rightarrow> multipart_form_data list \<Rightarrow> string" where
  "boundary_rest b [] = ''--'' @ CRLF"
| "boundary_rest b (i # is) =
     CRLF @ disposition i @ CRLF @ type_line i @ CRLF @ mp_content i @ CRLF @ ''--'' @ b @ boundary_rest b is"

lemma multipart_body_eq: "multipart_body b items = ''--'' @ b @ boundary_rest b items"
proof (induction items)
  case (Cons i items)
  have "multipart_body b (i # items) = multipart_item b i @ multipart_body b items"
    by (simp add: multipart_body_def)
  with Cons show ?case by (simp add: multipart_item_def disposition_def type_line_def)
qed (simp add: multipart_body_def)

lemma CR_disposition:
  assumes "item_ok b item"
  shows "CR \<notin> set (disposition item)"
proof -
  have "CR \<notin> set (mp_name item)" "CR \<notin> set (mp_filename item)"
    using assms unfolding item_ok_def quoted_ok_def list_all_iff by blast+
  then show ?thesis by (simp add: disposition_def)
qed

lemma mp_headers_line:
  assumes "CR \<notin> set l" and "l \<noteq> []"
  shows "mp_headers h (l @ CRLF @ s) f r = mp_headers h s (entry_header l f) r"
  unfolding mp_headers.simps [of h "l @ CRLF @ s"] str_find_line [OF assms(1)] using assms(2) by simp

lemma mp_headers_item:
  assumes "item_ok b item" and "mp_content f = []"
  shows "mp_headers add_file (disposition item @ CRLF @ type_line item @ CRLF @ s) (clear_file_info f) up
    = map_option (\<lambda>up'. (True, s, item\<lparr>mp_content := []\<rparr>, up')) (add_file (item\<lparr>mp_content := []\<rparr>) up)"
proof -
  have ne: "disposition item \<noteq> []" by (simp add: disposition_def)
  let ?f = "(clear_file_info f)\<lparr>mp_name := mp_name item, mp_filename := mp_filename item\<rparr>"
  have "mp_headers add_file (type_line item @ CRLF @ s) ?f up
      = mp_headers add_file (CRLF @ s) (item\<lparr>mp_content := []\<rparr>) up"
  proof (cases "mp_content_type item = []")
    case True
    then have "?f = item\<lparr>mp_content := []\<rparr>" using assms(2) by (simp add: clear_file_info_def)
    with True show ?thesis by (simp add: type_line_def)
  next
    case False
    have "CR \<notin> set (''Content-Type: '' @ mp_content_type item)"
      using assms(1) by (auto simp: item_ok_def list_all_iff)
    from mp_headers_line [OF this] False
    have "mp_headers add_file (type_line item @ CRLF @ s) ?f up
        = mp_headers add_file (CRLF @ s) (entry_header (''Content-Type: '' @ mp_content_type item) ?f) up"
      by (simp add: type_line_def)
    moreover have "entry_header (''Content-Type: '' @ mp_content_type item) ?f = item\<lparr>mp_content := []\<rparr>"
      using entry_header_type [of "mp_content_type item" ?f] assms False
      by (simp add: item_ok_def clear_file_info_def)
    ultimately show ?thesis by (simp only:)
  qed
  moreover have "mp_headers add_file (CRLF @ s) (item\<lparr>mp_content := []\<rparr>) up
      = map_option (\<lambda>up'. (True, s, item\<lparr>mp_content := []\<rparr>, up')) (add_file (item\<lparr>mp_content := []\<rparr>) up)"
    using str_find_here [of "CRLF @ s" CRLF]
    by (subst mp_headers.simps) (simp add: starts_with_def split: option.splits)
  ultimately show ?thesis
    using mp_headers_line [OF CR_disposition [OF assms(1)] ne, of add_file "type_line item @ CRLF @ s"]
      entry_header_disposition [of item "clear_file_info f"] assms(1)
    by (simp add: item_ok_def)
qed

lemma append_content_twice:
  "cur < length fs \<Longrightarrow> append_content x (fs, cur) = Some up \<Longrightarrow> append_content y up = append_content (x @ y) (fs, cur)"
  by (auto simp: append_content_def)

lemma mp_body_item:
  assumes item: "item_ok b item" and "mp_boundary p = b" and "cur < length fs"
    and "mp_buf p = mp_content item @ CRLF @ ''--'' @ b @ s"
  shows "mp_body append_content p (fs, cur)
    = Goes_on (p\<lparr>mp_buf := s, mp_state := At_boundary\<rparr>) (the (append_content (mp_content item) (fs, cur)))"
proof -
  let ?pat = "CRLF @ ''--'' @ b" and ?buf = "mp_content item @ CRLF @ ''--'' @ b @ s"
  have found: "str_find ((CRLF @ ''--'') @ b) ?buf = Some (length (mp_content item))"
    using item str_find_longer [of ?pat "mp_content item @ CRLF @ ''--'' @ b" _ s] by (simp add: item_ok_def)
  define k where "k = find_string ?buf (CRLF @ ''--'')"
  have "k \<le> length (mp_content item) \<and> str_find ((CRLF @ ''--'') @ b) (drop k ?buf) = Some (length (mp_content item) - k)"
    unfolding k_def by (rule find_string_delimiter [OF found]) simp
  then have k: "k \<le> length (mp_content item)" "str_find ?pat (drop k ?buf) = Some (length (mp_content item) - k)"
    by (simp_all only: append_assoc)
  then have d: "drop k ?buf = drop k (mp_content item) @ CRLF @ ''--'' @ b @ s"
    and t: "take k ?buf = take k (mp_content item)" by simp_all
  obtain up where up: "append_content (take k (mp_content item)) (fs, cur) = Some up"
    by (simp add: append_content_def)
  have c: "append_content (drop k (mp_content item)) up = append_content (mp_content item) (fs, cur)"
    using append_content_twice [OF assms(3) up, of "drop k (mp_content item)"] by simp
  obtain up' where up': "append_content (mp_content item) (fs, cur) = Some up'"
    by (simp add: append_content_def)
  have tt: "take (length (mp_content item) - k) (drop k ?buf) = drop k (mp_content item)"
    unfolding d by simp
  have "length (mp_content item) - k + length ?pat = length (drop k (mp_content item) @ ?pat)" by simp
  moreover have "drop k ?buf = (drop k (mp_content item) @ ?pat) @ s" unfolding d by simp
  ultimately have ts: "drop (length (mp_content item) - k + length ?pat) (drop k ?buf) = s"
    by (metis append_eq_conv_conj)
  have l: "\<not> length ?buf < 4" "\<not> length (drop k ?buf) < length ?pat"
    unfolding d by simp_all
  show ?thesis
    unfolding mp_body_def Let_def assms(2,4) k_def [symmetric]
    by (simp only: l t up k(2) tt c up' ts if_False option.case option.sel)
qed

lemma mp_loop_step:
  "mp_step h c p r = Goes_on p' r' \<Longrightarrow> mp_buf p \<noteq> [] \<Longrightarrow> mp_loop h c p r = mp_loop h c p' r'"
  by (subst mp_loop.simps) simp

definition put_file :: "multipart_form_data \<Rightarrow> (string \<times> multipart_form_data) list \<Rightarrow> (string \<times> multipart_form_data) list" where
  "put_file item = mm_emplace id (mp_name item) item"

lemma add_then_append:
  "add_file (item\<lparr>mp_content := []\<rparr>) (fs, cur) = Some (fs', cur')
   \<Longrightarrow> cur' < length fs' \<and> append_content (mp_content item) (fs', cur') = Some (put_file item fs, cur')"
proof -
  assume a: "add_file (item\<lparr>mp_content := []\<rparr>) (fs, cur) = Some (fs', cur')"
  let ?u = "mm_upper id fs (mp_name item)"
  have "length (take ?u fs) = ?u" by (simp add: mm_upper_def length_takeWhile_le min_absorb2)
  with a show ?thesis
    by (auto simp: add_file_def mm_emplace_def append_content_def put_file_def nth_append list_update_append)
qed

lemma add_file_Some: "\<exists>fs' cur'. add_file f up = Some (fs', cur')"
  by (simp add: add_file_def split: prod.splits)

text \<open>One entry, from the state after a boundary to the next one.\<close>

lemma mp_loop_entry:
  assumes item: "item_ok b item" and p: "mp_state p = New_entry" "mp_boundary p = b" "mp_content (mp_file p) = []"
    "mp_buf p = disposition item @ CRLF @ type_line item @ CRLF @ mp_content item @ CRLF @ ''--'' @ b @ s"
  obtains p' cur' where "mp_loop add_file append_content p (fs, cur) = mp_loop add_file append_content p' (put_file item fs, cur')"
    and "mp_state p' = At_boundary" and "mp_boundary p' = b" and "mp_content (mp_file p') = []" and "mp_buf p' = s"
proof -
  let ?p1 = "p\<lparr>mp_file := clear_file_info (mp_file p), mp_state := In_headers\<rparr>"
  let ?body = "mp_content item @ CRLF @ ''--'' @ b @ s"
  let ?p2 = "p\<lparr>mp_buf := ?body, mp_file := item\<lparr>mp_content := []\<rparr>, mp_state := In_body\<rparr>"
  let ?p3 = "p\<lparr>mp_buf := s, mp_file := item\<lparr>mp_content := []\<rparr>, mp_state := At_boundary\<rparr>"
  obtain fs1 cur1 where a: "add_file (item\<lparr>mp_content := []\<rparr>) (fs, cur) = Some (fs1, cur1)"
    using add_file_Some by blast
  have ne: "mp_buf p \<noteq> []" by (simp add: p(4) disposition_def)
  have "mp_step add_file append_content p (fs, cur) = Goes_on ?p1 (fs, cur)"
    by (simp add: mp_step_def p(1))
  then have 1: "mp_loop add_file append_content p (fs, cur) = mp_loop add_file append_content ?p1 (fs, cur)"
    by (rule mp_loop_step [OF _ ne])
  have "mp_step add_file append_content ?p1 (fs, cur) = Goes_on ?p2 (fs1, cur1)"
    using mp_headers_item [OF item p(3), of ?body "(fs, cur)"] a by (simp add: mp_step_def p(4))
  then have 2: "mp_loop add_file append_content ?p1 (fs, cur) = mp_loop add_file append_content ?p2 (fs1, cur1)"
    by (rule mp_loop_step) (simp add: ne)
  note b = add_then_append [OF a]
  have "mp_step add_file append_content ?p2 (fs1, cur1) = Goes_on ?p3 (put_file item fs, cur1)"
    using mp_body_item [OF item, of ?p2 cur1 fs1 s] b p(2) by (simp add: mp_step_def)
  then have 3: "mp_loop add_file append_content ?p2 (fs1, cur1) = mp_loop add_file append_content ?p3 (put_file item fs, cur1)"
    by (rule mp_loop_step) simp
  show thesis
    by (rule that [of ?p3 cur1]) (rule trans [OF 1 trans [OF 2 3]], simp_all add: p(2))
qed

lemma mp_loop_entries:
  "list_all (item_ok b) items \<Longrightarrow> mp_state p = At_boundary \<Longrightarrow> mp_boundary p = b \<Longrightarrow>
   mp_content (mp_file p) = [] \<Longrightarrow> mp_buf p = boundary_rest b items \<Longrightarrow>
   \<exists>p' cur'. mp_loop add_file append_content p (fs, cur) = Some (p', (fold put_file items fs, cur')) \<and> mp_is_valid p'"
proof (induction items arbitrary: p fs cur)
  case Nil
  let ?p = "p\<lparr>mp_buf := [], mp_is_valid := True, mp_state := Parsed\<rparr>"
  have "mp_step add_file append_content p (fs, cur) = Goes_on ?p (fs, cur)"
    using Nil.prems by (simp add: mp_step_def starts_with_def)
  from mp_loop_step [OF this] Nil.prems
  have "mp_loop add_file append_content p (fs, cur) = mp_loop add_file append_content ?p (fs, cur)" by simp
  then show ?case by (simp add: mp_loop.simps)
next
  case (Cons i items)
  let ?buf = "disposition i @ CRLF @ type_line i @ CRLF @ mp_content i @ CRLF @ ''--'' @ b @ boundary_rest b items"
  let ?p = "p\<lparr>mp_buf := ?buf, mp_state := New_entry\<rparr>"
  have buf: "mp_buf p = CRLF @ ?buf" using Cons.prems by simp
  have "mp_step add_file append_content p (fs, cur) = Goes_on ?p (fs, cur)"
    using Cons.prems(2) by (simp add: mp_step_def buf starts_with_def)
  from mp_loop_step [OF this] buf
  have 1: "mp_loop add_file append_content p (fs, cur) = mp_loop add_file append_content ?p (fs, cur)" by simp
  obtain p' cur' where 2: "mp_loop add_file append_content ?p (fs, cur) = mp_loop add_file append_content p' (put_file i fs, cur')"
    and p': "mp_state p' = At_boundary" "mp_boundary p' = b" "mp_content (mp_file p') = []"
      "mp_buf p' = boundary_rest b items"
    by (rule mp_loop_entry [of b i ?p "boundary_rest b items" fs cur]) (use Cons.prems in simp_all)
  obtain p'' cur'' where 3: "mp_loop add_file append_content p' (put_file i fs, cur')
      = Some (p'', (fold put_file items (put_file i fs), cur''))" "mp_is_valid p''"
    using Cons.IH [OF _ p', of "put_file i fs" cur'] Cons.prems(1) by auto
  have "mp_loop add_file append_content p (fs, cur) = Some (p'', (fold put_file (i # items) fs, cur''))"
    using trans [OF 1 trans [OF 2 3(1)]] by simp
  with 3(2) show ?case by blast
qed

lemma mp_step_initial:
  assumes "mp_state p = Initial_boundary" and "mp_buf p = (''--'' @ mp_boundary p @ CRLF) @ s"
  shows "mp_step h c p r = Goes_on (p\<lparr>mp_buf := s, mp_state := New_entry\<rparr>) r"
proof -
  let ?pat = "''--'' @ mp_boundary p @ CRLF"
  have "str_find ?pat (mp_buf p) = Some 0" unfolding assms(2) by (rule str_find_here) (rule starts_with_append)
  moreover have "drop (length ?pat) (mp_buf p) = s" "length ?pat \<le> length (mp_buf p)"
    unfolding assms(2) by simp_all
  ultimately show ?thesis
    unfolding mp_step_def assms(1) mp_state.case Let_def by (simp only: not_less [symmetric] if_False simp_thms)
qed

lemma mp_parse_body:
  assumes "items \<noteq> []" and "list_all (item_ok b) items"
  shows "\<exists>p' cur'. mp_parse add_file append_content (multipart_body b items) (new_mp_parser b) (fs, cur)
      = Some (p', (fold put_file items fs, cur')) \<and> mp_is_valid p'"
proof -
  obtain i is' where items: "items = i # is'" using assms(1) by (cases items) auto
  let ?buf = "disposition i @ CRLF @ type_line i @ CRLF @ mp_content i @ CRLF @ ''--'' @ b @ boundary_rest b is'"
  let ?start = "(new_mp_parser b)\<lparr>mp_buf := (''--'' @ b @ CRLF) @ ?buf\<rparr>"
  let ?p = "?start\<lparr>mp_buf := ?buf, mp_state := New_entry\<rparr>"
  have "mp_step add_file append_content ?start (fs, cur) = Goes_on ?p (fs, cur)"
    by (rule mp_step_initial) (simp_all add: new_mp_parser_def)
  from mp_loop_step [OF this]
  have 1: "mp_loop add_file append_content ?start (fs, cur) = mp_loop add_file append_content ?p (fs, cur)" by simp
  obtain p' cur' where 2: "mp_loop add_file append_content ?p (fs, cur) = mp_loop add_file append_content p' (put_file i fs, cur')"
    and p': "mp_state p' = At_boundary" "mp_boundary p' = b" "mp_content (mp_file p') = []"
      "mp_buf p' = boundary_rest b is'"
    by (rule mp_loop_entry [of b i ?p "boundary_rest b is'" fs cur])
      (use assms(2) items in \<open>simp_all add: new_mp_parser_def empty_form_data_def\<close>)
  obtain p'' cur'' where 3: "mp_loop add_file append_content p' (put_file i fs, cur')
      = Some (p'', (fold put_file is' (put_file i fs), cur''))" "mp_is_valid p''"
    using mp_loop_entries [OF _ p', of "put_file i fs" cur'] assms(2) items by auto
  have "(new_mp_parser b)\<lparr>mp_buf := mp_buf (new_mp_parser b) @ multipart_body b items\<rparr> = ?start"
    by (simp add: multipart_body_eq items new_mp_parser_def)
  then have "mp_parse add_file append_content (multipart_body b items) (new_mp_parser b) (fs, cur)
      = Some (p'', (fold put_file items fs, cur''))"
    unfolding mp_parse_def using trans [OF 1 trans [OF 2 3(1)]] by (simp only: items fold_simps)
  with 3(2) show ?thesis by blast
qed

subsection \<open>An upload\<close>

text \<open>The request whose content \<open>ClientImpl::Post\<close> builds from a list of items.\<close>

definition upload_request :: "string \<Rightarrow> string \<Rightarrow> request" where
  "upload_request boundary content =
     empty_request\<lparr>req_method := ''POST'',
       req_headers := [(''Content-Length'', nat_string (length content)),
                       (''Content-Type'', ''multipart/form-data; boundary='' @ boundary)]\<rparr>"

lemma upload_request_headers:
  "get_header_value (req_headers (upload_request b c)) key 0 d
   = Inr (if to_lower key = ''content-length'' then nat_string (length c)
          else if to_lower key = ''content-type'' then ''multipart/form-data; boundary='' @ b else d)"
  "has_header (req_headers (upload_request b c)) key
   \<longleftrightarrow> to_lower key = ''content-length'' \<or> to_lower key = ''content-type''"
  "get_header_value_u64 (req_headers (upload_request b c)) ''Content-Length'' 0 n = Inr (strtoull (nat_string (length c)))"
proof -
  have l: "to_lower ''Content-Length'' = ''content-length''" "to_lower ''Content-Type'' = ''content-type''"
    by code_simp+
  have s: "mm_sorted to_lower (req_headers (upload_request b c))"
    by (simp add: upload_request_def mm_sorted_def l)
  show "get_header_value (req_headers (upload_request b c)) key 0 d
   = Inr (if to_lower key = ''content-length'' then nat_string (length c)
          else if to_lower key = ''content-type'' then ''multipart/form-data; boundary='' @ b else d)"
    unfolding get_header_value_def mm_get_first [OF s]
    by (auto simp: mm_values_def upload_request_def l)
  show "has_header (req_headers (upload_request b c)) key
   \<longleftrightarrow> to_lower key = ''content-length'' \<or> to_lower key = ''content-type''"
    unfolding has_header_def mm_has_values [OF s]
    by (auto simp: mm_values_def upload_request_def l)
  show "get_header_value_u64 (req_headers (upload_request b c)) ''Content-Length'' 0 n = Inr (strtoull (nat_string (length c)))"
    unfolding get_header_value_u64_def mm_get_first [OF s]
    by (simp add: mm_values_def upload_request_def l)
qed

lemma strtoull_nat_string: "n < 2 ^ 64 \<Longrightarrow> strtoull (nat_string n) = n"
proof -
  assume n: "n < 2 ^ 64"
  have "hd (nat_string n) \<noteq> CHR ''-''" "hd (nat_string n) \<noteq> CHR ''+''"
    using nat_string_hd [of n] by (auto simp: is_digit_code)
  with n show ?thesis by (simp add: strtoull_def Let_def)
qed

lemma parse_boundary: "multipart_boundary_ok b \<Longrightarrow> b \<noteq> [] \<Longrightarrow>
    parse_multipart_boundary (''multipart/form-data; boundary='' @ b) = Some b"
proof -
  assume b: "multipart_boundary_ok b" "b \<noteq> []"
  then have "multipart_boundary_ok [hd b]" by (cases b) (simp_all add: multipart_boundary_ok_def)
  then have "hd b \<noteq> QUOTE"
    by (auto simp: multipart_boundary_ok_def is_alnum_def is_digit_code is_upper_def is_lower_def less_eq_char_def)
  then show ?thesis using b(2)
    by (simp add: parse_multipart_boundary_def starts_with_def)
qed

lemma read_one_packet:
  assumes "content \<noteq> []" and "length content \<le> CPPHTTPLIB_RECV_BUFSIZ" and "packets st = [content]"
  shows "read_content_with_length out (length content) st r = (out content r, st\<lparr>packets := [[]]\<rparr>)"
  using assms
  by (simp add: read_content_with_length.simps [of out "length content"] read_content_with_length.simps [of out 0]
      strm_read_def split: option.splits)

section \<open>Properties\<close>


definition note_example :: multipart_form_data where
  "note_example =
     \<lparr>mp_name = ''note'', mp_content = ''two'' @ CRLF @ ''lines'', mp_filename = ''n.txt'', mp_content_type = ''text/plain''\<rparr>"


text \<open>The parser fed with one piece after the other.\<close>

definition mp_feed :: "string \<Rightarrow> string list \<Rightarrow> (mp_parser \<times> upload) option" where
  "mp_feed boundary pieces =
     fold (\<lambda>piece s. case s of None \<Rightarrow> None | Some s \<Rightarrow> mp_receiver piece s) pieces
       (Some (new_mp_parser boundary, ([], 0)))"

definition item_example :: multipart_form_data where
  "item_example = \<lparr>mp_name = ''f'', mp_content = CRLF @ ''--'', mp_filename = [], mp_content_type = []\<rparr>"

lemma item_example_ok: "item_ok ''AB'' item_example"
  by (simp add: item_ok_def item_example_def quoted_ok_def strip_def starts_with_def)

text \<open>
  Whether a multipart body is accepted depends on how it is cut into packets: there is a body
  that the library's own client makes, whose content does not hold the delimiter, such that the
  parser accepts it in one piece and does not accept it in two. Where two hyphens of the content
  stand at the end of a line and the delimiter is not complete in the buffer, the parser takes the
  beginning of the delimiter for content.
\<close>

theorem multipart_depends_on_packets:
  "\<exists>items a b s s'. list_all (item_ok ''AB'') items \<and> multipart_body ''AB'' items = a @ b
     \<and> mp_feed ''AB'' [a @ b] = Some s \<and> mp_is_valid (fst s)
     \<and> mp_feed ''AB'' [a, b] = Some s' \<and> \<not> mp_is_valid (fst s')"
proof -
  let ?t = "multipart_body ''AB'' [item_example]"
  let ?a = "take 58 ?t" and ?b = "drop 58 ?t"
  have one: "map_option (\<lambda>s. mp_is_valid (fst s)) (mp_feed ''AB'' [?t]) = Some True" by code_simp
  have two: "map_option (\<lambda>s. mp_is_valid (fst s)) (mp_feed ''AB'' [?a, ?b]) = Some False" by code_simp
  have ab: "?a @ ?b = ?t" by simp
  obtain s where "mp_feed ''AB'' [?a @ ?b] = Some s" "mp_is_valid (fst s)"
    using one unfolding ab by auto
  moreover obtain s' where "mp_feed ''AB'' [?a, ?b] = Some s'" "\<not> mp_is_valid (fst s')"
    using two by auto
  moreover have "list_all (item_ok ''AB'') [item_example]" by (simp add: item_example_ok)
  ultimately show ?thesis using ab by metis
qed

end
