(* ===== verification/Http_Server.thy ===== *)
theory Http_Server
  imports Http_Content Http_Multipart
begin

text \<open>
  The class \<open>Server\<close> of \<open>sgx/src/include/httplib.h\<close>, from the line a client sends to the bytes of
  the response: the request line, files under mount points, routing, the response, one request
  (\<open>process_request\<close>), the requests of one connection (\<open>process_server_socket_core\<close>) and the
  loop that accepts connections (\<open>listen_internal\<close>).

  A handler is a function on the request, the response and a state of the program, the type
  variable \<open>'w\<close>: it gives the new response and state and says whether it returned or threw. What the
  server finds around it is a record \<open>env\<close>: the files, random numbers, the texts of exceptions and
  the address of the peer. A pattern of a route is the function that \<open>std::regex_match\<close> with it is:
  from a path to the groups; a pattern without special characters matches itself only.

  Responses with a content provider are in \<open>Http_Server_Provider\<close>, the listening socket in
  \<open>Http_Connect\<close>. Not modelled: handlers with a content reader and \<open>req.matches\<close> after the handler has
  returned.
\<close>

section \<open>The server and what is around it\<close>

type_synonym pattern = "string \<Rightarrow> string list option"

definition literal_pattern :: "string \<Rightarrow> pattern" where
  "literal_pattern p s = (if s = p then Some [s] else None)"

datatype thrown_what = Std_exception exn | Other_exception

datatype 'a attempt = Gives 'a | Raises thrown_what

text \<open>Calls inside the \<open>try\<close> of \<open>process_request\<close>, and calls outside of it.\<close>

type_synonym ('w, 'a) action = "request \<Rightarrow> response \<Rightarrow> 'w \<Rightarrow> ('a attempt \<times> response \<times> 'w) res"
type_synonym ('w, 'a) hook = "request \<Rightarrow> response \<Rightarrow> 'w \<Rightarrow> ('a \<times> response \<times> 'w) res"

record mount_point =
  mnt_point :: string
  mnt_dir :: string
  mnt_headers :: headers

record 'w server =
  base_dirs :: "mount_point list"
  mime_map :: "(string \<times> string) list"
  get_handlers :: "(pattern \<times> ('w, unit) action) list"
  post_handlers :: "(pattern \<times> ('w, unit) action) list"
  put_handlers :: "(pattern \<times> ('w, unit) action) list"
  patch_handlers :: "(pattern \<times> ('w, unit) action) list"
  delete_handlers :: "(pattern \<times> ('w, unit) action) list"
  options_handlers :: "(pattern \<times> ('w, unit) action) list"
  file_request_handler :: "('w, unit) action option"
  error_handler :: "('w, bool) hook option"
  exception_handler :: "(thrown_what \<Rightarrow> ('w, unit) hook) option"
  pre_routing_handler :: "('w, bool) action option"
  post_routing_handler :: "('w, unit) hook option"
  server_logger :: "(request \<Rightarrow> response \<Rightarrow> 'w \<Rightarrow> 'w) option"
  expect_100_continue_handler :: "('w, int) hook option"
  default_headers :: headers
  keep_alive_max_count :: nat
  keep_alive_timeout_sec :: int
  payload_max_length :: nat

definition new_server :: "'w server" where
  "new_server =
     \<lparr>base_dirs = [], mime_map = [], get_handlers = [], post_handlers = [], put_handlers = [],
      patch_handlers = [], delete_handlers = [], options_handlers = [], file_request_handler = None,
      error_handler = None, exception_handler = None, pre_routing_handler = None,
      post_routing_handler = None, server_logger = None, expect_100_continue_handler = None,
      default_headers = [], keep_alive_max_count = 5, keep_alive_timeout_sec = 5,
      payload_max_length = 2 ^ 64 - 1\<rparr>"

record env =
  is_file :: "string \<Rightarrow> bool"
  is_dir :: "string \<Rightarrow> bool"
  file_content :: "string \<Rightarrow> string"
  random_numbers :: "nat \<Rightarrow> nat"
  what :: "exn \<Rightarrow> string"
  peer_addr :: string
  peer_port :: int
  socket_number :: nat

text \<open>Registration.\<close>

definition Server_Get :: "pattern \<Rightarrow> ('w, unit) action \<Rightarrow> 'w server \<Rightarrow> 'w server" where
  "Server_Get p h s = s\<lparr>get_handlers := get_handlers s @ [(p, h)]\<rparr>"

definition Server_Post :: "pattern \<Rightarrow> ('w, unit) action \<Rightarrow> 'w server \<Rightarrow> 'w server" where
  "Server_Post p h s = s\<lparr>post_handlers := post_handlers s @ [(p, h)]\<rparr>"

definition Server_Put :: "pattern \<Rightarrow> ('w, unit) action \<Rightarrow> 'w server \<Rightarrow> 'w server" where
  "Server_Put p h s = s\<lparr>put_handlers := put_handlers s @ [(p, h)]\<rparr>"

definition Server_Patch :: "pattern \<Rightarrow> ('w, unit) action \<Rightarrow> 'w server \<Rightarrow> 'w server" where
  "Server_Patch p h s = s\<lparr>patch_handlers := patch_handlers s @ [(p, h)]\<rparr>"

definition Server_Delete :: "pattern \<Rightarrow> ('w, unit) action \<Rightarrow> 'w server \<Rightarrow> 'w server" where
  "Server_Delete p h s = s\<lparr>delete_handlers := delete_handlers s @ [(p, h)]\<rparr>"

definition Server_Options :: "pattern \<Rightarrow> ('w, unit) action \<Rightarrow> 'w server \<Rightarrow> 'w server" where
  "Server_Options p h s = s\<lparr>options_handlers := options_handlers s @ [(p, h)]\<rparr>"

definition set_mount_point :: "env \<Rightarrow> string \<Rightarrow> string \<Rightarrow> headers \<Rightarrow> 'w server \<Rightarrow> bool \<times> 'w server" where
  "set_mount_point env mp dir hs s =
     (let mnt = (if mp \<noteq> [] then mp else ''/'') in
      if is_dir env (c_text dir) \<and> hd mnt = CHR ''/''
      then (True, s\<lparr>base_dirs := base_dirs s @ [\<lparr>mnt_point = mnt, mnt_dir = dir, mnt_headers = hs\<rparr>]\<rparr>)
      else (False, s))"

fun remove_mount :: "string \<Rightarrow> mount_point list \<Rightarrow> mount_point list option" where
  "remove_mount mp [] = None"
| "remove_mount mp (m # ms) = (if mnt_point m = mp then Some ms else map_option ((#) m) (remove_mount mp ms))"

definition remove_mount_point :: "string \<Rightarrow> 'w server \<Rightarrow> bool \<times> 'w server" where
  "remove_mount_point mp s =
     (case remove_mount mp (base_dirs s) of
        Some ms \<Rightarrow> (True, s\<lparr>base_dirs := ms\<rparr>)
      | None \<Rightarrow> (False, s))"

definition set_file_extension_and_mimetype_mapping :: "string \<Rightarrow> string \<Rightarrow> 'w server \<Rightarrow> 'w server" where
  "set_file_extension_and_mimetype_mapping ext mime s = s\<lparr>mime_map := map_put ext mime (mime_map s)\<rparr>"

definition set_file_request_handler :: "('w, unit) action \<Rightarrow> 'w server \<Rightarrow> 'w server" where
  "set_file_request_handler h s = s\<lparr>file_request_handler := Some h\<rparr>"

definition set_error_handler :: "('w, bool) hook \<Rightarrow> 'w server \<Rightarrow> 'w server" where
  "set_error_handler h s = s\<lparr>error_handler := Some h\<rparr>"

definition set_exception_handler :: "(thrown_what \<Rightarrow> ('w, unit) hook) \<Rightarrow> 'w server \<Rightarrow> 'w server" where
  "set_exception_handler h s = s\<lparr>exception_handler := Some h\<rparr>"

definition set_pre_routing_handler :: "('w, bool) action \<Rightarrow> 'w server \<Rightarrow> 'w server" where
  "set_pre_routing_handler h s = s\<lparr>pre_routing_handler := Some h\<rparr>"

definition set_post_routing_handler :: "('w, unit) hook \<Rightarrow> 'w server \<Rightarrow> 'w server" where
  "set_post_routing_handler h s = s\<lparr>post_routing_handler := Some h\<rparr>"

definition set_logger :: "(request \<Rightarrow> response \<Rightarrow> 'w \<Rightarrow> 'w) \<Rightarrow> 'w server \<Rightarrow> 'w server" where
  "set_logger l s = s\<lparr>server_logger := Some l\<rparr>"

definition set_expect_100_continue_handler :: "('w, int) hook \<Rightarrow> 'w server \<Rightarrow> 'w server" where
  "set_expect_100_continue_handler h s = s\<lparr>expect_100_continue_handler := Some h\<rparr>"

definition set_default_headers :: "headers \<Rightarrow> 'w server \<Rightarrow> 'w server" where
  "set_default_headers hs s = s\<lparr>default_headers := hs\<rparr>"

definition set_keep_alive_max_count :: "nat \<Rightarrow> 'w server \<Rightarrow> 'w server" where
  "set_keep_alive_max_count n s = s\<lparr>keep_alive_max_count := n\<rparr>"

definition set_keep_alive_timeout :: "int \<Rightarrow> 'w server \<Rightarrow> 'w server" where
  "set_keep_alive_timeout sec s = s\<lparr>keep_alive_timeout_sec := sec\<rparr>"

definition set_payload_max_length :: "nat \<Rightarrow> 'w server \<Rightarrow> 'w server" where
  "set_payload_max_length n s = s\<lparr>payload_max_length := n\<rparr>"

text \<open>The setter for an error handler without a result: the response counts as handled.\<close>

definition set_plain_error_handler :: "('w, unit) hook \<Rightarrow> 'w server \<Rightarrow> 'w server" where
  "set_plain_error_handler h s =
     s\<lparr>error_handler := Some (\<lambda>req res w. rbind (h req res w) (\<lambda>(_, res, w). Inr (True, res, w)))\<rparr>"

section \<open>The request line\<close>

definition known_methods :: "string list" where
  "known_methods = [''GET'', ''HEAD'', ''POST'', ''PUT'', ''DELETE'', ''CONNECT'', ''OPTIONS'', ''TRACE'', ''PATCH'', ''PRI'']"

text \<open>The two callbacks, numbered from 0.\<close>

definition request_line_piece :: "request \<Rightarrow> nat \<times> string \<Rightarrow> request" where
  "request_line_piece req = (\<lambda>(count, p).
     if count = 0 then req\<lparr>req_method := p\<rparr>
     else if count = 1 then req\<lparr>target := p\<rparr>
     else if count = 2 then req\<lparr>req_version := p\<rparr> else req)"

definition target_piece :: "request \<Rightarrow> nat \<times> string \<Rightarrow> request" where
  "target_piece req = (\<lambda>(count, p).
     if count = 0 then req\<lparr>path := decode_url p False\<rparr>
     else if count = 1 \<and> p \<noteq> [] then req\<lparr>params := parse_query_text p (params req)\<rparr> else req)"

definition numbered :: "string list \<Rightarrow> (nat \<times> string) list" where
  "numbered ps = zip [0..<length ps] ps"

text \<open>The request is filled in also where \<open>false\<close> is returned.\<close>

definition parse_request_line :: "string \<Rightarrow> request \<Rightarrow> bool \<times> request" where
  "parse_request_line line req =
     (let s = c_text line; len = length s in
      if len < 2 \<or> s ! (len - 2) \<noteq> CR \<or> s ! (len - 1) \<noteq> LF then (False, req)
      else
        (let pieces = split (take (len - 2) s) CHR '' '';
             req = foldl request_line_piece req (numbered pieces)
         in if length pieces \<noteq> 3 then (False, req)
            else if req_method req \<notin> set known_methods then (False, req)
            else if req_version req \<noteq> ''HTTP/1.1'' \<and> req_version req \<noteq> ''HTTP/1.0'' then (False, req)
            else
              (let parts = split (target req) CHR ''?'';
                   req = foldl target_piece req (numbered parts)
               in (length parts \<le> 2, req))))"

section \<open>The response\<close>

definition keep_alive_text :: "'w server \<Rightarrow> string" where
  "keep_alive_text s =
     ''timeout='' @ std_to_string (keep_alive_timeout_sec s) @ '', max='' @ nat_string (keep_alive_max_count s)"

text \<open>The fields \<open>write_response_core\<close> adds.\<close>

definition add_connection_field :: "'w server \<Rightarrow> bool \<Rightarrow> request \<Rightarrow> response \<Rightarrow> response res" where
  "add_connection_field s close_connection req res =
     rbind (Request_get_header_value req ''Connection'' 0) (\<lambda>v.
       Inr (if close_connection \<or> v = ''close'' then set_header ''Connection'' ''close'' res
            else set_header ''Keep-Alive'' (keep_alive_text s) res))"

definition add_default_fields :: "request \<Rightarrow> response \<Rightarrow> response" where
  "add_default_fields req res =
     (let res = (if \<not> Response_has_header res ''Content-Type'' \<and> body res \<noteq> []
                 then set_header ''Content-Type'' ''text/plain'' res else res);
          res = (if \<not> Response_has_header res ''Content-Length'' \<and> body res = []
                 then set_header ''Content-Length'' ''0'' res else res)
      in if \<not> Response_has_header res ''Accept-Ranges'' \<and> req_method req = ''HEAD''
         then set_header ''Accept-Ranges'' ''bytes'' res else res)"

definition status_line :: "int \<Rightarrow> string" where
  "status_line stat = ''HTTP/1.1 '' @ std_to_string stat @ '' '' @ status_message stat @ CRLF"

definition response_head :: "response \<Rightarrow> string" where
  "response_head res = status_line (status res) @ write_headers (rsp_headers res)"

text \<open>
  The head goes out in one call of \<open>write\<close> whose result is not looked at. The body goes out in
  another, and counts as written unless the result is 0.
\<close>

definition send_response :: "request \<Rightarrow> response \<Rightarrow> conn \<Rightarrow> bool \<times> conn" where
  "send_response req res st =
     (let (_, st) = strm_write (response_head res) st in
      if req_method req \<noteq> ''HEAD'' \<and> body res \<noteq> []
      then (let (n, st) = strm_write (body res) st in (n \<noteq> 0, st))
      else (True, st))"

definition run_error_handler :: "'w server \<Rightarrow> request \<Rightarrow> response \<Rightarrow> 'w \<Rightarrow> (bool \<times> response \<times> 'w) res" where
  "run_error_handler s req res w =
     (case error_handler s of
        Some h \<Rightarrow> if 400 \<le> status res then h req res w else Inr (False, res, w)
      | None \<Rightarrow> Inr (False, res, w))"

definition write_response_core ::
  "env \<Rightarrow> 'w server \<Rightarrow> bool \<Rightarrow> request \<Rightarrow> response \<Rightarrow> bool \<Rightarrow> conn \<Rightarrow> 'w \<Rightarrow> (bool \<times> conn \<times> 'w) res" where
  "write_response_core env s close_connection req res need_apply_ranges st w =
     (if status res = - 1 then Inl Aborted else
      rbind (run_error_handler s req res w) (\<lambda>(handled, res, w).
       rbind (if handled \<or> need_apply_ranges then apply_ranges (random_numbers env) req res else Inr res) (\<lambda>res.
         rbind (add_connection_field s close_connection req res) (\<lambda>res.
           rbind (case post_routing_handler s of
                    None \<Rightarrow> Inr ((), add_default_fields req res, w)
                  | Some h \<Rightarrow> h req (add_default_fields req res) w) (\<lambda>(_, res, w).
             let (ret, st) = send_response req res st;
                 w = (case server_logger s of None \<Rightarrow> w | Some l \<Rightarrow> l req res w)
             in Inr (ret, st, w))))))"

definition write_response ::
  "env \<Rightarrow> 'w server \<Rightarrow> bool \<Rightarrow> request \<Rightarrow> response \<Rightarrow> conn \<Rightarrow> 'w \<Rightarrow> (bool \<times> conn \<times> 'w) res" where
  "write_response env s close_connection req res = write_response_core env s close_connection req res False"

definition write_response_with_content ::
  "env \<Rightarrow> 'w server \<Rightarrow> bool \<Rightarrow> request \<Rightarrow> response \<Rightarrow> conn \<Rightarrow> 'w \<Rightarrow> (bool \<times> conn \<times> 'w) res" where
  "write_response_with_content env s close_connection req res =
     write_response_core env s close_connection req res True"

section \<open>Files\<close>

text \<open>
  \<open>handle_file_request\<close>: the first mount point whose prefix matches and under which there is such
  a file. The calls of the operating system see the path up to its first NUL.
\<close>

definition file_path :: "mount_point \<Rightarrow> string \<Rightarrow> string option" where
  "file_path m pth =
     (let sub_path = CHR ''/'' # drop (length (mnt_point m)) pth in
      if starts_with pth (mnt_point m) \<and> is_valid_path sub_path
      then Some (let p = mnt_dir m @ sub_path in if last p = CHR ''/'' then p @ ''index.html'' else p)
      else None)"

definition serve_file :: "env \<Rightarrow> 'w server \<Rightarrow> mount_point \<Rightarrow> string \<Rightarrow> request \<Rightarrow> response \<Rightarrow> response" where
  "serve_file env s m p req res =
     (let res = res\<lparr>body := file_content env (c_text p)\<rparr>;
          res = (case find_content_type p (mime_map s) of Some t \<Rightarrow> set_header ''Content-Type'' t res | None \<Rightarrow> res);
          res = foldl (\<lambda>res (k, v). set_header (c_text k) v res) res (mnt_headers m)
      in res\<lparr>status := (if Request_has_header req ''Range'' then 206 else 200)\<rparr>)"

fun handle_file_loop ::
  "mount_point list \<Rightarrow> env \<Rightarrow> 'w server \<Rightarrow> bool \<Rightarrow> request \<Rightarrow> response \<Rightarrow> 'w
   \<Rightarrow> (bool attempt \<times> response \<times> 'w) res" where
  "handle_file_loop [] env s hd_only req res w = Inr (Gives False, res, w)"
| "handle_file_loop (m # ms) env s hd_only req res w =
     (case file_path m (path req) of
        None \<Rightarrow> handle_file_loop ms env s hd_only req res w
      | Some p \<Rightarrow>
          if \<not> is_file env (c_text p) then handle_file_loop ms env s hd_only req res w
          else
            (let res = serve_file env s m p req res in
             case file_request_handler s of
               None \<Rightarrow> Inr (Gives True, res, w)
             | Some h \<Rightarrow>
                 if hd_only then Inr (Gives True, res, w)
                 else rbind (h req res w) (\<lambda>(a, res, w).
                        Inr (case a of Gives _ \<Rightarrow> Gives True | Raises t \<Rightarrow> Raises t, res, w))))"

definition handle_file_request ::
  "env \<Rightarrow> 'w server \<Rightarrow> bool \<Rightarrow> request \<Rightarrow> response \<Rightarrow> 'w \<Rightarrow> (bool attempt \<times> response \<times> 'w) res" where
  "handle_file_request env s = handle_file_loop (base_dirs s) env s"

section \<open>Routing\<close>

fun dispatch_request ::
  "(pattern \<times> ('w, unit) action) list \<Rightarrow> request \<Rightarrow> response \<Rightarrow> 'w \<Rightarrow> (bool attempt \<times> response \<times> 'w) res" where
  "dispatch_request [] req res w = Inr (Gives False, res, w)"
| "dispatch_request ((pat, handler) # hs) req res w =
     (case pat (path req) of
        Some ms \<Rightarrow>
          rbind (handler (req\<lparr>matches := ms\<rparr>) res w) (\<lambda>(a, res, w).
            Inr (case a of Gives _ \<Rightarrow> Gives True | Raises t \<Rightarrow> Raises t, res, w))
      | None \<Rightarrow> dispatch_request hs req res w)"

definition handlers_for :: "'w server \<Rightarrow> string \<Rightarrow> (pattern \<times> ('w, unit) action) list option" where
  "handlers_for s m =
     (if m = ''GET'' \<or> m = ''HEAD'' then Some (get_handlers s)
      else if m = ''POST'' then Some (post_handlers s)
      else if m = ''PUT'' then Some (put_handlers s)
      else if m = ''DELETE'' then Some (delete_handlers s)
      else if m = ''OPTIONS'' then Some (options_handlers s)
      else if m = ''PATCH'' then Some (patch_handlers s)
      else None)"

text \<open>What routing ends with: routed or not, or an exception; the stream, request, response and state.\<close>

type_synonym 'w routed = "bool attempt \<times> conn \<times> request \<times> response \<times> 'w"

definition route_to_handler :: "'w server \<Rightarrow> conn \<Rightarrow> request \<Rightarrow> response \<Rightarrow> 'w \<Rightarrow> 'w routed res" where
  "route_to_handler s st req res w =
     (case handlers_for s (req_method req) of
        Some hs \<Rightarrow> rbind (dispatch_request hs req res w) (\<lambda>(a, res, w). Inr (a, st, req, res, w))
      | None \<Rightarrow> Inr (Gives False, st, req, res\<lparr>status := 400\<rparr>, w))"

definition route_content :: "'w server \<Rightarrow> conn \<Rightarrow> request \<Rightarrow> response \<Rightarrow> 'w \<Rightarrow> 'w routed res" where
  "route_content s st req res w =
     (if expect_content req then
        rbind (Server_read_content (payload_max_length s) st req res) (\<lambda>(ok, st, req, res).
          if ok then route_to_handler s st req res w else Inr (Gives False, st, req, res, w))
      else route_to_handler s st req res w)"

definition route_file :: "env \<Rightarrow> 'w server \<Rightarrow> conn \<Rightarrow> request \<Rightarrow> response \<Rightarrow> 'w \<Rightarrow> 'w routed res" where
  "route_file env s st req res w =
     (if req_method req = ''GET'' \<or> req_method req = ''HEAD'' then
        rbind (handle_file_request env s (req_method req = ''HEAD'') req res w) (\<lambda>(a, res, w).
          if a = Gives False then route_content s st req res w else Inr (a, st, req, res, w))
      else route_content s st req res w)"

definition routing :: "env \<Rightarrow> 'w server \<Rightarrow> conn \<Rightarrow> request \<Rightarrow> response \<Rightarrow> 'w \<Rightarrow> 'w routed res" where
  "routing env s st req res w =
     (case pre_routing_handler s of
        None \<Rightarrow> route_file env s st req res w
      | Some h \<Rightarrow>
          rbind (h req res w) (\<lambda>(a, res, w).
            if a = Gives False then route_file env s st req res w else Inr (a, st, req, res, w)))"

section \<open>One request\<close>

definition FD_SETSIZE :: nat where "FD_SETSIZE = 1024"
definition CPPHTTPLIB_REQUEST_URI_MAX_LENGTH :: nat where "CPPHTTPLIB_REQUEST_URI_MAX_LENGTH = 8192"

definition initial_response :: "'w server \<Rightarrow> response" where
  "initial_response s =
     foldl (\<lambda>res (k, v).
         if mm_has to_lower (rsp_headers res) k then res
         else res\<lparr>rsp_headers := mm_emplace to_lower k v (rsp_headers res)\<rparr>)
       (empty_response\<lparr>rsp_version := ''HTTP/1.1''\<rparr>) (default_headers s)"

definition wants_close :: "request \<Rightarrow> bool res" where
  "wants_close req =
     rbind (Request_get_header_value req ''Connection'' 0) (\<lambda>v.
       Inr (v = ''close'' \<or> req_version req = ''HTTP/1.0'' \<and> v \<noteq> ''Keep-Alive''))"

definition add_peer :: "env \<Rightarrow> request \<Rightarrow> request" where
  "add_peer env req =
     Request_set_header ''REMOTE_PORT'' (std_to_string (peer_port env))
       (Request_set_header ''REMOTE_ADDR'' (peer_addr env)
         (req\<lparr>remote_addr := peer_addr env, remote_port := peer_port env\<rparr>))"

text \<open>The \<open>Range\<close> field: whether it is well formed, and the request with its ranges.\<close>

definition take_ranges :: "request \<Rightarrow> (bool \<times> request) res" where
  "take_ranges req =
     (if Request_has_header req ''Range'' then
        rbind (Request_get_header_value req ''Range'' 0) (\<lambda>v.
          let (ok, rs) = parse_range_header v (ranges req) in Inr (ok, req\<lparr>ranges := rs\<rparr>))
      else Inr (True, req))"

text \<open>\<open>Expect: 100-continue\<close>: the interim response, or the status that ends the request.\<close>

definition answer_expect ::
  "'w server \<Rightarrow> conn \<Rightarrow> request \<Rightarrow> response \<Rightarrow> 'w \<Rightarrow> (bool \<times> conn \<times> response \<times> 'w) res" where
  "answer_expect s st req res w =
     rbind (Request_get_header_value req ''Expect'' 0) (\<lambda>v.
       if v \<noteq> ''100-continue'' then Inr (True, st, res, w)
       else
         rbind (case expect_100_continue_handler s of
                  None \<Rightarrow> Inr (100, res, w)
                | Some h \<Rightarrow> h req res w) (\<lambda>(stat, res, w).
           if stat = 100 \<or> stat = 417
           then Inr (True, snd (strm_write (status_line stat @ CRLF) st), res, w)
           else Inr (False, st, res, w)))"

text \<open>The \<open>catch\<close> clauses.\<close>

definition catch_exceptions :: "env \<Rightarrow> 'w server \<Rightarrow> 'w routed \<Rightarrow> (bool \<times> conn \<times> request \<times> response \<times> 'w) res" where
  "catch_exceptions env s = (\<lambda>(a, st, req, res, w).
     case a of
       Gives routed \<Rightarrow> Inr (routed, st, req, res, w)
     | Raises Other_exception \<Rightarrow>
         Inr (False, st, req, set_header ''EXCEPTION_WHAT'' ''UNKNOWN'' (res\<lparr>status := 500\<rparr>), w)
     | Raises (Std_exception e) \<Rightarrow>
         (case exception_handler s of
            Some h \<Rightarrow> rbind (h (Std_exception e) req res w) (\<lambda>(_, res, w). Inr (True, st, req, res, w))
          | None \<Rightarrow>
              Inr (False, st, req, set_header ''EXCEPTION_WHAT'' (c_text (what env e)) (res\<lparr>status := 500\<rparr>), w)))"

definition route_and_respond ::
  "env \<Rightarrow> 'w server \<Rightarrow> bool \<Rightarrow> conn \<Rightarrow> request \<Rightarrow> response \<Rightarrow> 'w \<Rightarrow> (bool \<times> conn \<times> 'w) res" where
  "route_and_respond env s close_connection st req res w =
     rbind (routing env s st req res w) (\<lambda>r.
       rbind (catch_exceptions env s r) (\<lambda>(routed, st, req, res, w).
         if routed then
           write_response_with_content env s close_connection req
             (if status res = - 1 then res\<lparr>status := (if ranges req = [] then 200 else 206)\<rparr> else res) st w
         else
           write_response env s close_connection req
             (if status res = - 1 then res\<lparr>status := 404\<rparr> else res) st w))"

text \<open>From the header fields on.\<close>

definition process_parsed ::
  "env \<Rightarrow> 'w server \<Rightarrow> bool \<Rightarrow> conn \<Rightarrow> request \<Rightarrow> response \<Rightarrow> 'w \<Rightarrow> (bool \<times> bool \<times> conn \<times> 'w) res" where
  "process_parsed env s close_connection st req res w =
     rbind (wants_close req) (\<lambda>connection_closed.
       rbind (take_ranges (add_peer env req)) (\<lambda>(ok, req).
         if \<not> ok then
           rbind (write_response env s close_connection req (res\<lparr>status := 416\<rparr>) st w)
             (\<lambda>(ret, st, w). Inr (ret, connection_closed, st, w))
         else
           rbind (answer_expect s st req res w) (\<lambda>(go_on, st, res, w).
             rbind (if go_on then route_and_respond env s close_connection st req res w
                    else write_response env s close_connection req res st w)
               (\<lambda>(ret, st, w). Inr (ret, connection_closed, st, w)))))"

text \<open>
  \<open>process_request\<close>: what it returns, whether the connection is to be closed, the stream and the
  state. \<open>setup_request\<close> is empty.
\<close>

definition process_request ::
  "env \<Rightarrow> 'w server \<Rightarrow> bool \<Rightarrow> conn \<Rightarrow> 'w \<Rightarrow> (bool \<times> bool \<times> conn \<times> 'w) res" where
  "process_request env s close_connection st w =
     (case getline (new_line_reader 2048) st of (ok, lr, st) \<Rightarrow>
        if \<not> ok then Inr (False, False, st, w)
        else
          (let res = initial_response s;
               refuse = (\<lambda>stat req st.
                 rbind (write_response env s close_connection req (res\<lparr>status := stat\<rparr>) st w)
                   (\<lambda>(ret, st, w). Inr (ret, False, st, w)))
           in if FD_SETSIZE \<le> socket_number env then
                refuse 500 empty_request (fst (snd (read_headers st [])))
              else if CPPHTTPLIB_REQUEST_URI_MAX_LENGTH < lr_size lr then
                refuse 414 empty_request (fst (snd (read_headers st [])))
              else
                (case parse_request_line (lr_ptr lr) empty_request of (parsed, req) \<Rightarrow>
                   if \<not> parsed then refuse 400 req st
                   else
                     (case read_headers st (req_headers req) of (ok, st, hs) \<Rightarrow>
                        if \<not> ok then refuse 400 (req\<lparr>req_headers := hs\<rparr>) st
                        else process_parsed env s close_connection st (req\<lparr>req_headers := hs\<rparr>) res w))))"

section \<open>One connection\<close>

text \<open>
  \<open>process_server_socket_core\<close>: \<open>alive\<close> are the results of the calls of \<open>keep_alive\<close>, which waits
  for the socket to become readable, and no more calls are answered with \<open>false\<close>.
\<close>

fun server_socket_loop ::
  "env \<Rightarrow> 'w server \<Rightarrow> nat \<Rightarrow> bool list \<Rightarrow> bool \<Rightarrow> conn \<Rightarrow> 'w \<Rightarrow> (bool \<times> conn \<times> 'w) res" where
  "server_socket_loop env s 0 alive ret st w = Inr (ret, st, w)"
| "server_socket_loop env s (Suc n) [] ret st w = Inr (ret, st, w)"
| "server_socket_loop env s (Suc n) (al # alive) ret st w =
     (if \<not> al then Inr (ret, st, w)
      else
        rbind (process_request env s (n = 0) st w) (\<lambda>(ret, connection_closed, st, w).
          if \<not> ret \<or> connection_closed then Inr (ret, st, w)
          else server_socket_loop env s n alive ret st w))"

definition process_server_socket ::
  "env \<Rightarrow> 'w server \<Rightarrow> bool list \<Rightarrow> conn \<Rightarrow> 'w \<Rightarrow> (bool \<times> conn \<times> 'w) res" where
  "process_server_socket env s alive st w =
     server_socket_loop env s (keep_alive_max_count s) alive False st w"

definition process_and_close_socket ::
  "env \<Rightarrow> 'w server \<Rightarrow> bool list \<Rightarrow> conn \<Rightarrow> nat list \<Rightarrow> 'w \<Rightarrow> (bool \<times> conn \<times> nat list \<times> 'w) res" where
  "process_and_close_socket env s alive st closed w =
     (if keep_alive_max_count s = 0 then Inl Aborted
      else rbind (process_server_socket env s alive st w) (\<lambda>(ret, st, w).
             Inr (ret, st, closed @ [socket_number env], w)))"

section \<open>Accepting connections\<close>

text \<open>The listening socket, which \<open>stop\<close> closes, and whether \<open>listen_internal\<close> is running.\<close>

record listener =
  svr_sock :: "nat option"
  is_running :: bool
  closed_socks :: "nat list"

definition stop_server :: "listener \<Rightarrow> listener res" where
  "stop_server l =
     (if is_running l then
        (case svr_sock l of
           None \<Rightarrow> Inl Aborted
         | Some sock \<Rightarrow> Inr (l\<lparr>svr_sock := None, closed_socks := closed_socks l @ [sock]\<rparr>))
      else Inr l)"

datatype accept_result = Accepted nat | Too_many_files | Accept_failed

text \<open>
  One pass of the loop of \<open>listen_internal\<close>: the socket at its head, the result of \<open>select_read\<close>,
  the result of \<open>accept\<close> and the socket when \<open>accept\<close> has failed. The result of the loop: the
  connections enqueued, the sockets it closed and the value returned; \<open>None\<close> while it has not
  ended.
\<close>

type_synonym listen_pass = "nat option \<times> int \<times> accept_result \<times> nat option"

fun listen_loop :: "bool \<Rightarrow> listen_pass list \<Rightarrow> nat list \<Rightarrow> nat list \<times> (nat list \<times> bool) option" where
  "listen_loop idle [] jobs = (jobs, None)"
| "listen_loop idle ((hd_sock, ready, accepted, sock) # ps) jobs =
     (if hd_sock = None then (jobs, Some ([], True))
      else if idle \<and> ready = 0 then listen_loop idle ps jobs
      else
        (case accepted of
           Accepted c \<Rightarrow> listen_loop idle ps (jobs @ [c])
         | Too_many_files \<Rightarrow> listen_loop idle ps jobs
         | Accept_failed \<Rightarrow>
             (jobs, Some (case sock of None \<Rightarrow> ([], True) | Some c \<Rightarrow> ([c], False)))))"

section \<open>Facts\<close>

subsection \<open>Streams\<close>

lemma strm_write_keeps [simp]:
  "rest (snd (strm_write s st)) = rest st" "broken (snd (strm_write s st)) = broken st"
  by (auto simp: strm_write_def rest_def Let_def split: list.splits)

lemma strm_write_all: "sends st = [] \<Longrightarrow> strm_write s st = (int (length s), st\<lparr>sent := sent st @ s\<rparr>)"
  by (simp add: strm_write_def)

lemma read_headers_loop_keeps:
  "read_headers_loop lr st hs = (ok, st', hs') \<Longrightarrow>
   broken st' = broken st \<and> sent st' = sent st \<and> sends st' = sends st"
proof (induction "length (rest st)" arbitrary: lr st hs rule: less_induct)
  case less
  obtain ok1 lr1 st1 where g: "getline lr st = (ok1, lr1, st1)" by (metis prod_cases3)
  note keeps = getline_spec(4-6) [OF g]
  show ?case
  proof (cases "ok1 \<and> \<not> (end_with_crlf lr1 \<and> lr_size lr1 = 2)")
    case True
    with g have "getline lr st = (True, lr1, st1)" by simp
    from getline_less [OF this] have shorter: "length (rest st1) < length (rest st)" .
    have "\<exists>hs1. read_headers_loop lr1 st1 hs1 = (ok, st', hs')"
      using less(2) unfolding read_headers_loop.simps [of lr st] g
      by (cases "end_with_crlf lr1") (use True in auto)
    with less(1) [OF shorter] keeps show ?thesis by auto
  next
    case False
    then have "st' = st1"
      using less(2) unfolding read_headers_loop.simps [of lr st] g by (auto split: if_splits)
    with keeps show ?thesis by simp
  qed
qed

subsection \<open>The head of a request\<close>

definition plain_target :: "string \<Rightarrow> bool" where
  "plain_target t \<longleftrightarrow>
     t \<noteq> [] \<and> list_all (\<lambda>c. \<not> is_space_or_tab c \<and> c \<notin> {NUL, CR, LF, CHR ''?'', CHR ''%''}) t"

text \<open>A target that may have percent signs: its path is what they stand for.\<close>

definition target_text :: "string \<Rightarrow> bool" where
  "target_text t \<longleftrightarrow> t \<noteq> [] \<and> list_all (\<lambda>c. \<not> is_space_or_tab c \<and> c \<notin> {NUL, CR, LF, CHR ''?''}) t"

lemma plain_target_text: "plain_target t \<Longrightarrow> target_text t \<and> decode_url t False = t"
  by (auto simp: plain_target_def target_text_def list_all_iff intro: decode_url_plain)

definition request_line :: "string \<Rightarrow> string \<Rightarrow> string" where
  "request_line m tgt = m @ '' '' @ tgt @ '' HTTP/1.1'' @ CRLF"

definition head_request :: "string \<Rightarrow> string \<Rightarrow> headers \<Rightarrow> request" where
  "head_request m tgt hs =
     empty_request\<lparr>req_method := m, target := tgt, req_version := ''HTTP/1.1'', path := tgt, req_headers := hs\<rparr>"

lemma known_method_chars:
  "m \<in> set known_methods \<Longrightarrow> m \<noteq> [] \<and> list_all (\<lambda>c. \<not> is_space_or_tab c \<and> c \<notin> {NUL, CR, LF}) m"
  by (auto simp: known_methods_def is_space_or_tab_def)

lemma version_chars: "list_all (\<lambda>c. \<not> is_space_or_tab c \<and> c \<notin> {NUL, CR, LF}) ''HTTP/1.1''"
  by (simp add: is_space_or_tab_def)

lemma split_line:
  assumes "m \<in> set known_methods" and "target_text tgt"
  shows "split (m @ '' '' @ tgt @ '' HTTP/1.1'') CHR '' '' = [m, tgt, ''HTTP/1.1'']"
proof -
  have c: "list_all (\<lambda>c. \<not> is_space_or_tab c) m" "list_all (\<lambda>c. \<not> is_space_or_tab c) tgt"
    "list_all (\<lambda>c. \<not> is_space_or_tab c) ''HTTP/1.1''"
    using known_method_chars [OF assms(1)] assms(2) version_chars by (auto simp: target_text_def list_all_iff)
  have sp: "CHR '' '' \<notin> set s" if "list_all (\<lambda>c. \<not> is_space_or_tab c) s" for s
    using that by (auto simp: list_all_iff is_space_or_tab_def)
  have "pieces_of CHR '' '' (m @ concat (map (\<lambda>x. CHR '' '' # x) [tgt, ''HTTP/1.1''])) = m # [tgt, ''HTTP/1.1'']"
    by (rule pieces_of_join) (use sp c in auto)
  then have "pieces_of CHR '' '' (m @ '' '' @ tgt @ '' HTTP/1.1'') = [m, tgt, ''HTTP/1.1'']" by simp
  then have "split (m @ '' '' @ tgt @ '' HTTP/1.1'') CHR '' '' = filter (\<lambda>p. p \<noteq> []) [m, tgt, ''HTTP/1.1'']"
    unfolding split_eq by (simp only: list.map strip_id [OF c(1)] strip_id [OF c(2)] strip_id [OF c(3)])
  then show ?thesis using known_method_chars [OF assms(1)] assms(2) by (simp add: target_text_def)
qed

lemma split_target: "target_text tgt \<Longrightarrow> split tgt CHR ''?'' = [tgt]"
proof -
  assume t: "target_text tgt"
  then have "CHR ''?'' \<notin> set tgt" "list_all (\<lambda>c. \<not> is_space_or_tab c) tgt" "tgt \<noteq> []"
    by (auto simp: target_text_def list_all_iff)
  then show ?thesis by (simp add: split_eq pieces_of_none strip_id)
qed

lemma request_line_chars:
  assumes "m \<in> set known_methods" and "target_text tgt"
  shows "NUL \<notin> set (request_line m tgt)" and "LF \<notin> set (m @ '' '' @ tgt @ '' HTTP/1.1'' @ [CR])"
  using known_method_chars [OF assms(1)] assms(2)
  by (auto simp: request_line_def target_text_def list_all_iff)

lemma parse_request_line_target:
  assumes "m \<in> set known_methods" and "target_text tgt"
  shows "parse_request_line (request_line m tgt) empty_request = (True, (head_request m tgt [])\<lparr>path := decode_url tgt False\<rparr>)"
proof -
  let ?l = "m @ '' '' @ tgt @ '' HTTP/1.1''"
  have line: "c_text (request_line m tgt) = ?l @ CRLF"
    using request_line_chars(1) [OF assms] unfolding c_text_def
    by (subst takeWhile_eq_all_conv [THEN iffD2]) (auto simp: request_line_def)
  have ends: "\<not> length (l @ CRLF) < 2" "(l @ CRLF) ! (length (l @ CRLF) - 2) = CR"
    "(l @ CRLF) ! (length (l @ CRLF) - 1) = LF" "take (length (l @ CRLF) - 2) (l @ CRLF) = l" for l
    by (simp_all add: nth_append)
  moreover have "numbered [m, tgt, ''HTTP/1.1''] = [(0, m), (1, tgt), (2, ''HTTP/1.1'')]"
    "numbered [tgt] = [(0, tgt)]"
    by (simp_all add: numbered_def upt_rec)
  ultimately show ?thesis
    unfolding parse_request_line_def line Let_def
    using split_line [OF assms] split_target [OF assms(2)] assms(1)
    by (simp only: ends if_False simp_thms)
      (simp add: request_line_piece_def target_piece_def head_request_def empty_request_def)
qed

text \<open>The head of a request is read as it was written, in whatever packets it comes.\<close>

lemma process_request_sent:
  assumes m: "m \<in> set known_methods" and tgt: "target_text tgt"
    and hs: "list_all (\<lambda>(k, v). field_sendable k v) hs" "mm_sorted to_lower hs"
    and st: "rest st = request_line m tgt @ write_headers hs @ aft"
    and fits: "length (request_line m tgt) \<le> CPPHTTPLIB_REQUEST_URI_MAX_LENGTH" "socket_number env < FD_SETSIZE"
  obtains st' where "process_request env s cc st w
      = process_parsed env s cc st' ((head_request m tgt (fields_back hs))\<lparr>path := decode_url tgt False\<rparr>) (initial_response s) w"
    and "rest st' = aft" and "broken st' = broken st" and "sent st' = sent st" and "sends st' = sends st"
proof -
  have "rest st = (m @ '' '' @ tgt @ '' HTTP/1.1'' @ [CR]) @ LF # write_headers hs @ aft"
    using st by (simp add: request_line_def)
  from getline_line [OF this request_line_chars(2) [OF m tgt], of "new_line_reader 2048"]
  obtain lr st1 where g: "getline (new_line_reader 2048) st = (True, lr, st1)"
    "lr_ptr lr = request_line m tgt" "rest st1 = write_headers hs @ aft"
    "broken st1 = broken st" "sent st1 = sent st" "sends st1 = sends st"
    by (auto simp: request_line_def)
  obtain st2 where h: "read_headers st1 [] = (True, st2, fields_back hs)" "rest st2 = aft"
    using read_headers_sent [OF hs(1), of "[]" st1 aft] fields_back_sorted [OF hs(2)] g(3) by (auto simp: read_headers_def)
  have "broken st2 = broken st \<and> sent st2 = sent st \<and> sends st2 = sends st"
    using read_headers_loop_keeps h(1) g(4-6) unfolding read_headers_def by fastforce
  moreover have "req_headers ((head_request m tgt [])\<lparr>path := p\<rparr>) = []" "(head_request m tgt [])\<lparr>path := p, req_headers := fields_back hs\<rparr> = (head_request m tgt (fields_back hs))\<lparr>path := p\<rparr>" for p
    by (simp_all add: head_request_def)
  then have "process_request env s cc st w
      = process_parsed env s cc st2 ((head_request m tgt (fields_back hs))\<lparr>path := decode_url tgt False\<rparr>) (initial_response s) w"
    using fits by (simp add: process_request_def Let_def g(1,2) lr_size_ptr parse_request_line_target [OF m tgt] h(1))
  ultimately show thesis using h(2) that by blast
qed

lemma process_request_target:
  assumes "m \<in> set known_methods" and "target_text tgt"
    and "list_all (\<lambda>(k, v). field_ok k v) hs" "mm_sorted to_lower hs"
    and "rest st = request_line m tgt @ write_headers hs @ aft"
    and "length (request_line m tgt) \<le> CPPHTTPLIB_REQUEST_URI_MAX_LENGTH" "socket_number env < FD_SETSIZE"
  obtains st' where "process_request env s cc st w
      = process_parsed env s cc st' ((head_request m tgt hs)\<lparr>path := decode_url tgt False\<rparr>) (initial_response s) w"
    and "rest st' = aft" and "broken st' = broken st" and "sent st' = sent st" and "sends st' = sends st"
  using process_request_sent [OF assms(1,2) _ assms(4-7), of s cc w] fields_ok_back [OF assms(3)] by metis

lemma process_request_head:
  assumes "m \<in> set known_methods" and tgt: "plain_target tgt"
    and "list_all (\<lambda>(k, v). field_ok k v) hs" "mm_sorted to_lower hs"
    and "rest st = request_line m tgt @ write_headers hs @ aft"
    and "length (request_line m tgt) \<le> CPPHTTPLIB_REQUEST_URI_MAX_LENGTH" "socket_number env < FD_SETSIZE"
  obtains st' where "process_request env s cc st w
      = process_parsed env s cc st' (head_request m tgt hs) (initial_response s) w"
    and "rest st' = aft" and "broken st' = broken st" and "sent st' = sent st" and "sends st' = sends st"
proof -
  have "(head_request m tgt hs)\<lparr>path := decode_url tgt False\<rparr> = head_request m tgt hs"
    using plain_target_text [OF tgt] by (simp add: head_request_def)
  with process_request_target [OF assms(1) conjunct1 [OF plain_target_text [OF tgt]] assms(3-7), of s cc w] that
  show thesis by metis
qed

subsection \<open>What a response leaves unread\<close>

lemma send_response_rest [simp]: "rest (snd (send_response req res st)) = rest st"
  by (simp add: send_response_def Let_def split_beta)

lemma write_response_core_rest:
  "write_response_core env s cc req res need st w = Inr (ret, st', w') \<Longrightarrow> rest st' = rest st"
  unfolding write_response_core_def
  by (simp add: res_simps split_beta split: if_splits) (metis send_response_rest)

lemmas write_response_rest =
  write_response_core_rest [of env s cc req res False for env s cc req res, folded write_response_def]
  write_response_core_rest [of env s cc req res True for env s cc req res, folded write_response_with_content_def]

lemma route_content_rest:
  "route_content s st req res w = Inr (a, st', req', res', w') \<Longrightarrow> \<not> expect_content req \<Longrightarrow> st' = st \<and> req' = req"
  by (auto simp: route_content_def route_to_handler_def res_simps split: option.splits)

lemma routing_rest:
  assumes "routing env s st req res w = Inr (a, st', req', res', w')" and "\<not> expect_content req"
  shows "st' = st \<and> req' = req"
proof -
  have via_file: "route_file env s st req res w = Inr (a, st', req', res', w') \<Longrightarrow> st' = st \<and> req' = req" for res w
    using assms(2)
    by (auto simp: route_file_def res_simps dest: route_content_rest split: if_splits)
  with assms(1) show ?thesis
    by (auto simp: routing_def res_simps dest: via_file split: option.splits if_splits)
qed

lemma catch_exceptions_st:
  "catch_exceptions env s (a, st, req, res, w) = Inr (routed, st', req', res', w') \<Longrightarrow> st' = st"
  by (auto simp: catch_exceptions_def res_simps split: attempt.splits thrown_what.splits option.splits)

lemma route_and_respond_rest:
  assumes "route_and_respond env s cc st req res w = Inr (ret, st', w')" and "\<not> expect_content req"
  shows "rest st' = rest st"
proof -
  from assms(1) obtain a st1 req1 res1 w1 routed st2 req2 res2 w2 where
    r: "routing env s st req res w = Inr (a, st1, req1, res1, w1)"
    and c: "catch_exceptions env s (a, st1, req1, res1, w1) = Inr (routed, st2, req2, res2, w2)"
    and o: "(if routed
      then write_response_with_content env s cc req2
             (if status res2 = - 1 then res2\<lparr>status := if ranges req2 = [] then 200 else 206\<rparr> else res2) st2 w2
      else write_response env s cc req2 (if status res2 = - 1 then res2\<lparr>status := 404\<rparr> else res2) st2 w2)
      = Inr (ret, st', w')"
    by (auto simp: route_and_respond_def res_simps)
  from o have "rest st' = rest st2"
    by (cases routed) (simp_all only: if_True if_False write_response_rest)
  with catch_exceptions_st [OF c] routing_rest [OF r assms(2)] show ?thesis by simp
qed

lemma answer_expect_rest:
  "answer_expect s st req res w = Inr (go_on, st', res', w') \<Longrightarrow> rest st' = rest st"
  by (auto simp: answer_expect_def res_simps split: if_splits)

lemma process_parsed_rest:
  assumes "process_parsed env s cc st req res w = Inr (ret, closed, st', w')" and "\<not> expect_content req"
  shows "rest st' = rest st"
proof -
  have r: "\<not> expect_content req1" if "take_ranges (add_peer env req) = Inr (ok, req1)" for ok req1
    using that assms(2)
    by (auto simp: take_ranges_def add_peer_def Request_set_header_def expect_content_def res_simps
        split: if_splits prod.splits)
  from assms(1) show ?thesis
    unfolding process_parsed_def
    by (auto simp: res_simps dest!: write_response_rest answer_expect_rest dest: r route_and_respond_rest
        split: if_splits)
qed

subsection \<open>Requests without special fields\<close>

definition first_value :: "headers \<Rightarrow> string \<Rightarrow> string" where
  "first_value hs key = (case mm_values to_lower hs key of [] \<Rightarrow> [] | v # vs \<Rightarrow> v)"

definition no_field :: "headers \<Rightarrow> string \<Rightarrow> bool" where
  "no_field hs key \<longleftrightarrow> mm_values to_lower hs key = []"

lemma Request_get_first:
  "mm_sorted to_lower (req_headers req) \<Longrightarrow>
   Request_get_header_value req key 0 = Inr (case mm_values to_lower (req_headers req) key of [] \<Rightarrow> [] | v # vs \<Rightarrow> v)"
  by (simp add: Request_get_header_value_def get_header_value_def mm_get_first split: list.splits)

lemma add_peer_sorted: "mm_sorted to_lower (req_headers req) \<Longrightarrow> mm_sorted to_lower (req_headers (add_peer env req))"
  by (simp add: add_peer_def Request_set_header_def mm.inv_emplace)

lemma add_peer_values:
  assumes "mm_sorted to_lower (req_headers req)"
    and "to_lower key \<noteq> ''remote_addr''" and "to_lower key \<noteq> ''remote_port''"
  shows "mm_values to_lower (req_headers (add_peer env req)) key = mm_values to_lower (req_headers req) key"
proof -
  have "to_lower ''REMOTE_ADDR'' = ''remote_addr''" "to_lower ''REMOTE_PORT'' = ''remote_port''" by code_simp+
  with assms show ?thesis
    by (auto simp: add_peer_def Request_set_header_def mm.values_emplace mm.inv_emplace)
qed

lemma add_peer_parts [simp]:
  "req_method (add_peer env req) = req_method req" "path (add_peer env req) = path req"
  "req_version (add_peer env req) = req_version req" "ranges (add_peer env req) = ranges req"
  "req_body (add_peer env req) = req_body req"
  by (simp_all add: add_peer_def Request_set_header_def)

text \<open>The names of the fields the server looks at, in lower case.\<close>

lemma field_names:
  "to_lower ''Connection'' = ''connection''" "to_lower ''Range'' = ''range''" "to_lower ''Expect'' = ''expect''"
  "to_lower ''Content-Type'' = ''content-type''" "to_lower ''Content-Length'' = ''content-length''"
  "to_lower ''Content-Encoding'' = ''content-encoding''" "to_lower ''Transfer-Encoding'' = ''transfer-encoding''"
  "to_lower ''Keep-Alive'' = ''keep-alive''" "to_lower ''Accept-Ranges'' = ''accept-ranges''"
  "to_lower ''EXCEPTION_WHAT'' = ''exception_what''"
  by code_simp+

lemma process_parsed_plain:
  assumes "mm_sorted to_lower (req_headers req)" and "req_version req = ''HTTP/1.1''"
    and "no_field (req_headers req) ''Connection''" and "no_field (req_headers req) ''Range''"
    and "no_field (req_headers req) ''Expect''"
  shows "process_parsed env s cc st req res w
    = rbind (route_and_respond env s cc st (add_peer env req) res w) (\<lambda>(ret, st, w). Inr (ret, False, st, w))"
proof -
  have v: "mm_values to_lower (req_headers (add_peer env req)) k = []"
    if "k \<in> {''Range'', ''Expect'', ''Connection''}" for k
    using that assms add_peer_values [OF assms(1), of k env] field_names by (auto simp: no_field_def)
  have "wants_close req = Inr False"
    using assms by (simp add: wants_close_def Request_get_first no_field_def)
  moreover have "take_ranges (add_peer env req) = Inr (True, add_peer env req)"
    using v add_peer_sorted [OF assms(1), of env]
    by (simp add: take_ranges_def Request_has_header_def has_header_def mm_has_values)
  moreover have "answer_expect s st (add_peer env req) res w = Inr (True, st, res, w)"
    using v add_peer_sorted [OF assms(1), of env] by (simp add: answer_expect_def Request_get_first)
  ultimately show ?thesis by (simp add: process_parsed_def)
qed

text \<open>A body with a length and no encoding is read as it is, in whatever packets it comes.\<close>

lemma read_plain_content:
  assumes sorted: "mm_sorted to_lower (req_headers req)"
    and "mm_values to_lower (req_headers req) ''Content-Length'' = [nat_string (length content)]"
    and "no_field (req_headers req) ''Content-Encoding''" and "no_field (req_headers req) ''Transfer-Encoding''"
    and "ct = first_value (req_headers req) ''Content-Type''"
    and "\<not> starts_with ct ''multipart/form-data''" and "\<not> starts_with ct ''application/x-www-form-urlencoded''"
    and "length content \<le> payload_max" and "payload_max < 2 ^ 64"
    and "rest st = content @ aft" and "req_body req = []"
  obtains st' where "Server_read_content payload_max st req res = Inr (True, st', req\<lparr>req_body := content\<rparr>, res)"
    and "rest st' = aft" and "broken st' = broken st" and "sent st' = sent st" and "sends st' = sends st"
proof -
  obtain r st' where r: "read_content_with_length body_receiver (length content) st [] = (r, st')" by fastforce
  have "length content \<le> length (rest st)" using assms(10) by simp
  from body.with_length [OF this r] assms(10)
  have b: "r = Some content" "rest st' = aft" "broken st' = broken st" "sent st' = sent st" "sends st' = sends st"
    by auto
  have g: "get_header_value (req_headers req) key 0 d = Inr (case mm_values to_lower (req_headers req) key of [] \<Rightarrow> d | v # vs \<Rightarrow> v)"
    "get_header_value_u64 (req_headers req) key 0 n = Inr (case mm_values to_lower (req_headers req) key of [] \<Rightarrow> n | v # vs \<Rightarrow> strtoull v)"
    for key d n
    by (simp_all add: get_header_value_def get_header_value_u64_def mm_get_first [OF sorted] split: list.splits)
  have n: "strtoull (nat_string (length content)) = length content"
    using assms(8,9) by (intro strtoull_nat_string) simp
  have "detail_read_content body_receiver (req_headers req) payload_max (status res) st [] = Inr (Some content, status res, st')"
    using assms(2-4,8) r b(1) n
    by (simp add: detail_read_content_def read_body_def is_chunked_transfer_encoding_def g no_field_def unsupported_encoding_def
        contains_def starts_with_def has_header_def mm_has_values [OF sorted] to_lower_def)
  moreover have "Request_is_multipart_form_data req = Inr False"
    using assms(5,6) by (simp add: Request_is_multipart_form_data_def Request_get_first [OF sorted] first_value_def)
  moreover have "Request_has_header req ''Content-Length''"
    using assms(2) by (simp add: Request_has_header_def has_header_def mm_has_values [OF sorted])
  ultimately have "Server_read_content payload_max st req res = Inr (True, st', req\<lparr>req_body := content\<rparr>, res)"
    using assms(5,7,11) sorted
    by (simp add: Server_read_content_def read_content_core_def Request_get_first first_value_def)
  with b that show thesis by blast
qed

subsection \<open>Responses of a server without hooks\<close>

definition bare_server :: "'w server \<Rightarrow> bool" where
  "bare_server s \<longleftrightarrow>
     base_dirs s = [] \<and> error_handler s = None \<and> exception_handler s = None \<and> pre_routing_handler s = None
     \<and> post_routing_handler s = None \<and> server_logger s = None \<and> expect_100_continue_handler s = None
     \<and> default_headers s = []"

definition connection_field :: "'w server \<Rightarrow> bool \<Rightarrow> response \<Rightarrow> response" where
  "connection_field s cc res =
     (if cc then set_header ''Connection'' ''close'' res else set_header ''Keep-Alive'' (keep_alive_text s) res)"

definition response_text :: "request \<Rightarrow> response \<Rightarrow> string" where
  "response_text req res = response_head res @ (if req_method req = ''HEAD'' then [] else body res)"

lemma add_connection_field_plain:
  "mm_sorted to_lower (req_headers req) \<Longrightarrow> no_field (req_headers req) ''Connection'' \<Longrightarrow>
   add_connection_field s cc req res = Inr (connection_field s cc res)"
  by (simp add: add_connection_field_def connection_field_def Request_get_first no_field_def)

lemma send_response_all:
  "sends st = [] \<Longrightarrow> send_response req res st = (True, st\<lparr>sent := sent st @ response_text req res\<rparr>)"
  by (simp add: send_response_def strm_write_all response_text_def Let_def)

lemma write_response_core_bare:
  assumes "bare_server s" and "status res \<noteq> - 1" and "sends st = []"
    and "mm_sorted to_lower (req_headers req)" and "no_field (req_headers req) ''Connection''"
    and "(if need then apply_ranges (random_numbers env) req res else Inr res) = Inr res1"
  shows "write_response_core env s cc req res need st w
    = Inr (True, st\<lparr>sent := sent st @ response_text req (add_default_fields req (connection_field s cc res1))\<rparr>, w)"
  using assms
  by (simp add: write_response_core_def run_error_handler_def bare_server_def add_connection_field_plain
      send_response_all split: option.splits)

lemma apply_ranges_none:
  assumes "mm_sorted to_lower (rsp_headers res)" and "mm_sorted to_lower (req_headers req)" and "ranges req = []"
  shows "apply_ranges engine req res
    = Inr (if body res = [] then res else set_header ''Content-Length'' (nat_string (length (body res))) res)"
  using assms
  by (simp add: apply_ranges_def encoding_type_def Response_get_header_value_def Request_get_header_value_def
      get_header_value_def mm_get_first)

lemma status_add_default_fields [simp]:
  "status (add_default_fields req res) = status res" "body (add_default_fields req res) = body res"
  by (simp_all add: add_default_fields_def Let_def)

lemma connection_field_parts [simp]:
  "status (connection_field s cc res) = status res" "body (connection_field s cc res) = body res"
  by (simp_all add: connection_field_def)

text \<open>The text of a response starts with its status.\<close>

lemma response_text_status:
  "response_text req res = status_line (status res) @ write_headers (rsp_headers res)
     @ (if req_method req = ''HEAD'' then [] else body res)"
  by (simp add: response_text_def response_head_def)

lemma set_header_sorted: "mm_sorted to_lower (rsp_headers res) \<Longrightarrow> mm_sorted to_lower (rsp_headers (set_header k v res))"
  by (simp add: set_header_def mm.inv_emplace)

lemma set_header_other:
  "mm_sorted to_lower (rsp_headers res) \<Longrightarrow> to_lower k \<noteq> to_lower key \<Longrightarrow>
   mm_values to_lower (rsp_headers (set_header k v res)) key = mm_values to_lower (rsp_headers res) key"
  by (simp add: set_header_def mm.values_emplace)

lemma field_ok_number: "list_all (\<lambda>c. c \<notin> {NUL, CR, LF, CHR '':''}) k \<Longrightarrow> field_ok k (nat_string n)"
proof -
  assume k: "list_all (\<lambda>c. c \<notin> {NUL, CR, LF, CHR '':''}) k"
  have d: "c \<notin> {NUL, CR, LF, CHR ''%''} \<and> \<not> is_space_or_tab c" if "is_digit c" for c
    using that by (auto simp: is_digit_def less_eq_char_def is_space_or_tab_def)
  have "\<forall>c \<in> set (nat_string n). c \<notin> {NUL, CR, LF, CHR ''%''} \<and> \<not> is_space_or_tab c"
    using nat_string_digits [of n] d by blast
  moreover have "hd (nat_string n) \<in> set (nat_string n)" "last (nat_string n) \<in> set (nat_string n)"
    by simp_all
  ultimately show ?thesis using k unfolding field_ok_def list_all_iff by (simp add: Ball_def)
qed

text \<open>Header fields from which a content can be read back as it is.\<close>

definition plain_fields :: "headers \<Rightarrow> bool" where
  "plain_fields hs \<longleftrightarrow>
     list_all (\<lambda>(k, v). field_ok k v) hs \<and> mm_sorted to_lower hs
     \<and> no_field hs ''Content-Encoding'' \<and> no_field hs ''Transfer-Encoding''"

definition framed :: "headers \<Rightarrow> string \<Rightarrow> bool" where
  "framed hs content \<longleftrightarrow>
     plain_fields hs \<and> mm_values to_lower hs ''Content-Length'' = [nat_string (length content)]"

lemma plain_fields_emplace:
  assumes "plain_fields hs" and "field_ok k v" and "to_lower k \<noteq> ''content-encoding''" and "to_lower k \<noteq> ''transfer-encoding''"
  shows "plain_fields (mm_emplace to_lower k v hs)"
  using assms unfolding plain_fields_def
  by (simp add: no_field_def mm.values_emplace mm.inv_emplace field_names list_all_iff)

lemma plain_fields_set_header:
  "plain_fields (rsp_headers res) \<Longrightarrow> field_ok k v \<Longrightarrow> to_lower k \<noteq> ''content-encoding'' \<Longrightarrow>
   to_lower k \<noteq> ''transfer-encoding'' \<Longrightarrow> plain_fields (rsp_headers (set_header k v res))"
  by (simp add: set_header_def plain_fields_emplace)

lemma default_fields_ok:
  "field_ok ''Content-Type'' ''text/plain''" "field_ok ''Content-Length'' ''0''" "field_ok ''Accept-Ranges'' ''bytes''"
  "field_ok ''Connection'' ''close''"
  by code_simp+

lemma plain_fields_default:
  assumes "plain_fields (rsp_headers res)"
  shows "plain_fields (rsp_headers (add_default_fields req res))"
proof -
  have "plain_fields (rsp_headers (if b then set_header ''Content-Type'' ''text/plain'' r else r))"
    "plain_fields (rsp_headers (if b then set_header ''Content-Length'' ''0'' r else r))"
    "plain_fields (rsp_headers (if b then set_header ''Accept-Ranges'' ''bytes'' r else r))"
    if "plain_fields (rsp_headers r)" for b r
    using that default_fields_ok by (simp_all add: plain_fields_set_header field_names)
  then show ?thesis using assms unfolding add_default_fields_def Let_def by blast
qed

lemma plain_fields_connection:
  assumes "plain_fields (rsp_headers res)" and "field_ok ''Keep-Alive'' (keep_alive_text s)"
  shows "plain_fields (rsp_headers (connection_field s cc res))"
  using assms default_fields_ok by (simp add: connection_field_def plain_fields_set_header field_names)

text \<open>A response that has a body and no \<open>Content-Length\<close> gets none from the default fields.\<close>

lemma default_fields_no_length:
  assumes "mm_sorted to_lower (rsp_headers res)" and "body res \<noteq> []" and "no_field (rsp_headers res) ''Content-Length''"
  shows "no_field (rsp_headers (add_default_fields req res)) ''Content-Length''"
  using assms field_names
  by (simp add: add_default_fields_def no_field_def Let_def set_header_other set_header_sorted)

lemma connection_field_other:
  assumes "mm_sorted to_lower (rsp_headers res)" and "to_lower key \<notin> {''connection'', ''keep-alive''}"
  shows "mm_values to_lower (rsp_headers (connection_field s cc res)) key = mm_values to_lower (rsp_headers res) key"
    and "mm_sorted to_lower (rsp_headers (connection_field s cc res))"
  using assms field_names by (auto simp: connection_field_def set_header_other set_header_sorted)

subsection \<open>Routing of a server without hooks\<close>

lemma routing_bare:
  assumes "bare_server s"
  shows "routing env s st req res w = route_content s st req res w"
  using assms
  by (simp add: routing_def route_file_def bare_server_def handle_file_request_def)

lemma initial_response_bare: "bare_server s \<Longrightarrow> initial_response s = empty_response\<lparr>rsp_version := ''HTTP/1.1''\<rparr>"
  by (simp add: initial_response_def bare_server_def)

text \<open>A request that reaches a handler of the table, and one that does not.\<close>

lemma route_and_respond_routed:
  assumes "routing env s st req res w = Inr (Gives True, st1, req1, res1, w1)"
  shows "route_and_respond env s cc st req res w
    = write_response_with_content env s cc req1
        (if status res1 = - 1 then res1\<lparr>status := (if ranges req1 = [] then 200 else 206)\<rparr> else res1) st1 w1"
  using assms by (simp add: route_and_respond_def catch_exceptions_def)

lemma route_and_respond_unrouted:
  assumes "routing env s st req res w = Inr (Gives False, st1, req1, res1, w1)"
  shows "route_and_respond env s cc st req res w
    = write_response env s cc req1 (if status res1 = - 1 then res1\<lparr>status := 404\<rparr> else res1) st1 w1"
  using assms by (simp add: route_and_respond_def catch_exceptions_def)

lemma route_and_respond_raised:
  assumes "bare_server s" and "routing env s st req res w = Inr (Raises (Std_exception e), st1, req1, res1, w1)"
  shows "route_and_respond env s cc st req res w
    = write_response env s cc req1
        (set_header ''EXCEPTION_WHAT'' (c_text (what env e)) (res1\<lparr>status := 500\<rparr>)) st1 w1"
  using assms by (simp add: route_and_respond_def catch_exceptions_def bare_server_def)

text \<open>A GET for which there is no handler.\<close>

lemma process_request_not_found:
  assumes bare: "bare_server s" and "get_handlers s = []" and tgt: "plain_target tgt"
    and hs: "list_all (\<lambda>(k, v). field_ok k v) hs" "mm_sorted to_lower hs"
    and none: "no_field hs ''Connection''" "no_field hs ''Range''" "no_field hs ''Expect''"
    and st: "rest st = request_line ''GET'' tgt @ write_headers hs @ aft" "sends st = []"
    and fits: "length (request_line ''GET'' tgt) \<le> CPPHTTPLIB_REQUEST_URI_MAX_LENGTH" "socket_number env < FD_SETSIZE"
  shows "\<exists>st'. process_request env s cc st w = Inr (True, False, st', w)"
proof -
  let ?req = "head_request ''GET'' tgt hs" and ?res = "empty_response\<lparr>rsp_version := ''HTTP/1.1''\<rparr>"
  have h: "req_headers ?req = hs" "req_version ?req = ''HTTP/1.1''" "req_method ?req = ''GET''" "ranges ?req = []"
    by (simp_all add: head_request_def empty_request_def)
  obtain st1 where p: "process_request env s cc st w = process_parsed env s cc st1 ?req (initial_response s) w"
    and s1: "sends st1 = sends st"
    by (rule process_request_head [OF _ tgt hs st(1) fits, of s cc w]) (auto simp: known_methods_def)
  have "routing env s st1 (add_peer env ?req) ?res w = Inr (Gives False, st1, add_peer env ?req, ?res, w)"
    using assms(2) h
    by (simp add: routing_bare [OF bare] route_content_def expect_content_def route_to_handler_def handlers_for_def)
  from route_and_respond_unrouted [OF this]
  have r: "route_and_respond env s cc st1 (add_peer env ?req) ?res w
      = write_response env s cc (add_peer env ?req) (?res\<lparr>status := 404\<rparr>) st1 w"
    by (simp add: empty_response_def)
  have "mm_sorted to_lower (req_headers (add_peer env ?req))" "no_field (req_headers (add_peer env ?req)) ''Connection''"
    using hs(2) none(1) add_peer_sorted [of ?req env] add_peer_values [of ?req "''Connection''" env] h field_names
    by (simp_all add: no_field_def)
  from write_response_core_bare [OF bare _ _ this, of "?res\<lparr>status := 404\<rparr>" st1 False] st(2) s1
  have "\<exists>st'. write_response env s cc (add_peer env ?req) (?res\<lparr>status := 404\<rparr>) st1 w = Inr (True, st', w)"
    by (simp add: write_response_def)
  with r process_parsed_plain [of ?req env s cc st1 ?res w] none h hs(2)
  show ?thesis by (auto simp: p initial_response_bare [OF bare])
qed

text \<open>
  The fields with the address of the peer stand behind those the client sent under the same names,
  so a handler that asks for the first one gets what the client claims.
\<close>

lemma peer_address_can_be_forged:
  assumes "mm_sorted to_lower (req_headers req)" and "mm_values to_lower (req_headers req) ''REMOTE_ADDR'' = v # vs"
  shows "Request_get_header_value (add_peer env req) ''REMOTE_ADDR'' 0 = Inr v"
proof -
  have "to_lower ''REMOTE_ADDR'' \<noteq> to_lower ''REMOTE_PORT''" by code_simp
  then have "\<exists>vs'. mm_values to_lower (req_headers (add_peer env req)) ''REMOTE_ADDR'' = v # vs'"
    using assms by (auto simp: add_peer_def Request_set_header_def mm.values_emplace mm.inv_emplace)
  then show ?thesis using add_peer_sorted [OF assms(1), of env] by (auto simp: Request_get_first)
qed

subsection \<open>Serving files\<close>

lemma handle_file_loop_served:
  assumes "handle_file_loop ms env s hd_only req res w = Inr (Gives True, res', w')" and "file_request_handler s = None"
  shows "\<exists>m \<in> set ms. \<exists>p. file_path m (path req) = Some p \<and> is_file env (c_text p) \<and> res' = serve_file env s m p req res"
  using assms
proof (induction ms)
  case (Cons m ms)
  then show ?case by (auto simp: Let_def split: option.splits if_splits)
qed simp

lemma file_path_below:
  assumes "file_path m pth = Some p"
  obtains t where "p = mnt_dir m @ CHR ''/'' # t" and "path_below (CHR ''/'' # t)"
proof -
  let ?s = "CHR ''/'' # drop (length (mnt_point m)) pth"
  have v: "path_below ?s" and p: "p = mnt_dir m @ (if last ?s = CHR ''/'' then ?s @ ''index.html'' else ?s)"
    using assms by (auto simp: file_path_def Let_def is_valid_path_below split: if_splits)
  have "path_below (?s @ ''index.html'')" if "last ?s = CHR ''/''"
    by (rule path_below_component [OF v _ that]) auto
  with v p that show thesis by (cases "last ?s = CHR ''/''") auto
qed

lemma serve_file_body: "body (serve_file env s m p req res) = file_content env (c_text p)"
proof -
  have "body (foldl (\<lambda>res (k, v). set_header (c_text k) v res) res hs) = body res" for hs res
    by (induction hs arbitrary: res) (auto simp: set_header_parts)
  then show ?thesis by (simp add: serve_file_def Let_def set_header_parts split: option.split)
qed

definition env_example :: env where
  "env_example =
     \<lparr>is_file = (\<lambda>_. False), is_dir = (\<lambda>_. False), file_content = (\<lambda>_. []), random_numbers = id,
      what = (\<lambda>_. ''stol''), peer_addr = ''10.0.0.1'', peer_port = 40000, socket_number = 7\<rparr>"

section \<open>Properties\<close>

text \<open>
  C32. The content of a request that is not supposed to have one is the next request: after a GET,
  HEAD, OPTIONS, CONNECT or TRACE request the server, whatever its handlers, has read nothing
  behind the header fields, even if they announce a content, so on a connection that is kept open
  the content is read as the next request line. The packets the request comes in do not matter.
\<close>

theorem unread_content_is_next_request:
  assumes "m \<in> {''GET'', ''HEAD'', ''OPTIONS'', ''CONNECT'', ''TRACE''}" and "plain_target tgt"
    and "list_all (\<lambda>(k, v). field_ok k v) hs" and "mm_sorted to_lower hs"
    and "rest st = request_line m tgt @ write_headers hs @ content"
    and "length (request_line m tgt) \<le> CPPHTTPLIB_REQUEST_URI_MAX_LENGTH" and "socket_number env < FD_SETSIZE"
    and "process_request env s cc st w = Inr (ret, closed, st', w')"
  shows "rest st' = content"
proof -
  have m: "m \<in> set known_methods" using assms(1) by (auto simp: known_methods_def)
  have e: "\<not> expect_content (head_request m tgt hs)"
    using assms(1) by (auto simp: expect_content_def head_request_def)
  obtain st1 where "process_request env s cc st w
      = process_parsed env s cc st1 (head_request m tgt hs) (initial_response s) w" and "rest st1 = content"
    using process_request_head [OF m assms(2-7)] by metis
  with assms(8) e process_parsed_rest show ?thesis by metis
qed

theorem unread_content_is_next_request_witness:
  "\<exists>st'. process_request env_example (new_server :: unit server) False
       (conn_example [''GET /x HTT'', ''P/1.1'' @ CRLF @ ''Content-Length: 18'' @ CRLF @ CRLF, ''GET /stop HTTP/1.1''])
       () = Inr (True, False, st', ())
     \<and> rest st' = ''GET /stop HTTP/1.1''"
proof -
  let ?hs = "[(''Content-Length'', ''18'')]"
  let ?st = "conn_example [''GET /x HTT'', ''P/1.1'' @ CRLF @ ''Content-Length: 18'' @ CRLF @ CRLF, ''GET /stop HTTP/1.1'']"
  have st: "rest ?st = request_line ''GET'' ''/x'' @ write_headers ?hs @ ''GET /stop HTTP/1.1''" "sends ?st = []"
    by (simp_all add: conn_example_def rest_def request_line_def write_headers_def c_text_def)
  have t: "plain_target ''/x''" by (simp add: plain_target_def is_space_or_tab_def)
  have hs: "list_all (\<lambda>(k, v). field_ok k v) ?hs" by code_simp
  have sorted: "mm_sorted to_lower ?hs" by (simp add: mm_sorted_def)
  have none: "no_field ?hs ''Connection''" "no_field ?hs ''Range''" "no_field ?hs ''Expect''" by code_simp+
  have l: "length (request_line ''GET'' ''/x'') \<le> CPPHTTPLIB_REQUEST_URI_MAX_LENGTH"
    by (simp add: request_line_def CPPHTTPLIB_REQUEST_URI_MAX_LENGTH_def)
  have fd: "socket_number env_example < FD_SETSIZE" by (simp add: env_example_def FD_SETSIZE_def)
  have bare: "bare_server (new_server :: unit server)" "get_handlers (new_server :: unit server) = []"
    by (simp_all add: bare_server_def new_server_def)
  obtain st' where p: "process_request env_example (new_server :: unit server) False ?st () = Inr (True, False, st', ())"
    using process_request_not_found [OF bare t hs sorted none st l fd] by blast
  from unread_content_is_next_request [OF _ t hs sorted st(1) l fd p] p show ?thesis by blast
qed

text \<open>
  Writes that fail go unnoticed: when both writes of a response fail, a server without hooks
  still reports the response as written, so the connection counts as alive, although not a byte
  of the head or of the body has reached the client.
\<close>

theorem failed_writes_go_unnoticed:
  assumes "bare_server s" and "status res \<noteq> - 1" and "mm_sorted to_lower (req_headers req)"
    and "sends st = [- 1, - 1]"
  shows "\<exists>st'. write_response env s cc req res st w = Inr (True, st', w) \<and> sent st' = sent st"
proof -
  have "\<exists>res'. add_connection_field s cc req res = Inr res'"
    by (simp add: add_connection_field_def Request_get_first [OF assms(3)])
  then obtain res' where "add_connection_field s cc req res = Inr res'" by blast
  with assms show ?thesis
    by (simp add: write_response_def write_response_core_def run_error_handler_def bare_server_def
        send_response_def strm_write_def Let_def split: option.splits)
qed

theorem failed_writes_go_unnoticed_witness:
  "\<exists>st'. write_response env_example (new_server :: unit server) False empty_request
       (empty_response\<lparr>status := 200, body := ''Hello World!''\<rparr>)
       \<lparr>packets = [], broken = False, sends = [- 1, - 1], sent = ''x''\<rparr> () = Inr (True, st', ())
     \<and> sent st' = ''x''"
  using failed_writes_go_unnoticed [of "new_server :: unit server" "empty_response\<lparr>status := 200, body := ''Hello World!''\<rparr>"
      empty_request "\<lparr>packets = [], broken = False, sends = [- 1, - 1], sent = ''x''\<rparr>" env_example False "()"]
  by (simp add: bare_server_def new_server_def empty_request_def mm_sorted_def)

text \<open>
  C39. No file outside of a mount point is served: when \<open>handle_file_request\<close> answers a request, the
  content is that of a file whose path, as the operating system sees it, is the directory of a
  mount point followed by a path that never climbs above it, whatever the request's path
  contains, an encoded NUL included. A path that ends in \<open>..\<close> names a directory, not a file.
\<close>

theorem served_file_stays_below:
  assumes "handle_file_request env s hd_only req res w = Inr (Gives True, res', w')"
    and "file_request_handler s = None" and "\<forall>m \<in> set (base_dirs s). NUL \<notin> set (mnt_dir m)"
    and "\<And>p. is_file env p \<Longrightarrow> path_components p = [] \<or> last (path_components p) \<noteq> ''..''"
  shows "\<exists>m \<in> set (base_dirs s). \<exists>sub. is_file env (mnt_dir m @ sub) \<and> body res' = file_content env (mnt_dir m @ sub)
    \<and> hd sub = CHR ''/'' \<and> list_all (\<lambda>cs. 0 \<le> path_depth cs) (prefixes (path_components sub))"
proof -
  obtain m p where m: "m \<in> set (base_dirs s)" and p: "file_path m (path req) = Some p" and f: "is_file env (c_text p)"
    and res': "res' = serve_file env s m p req res"
    using handle_file_loop_served assms(1,2) unfolding handle_file_request_def by metis
  obtain t where t: "p = mnt_dir m @ CHR ''/'' # t" and b: "path_below (CHR ''/'' # t)"
    by (rule file_path_below [OF p])
  have n: "NUL \<notin> set (mnt_dir m)" using m assms(3) by blast
  have c: "c_text p = mnt_dir m @ CHR ''/'' # c_text t"
    unfolding t c_text_def by (subst takeWhile_append2) (use n in auto)
  have "(CHR ''/'' # c_text t) @ dropWhile (\<lambda>c. c \<noteq> NUL) t = CHR ''/'' # t" by (simp add: c_text_def)
  moreover have "path_components (CHR ''/'' # c_text t) = [] \<or> last (path_components (CHR ''/'' # c_text t)) \<noteq> ''..''"
    using assms(4) [OF f] unfolding c path_components_app by auto
  ultimately have "path_below (CHR ''/'' # c_text t)"
    using path_below_prefix [of "CHR ''/'' # c_text t" "dropWhile (\<lambda>c. c \<noteq> NUL) t"] b by simp
  with m f show ?thesis
    unfolding res' serve_file_body c by (intro bexI [of _ m] exI [of _ "CHR ''/'' # c_text t"]) (auto simp: path_below_def)
qed

theorem served_file_stays_below_witness:
  "\<exists>res' w'. handle_file_request (env_example\<lparr>is_file := (\<lambda>p. p = ''./www//b/../a.txt''), file_content := (\<lambda>p. ''text'')\<rparr>)
       (new_server\<lparr>base_dirs := [\<lparr>mnt_point = ''/w'', mnt_dir = ''./www'', mnt_headers = []\<rparr>]\<rparr> :: unit server) False
       (empty_request\<lparr>path := ''/w/b/../a.txt'' @ NUL # ''.png''\<rparr>) empty_response () = Inr (Gives True, res', w')
     \<and> body res' = ''text''"
proof -
  let ?env = "env_example\<lparr>is_file := (\<lambda>p. p = ''./www//b/../a.txt''), file_content := (\<lambda>p. ''text'')\<rparr>"
  let ?s = "new_server\<lparr>base_dirs := [\<lparr>mnt_point = ''/w'', mnt_dir = ''./www'', mnt_headers = []\<rparr>]\<rparr> :: unit server"
  let ?req = "empty_request\<lparr>path := ''/w/b/../a.txt'' @ NUL # ''.png''\<rparr>"
  have p: "file_path \<lparr>mnt_point = ''/w'', mnt_dir = ''./www'', mnt_headers = []\<rparr> (path ?req)
      = Some (''./www//b/../a.txt'' @ NUL # ''.png'')"
    by code_simp
  have "last (path_components ''./www//b/../a.txt'') \<noteq> ''..''" by code_simp
  then have d: "is_file ?env p \<Longrightarrow> path_components p = [] \<or> last (path_components p) \<noteq> ''..''" for p by simp
  obtain res' w' where h: "handle_file_request ?env ?s False ?req empty_response () = Inr (Gives True, res', w')"
    using p by (simp add: handle_file_request_def new_server_def c_text_def)
  have "\<exists>sub. body res' = file_content ?env sub"
    using served_file_stays_below [OF h _ _ d] by (auto simp: new_server_def)
  with h show ?thesis by simp
qed

end
