(* ===== verification/Http_Socket.thy ===== *)
theory Http_Socket
  imports Http_Server
begin

text \<open>
  The socket under a connection (\<open>sgx/src/include/httplib.h\<close>): \<open>handle_EINTR\<close>, \<open>select_read\<close> and
  \<open>select_write\<close>, \<open>SocketStream\<close>, the wait between two requests and \<open>Stream::write_format\<close>.

  The operating system is a list of the events that are still to come in each direction; a call
  looks at the first one. The other theories use a stream that knows nothing of interrupted
  calls, timeouts and \<open>select\<close>; here it is shown that \<open>SocketStream\<close> is such a stream.
\<close>

section \<open>System calls\<close>

text \<open>A call that fails with \<open>EINTR\<close>, or returns anything else.\<close>

datatype 'a syscall = Interrupted | Returns 'a

partial_function (option) handle_EINTR :: "('s \<Rightarrow> 'a syscall \<times> 's) \<Rightarrow> 's \<Rightarrow> ('a \<times> 's) option" where
  "handle_EINTR fn s =
     (case fn s of (r, s') \<Rightarrow>
        (case r of Interrupted \<Rightarrow> handle_EINTR fn s' | Returns a \<Rightarrow> Some (a, s')))"

text \<open>
  What happens on a socket. Incoming: a signal, nothing within the timeout, an error of \<open>select\<close>,
  an error of the connection, bytes; after the last event the peer has closed. Outgoing: likewise,
  or room for so many bytes; after the last event there is room for everything.
\<close>

datatype in_event = In_signal | In_timeout | In_select_error | In_reset | In_bytes string
datatype out_event = Out_signal | Out_timeout | Out_select_error | Out_reset | Out_room nat

record wire =
  incoming :: "in_event list"
  outgoing :: "out_event list"
  on_wire :: string

definition select_in :: "wire \<Rightarrow> int syscall \<times> wire" where
  "select_in w =
     (case incoming w of
        In_signal # es \<Rightarrow> (Interrupted, w\<lparr>incoming := es\<rparr>)
      | In_timeout # es \<Rightarrow> (Returns 0, w\<lparr>incoming := es\<rparr>)
      | In_select_error # es \<Rightarrow> (Returns (- 1), w\<lparr>incoming := es\<rparr>)
      | _ \<Rightarrow> (Returns 1, w))"

text \<open>\<open>recv\<close>: \<open>None\<close> is \<open>-1\<close>. The socket has a timeout of its own (\<open>SO_RCVTIMEO\<close>).\<close>

definition recv_in :: "nat \<Rightarrow> wire \<Rightarrow> string option syscall \<times> wire" where
  "recv_in sz w =
     (case incoming w of
        [] \<Rightarrow> (Returns (Some []), w)
      | In_signal # es \<Rightarrow> (Interrupted, w\<lparr>incoming := es\<rparr>)
      | In_bytes s # es \<Rightarrow>
          (Returns (Some (take sz s)),
           w\<lparr>incoming := (if length s \<le> sz then es else In_bytes (drop sz s) # es)\<rparr>)
      | _ # es \<Rightarrow> (Returns None, w\<lparr>incoming := es\<rparr>))"

definition select_out :: "wire \<Rightarrow> int syscall \<times> wire" where
  "select_out w =
     (case outgoing w of
        Out_signal # es \<Rightarrow> (Interrupted, w\<lparr>outgoing := es\<rparr>)
      | Out_timeout # es \<Rightarrow> (Returns 0, w\<lparr>outgoing := es\<rparr>)
      | Out_select_error # es \<Rightarrow> (Returns (- 1), w\<lparr>outgoing := es\<rparr>)
      | _ \<Rightarrow> (Returns 1, w))"

definition send_out :: "string \<Rightarrow> wire \<Rightarrow> int syscall \<times> wire" where
  "send_out s w =
     (case outgoing w of
        [] \<Rightarrow> (Returns (int (length s)), w\<lparr>on_wire := on_wire w @ s\<rparr>)
      | Out_signal # es \<Rightarrow> (Interrupted, w\<lparr>outgoing := es\<rparr>)
      | Out_room n # es \<Rightarrow>
          (Returns (int (min n (length s))), w\<lparr>outgoing := es, on_wire := on_wire w @ take n s\<rparr>)
      | _ # es \<Rightarrow> (Returns (- 1), w\<lparr>outgoing := es\<rparr>))"

section \<open>The stream over a socket\<close>

definition select_read :: "nat \<Rightarrow> wire \<Rightarrow> (int \<times> wire) option" where
  "select_read sock w = (if FD_SETSIZE \<le> sock then Some (1, w) else handle_EINTR select_in w)"

definition select_write :: "nat \<Rightarrow> wire \<Rightarrow> (int \<times> wire) option" where
  "select_write sock w = (if FD_SETSIZE \<le> sock then Some (1, w) else handle_EINTR select_out w)"

definition SocketStream_read :: "nat \<Rightarrow> nat \<Rightarrow> wire \<Rightarrow> (read_result \<times> wire) option" where
  "SocketStream_read sock sz w =
     Option.bind (select_read sock w) (\<lambda>(val, w).
       if \<not> 0 < val then Some (Read_failed, w)
       else
         map_option (\<lambda>(r, w). (case r of None \<Rightarrow> Read_failed | Some [] \<Rightarrow> End_of_stream | Some s \<Rightarrow> Got s, w))
           (handle_EINTR (recv_in sz) w))"

definition SocketStream_write :: "nat \<Rightarrow> string \<Rightarrow> wire \<Rightarrow> (int \<times> wire) option" where
  "SocketStream_write sock s w =
     Option.bind (select_write sock w) (\<lambda>(val, w).
       if \<not> 0 < val then Some (- 1, w) else handle_EINTR (send_out s) w)"

section \<open>Waiting for the next request\<close>

text \<open>
  \<open>keep_alive\<close>: \<open>poll\<close> is \<open>select_read(sock, 0, 10000)\<close>, \<open>clock\<close> the steady clock in microseconds and
  \<open>pause\<close> the millisecond of sleep.
\<close>

partial_function (option) keep_alive_loop ::
  "('s \<Rightarrow> int \<times> 's) \<Rightarrow> ('s \<Rightarrow> int) \<Rightarrow> ('s \<Rightarrow> 's) \<Rightarrow> int \<Rightarrow> int \<Rightarrow> 's \<Rightarrow> (bool \<times> 's) option" where
  "keep_alive_loop poll clock pause timeout_sec start s =
     (case poll s of (val, s) \<Rightarrow>
        if val < 0 then Some (False, s)
        else if val = 0 then
          (if timeout_sec * 1000 < (clock s - start) div 1000 then Some (False, s)
           else keep_alive_loop poll clock pause timeout_sec start (pause s))
        else Some (True, s))"

definition keep_alive ::
  "('s \<Rightarrow> int \<times> 's) \<Rightarrow> ('s \<Rightarrow> int) \<Rightarrow> ('s \<Rightarrow> 's) \<Rightarrow> int \<Rightarrow> 's \<Rightarrow> (bool \<times> 's) option" where
  "keep_alive poll clock pause timeout_sec s = keep_alive_loop poll clock pause timeout_sec (clock s) s"

section \<open>Formatted writing\<close>

text \<open>
  \<open>snprintf(buf, cap, ...)\<close> where the formatted text is \<open>txt\<close>; the size the growable buffer ends
  with; \<open>write_format\<close>.
\<close>

definition snprintf :: "string \<Rightarrow> nat \<Rightarrow> string \<Rightarrow> string" where
  "snprintf buf cap txt = take (cap - 1) txt @ NUL # drop (length (take (cap - 1) txt) + 1) buf"

function grown_size :: "nat \<Rightarrow> nat \<Rightarrow> nat" where
  "grown_size n sz = (if 0 < sz \<and> sz - 1 \<le> n then grown_size n (sz * 2) else sz)"
  by pat_completeness auto
termination by (relation "measure (\<lambda>(n, sz). n + 2 - sz)") auto

declare grown_size.simps [simp del]

definition write_format :: "string \<Rightarrow> conn \<Rightarrow> int \<times> conn" where
  "write_format txt st =
     (let sn = (if length txt < 2 ^ 31 then int (length txt) else - 1) in
      if sn \<le> 0 then (sn, st)
      else
        (let n = nat sn in
         if 2048 - 1 \<le> n then
           (let sz = grown_size n 2048
            in strm_write (take n (snprintf (replicate sz NUL) (sz - 1) txt)) st)
         else strm_write (take n (snprintf (replicate 2048 NUL) (2048 - 1) txt)) st))"

declare handle_EINTR.simps [code] keep_alive_loop.simps [code]

section \<open>Facts\<close>

lemma grown_size_fits: "1 < sz \<Longrightarrow> n < grown_size n sz - 1"
proof (induction n sz rule: grown_size.induct)
  case (1 n sz)
  then show ?case by (subst grown_size.simps) auto
qed

lemma snprintf_fits: "length txt < cap \<Longrightarrow> take (length txt) (snprintf buf cap txt) = txt"
  by (simp add: snprintf_def)


lemma write_format_eq:
  "write_format txt st =
     (if txt = [] then (0, st) else if 2 ^ 31 \<le> length txt then (- 1, st) else strm_write txt st)"
  using grown_size_fits [of 2048 "length txt"]
  by (auto simp: write_format_def Let_def snprintf_fits less_diff_conv)

subsection \<open>Interrupted calls\<close>

lemma handle_EINTR_returns: "fn s = (Returns a, s') \<Longrightarrow> handle_EINTR fn s = Some (a, s')"
  by (subst handle_EINTR.simps) simp

lemma handle_EINTR_again: "fn s = (Interrupted, s') \<Longrightarrow> handle_EINTR fn s = handle_EINTR fn s'"
  by (subst handle_EINTR.simps) simp

fun in_packets :: "in_event list \<Rightarrow> string list" where
  "in_packets [] = []"
| "in_packets (In_signal # es) = in_packets es"
| "in_packets (In_bytes s # es) = s # in_packets es"
| "in_packets (e # es) = []"

fun in_fails :: "in_event list \<Rightarrow> bool" where
  "in_fails [] = False"
| "in_fails (In_signal # es) = in_fails es"
| "in_fails (In_bytes s # es) = in_fails es"
| "in_fails (e # es) = True"

fun out_sizes :: "out_event list \<Rightarrow> int list" where
  "out_sizes [] = []"
| "out_sizes (Out_signal # es) = out_sizes es"
| "out_sizes (Out_room n # es) = int n # out_sizes es"
| "out_sizes (e # es) = - 1 # out_sizes es"

text \<open>The stream that a socket is, up to packets of length zero.\<close>

definition stream_of :: "wire \<Rightarrow> conn" where
  "stream_of w =
     \<lparr>packets = in_packets (incoming w), broken = in_fails (incoming w), sends = out_sizes (outgoing w),
      sent = on_wire w\<rparr>"

definition wire_ok :: "wire \<Rightarrow> bool" where
  "wire_ok w \<longleftrightarrow> In_bytes [] \<notin> set (incoming w)"

definition norm_conn :: "conn \<Rightarrow> conn" where
  "norm_conn c = c\<lparr>packets := filter (\<lambda>p. p \<noteq> []) (packets c)\<rparr>"

lemma strm_read_norm:
  "fst (strm_read n (norm_conn c)) = fst (strm_read n c)
   \<and> norm_conn (snd (strm_read n (norm_conn c))) = norm_conn (snd (strm_read n c))"
proof -
  let ?full = "filter (\<lambda>p. p \<noteq> [])" and ?drop = "dropWhile (\<lambda>p :: string. p = [])"
  have d: "?drop (?full ps) = ?full ps" for ps
    by (induction ps) auto
  show ?thesis
  proof (cases "?drop (packets c)")
    case Nil
    then have "?full (packets c) = []" by (simp add: dropWhile_eq_Nil_conv filter_empty_conv)
    then show ?thesis by (simp add: strm_read_def norm_conn_def Nil)
  next
    case (Cons q qs)
    have "packets c = takeWhile (\<lambda>p. p = []) (packets c) @ q # qs"
      unfolding Cons [symmetric] by (rule takeWhile_dropWhile_id [symmetric])
    moreover have "?full (takeWhile (\<lambda>p. p = []) (packets c)) = []"
      by (auto simp: filter_empty_conv dest: set_takeWhileD)
    moreover have "q \<noteq> []" using Cons hd_dropWhile [of "\<lambda>p. p = []" "packets c"] by auto
    ultimately have f: "?full (packets c) = q # ?full qs" by (metis (mono_tags, lifting) append_Nil filter.simps(2) filter_append)
    then have "?drop (?full (packets c)) = q # ?full qs" unfolding d .
    then show ?thesis using Cons by (simp add: strm_read_def norm_conn_def)
  qed
qed

lemma strm_write_norm:
  "fst (strm_write s (norm_conn c)) = fst (strm_write s c)
   \<and> norm_conn (snd (strm_write s (norm_conn c))) = norm_conn (snd (strm_write s c))"
  by (simp_all add: strm_write_def norm_conn_def Let_def split: list.split)

lemma norm_conn_read:
  assumes "norm_conn c = norm_conn d"
  shows "fst (strm_read n c) = fst (strm_read n d)" "norm_conn (snd (strm_read n c)) = norm_conn (snd (strm_read n d))"
  by (metis assms strm_read_norm)+

lemma norm_conn_write:
  assumes "norm_conn c = norm_conn d"
  shows "fst (strm_write s c) = fst (strm_write s d)" "norm_conn (snd (strm_write s c)) = norm_conn (snd (strm_write s d))"
  by (metis assms strm_write_norm)+

text \<open>After \<open>select\<close> has returned, signals are out of the way.\<close>

lemma signal_skipped:
  assumes "incoming w = In_signal # es"
  shows "stream_of (w\<lparr>incoming := es\<rparr>) = stream_of w" "wire_ok (w\<lparr>incoming := es\<rparr>) = wire_ok w"
  using assms by (simp_all add: stream_of_def wire_ok_def)

lemma select_in_returns:
  "\<exists>v w'. handle_EINTR select_in w = Some (v, w') \<and> (wire_ok w \<longrightarrow> wire_ok w')
     \<and> outgoing w' = outgoing w \<and> on_wire w' = on_wire w
     \<and> (if 0 < v then stream_of w' = stream_of w
        else packets (stream_of w) = [] \<and> broken (stream_of w))"
proof (induction "incoming w" arbitrary: w)
  case Nil
  then have "select_in w = (Returns 1, w)" by (simp add: select_in_def split: list.split)
  then show ?case by (intro exI [of _ 1] exI [of _ w]) (simp add: handle_EINTR_returns)
next
  case (Cons e es)
  let ?w = "w\<lparr>incoming := es\<rparr>"
  show ?case
  proof (cases e)
    case In_signal
    then have "handle_EINTR select_in w = handle_EINTR select_in ?w"
      using Cons(2) by (intro handle_EINTR_again) (simp add: select_in_def Cons(2) [symmetric])
    then show ?thesis
      using Cons(1) [of ?w] signal_skipped [of w es] In_signal Cons(2) by (simp cong: if_cong split del: if_split)
  next
    case In_timeout
    then have "select_in w = (Returns 0, ?w)" by (simp add: select_in_def Cons(2) [symmetric])
    then show ?thesis
      using In_timeout by (intro exI [of _ 0] exI [of _ ?w]) (simp add: handle_EINTR_returns wire_ok_def stream_of_def Cons(2) [symmetric])
  next
    case In_select_error
    then have "select_in w = (Returns (- 1), ?w)" by (simp add: select_in_def Cons(2) [symmetric])
    then show ?thesis
      using In_select_error
      by (intro exI [of _ "- 1"] exI [of _ ?w]) (simp add: handle_EINTR_returns wire_ok_def stream_of_def Cons(2) [symmetric])
  next
    case In_reset
    then have "select_in w = (Returns 1, w)" by (simp add: select_in_def Cons(2) [symmetric])
    then show ?thesis by (intro exI [of _ 1] exI [of _ w]) (simp add: handle_EINTR_returns)
  next
    case (In_bytes s)
    then have "select_in w = (Returns 1, w)" by (simp add: select_in_def Cons(2) [symmetric])
    then show ?thesis by (intro exI [of _ 1] exI [of _ w]) (simp add: handle_EINTR_returns)
  qed
qed

lemma recv_in_returns:
  assumes "wire_ok w" and "0 < n"
  shows "\<exists>r w'. handle_EINTR (recv_in n) w = Some (r, w') \<and> wire_ok w'
     \<and> outgoing w' = outgoing w \<and> on_wire w' = on_wire w
     \<and> fst (strm_read n (stream_of w)) = (case r of None \<Rightarrow> Read_failed | Some [] \<Rightarrow> End_of_stream | Some s \<Rightarrow> Got s)
     \<and> (r \<noteq> None \<longrightarrow> norm_conn (snd (strm_read n (stream_of w))) = norm_conn (stream_of w'))"
  using assms(1)
proof (induction "incoming w" arbitrary: w)
  case Nil
  then have "recv_in n w = (Returns (Some []), w)" by (simp add: recv_in_def split: list.split)
  then show ?case using Nil
    by (intro exI [of _ "Some []"] exI [of _ w]) (simp add: handle_EINTR_returns strm_read_def stream_of_def norm_conn_def Nil(1) [symmetric])
next
  case (Cons e es)
  let ?w = "w\<lparr>incoming := es\<rparr>"
  have ok: "wire_ok ?w" using Cons(3) by (simp add: wire_ok_def Cons(2) [symmetric])
  show ?case
  proof (cases e)
    case In_signal
    then have "handle_EINTR (recv_in n) w = handle_EINTR (recv_in n) ?w"
      by (intro handle_EINTR_again) (simp add: recv_in_def Cons(2) [symmetric])
    then show ?thesis
      using Cons(1) [of ?w] signal_skipped [of w es] ok In_signal Cons(2) by simp
  next
    case (In_bytes s)
    then have s: "s \<noteq> []" using Cons(3) by (auto simp: wire_ok_def Cons(2) [symmetric])
    then have t: "take n s \<noteq> []" using assms(2) by simp
    let ?v = "w\<lparr>incoming := (if length s \<le> n then es else In_bytes (drop n s) # es)\<rparr>"
    have "recv_in n w = (Returns (Some (take n s)), ?v)" using In_bytes by (simp add: recv_in_def Cons(2) [symmetric])
    moreover have "wire_ok ?v" using ok by (simp add: wire_ok_def)
    moreover have "fst (strm_read n (stream_of w)) = Got (take n s)"
      "norm_conn (snd (strm_read n (stream_of w))) = norm_conn (stream_of ?v)"
      using In_bytes s by (simp_all add: strm_read_def stream_of_def norm_conn_def Cons(2) [symmetric])
    ultimately show ?thesis
      using t by (intro exI [of _ "Some (take n s)"] exI [of _ ?v]) (simp add: handle_EINTR_returns split: list.split)
  next
    case In_timeout
    then have "recv_in n w = (Returns None, ?w)" by (simp add: recv_in_def Cons(2) [symmetric])
    then show ?thesis using In_timeout ok
      by (intro exI [of _ None] exI [of _ ?w]) (simp add: handle_EINTR_returns strm_read_def stream_of_def Cons(2) [symmetric])
  next
    case In_select_error
    then have "recv_in n w = (Returns None, ?w)" by (simp add: recv_in_def Cons(2) [symmetric])
    then show ?thesis using In_select_error ok
      by (intro exI [of _ None] exI [of _ ?w]) (simp add: handle_EINTR_returns strm_read_def stream_of_def Cons(2) [symmetric])
  next
    case In_reset
    then have "recv_in n w = (Returns None, ?w)" by (simp add: recv_in_def Cons(2) [symmetric])
    then show ?thesis using In_reset ok
      by (intro exI [of _ None] exI [of _ ?w]) (simp add: handle_EINTR_returns strm_read_def stream_of_def Cons(2) [symmetric])
  qed
qed


lemma select_out_returns:
  "\<exists>v w'. handle_EINTR select_out w = Some (v, w') \<and> incoming w' = incoming w \<and> on_wire w' = on_wire w
     \<and> (if 0 < v then stream_of w' = stream_of w
        else \<exists>ls. sends (stream_of w) = - 1 # ls \<and> stream_of w' = (stream_of w)\<lparr>sends := ls\<rparr>)"
proof (induction "outgoing w" arbitrary: w)
  case Nil
  then have "select_out w = (Returns 1, w)" by (simp add: select_out_def split: list.split)
  then show ?case by (intro exI [of _ 1] exI [of _ w]) (simp add: handle_EINTR_returns)
next
  case (Cons e es)
  let ?w = "w\<lparr>outgoing := es\<rparr>"
  show ?case
  proof (cases e)
    case Out_signal
    then have "handle_EINTR select_out w = handle_EINTR select_out ?w" "stream_of ?w = stream_of w"
      using Cons(2) [symmetric] by (auto intro: handle_EINTR_again simp: select_out_def stream_of_def)
    then show ?thesis using Cons(1) [of ?w] by (simp cong: if_cong split del: if_split)
  next
    case Out_timeout
    then have "select_out w = (Returns 0, ?w)" by (simp add: select_out_def Cons(2) [symmetric])
    then show ?thesis
      using Out_timeout
      by (intro exI [of _ 0] exI [of _ ?w]) (simp add: handle_EINTR_returns stream_of_def Cons(2) [symmetric])
  next
    case Out_select_error
    then have "select_out w = (Returns (- 1), ?w)" by (simp add: select_out_def Cons(2) [symmetric])
    then show ?thesis
      using Out_select_error
      by (intro exI [of _ "- 1"] exI [of _ ?w]) (simp add: handle_EINTR_returns stream_of_def Cons(2) [symmetric])
  next
    case Out_reset
    then have "select_out w = (Returns 1, w)" by (simp add: select_out_def Cons(2) [symmetric])
    then show ?thesis by (intro exI [of _ 1] exI [of _ w]) (simp add: handle_EINTR_returns)
  next
    case (Out_room n)
    then have "select_out w = (Returns 1, w)" by (simp add: select_out_def Cons(2) [symmetric])
    then show ?thesis by (intro exI [of _ 1] exI [of _ w]) (simp add: handle_EINTR_returns)
  qed
qed

lemma send_out_returns:
  "\<exists>w'. handle_EINTR (send_out s) w = Some (fst (strm_write s (stream_of w)), w')
     \<and> incoming w' = incoming w \<and> stream_of w' = snd (strm_write s (stream_of w))"
proof (induction "outgoing w" arbitrary: w)
  case Nil
  let ?w = "w\<lparr>on_wire := on_wire w @ s\<rparr>"
  have "send_out s w = (Returns (int (length s)), ?w)" using Nil by (simp add: send_out_def split: list.split)
  then show ?case using Nil
    by (intro exI [of _ ?w]) (simp add: handle_EINTR_returns strm_write_def stream_of_def Nil(1) [symmetric])
next
  case (Cons e es)
  let ?w = "w\<lparr>outgoing := es\<rparr>"
  show ?case
  proof (cases e)
    case Out_signal
    then have "handle_EINTR (send_out s) w = handle_EINTR (send_out s) ?w" "stream_of ?w = stream_of w"
      using Cons(2) [symmetric] by (auto intro: handle_EINTR_again simp: send_out_def stream_of_def)
    then show ?thesis using Cons(1) [of ?w] by simp
  next
    case (Out_room n)
    let ?v = "w\<lparr>outgoing := es, on_wire := on_wire w @ take n s\<rparr>"
    have "send_out s w = (Returns (int (min n (length s))), ?v)"
      using Out_room by (simp add: send_out_def Cons(2) [symmetric])
    moreover have "strm_write s (stream_of w) = (int (min n (length s)), stream_of ?v)"
      using Out_room by (simp add: strm_write_def stream_of_def Cons(2) [symmetric] min_def)
    ultimately show ?thesis by (intro exI [of _ ?v]) (simp add: handle_EINTR_returns)
  next
    case Out_timeout
    then have "send_out s w = (Returns (- 1), ?w)" "strm_write s (stream_of w) = (- 1, stream_of ?w)"
      by (simp_all add: send_out_def strm_write_def stream_of_def Cons(2) [symmetric])
    then show ?thesis by (intro exI [of _ ?w]) (simp add: handle_EINTR_returns)
  next
    case Out_select_error
    then have "send_out s w = (Returns (- 1), ?w)" "strm_write s (stream_of w) = (- 1, stream_of ?w)"
      by (simp_all add: send_out_def strm_write_def stream_of_def Cons(2) [symmetric])
    then show ?thesis by (intro exI [of _ ?w]) (simp add: handle_EINTR_returns)
  next
    case Out_reset
    then have "send_out s w = (Returns (- 1), ?w)" "strm_write s (stream_of w) = (- 1, stream_of ?w)"
      by (simp_all add: send_out_def strm_write_def stream_of_def Cons(2) [symmetric])
    then show ?thesis by (intro exI [of _ ?w]) (simp add: handle_EINTR_returns)
  qed
qed

subsection \<open>The socket is a stream\<close>

lemma SocketStream_write_refines:
  "\<exists>w'. SocketStream_write sock s w = Some (fst (strm_write s (stream_of w)), w')
     \<and> incoming w' = incoming w \<and> stream_of w' = snd (strm_write s (stream_of w))"
proof -
  obtain v w1 where sel: "select_write sock w = Some (v, w1)" "incoming w1 = incoming w"
    and v: "if 0 < v then stream_of w1 = stream_of w
        else \<exists>ls. sends (stream_of w) = - 1 # ls \<and> stream_of w1 = (stream_of w)\<lparr>sends := ls\<rparr>"
  proof (cases "FD_SETSIZE \<le> sock")
    case True
    then show thesis by (intro that [of 1 w]) (simp_all add: select_write_def)
  next
    case False
    then show thesis using select_out_returns [of w] that by (auto simp: select_write_def simp del: split_paired_Ex)
  qed
  show ?thesis
  proof (cases "0 < v")
    case True
    then have "stream_of w1 = stream_of w" using v by simp
    then show ?thesis using send_out_returns [of s w1] sel True by (simp add: SocketStream_write_def)
  next
    case False
    then obtain ls where "sends (stream_of w) = - 1 # ls" "stream_of w1 = (stream_of w)\<lparr>sends := ls\<rparr>"
      using v by auto
    then show ?thesis using sel False by (simp add: SocketStream_write_def strm_write_def)
  qed
qed

lemma SocketStream_read_refines:
  assumes "wire_ok w" and "0 < n"
  shows "\<exists>w'. SocketStream_read sock n w = Some (fst (strm_read n (stream_of w)), w')
     \<and> wire_ok w'
     \<and> (fst (strm_read n (stream_of w)) \<noteq> Read_failed
          \<longrightarrow> norm_conn (snd (strm_read n (stream_of w))) = norm_conn (stream_of w'))
     \<and> sends (stream_of w') = sends (stream_of w) \<and> sent (stream_of w') = sent (stream_of w)"
proof -
  obtain v w1 where sel: "select_read sock w = Some (v, w1)" and ok: "wire_ok w1"
    and out: "outgoing w1 = outgoing w" "on_wire w1 = on_wire w"
    and v: "if 0 < v then stream_of w1 = stream_of w else packets (stream_of w) = [] \<and> broken (stream_of w)"
  proof (cases "FD_SETSIZE \<le> sock")
    case True
    then show thesis using assms(1) by (intro that [of 1 w]) (simp_all add: select_read_def)
  next
    case False
    then show thesis using select_in_returns [of w] that assms(1) by (auto simp: select_read_def split del: if_split)
  qed
  show ?thesis
  proof (cases "0 < v")
    case True
    then have e: "stream_of w1 = stream_of w" using v by simp
    from recv_in_returns [OF ok assms(2)] obtain r w' where r: "handle_EINTR (recv_in n) w1 = Some (r, w')" "wire_ok w'"
      "outgoing w' = outgoing w1" "on_wire w' = on_wire w1"
      "fst (strm_read n (stream_of w)) = (case r of None \<Rightarrow> Read_failed | Some [] \<Rightarrow> End_of_stream | Some s \<Rightarrow> Got s)"
      "r \<noteq> None \<longrightarrow> norm_conn (snd (strm_read n (stream_of w))) = norm_conn (stream_of w')"
      unfolding e by blast
    then have "SocketStream_read sock n w = Some (fst (strm_read n (stream_of w)), w')"
      using sel True by (simp add: SocketStream_read_def)
    then show ?thesis using r out by (auto simp: stream_of_def)
  next
    case False
    then have "fst (strm_read n (stream_of w)) = Read_failed" using v by (simp add: strm_read_def)
    then show ?thesis using sel False ok out by (simp add: SocketStream_read_def stream_of_def)
  qed
qed

text \<open>
  A program over a stream: it reads and writes, and what it does next may depend on every result.
  After a failed read it may still write, but does not read again.
\<close>

datatype 'a io = Return 'a | Read_then nat "read_result \<Rightarrow> 'a io" | Write_then string "int \<Rightarrow> 'a io"

primrec run_stream :: "'a io \<Rightarrow> conn \<Rightarrow> 'a \<times> conn" where
  "run_stream (Return a) c = (a, c)"
| "run_stream (Read_then n k) c = (case strm_read n c of (r, c') \<Rightarrow> run_stream (k r) c')"
| "run_stream (Write_then s k) c = (case strm_write s c of (r, c') \<Rightarrow> run_stream (k r) c')"

primrec run_socket :: "nat \<Rightarrow> 'a io \<Rightarrow> wire \<Rightarrow> ('a \<times> wire) option" where
  "run_socket sock (Return a) w = Some (a, w)"
| "run_socket sock (Read_then n k) w =
     Option.bind (SocketStream_read sock n w) (\<lambda>(r, w'). run_socket sock (k r) w')"
| "run_socket sock (Write_then s k) w =
     Option.bind (SocketStream_write sock s w) (\<lambda>(r, w'). run_socket sock (k r) w')"

primrec only_writes :: "'a io \<Rightarrow> bool" where
  "only_writes (Return a) = True"
| "only_writes (Read_then n k) = False"
| "only_writes (Write_then s k) = (\<forall>r. only_writes (k r))"

primrec stops_after_failure :: "'a io \<Rightarrow> bool" where
  "stops_after_failure (Return a) = True"
| "stops_after_failure (Read_then n k) = (0 < n \<and> only_writes (k Read_failed) \<and> (\<forall>r. stops_after_failure (k r)))"
| "stops_after_failure (Write_then s k) = (\<forall>r. stops_after_failure (k r))"

text \<open>A write sees and changes only the outgoing side.\<close>

lemma strm_write_out:
  assumes "sends c = sends d" and "sent c = sent d"
  shows "fst (strm_write s c) = fst (strm_write s d)"
    "sends (snd (strm_write s c)) = sends (snd (strm_write s d))"
    "sent (snd (strm_write s c)) = sent (snd (strm_write s d))"
  using assms by (simp_all add: strm_write_def Let_def split: list.split)

lemma run_only_writes:
  assumes "only_writes p" and "sends c = sends (stream_of w)" and "sent c = sent (stream_of w)"
  shows "\<exists>w'. run_socket sock p w = Some (fst (run_stream p c), w') \<and> on_wire w' = sent (snd (run_stream p c))"
  using assms
proof (induction p arbitrary: c w)
  case (Write_then s k)
  obtain w1 where w1: "SocketStream_write sock s w = Some (fst (strm_write s (stream_of w)), w1)"
    "stream_of w1 = snd (strm_write s (stream_of w))"
    using SocketStream_write_refines [of sock s w] by auto
  note out = strm_write_out [OF Write_then.prems(2,3), of s]
  show ?case
    using Write_then.IH [of _ "snd (strm_write s c)" w1] Write_then.prems(1) out w1
    by (simp add: split_beta)
qed (simp_all add: stream_of_def)

lemma norm_conn_out: "norm_conn c = norm_conn d \<Longrightarrow> sends c = sends d \<and> sent c = sent d"
  by (cases c; cases d) (simp add: norm_conn_def)

lemma run_refines:
  assumes "stops_after_failure p" and "wire_ok w" and "norm_conn c = norm_conn (stream_of w)"
  shows "\<exists>w'. run_socket sock p w = Some (fst (run_stream p c), w') \<and> on_wire w' = sent (snd (run_stream p c))"
  using assms
proof (induction p arbitrary: c w)
  case (Return a)
  then show ?case by (auto dest: norm_conn_out simp: stream_of_def)
next
  case (Write_then s k)
  obtain w1 where w1: "SocketStream_write sock s w = Some (fst (strm_write s (stream_of w)), w1)"
    "incoming w1 = incoming w" "stream_of w1 = snd (strm_write s (stream_of w))"
    using SocketStream_write_refines [of sock s w] by auto
  have "wire_ok w1" using w1(2) Write_then.prems(2) by (simp add: wire_ok_def)
  then show ?case
    using Write_then.IH [of _ w1 "snd (strm_write s c)"] Write_then.prems(1) w1
      norm_conn_write [OF Write_then.prems(3), of s]
    by (simp add: split_beta)
next
  case (Read_then n k)
  have n: "0 < n" "only_writes (k Read_failed)" "\<And>r. stops_after_failure (k r)" using Read_then.prems(1) by simp_all
  let ?r = "fst (strm_read n c)"
  have same: "?r = fst (strm_read n (stream_of w))"
    "norm_conn (snd (strm_read n c)) = norm_conn (snd (strm_read n (stream_of w)))"
    using norm_conn_read [OF Read_then.prems(3), of n] by simp_all
  obtain w1 where w1: "SocketStream_read sock n w = Some (?r, w1)" "wire_ok w1"
    "?r \<noteq> Read_failed \<longrightarrow> norm_conn (snd (strm_read n c)) = norm_conn (stream_of w1)"
    "sends (stream_of w1) = sends (stream_of w)" "sent (stream_of w1) = sent (stream_of w)"
    using SocketStream_read_refines [OF Read_then.prems(2) n(1), of sock] same by auto
  have "\<exists>w'. run_socket sock (k ?r) w1 = Some (fst (run_stream (k ?r) (snd (strm_read n c))), w')
      \<and> on_wire w' = sent (snd (run_stream (k ?r) (snd (strm_read n c))))"
  proof (cases "?r = Read_failed")
    case True
    have "sends (snd (strm_read n c)) = sends c \<and> sent (snd (strm_read n c)) = sent c"
      by (simp add: strm_read_def split: list.split)
    then show ?thesis
      using norm_conn_out [OF Read_then.prems(3)] w1(4,5) n(2) True by (intro run_only_writes) simp_all
  next
    case False
    then show ?thesis using Read_then.IH [OF rangeI n(3) w1(2)] w1(3) by blast
  qed
  with w1(1) show ?case by (simp add: split_beta)
qed

section \<open>Properties\<close>

text \<open>
  C17. A socket is a stream for programs that stop reading at the first failure: a program of reads of at
  least one byte and of writes that, once a read has failed, only writes, comes through \<open>SocketStream\<close>
  to the same result and puts the same bytes on the wire as on the stream of the other theories,
  whichever finitely many signals interrupt its calls, for socket numbers below and above \<open>FD_SETSIZE\<close>; in
  particular its calls return. No packet on the wire is empty. The stream has the packets that come before
  the first timeout or error and fails from there on, so a program that reads again after a timeout, as
  the server does when it answers 400 and keeps the connection, may find bytes on the socket where the
  stream stays broken.
\<close>

theorem socket_refines_stream:
  assumes "stops_after_failure p" and "wire_ok w"
  shows "\<exists>w'. run_socket sock p w = Some (fst (run_stream p (stream_of w)), w')
    \<and> on_wire w' = sent (snd (run_stream p (stream_of w)))"
  by (rule run_refines [OF assms refl])

definition echo_example :: "read_result io" where
  "echo_example =
     Read_then 4 (\<lambda>r. case r of
         Got s \<Rightarrow> Write_then s (\<lambda>_. Read_then 4 (\<lambda>r. Write_then ''!'' (\<lambda>_. Return r)))
       | _ \<Rightarrow> Return r)"

theorem socket_refines_stream_witness:
  "\<exists>w'. run_socket 7 echo_example
      \<lparr>incoming = [In_signal, In_bytes ''ping'', In_signal, In_reset, In_bytes ''x''],
       outgoing = [Out_room 2, Out_signal], on_wire = []\<rparr> = Some (Read_failed, w')
    \<and> on_wire w' = ''pi!''"
proof -
  let ?w = "\<lparr>incoming = [In_signal, In_bytes ''ping'', In_signal, In_reset, In_bytes ''x''],
       outgoing = [Out_room 2, Out_signal], on_wire = []\<rparr>"
  have "wire_ok ?w" "stops_after_failure echo_example"
    by (simp_all add: wire_ok_def echo_example_def split: read_result.split)
  moreover have "fst (run_stream echo_example (stream_of ?w)) = Read_failed"
    "sent (snd (run_stream echo_example (stream_of ?w))) = ''pi!''"
    by (simp_all add: echo_example_def stream_of_def strm_read_def strm_write_def Let_def)
  ultimately show ?thesis using socket_refines_stream [of echo_example ?w 7] by simp
qed

text \<open>
  C27. The wait for the next request ends: when every \<open>select\<close> that finds nothing takes its ten
  milliseconds and the clock does not go back, \<open>keep_alive\<close> returns; \<open>true\<close> only when \<open>select\<close> said
  that the socket is ready, \<open>false\<close> only after an error or when the timeout is over.
\<close>

theorem keep_alive_returns:
  assumes "\<And>s. fst (poll s) = 0 \<Longrightarrow> clock s + 10000 \<le> clock (snd (poll s))"
    and "\<And>s. clock s \<le> clock (pause s)"
  shows "\<exists>b s'. keep_alive poll clock pause timeout_sec s = Some (b, s')
    \<and> (if b then \<exists>s0. 0 < fst (poll s0) \<and> s' = snd (poll s0)
       else (\<exists>s0. fst (poll s0) < 0 \<and> s' = snd (poll s0)) \<or> timeout_sec * 1000 < (clock s' - clock s) div 1000)"
proof -
  have early: "x < (b + 1) * 1000" if "\<not> b < x div 1000" for x b :: int
  proof -
    have "x div 1000 * 1000 \<le> b * 1000" using that by simp
    then show ?thesis
      using div_mult_mod_eq [of x 1000] pos_mod_bound [of "1000::int" x, OF zero_less_numeral] by (simp add: algebra_simps)
  qed
  have "\<exists>b s'. keep_alive_loop poll clock pause timeout_sec start s = Some (b, s')
    \<and> (if b then \<exists>s0. 0 < fst (poll s0) \<and> s' = snd (poll s0)
       else (\<exists>s0. fst (poll s0) < 0 \<and> s' = snd (poll s0)) \<or> timeout_sec * 1000 < (clock s' - start) div 1000)" for start
  proof (induction "nat ((timeout_sec * 1000 + 1) * 1000 - (clock s - start))" arbitrary: s rule: less_induct)
    case less
    obtain v s1 where p: "poll s = (v, s1)" by fastforce
    show ?case
    proof (cases "v = 0 \<and> \<not> timeout_sec * 1000 < (clock s1 - start) div 1000")
      case True
      have "clock s + 10000 \<le> clock (pause s1)" using assms(1) [of s] assms(2) [of s1] p True by simp
      moreover have "clock s1 - start < (timeout_sec * 1000 + 1) * 1000" using True by (intro early) simp
      moreover have "clock s + 10000 \<le> clock s1" using assms(1) [of s] p True by simp
      ultimately have "nat ((timeout_sec * 1000 + 1) * 1000 - (clock (pause s1) - start))
          < nat ((timeout_sec * 1000 + 1) * 1000 - (clock s - start))" by linarith
      from less.hyps [OF this] have h: "\<exists>b s'. keep_alive_loop poll clock pause timeout_sec start (pause s1) = Some (b, s')
        \<and> (if b then \<exists>s0. 0 < fst (poll s0) \<and> s' = snd (poll s0)
           else (\<exists>s0. fst (poll s0) < 0 \<and> s' = snd (poll s0)) \<or> timeout_sec * 1000 < (clock s' - start) div 1000)" .
      have again: "keep_alive_loop poll clock pause timeout_sec start s = keep_alive_loop poll clock pause timeout_sec start (pause s1)"
        using p True by (subst keep_alive_loop.simps) simp
      show ?thesis unfolding again by (rule h)
    next
      case False
      have s0: "\<exists>s0. P (fst (poll s0)) \<and> s1 = snd (poll s0)" if "P v" for P
        using that p by (intro exI [of _ s]) simp
      have stops: "keep_alive_loop poll clock pause timeout_sec start s = Some (0 < v, s1)"
        using p False by (subst keep_alive_loop.simps) auto
      have "if 0 < v then \<exists>s0. 0 < fst (poll s0) \<and> s1 = snd (poll s0)
        else (\<exists>s0. fst (poll s0) < 0 \<and> s1 = snd (poll s0)) \<or> timeout_sec * 1000 < (clock s1 - start) div 1000"
      proof (cases "v = 0")
        case True
        with False show ?thesis by simp
      next
        case nonzero: False
        then show ?thesis using s0 [of "\<lambda>v. 0 < v"] s0 [of "\<lambda>v. v < 0"] by (cases "0 < v") simp_all
      qed
      then show ?thesis unfolding stops by (intro exI conjI) (rule refl)
    qed
  qed
  then show ?thesis unfolding keep_alive_def .
qed

theorem keep_alive_returns_witness:
  "\<exists>b s'. keep_alive (\<lambda>s. (0, s + 10000)) id (\<lambda>s. s + 1000) 5 0 = Some (b, s') \<and> \<not> b \<and> 5000 < s' div (1000::int)"
  using keep_alive_returns [of "\<lambda>s. (0, s + 10000)" id "\<lambda>s. s + 1000" 5 0] by (auto split: if_splits)

text \<open>
  \<open>write_format\<close> writes exactly the formatted text in one call, however long: the buffer it grows
  to is large enough for what \<open>snprintf\<close> stores, and nothing of the buffer behind the text goes
  out. A text too long for the result of \<open>snprintf\<close> is an error, an empty one is not written.
\<close>

theorem write_format_writes_text:
  "write_format txt st =
     (if txt = [] then (0, st) else if 2 ^ 31 \<le> length txt then (- 1, st) else strm_write txt st)"
  by (rule write_format_eq)

end
