(* ===== verification/Http_Provider.thy ===== *)
theory Http_Provider
  imports Http_Content
begin

text \<open>
  Bodies that are produced while they are sent (\<open>sgx/src/include/httplib.h\<close>): \<open>DataSink\<close>, content
  providers, and the three loops \<open>write_content\<close>, \<open>write_content_without_length\<close> and
  \<open>write_content_chunked\<close> that call a provider until it has written everything.

  A call of a provider is the tree of what it does with its sink: the continuation of a node
  takes the answer of the sink. The loops may run forever, when a provider returns \<open>true\<close> without
  writing; they are partial functions, and \<open>None\<close> is a call that does not return.
\<close>

section \<open>Errors of the client\<close>

datatype client_error =
    Success | Unknown | Connection | BindIPAddress | Read_error | Write_error | ExceedRedirectCount
  | Canceled | SSLConnection | SSLLoadingCerts | SSLServerVerification
  | UnsupportedMultipartBoundaryChars | Compression

fun error_to_string :: "client_error \<Rightarrow> string" where
  "error_to_string Success = ''Success''"
| "error_to_string Connection = ''Connection''"
| "error_to_string BindIPAddress = ''BindIPAddress''"
| "error_to_string Read_error = ''Read''"
| "error_to_string Write_error = ''Write''"
| "error_to_string ExceedRedirectCount = ''ExceedRedirectCount''"
| "error_to_string Canceled = ''Canceled''"
| "error_to_string SSLConnection = ''SSLConnection''"
| "error_to_string SSLLoadingCerts = ''SSLLoadingCerts''"
| "error_to_string SSLServerVerification = ''SSLServerVerification''"
| "error_to_string UnsupportedMultipartBoundaryChars = ''UnsupportedMultipartBoundaryChars''"
| "error_to_string Compression = ''Compression''"
| "error_to_string Unknown = ''Unknown''"

section \<open>Sinks and providers\<close>

datatype 'w provider_run =
    Sink_write string "bool \<Rightarrow> 'w provider_run"
  | Sink_done "'w provider_run"
  | Sink_is_writable "bool \<Rightarrow> 'w provider_run"
  | Provider_returns bool 'w

text \<open>The arguments are offset and length.\<close>

type_synonym 'w content_provider = "nat \<Rightarrow> nat \<Rightarrow> 'w \<Rightarrow> 'w provider_run"
type_synonym 'w content_provider_without_length = "nat \<Rightarrow> 'w \<Rightarrow> 'w provider_run"

definition ContentProviderAdapter :: "'w content_provider_without_length \<Rightarrow> 'w content_provider" where
  "ContentProviderAdapter p = (\<lambda>offset len w. p offset w)"

text \<open>
  The three functions of a sink on a state \<open>'s\<close>. A sink of \<open>write_content\<close> has no \<open>done\<close>: calling
  the empty \<open>std::function\<close> throws.
\<close>

record 's sink =
  on_write :: "string \<Rightarrow> 's \<Rightarrow> bool \<times> 's"
  on_done :: "('s \<Rightarrow> 's) option"
  on_is_writable :: "'s \<Rightarrow> bool"

primrec run_provider :: "'s sink \<Rightarrow> 'w provider_run \<Rightarrow> 's \<Rightarrow> (bool \<times> 'w \<times> 's) res" where
  "run_provider k (Sink_write d f) s = (case on_write k d s of (b, s') \<Rightarrow> run_provider k (f b) s')"
| "run_provider k (Sink_done p) s =
     (case on_done k of None \<Rightarrow> Inl (Throws Bad_function_call) | Some dn \<Rightarrow> run_provider k p (dn s))"
| "run_provider k (Sink_is_writable f) s = run_provider k (f (on_is_writable k s)) s"
| "run_provider k (Provider_returns b w) s = Inr (b, w, s)"

text \<open>A call that may fail and may not return.\<close>

definition robind :: "'a res option \<Rightarrow> ('a \<Rightarrow> 'b res option) \<Rightarrow> 'b res option" where
  "robind m f = Option.bind m (\<lambda>r. case r of Inl e \<Rightarrow> Some (Inl e) | Inr x \<Rightarrow> f x)"

lemma robind_simps [simp]:
  "robind None f = None" "robind (Some (Inl e)) f = Some (Inl e)" "robind (Some (Inr x)) f = f x"
  by (simp_all add: robind_def)

lemma robind_cong [fundef_cong]:
  "m = m' \<Longrightarrow> (\<And>x. m' = Some (Inr x) \<Longrightarrow> f x = g x) \<Longrightarrow> robind m f = robind m' g"
  by (cases m'; cases "the m'") simp_all

lemma robind_eq_Inr [res_simps]: "robind m f = Some (Inr y) \<longleftrightarrow> (\<exists>x. m = Some (Inr x) \<and> f x = Some (Inr y))"
  by (cases m; cases "the m") simp_all

section \<open>A body of known length\<close>

text \<open>State of the sink: \<open>offset\<close>, \<open>ok\<close>, the stream. \<open>ready\<close> is \<open>Stream::is_writable\<close>.\<close>

definition content_sink :: "(conn \<Rightarrow> bool) \<Rightarrow> (nat \<times> bool \<times> conn) sink" where
  "content_sink ready =
     \<lparr>on_write = (\<lambda>d (offset, ok, st).
        if ok then
          (case write_data d 0 st of (b, st') \<Rightarrow>
             if b then (True, offset + length d, True, st') else (False, offset, False, st'))
        else (False, offset, ok, st)),
      on_done = None,
      on_is_writable = (\<lambda>(offset, ok, st). ok \<and> ready st)\<rparr>"

type_synonym 'w written = "(bool \<times> client_error \<times> conn \<times> 'w) res option"

partial_function (option) write_content_loop ::
  "(conn \<Rightarrow> bool) \<Rightarrow> ('w \<Rightarrow> bool) \<Rightarrow> 'w content_provider \<Rightarrow> nat \<Rightarrow> nat \<Rightarrow> conn \<Rightarrow> 'w \<Rightarrow> 'w written" where
  "write_content_loop ready shutting_down provider end_offset offset st w =
     (if offset < end_offset \<and> \<not> shutting_down w then
        (case run_provider (content_sink ready) (provider offset (end_offset - offset) w) (offset, True, st) of
           Inl e \<Rightarrow> Some (Inl e)
         | Inr (ret, w', offset', ok, st') \<Rightarrow>
             if \<not> ret then Some (Inr (False, Canceled, st', w'))
             else if \<not> ok then Some (Inr (False, Write_error, st', w'))
             else write_content_loop ready shutting_down provider end_offset offset' st' w')
      else Some (Inr (True, Success, st, w)))"

definition write_content ::
  "(conn \<Rightarrow> bool) \<Rightarrow> ('w \<Rightarrow> bool) \<Rightarrow> 'w content_provider \<Rightarrow> nat \<Rightarrow> nat \<Rightarrow> conn \<Rightarrow> 'w \<Rightarrow> 'w written" where
  "write_content ready shutting_down provider offset len st w =
     write_content_loop ready shutting_down provider (to_size_t (int offset + int len)) offset st w"

section \<open>A body up to the end of the connection\<close>

text \<open>State of the sink: \<open>offset\<close>, \<open>ok\<close>, \<open>data_available\<close>, the stream.\<close>

definition plain_sink :: "(conn \<Rightarrow> bool) \<Rightarrow> (nat \<times> bool \<times> bool \<times> conn) sink" where
  "plain_sink ready =
     \<lparr>on_write = (\<lambda>d (offset, ok, avail, st).
        if ok then (case write_data d 0 st of (b, st') \<Rightarrow> (b, offset + length d, b, avail, st'))
        else (False, offset, ok, avail, st)),
      on_done = Some (\<lambda>(offset, ok, avail, st). (offset, ok, False, st)),
      on_is_writable = (\<lambda>(offset, ok, avail, st). ok \<and> ready st)\<rparr>"

partial_function (option) write_content_without_length_loop ::
  "(conn \<Rightarrow> bool) \<Rightarrow> ('w \<Rightarrow> bool) \<Rightarrow> 'w content_provider \<Rightarrow> nat \<Rightarrow> bool \<Rightarrow> conn \<Rightarrow> 'w
     \<Rightarrow> (bool \<times> conn \<times> 'w) res option" where
  "write_content_without_length_loop ready shutting_down provider offset avail st w =
     (if avail \<and> \<not> shutting_down w then
        (case run_provider (plain_sink ready) (provider offset 0 w) (offset, True, avail, st) of
           Inl e \<Rightarrow> Some (Inl e)
         | Inr (ret, w', offset', ok, avail', st') \<Rightarrow>
             if \<not> ret \<or> \<not> ok then Some (Inr (False, st', w'))
             else write_content_without_length_loop ready shutting_down provider offset' avail' st' w')
      else Some (Inr (True, st, w)))"

definition write_content_without_length ::
  "(conn \<Rightarrow> bool) \<Rightarrow> ('w \<Rightarrow> bool) \<Rightarrow> 'w content_provider \<Rightarrow> conn \<Rightarrow> 'w \<Rightarrow> (bool \<times> conn \<times> 'w) res option" where
  "write_content_without_length ready shutting_down provider st w =
     write_content_without_length_loop ready shutting_down provider 0 True st w"

section \<open>A body in chunks\<close>

text \<open>With the \<open>nocompressor\<close>; what it does to the stream is \<open>chunked_write\<close> and \<open>chunked_done\<close>.\<close>

definition chunked_sink :: "(conn \<Rightarrow> bool) \<Rightarrow> (nat \<times> bool \<times> bool \<times> conn) sink" where
  "chunked_sink ready =
     \<lparr>on_write = (\<lambda>d (offset, s).
        case chunked_write d s of (ok, avail, st) \<Rightarrow>
          (ok, if fst s then offset + length d else offset, ok, avail, st)),
      on_done = Some (\<lambda>(offset, s). (offset, chunked_done s)),
      on_is_writable = (\<lambda>(offset, ok, avail, st). ok \<and> ready st)\<rparr>"

partial_function (option) write_content_chunked_loop ::
  "(conn \<Rightarrow> bool) \<Rightarrow> ('w \<Rightarrow> bool) \<Rightarrow> 'w content_provider \<Rightarrow> nat \<Rightarrow> bool \<Rightarrow> conn \<Rightarrow> 'w \<Rightarrow> 'w written" where
  "write_content_chunked_loop ready shutting_down provider offset avail st w =
     (if avail \<and> \<not> shutting_down w then
        (case run_provider (chunked_sink ready) (provider offset 0 w) (offset, True, avail, st) of
           Inl e \<Rightarrow> Some (Inl e)
         | Inr (ret, w', offset', ok, avail', st') \<Rightarrow>
             if \<not> ret then Some (Inr (False, Canceled, st', w'))
             else if \<not> ok then Some (Inr (False, Write_error, st', w'))
             else write_content_chunked_loop ready shutting_down provider offset' avail' st' w')
      else Some (Inr (True, Success, st, w)))"

definition write_content_chunked ::
  "(conn \<Rightarrow> bool) \<Rightarrow> ('w \<Rightarrow> bool) \<Rightarrow> 'w content_provider \<Rightarrow> conn \<Rightarrow> 'w \<Rightarrow> 'w written" where
  "write_content_chunked ready shutting_down provider st w =
     write_content_chunked_loop ready shutting_down provider 0 True st w"

declare write_content_loop.simps [code] write_content_without_length_loop.simps [code]
  write_content_chunked_loop.simps [code]

section \<open>Facts\<close>

text \<open>
  What a call writes when its sink takes everything, whether it calls \<open>done\<close> at the end, and the
  state it leaves; \<open>None\<close> when it returns \<open>false\<close> or goes on after \<open>done\<close>.
\<close>

primrec pieces :: "'w provider_run \<Rightarrow> (string list \<times> bool \<times> 'w) option" where
  "pieces (Sink_write d f) = map_option (\<lambda>(ds, fin, w). (d # ds, fin, w)) (pieces (f True))"
| "pieces (Sink_done p) = (case p of Provider_returns True w \<Rightarrow> Some ([], True, w) | _ \<Rightarrow> None)"
| "pieces (Sink_is_writable f) = pieces (f True)"
| "pieces (Provider_returns b w) = (if b then Some ([], False, w) else None)"

lemma content_sink_run:
  assumes "pieces p = Some (ds, False, w')" and "sends st = []" and "\<And>st. ready st"
  shows "run_provider (content_sink ready) p (off, True, st)
    = Inr (True, w', off + length (concat ds), True, st\<lparr>sent := sent st @ concat ds\<rparr>)"
  using assms(1,2)
proof (induction p arbitrary: off st ds)
  case (Sink_write d f)
  then obtain es where "ds = d # es" "pieces (f True) = Some (es, False, w')" by auto
  then show ?case
    using Sink_write.IH [OF rangeI, of True es "st\<lparr>sent := sent st @ d\<rparr>" "off + length d"] Sink_write.prems(2)
    by (simp add: content_sink_def write_data_all add.assoc)
next
  case (Sink_is_writable f)
  then show ?case using assms(3) by (simp add: content_sink_def)
qed (auto split: if_splits provider_run.splits bool.splits)

lemma chunked_sink_run:
  assumes "pieces p = Some (ds, fin, w')" and "sends st = []" and "\<And>st. ready st"
    and "list_all (\<lambda>d. d \<noteq> []) ds"
  shows "run_provider (chunked_sink ready) p (off, True, True, st)
    = Inr (True, w', off + length (concat ds), True, \<not> fin,
           st\<lparr>sent := sent st @ concat (map chunk_text ds) @ (if fin then done_marker else [])\<rparr>)"
  using assms(1,2,4)
proof (induction p arbitrary: off st ds)
  case (Sink_write d f)
  then obtain es where "ds = d # es" "pieces (f True) = Some (es, fin, w')" by auto
  then show ?case
    using Sink_write.IH [OF rangeI, of True es "st\<lparr>sent := sent st @ chunk_text d\<rparr>" "off + length d"] Sink_write.prems(2,3)
    by (simp add: chunked_sink_def chunked_write_def write_data_all add.assoc)
next
  case (Sink_done p)
  then show ?case
    by (auto simp: chunked_sink_def chunked_done_def write_data_all split: provider_run.splits bool.splits)
next
  case (Sink_is_writable f)
  then show ?case using assms(3) by (simp add: chunked_sink_def)
qed (auto split: if_splits)

text \<open>A provider of a text: every call writes some of what is to come, and at least one byte.\<close>

definition provides :: "string \<Rightarrow> 'w content_provider \<Rightarrow> bool" where
  "provides txt provider \<longleftrightarrow>
     (\<forall>off w. off < length txt \<longrightarrow>
        (\<exists>ds w' aft. pieces (provider off (length txt - off) w) = Some (ds, False, w')
           \<and> concat ds \<noteq> [] \<and> drop off txt = concat ds @ aft))"

lemma write_content_loop_provides:
  assumes "provides txt provider" and "\<And>st. ready st" and "\<And>w. \<not> shutting_down w"
    and "sends st = []" and "off \<le> length txt"
  shows "\<exists>w'. write_content_loop ready shutting_down provider (length txt) off st w
    = Some (Inr (True, Success, st\<lparr>sent := sent st @ drop off txt\<rparr>, w'))"
  using assms(4,5)
proof (induction "length txt - off" arbitrary: off st w rule: less_induct)
  case less
  show ?case
  proof (cases "off < length txt")
    case True
    then obtain ds w1 aft where p: "pieces (provider off (length txt - off) w) = Some (ds, False, w1)"
      "concat ds \<noteq> []" "drop off txt = concat ds @ aft"
      using assms(1) unfolding provides_def by blast
    let ?off = "off + length (concat ds)" and ?st = "st\<lparr>sent := sent st @ concat ds\<rparr>"
    have len: "length txt - off = length (concat ds) + length aft" using p(3) by (metis length_append length_drop)
    have le: "?off \<le> length txt" "length txt - ?off < length txt - off" using len p(2) True by (cases "concat ds"; simp)+
    have tl: "drop ?off txt = aft" using p(3) by (metis add.commute append_eq_conv_conj drop_drop)
    have "write_content_loop ready shutting_down provider (length txt) off st w
        = write_content_loop ready shutting_down provider (length txt) ?off ?st w1"
      using True assms(3) content_sink_run [of _ ds w1 st ready off, OF p(1) less.prems(1) assms(2)]
      by (subst write_content_loop.simps) simp
    then show ?thesis using less.hyps [OF le(2) _ le(1), of ?st w1] less.prems(1) p(3) tl by simp
  next
    case False
    then show ?thesis using less.prems(2) by (subst write_content_loop.simps) simp
  qed
qed

text \<open>The calls of a provider of chunks, from an offset and a state on.\<close>

inductive chunk_script :: "'w content_provider \<Rightarrow> nat \<Rightarrow> 'w \<Rightarrow> string list \<Rightarrow> 'w \<Rightarrow> bool"
  for provider where
  last_call: "pieces (provider off 0 w) = Some (ds, True, w') \<Longrightarrow> chunk_script provider off w ds w'"
| next_call: "pieces (provider off 0 w) = Some (ds, False, w') \<Longrightarrow>
    chunk_script provider (off + length (concat ds)) w' es w'' \<Longrightarrow> chunk_script provider off w (ds @ es) w''"

lemma write_content_chunked_loop_script:
  assumes "chunk_script provider off w ds w'" and "\<And>st. ready st" and "\<And>w. \<not> shutting_down w"
    and "sends st = []" and "list_all (\<lambda>d. d \<noteq> []) ds"
  shows "write_content_chunked_loop ready shutting_down provider off True st w
    = Some (Inr (True, Success, st\<lparr>sent := sent st @ chunks_text ds\<rparr>, w'))"
  using assms(1,4,5)
proof (induction arbitrary: st rule: chunk_script.induct)
  case (last_call off w ds w')
  then show ?case
    using assms(3) chunked_sink_run [of _ ds True w' st ready off, OF last_call(1,2) assms(2) last_call(3)]
    by (subst write_content_chunked_loop.simps)
      (simp add: chunks_text_def, subst write_content_chunked_loop.simps, simp)
next
  case (next_call off w ds w' es w'')
  let ?st = "st\<lparr>sent := sent st @ concat (map chunk_text ds)\<rparr>"
  have ds: "list_all (\<lambda>d. d \<noteq> []) ds" using next_call.prems(2) by simp
  have "write_content_chunked_loop ready shutting_down provider off True st w
      = write_content_chunked_loop ready shutting_down provider (off + length (concat ds)) True ?st w'"
    using assms(3) chunked_sink_run [of _ ds False w' st ready off, OF next_call.hyps(1) next_call.prems(1) assms(2) ds]
    by (subst write_content_chunked_loop.simps) simp
  then show ?case using next_call.IH [of ?st] next_call.prems by (simp add: chunks_text_def)
qed

lemma plain_sink_run:
  assumes "pieces p = Some (ds, fin, w')" and "sends st = []" and "\<And>st. ready st"
  shows "run_provider (plain_sink ready) p (off, True, True, st)
    = Inr (True, w', off + length (concat ds), True, \<not> fin, st\<lparr>sent := sent st @ concat ds\<rparr>)"
  using assms(1,2)
proof (induction p arbitrary: off st ds)
  case (Sink_write d f)
  then obtain es where "ds = d # es" "pieces (f True) = Some (es, fin, w')" by auto
  then show ?case
    using Sink_write.IH [OF rangeI, of True es "st\<lparr>sent := sent st @ d\<rparr>" "off + length d"] Sink_write.prems(2)
    by (simp add: plain_sink_def write_data_all add.assoc)
next
  case (Sink_done p)
  then show ?case by (auto simp: plain_sink_def split: provider_run.splits bool.splits)
next
  case (Sink_is_writable f)
  then show ?case using assms(3) by (simp add: plain_sink_def)
qed (auto split: if_splits)

lemma write_content_without_length_script:
  assumes "chunk_script provider off w ds w'" and "\<And>st. ready st" and "\<And>w. \<not> shutting_down w" and "sends st = []"
  shows "write_content_without_length_loop ready shutting_down provider off True st w
    = Some (Inr (True, st\<lparr>sent := sent st @ concat ds\<rparr>, w'))"
  using assms(1,4)
proof (induction arbitrary: st rule: chunk_script.induct)
  case (last_call off w ds w')
  then show ?case
    using assms(3) plain_sink_run [of _ ds True w' st ready off, OF last_call(1,2) assms(2)]
    by (subst write_content_without_length_loop.simps) (simp, subst write_content_without_length_loop.simps, simp)
next
  case (next_call off w ds w' es w'')
  let ?st = "st\<lparr>sent := sent st @ concat ds\<rparr>"
  have "write_content_without_length_loop ready shutting_down provider off True st w
      = write_content_without_length_loop ready shutting_down provider (off + length (concat ds)) True ?st w'"
    using assms(3) plain_sink_run [of _ ds False w' st ready off, OF next_call.hyps(1) next_call.prems assms(2)]
    by (subst write_content_without_length_loop.simps) simp
  then show ?case using next_call.IH [of ?st] next_call.prems by simp
qed

section \<open>Properties\<close>

text \<open>
  A body that a provider produces is sent exactly: when every call writes some of what is to come,
  in any pieces, and at least one byte, \<open>write_content\<close> ends, with success, and the bytes on the
  connection are the text.
\<close>

theorem provider_body_is_sent:
  assumes "provides txt provider" and "\<And>st. ready st" and "\<And>w. \<not> shutting_down w" and "sends st = []"
    and "length txt < 2 ^ 64"
  shows "\<exists>w'. write_content ready shutting_down provider 0 (length txt) st w
    = Some (Inr (True, Success, st\<lparr>sent := sent st @ txt\<rparr>, w'))"
  using write_content_loop_provides [OF assms(1-4), of 0] assms(5) by (simp add: write_content_def)

definition two_bytes_provider :: "string \<Rightarrow> nat content_provider" where
  "two_bytes_provider txt off len calls =
     Sink_is_writable (\<lambda>_. Sink_write (take 1 (drop off txt)) (\<lambda>_.
       Sink_write (take 1 (drop (off + 1) txt)) (\<lambda>_. Provider_returns True (calls + 1))))"

theorem provider_body_is_sent_witness:
  "\<exists>calls. write_content (\<lambda>_. True) (\<lambda>_. False) (two_bytes_provider ''abc'') 0 3
      \<lparr>packets = [], broken = False, sends = [], sent = ''>''\<rparr> 0
    = Some (Inr (True, Success, \<lparr>packets = [], broken = False, sends = [], sent = ''>abc''\<rparr>, calls))"
proof -
  have "drop off t = take 1 (drop off t) @ take 1 (drop (off + 1) t) @ drop (off + 2) t" for off and t :: string
    by (metis add.commute append_take_drop_id drop_drop one_add_one add.assoc)
  then have "provides t (two_bytes_provider t)" for t
    unfolding provides_def two_bytes_provider_def by fastforce
  from provider_body_is_sent [OF this [of "''abc''"], of "\<lambda>_. True" "\<lambda>_. False"
      "\<lparr>packets = [], broken = False, sends = [], sent = ''>''\<rparr>" 0]
  show ?thesis by (simp add: numeral_3_eq_3)
qed

text \<open>
  A provider that returns \<open>true\<close> without writing is called again forever: \<open>write_content\<close> does not
  return. Nothing in the loop waits or counts.
\<close>

theorem stalled_provider_never_returns:
  assumes "\<And>off len w. \<exists>w'. provider off len w = Provider_returns True w'" and "\<And>w. \<not> shutting_down w" and "0 < n"
    and "off + n < 2 ^ 64"
  shows "write_content ready shutting_down provider off n st w = None"
proof -
  let ?P = "\<lambda>ready' sd p e x (s :: conn) v (r :: (bool \<times> client_error \<times> conn \<times> 'a) res).
    ready' = ready \<longrightarrow> sd = shutting_down \<longrightarrow> p = provider \<longrightarrow> \<not> x < e"
  have stuck: "?P ready' sd p e x s v r" if "write_content_loop ready' sd p e x s v = Some r" for ready' sd p e x s v r
  proof (rule write_content_loop.raw_induct [where P = ?P, OF _ that])
    fix loop ready' sd p e x s v r
    assume IH: "\<And>ready' sd p e x s v r. loop ready' sd p e x s v = Some r \<Longrightarrow> ?P ready' sd p e x s v r"
      and run: "(if x < e \<and> \<not> sd v then
        (case run_provider (content_sink ready') (p x (e - x) v) (x, True, s) of
           Inl err \<Rightarrow> Some (Inl err)
         | Inr (ret, w', offset', ok, st') \<Rightarrow>
             if \<not> ret then Some (Inr (False, Canceled, st', w'))
             else if \<not> ok then Some (Inr (False, Write_error, st', w'))
             else loop ready' sd p e offset' st' w')
      else Some (Inr (True, Success, s, v))) = Some r"
    show "?P ready' sd p e x s v r"
    proof (intro impI notI)
      assume eq: "ready' = ready" "sd = shutting_down" "p = provider" and lt: "x < e"
      obtain v' where "provider x (e - x) v = Provider_returns True v'" using assms(1) by blast
      with run eq lt assms(2) have "loop ready shutting_down provider e x s v' = Some r" by simp
      from IH [OF this] lt show False by simp
    qed
  qed
  show ?thesis
    using stuck [of ready shutting_down provider "off + n" off st w] assms(3,4)
    unfolding write_content_def by (cases "write_content_loop ready shutting_down provider (off + n) off st w") (auto simp flip: of_nat_add)
qed

theorem stalled_provider_never_returns_witness:
  "write_content (\<lambda>_. True) (\<lambda>_. False) (\<lambda>off len w. Provider_returns True (w + 1)) 0 1
     \<lparr>packets = [], broken = False, sends = [], sent = []\<rparr> (0 :: nat) = None"
  by (rule stalled_provider_never_returns) simp_all

text \<open>
  C20. A body in chunks arrives: what \<open>write_content_chunked\<close> puts on the connection for a provider that
  writes the pieces \<open>ds\<close>, each of at least one byte and shorter than \<open>2 ^ 64 - 1\<close>, in any number of calls
  and then calls \<open>done\<close>, to a peer that takes what it is sent and on a server that is not shutting down, is
  read by \<open>read_content_chunked\<close> as their concatenation, in whatever packets it comes, and nothing behind
  it is consumed. (An empty piece ends the loop without the last chunk and leaves the body open.)
\<close>

theorem provider_chunks_roundtrip:
  assumes "chunk_script provider 0 w ds w'" and "list_all (\<lambda>d. d \<noteq> [] \<and> length d < 2 ^ 64 - 1) ds"
    and "\<And>st. ready st" and "\<And>w. \<not> shutting_down w" and "sends st = []"
  shows "\<exists>txt. write_content_chunked ready shutting_down provider st w
      = Some (Inr (True, Success, st\<lparr>sent := sent st @ txt\<rparr>, w'))
    \<and> (\<forall>inp aft. rest inp = txt @ aft \<longrightarrow>
         fst (read_content_chunked body_receiver inp b) = Some (b @ concat ds)
         \<and> rest (snd (read_content_chunked body_receiver inp b)) = aft)"
proof (intro exI conjI allI impI)
  have ne: "list_all (\<lambda>d. d \<noteq> []) ds" using assms(2) by (simp add: list_all_iff)
  show "write_content_chunked ready shutting_down provider st w
      = Some (Inr (True, Success, st\<lparr>sent := sent st @ chunks_text ds\<rparr>, w'))"
    using write_content_chunked_loop_script [OF assms(1,3-5) ne] by (simp add: write_content_chunked_def)
next
  fix inp aft
  assume "rest inp = chunks_text ds @ aft"
  then show "fst (read_content_chunked body_receiver inp b) = Some (b @ concat ds)"
    "rest (snd (read_content_chunked body_receiver inp b)) = aft"
    using body.chunked_reads [OF assms(2), of inp aft b] by (metis deliver_body option.distinct(1) prod.collapse)+
qed

theorem provider_chunks_roundtrip_witness:
  "\<exists>txt. write_content_chunked (\<lambda>_. True) (\<lambda>_. False)
      (ContentProviderAdapter (\<lambda>off calls :: nat.
         if off = 0 then Sink_write ''ab'' (\<lambda>_. Sink_write ''c'' (\<lambda>_. Provider_returns True (calls + 1)))
         else Sink_write ''d'' (\<lambda>_. Sink_done (Provider_returns True (calls + 1)))))
      \<lparr>packets = [], broken = False, sends = [], sent = []\<rparr> 0
      = Some (Inr (True, Success, \<lparr>packets = [], broken = False, sends = [], sent = txt\<rparr>, 2))
    \<and> (\<forall>inp aft. rest inp = txt @ aft \<longrightarrow>
         fst (read_content_chunked body_receiver inp []) = Some ''abcd''
         \<and> rest (snd (read_content_chunked body_receiver inp [])) = aft)"
proof -
  let ?p = "ContentProviderAdapter (\<lambda>off calls :: nat.
         if off = 0 then Sink_write ''ab'' (\<lambda>_. Sink_write ''c'' (\<lambda>_. Provider_returns True (calls + 1)))
         else Sink_write ''d'' (\<lambda>_. Sink_done (Provider_returns True (calls + 1))))"
  have "chunk_script ?p (0 + length (concat [''ab'', ''c''])) 1 [''d''] 2"
    by (rule last_call) (simp add: ContentProviderAdapter_def)
  then have "chunk_script ?p 0 0 ([''ab'', ''c''] @ [''d'']) 2"
    by (intro next_call [where w' = 1]) (simp_all add: ContentProviderAdapter_def)
  from provider_chunks_roundtrip [OF this, of "\<lambda>_. True" "\<lambda>_. False"
      "\<lparr>packets = [], broken = False, sends = [], sent = []\<rparr>" "[]"]
  show ?thesis by simp
qed

text \<open>
  A piece of length zero ends a chunked body without its last chunk: \<open>write_content_chunked\<close>
  returns \<open>true\<close>, but \<open>done\<close> has not been called and no \<open>0\<close> chunk is on the connection.
\<close>

theorem empty_piece_leaves_body_open:
  "write_content_chunked (\<lambda>_. True) (\<lambda>_. False)
      (\<lambda>off len w. if off = 0 then Sink_write d (\<lambda>_. Provider_returns True w) else Sink_write [] (\<lambda>_. Provider_returns True w))
      \<lparr>packets = [], broken = False, sends = [], sent = []\<rparr> w
    = Some (Inr (True, Success, \<lparr>packets = [], broken = False, sends = [],
                                 sent = (if d = [] then [] else chunk_text d)\<rparr>, w))"
  by (simp add: write_content_chunked_def write_content_chunked_loop.simps chunked_sink_def chunked_write_def write_data_all)

end
