(* ===== verification/Http_Client.thy ===== *)
theory Http_Client
  imports Http_Server Http_Provider
begin

text \<open>
  The HTTP client \<open>ClientImpl\<close> of \<open>sgx/src/include/httplib.h\<close>, in the build of the service (no TLS,
  no compression): the request it writes, the response it reads, redirects, and the life of its
  socket.

  The network is a record: the outcomes of the calls that connect, in their order, the addresses
  they were for, and the connections that have been closed. A request is made by one thread at a
  time (\<open>request_mutex_\<close>), so the assertions on the thread that has the socket hold. Receivers of
  content and progress callbacks are left out; handlers, providers and the logger act on the state
  \<open>'w\<close>.
\<close>

section \<open>Data\<close>

record client_response = response +
  reason :: string
  location :: string

definition empty_client_response :: client_response where
  "empty_client_response =
     \<lparr>rsp_version = [], status = - 1, rsp_headers = [], body = [], reason = [], location = []\<rparr>"

record 'w client_request = request +
  response_handler :: "(client_response \<Rightarrow> 'w \<Rightarrow> bool \<times> 'w) option"
  redirect_count :: nat
  content_length :: nat
  content_provider :: "'w content_provider option"
  is_chunked_content_provider :: bool

definition CPPHTTPLIB_REDIRECT_MAX_COUNT :: nat where "CPPHTTPLIB_REDIRECT_MAX_COUNT = 20"

definition client_request :: "string \<Rightarrow> string \<Rightarrow> headers \<Rightarrow> 'w client_request" where
  "client_request m p hs =
     \<lparr>req_method = m, path = p, req_headers = hs, req_body = [], remote_addr = [], remote_port = - 1,
      req_version = [], target = [], params = [], files = [], ranges = [], matches = [],
      response_handler = None, redirect_count = CPPHTTPLIB_REDIRECT_MAX_COUNT, content_length = 0,
      content_provider = None, is_chunked_content_provider = False\<rparr>"

text \<open>The members of \<open>ClientImpl\<close>; the socket is the connection it stands for.\<close>

record 'w client =
  cli_host :: string
  cli_port :: int
  host_and_port :: string
  cli_socket :: "conn option"
  requests_in_flight :: nat
  close_when_done :: bool
  cli_default_headers :: headers
  client_cert_path :: string
  client_key_path :: string
  connection_timeout_sec :: int
  connection_timeout_usec :: int
  read_timeout_sec :: int
  read_timeout_usec :: int
  write_timeout_sec :: int
  write_timeout_usec :: int
  basic_auth_username :: string
  basic_auth_password :: string
  bearer_token_auth_token :: string
  cli_keep_alive :: bool
  follow_location :: bool
  url_encode :: bool
  address_family :: int
  tcp_nodelay :: bool
  compress :: bool
  decompress :: bool
  cli_interface :: string
  proxy_host :: string
  proxy_port :: int
  proxy_basic_auth_username :: string
  proxy_basic_auth_password :: string
  proxy_bearer_token_auth_token :: string
  cli_logger :: "('w client_request \<Rightarrow> client_response \<Rightarrow> 'w \<Rightarrow> 'w) option"

record 'w network =
  connects :: "(client_error + conn) list"
  dialed :: "(string \<times> int) list"
  ended :: "conn list"
  writable :: "conn \<Rightarrow> bool"
  user :: 'w

section \<open>Construction and settings\<close>

definition adjust_host_string :: "string \<Rightarrow> string" where
  "adjust_host_string host = (if CHR '':'' \<in> set host then ''['' @ host @ '']'' else host)"

text \<open>\<open>AF_UNSPEC\<close> is 0.\<close>

definition new_client :: "string \<Rightarrow> int \<Rightarrow> string \<Rightarrow> string \<Rightarrow> 'w client" where
  "new_client h p cert key =
     \<lparr>cli_host = h, cli_port = p, host_and_port = adjust_host_string h @ '':'' @ std_to_string p,
      cli_socket = None, requests_in_flight = 0, close_when_done = False, cli_default_headers = [],
      client_cert_path = cert, client_key_path = key,
      connection_timeout_sec = 300, connection_timeout_usec = 0, read_timeout_sec = 5,
      read_timeout_usec = 0, write_timeout_sec = 5, write_timeout_usec = 0,
      basic_auth_username = [], basic_auth_password = [], bearer_token_auth_token = [],
      cli_keep_alive = False, follow_location = False, url_encode = True, address_family = 0,
      tcp_nodelay = False, compress = False, decompress = True, cli_interface = [], proxy_host = [],
      proxy_port = - 1, proxy_basic_auth_username = [], proxy_basic_auth_password = [],
      proxy_bearer_token_auth_token = [], cli_logger = None\<rparr>"

definition copy_settings :: "'w client \<Rightarrow> 'w client \<Rightarrow> 'w client" where
  "copy_settings rhs c =
     c\<lparr>client_cert_path := client_cert_path rhs, client_key_path := client_key_path rhs,
       connection_timeout_sec := connection_timeout_sec rhs,
       read_timeout_sec := read_timeout_sec rhs, read_timeout_usec := read_timeout_usec rhs,
       write_timeout_sec := write_timeout_sec rhs, write_timeout_usec := write_timeout_usec rhs,
       basic_auth_username := basic_auth_username rhs, basic_auth_password := basic_auth_password rhs,
       bearer_token_auth_token := bearer_token_auth_token rhs,
       cli_keep_alive := cli_keep_alive rhs, follow_location := follow_location rhs,
       url_encode := url_encode rhs, address_family := address_family rhs,
       tcp_nodelay := tcp_nodelay rhs, compress := compress rhs, decompress := decompress rhs,
       cli_interface := cli_interface rhs, proxy_host := proxy_host rhs, proxy_port := proxy_port rhs,
       proxy_basic_auth_username := proxy_basic_auth_username rhs,
       proxy_basic_auth_password := proxy_basic_auth_password rhs,
       proxy_bearer_token_auth_token := proxy_bearer_token_auth_token rhs,
       cli_logger := cli_logger rhs\<rparr>"

definition set_connection_timeout :: "int \<Rightarrow> int \<Rightarrow> 'w client \<Rightarrow> 'w client" where
  "set_connection_timeout sec usec c = c\<lparr>connection_timeout_sec := sec, connection_timeout_usec := usec\<rparr>"

definition set_read_timeout :: "int \<Rightarrow> int \<Rightarrow> 'w client \<Rightarrow> 'w client" where
  "set_read_timeout sec usec c = c\<lparr>read_timeout_sec := sec, read_timeout_usec := usec\<rparr>"

definition set_write_timeout :: "int \<Rightarrow> int \<Rightarrow> 'w client \<Rightarrow> 'w client" where
  "set_write_timeout sec usec c = c\<lparr>write_timeout_sec := sec, write_timeout_usec := usec\<rparr>"

definition set_basic_auth :: "string \<Rightarrow> string \<Rightarrow> 'w client \<Rightarrow> 'w client" where
  "set_basic_auth username password c = c\<lparr>basic_auth_username := username, basic_auth_password := password\<rparr>"

definition set_bearer_token_auth :: "string \<Rightarrow> 'w client \<Rightarrow> 'w client" where
  "set_bearer_token_auth token c = c\<lparr>bearer_token_auth_token := token\<rparr>"

definition set_proxy :: "string \<Rightarrow> int \<Rightarrow> 'w client \<Rightarrow> 'w client" where
  "set_proxy h p c = c\<lparr>proxy_host := h, proxy_port := p\<rparr>"

definition set_proxy_basic_auth :: "string \<Rightarrow> string \<Rightarrow> 'w client \<Rightarrow> 'w client" where
  "set_proxy_basic_auth username password c =
     c\<lparr>proxy_basic_auth_username := username, proxy_basic_auth_password := password\<rparr>"

definition set_proxy_bearer_token_auth :: "string \<Rightarrow> 'w client \<Rightarrow> 'w client" where
  "set_proxy_bearer_token_auth token c = c\<lparr>proxy_bearer_token_auth_token := token\<rparr>"

definition ClientImpl_set_keep_alive :: "bool \<Rightarrow> 'w client \<Rightarrow> 'w client" where
  "ClientImpl_set_keep_alive on c = c\<lparr>cli_keep_alive := on\<rparr>"

definition set_follow_location :: "bool \<Rightarrow> 'w client \<Rightarrow> 'w client" where
  "set_follow_location on c = c\<lparr>follow_location := on\<rparr>"

definition set_url_encode :: "bool \<Rightarrow> 'w client \<Rightarrow> 'w client" where
  "set_url_encode on c = c\<lparr>url_encode := on\<rparr>"

definition ClientImpl_set_default_headers :: "headers \<Rightarrow> 'w client \<Rightarrow> 'w client" where
  "ClientImpl_set_default_headers hs c = c\<lparr>cli_default_headers := hs\<rparr>"

definition set_address_family :: "int \<Rightarrow> 'w client \<Rightarrow> 'w client" where
  "set_address_family family c = c\<lparr>address_family := family\<rparr>"

definition set_tcp_nodelay :: "bool \<Rightarrow> 'w client \<Rightarrow> 'w client" where
  "set_tcp_nodelay on c = c\<lparr>tcp_nodelay := on\<rparr>"

definition set_compress :: "bool \<Rightarrow> 'w client \<Rightarrow> 'w client" where
  "set_compress on c = c\<lparr>compress := on\<rparr>"

definition set_decompress :: "bool \<Rightarrow> 'w client \<Rightarrow> 'w client" where
  "set_decompress on c = c\<lparr>decompress := on\<rparr>"

definition set_interface :: "string \<Rightarrow> 'w client \<Rightarrow> 'w client" where
  "set_interface intf c = c\<lparr>cli_interface := intf\<rparr>"

section \<open>The socket of a client\<close>

definition uses_proxy :: "'w client \<Rightarrow> bool" where
  "uses_proxy c \<longleftrightarrow> proxy_host c \<noteq> [] \<and> proxy_port c \<noteq> - 1"

definition create_client_socket :: "'w client \<Rightarrow> 'w network \<Rightarrow> (client_error + conn) \<times> 'w network" where
  "create_client_socket c W =
     (let peer = (if uses_proxy c then (proxy_host c, proxy_port c) else (cli_host c, cli_port c)) in
      case connects W of
        [] \<Rightarrow> (Inl Connection, W\<lparr>dialed := dialed W @ [peer]\<rparr>)
      | Inl e # rs \<Rightarrow> (Inl (if e = Success then Connection else e), W\<lparr>dialed := dialed W @ [peer], connects := rs\<rparr>)
      | Inr st # rs \<Rightarrow> (Inr st, W\<lparr>dialed := dialed W @ [peer], connects := rs\<rparr>))"

text \<open>\<open>shutdown_socket\<close> and \<open>close_socket\<close>; both do nothing when there is no socket.\<close>

definition close_client_socket :: "'w client \<Rightarrow> 'w network \<Rightarrow> 'w client \<times> 'w network" where
  "close_client_socket c W =
     (case cli_socket c of
        None \<Rightarrow> (c, W)
      | Some st \<Rightarrow> (c\<lparr>cli_socket := None\<rparr>, W\<lparr>ended := ended W @ [st]\<rparr>))"

text \<open>
  \<open>is_socket_open\<close> and \<open>stop\<close>. While a request is in flight \<open>stop\<close> only shuts the connection down,
  which ends what the peer sends and takes (\<open>shut\<close>), and leaves the rest to \<open>send\<close>.
\<close>

definition is_socket_open :: "'w client \<Rightarrow> bool" where
  "is_socket_open c \<longleftrightarrow> cli_socket c \<noteq> None"

definition shut :: "conn \<Rightarrow> conn" where
  "shut st = st\<lparr>packets := [], broken := False, sends := [- 1]\<rparr>"

definition ClientImpl_stop :: "'w client \<Rightarrow> 'w network \<Rightarrow> 'w client \<times> 'w network" where
  "ClientImpl_stop c W =
     (if 0 < requests_in_flight c
      then (c\<lparr>cli_socket := map_option shut (cli_socket c), close_when_done := True\<rparr>, W)
      else close_client_socket c W)"

text \<open>The first part of \<open>send\<close>, under the mutex of the socket.\<close>

definition open_connection :: "'w client \<Rightarrow> 'w network \<Rightarrow> (client_error + conn) \<times> 'w client \<times> 'w network" where
  "open_connection c W =
     (let c = c\<lparr>close_when_done := False\<rparr> in
      case (case cli_socket c of
              Some st \<Rightarrow> if writable W st then (c, W) else close_client_socket c W
            | None \<Rightarrow> (c, W)) of (c, W) \<Rightarrow>
        (case cli_socket c of
           Some st \<Rightarrow> (Inr st, c\<lparr>requests_in_flight := requests_in_flight c + 1\<rparr>, W)
         | None \<Rightarrow>
             (case create_client_socket c W of
                (Inl e, W) \<Rightarrow> (Inl e, c, W)
              | (Inr st, W) \<Rightarrow>
                  (Inr st, c\<lparr>cli_socket := Some st, requests_in_flight := requests_in_flight c + 1\<rparr>, W))))"

definition add_default_headers :: "'w client \<Rightarrow> 'w client_request \<Rightarrow> 'w client_request" where
  "add_default_headers c req =
     req\<lparr>req_headers :=
       fold (\<lambda>(k, v) hs. if mm_has to_lower hs k then hs else mm_emplace to_lower k v hs)
         (cli_default_headers c) (req_headers req)\<rparr>"

section \<open>The request\<close>

definition make_basic_authentication_header :: "string \<Rightarrow> string \<Rightarrow> bool \<Rightarrow> string \<times> string" where
  "make_basic_authentication_header username password is_proxy =
     (if is_proxy then ''Proxy-Authorization'' else ''Authorization'',
      ''Basic '' @ base64_encode (username @ '':'' @ password))"

definition make_bearer_token_authentication_header :: "string \<Rightarrow> bool \<Rightarrow> string \<times> string" where
  "make_bearer_token_authentication_header token is_proxy =
     (if is_proxy then ''Proxy-Authorization'' else ''Authorization'', ''Bearer '' @ token)"

definition emplace_missing :: "string \<Rightarrow> string \<Rightarrow> headers \<Rightarrow> headers" where
  "emplace_missing key val hs = (if has_header hs key then hs else mm_emplace to_lower key val hs)"

definition host_field :: "'w client \<Rightarrow> string" where
  "host_field c = (if cli_port c = 80 then cli_host c else host_and_port c)"

definition content_fields :: "'w client_request \<Rightarrow> headers \<Rightarrow> headers" where
  "content_fields req hs =
     (if req_body req = [] then
        (case content_provider req of
           Some _ \<Rightarrow>
             if is_chunked_content_provider req then hs
             else emplace_missing ''Content-Length'' (nat_string (content_length req)) hs
         | None \<Rightarrow>
             if req_method req \<in> {''POST'', ''PUT'', ''PATCH''}
             then mm_emplace to_lower ''Content-Length'' ''0'' hs else hs)
      else
        emplace_missing ''Content-Length'' (nat_string (length (req_body req)))
          (emplace_missing ''Content-Type'' ''text/plain'' hs))"

definition auth_fields :: "'w client \<Rightarrow> headers \<Rightarrow> headers" where
  "auth_fields c hs =
     (let hs = (if basic_auth_password c \<noteq> [] \<or> basic_auth_username c \<noteq> []
                then (case make_basic_authentication_header (basic_auth_username c) (basic_auth_password c) False of
                        (k, v) \<Rightarrow> emplace_missing k v hs) else hs);
          hs = (if proxy_basic_auth_username c \<noteq> [] \<and> proxy_basic_auth_password c \<noteq> []
                then (case make_basic_authentication_header (proxy_basic_auth_username c) (proxy_basic_auth_password c) True of
                        (k, v) \<Rightarrow> emplace_missing k v hs) else hs);
          hs = (if bearer_token_auth_token c \<noteq> []
                then (case make_bearer_token_authentication_header (bearer_token_auth_token c) False of
                        (k, v) \<Rightarrow> emplace_missing k v hs) else hs)
      in if proxy_bearer_token_auth_token c \<noteq> []
         then (case make_bearer_token_authentication_header (proxy_bearer_token_auth_token c) True of
                 (k, v) \<Rightarrow> emplace_missing k v hs) else hs)"

definition client_headers :: "'w client \<Rightarrow> bool \<Rightarrow> 'w client_request \<Rightarrow> headers" where
  "client_headers c close_connection req =
     (let hs = (if close_connection then emplace_missing ''Connection'' ''close'' (req_headers req) else req_headers req);
          hs = emplace_missing ''Host'' (host_field c) hs;
          hs = emplace_missing ''Accept'' ''*/*'' hs;
          hs = emplace_missing ''User-Agent'' ''cpp-httplib/0.9'' hs
      in auth_fields c (content_fields req hs))"

definition request_head :: "'w client \<Rightarrow> 'w client_request \<Rightarrow> string" where
  "request_head c req =
     c_text (req_method req) @ '' '' @ c_text (if url_encode c then encode_url (path req) else path req)
     @ '' HTTP/1.1'' @ CRLF @ write_headers (req_headers req)"

text \<open>An empty \<open>std::function\<close> throws when it is called, which happens unless nothing is to be written.\<close>

definition ClientImpl_write_content_with_provider ::
  "'w client_request \<Rightarrow> conn \<Rightarrow> 'w network \<Rightarrow> (bool \<times> client_error \<times> conn \<times> 'w network) res option" where
  "ClientImpl_write_content_with_provider req st W =
     robind
       (case content_provider req of
          Some provider \<Rightarrow>
            if is_chunked_content_provider req
            then write_content_chunked (writable W) (\<lambda>_. False) provider st (user W)
            else write_content (writable W) (\<lambda>_. False) provider 0 (content_length req) st (user W)
        | None \<Rightarrow>
            Some (if is_chunked_content_provider req \<or> 0 < content_length req
                  then Inl (Throws Bad_function_call) else Inr (True, Success, st, user W)))
       (\<lambda>(ok, err, st, w). Some (Inr (ok, err, st, W\<lparr>user := w\<rparr>)))"

definition ClientImpl_write_request ::
  "'w client \<Rightarrow> 'w client_request \<Rightarrow> bool \<Rightarrow> client_error \<Rightarrow> conn \<Rightarrow> 'w network
     \<Rightarrow> (bool \<times> client_error \<times> 'w client_request \<times> conn \<times> 'w network) res option" where
  "ClientImpl_write_request c req close_connection err st W =
     (let req = req\<lparr>req_headers := client_headers c close_connection req\<rparr> in
      case write_data (request_head c req) 0 st of (ok, st) \<Rightarrow>
        if \<not> ok then Some (Inr (False, Write_error, req, st, W))
        else if req_body req = [] then
          robind (ClientImpl_write_content_with_provider req st W)
            (\<lambda>(ok, err, st, W). Some (Inr (ok, err, req, st, W)))
        else
          (case write_data (req_body req) 0 st of (ok, st) \<Rightarrow>
             Some (Inr (ok, if ok then err else Write_error, req, st, W))))"

section \<open>The response\<close>

text \<open>\<open>(HTTP/1\\.[01]) (\\d{3})(?: (.*?))?\\r\\n\<close> on a whole C string; the dot is no line terminator.\<close>

definition match_response_line :: "string \<Rightarrow> (string \<times> int \<times> string) option" where
  "match_response_line s =
     (let d = take 3 (drop 9 s); t = drop 12 s; phrase = drop 1 (take (length t - 2) t) in
      if take 8 s \<in> {''HTTP/1.0'', ''HTTP/1.1''} \<and> take 1 (drop 8 s) = '' ''
         \<and> length d = 3 \<and> list_all is_digit d
         \<and> 2 \<le> length t \<and> drop (length t - 2) t = CRLF
         \<and> (t = CRLF \<or> take 1 t = '' '' \<and> list_all (\<lambda>c. c \<noteq> CR \<and> c \<noteq> LF) phrase)
      then Some (take 8 s, int (dec_val d), phrase) else None)"

text \<open>The loop that skips \<open>100 Continue\<close>.\<close>

function skip_continue :: "line_reader \<Rightarrow> conn \<Rightarrow> string \<times> int \<times> string \<Rightarrow> (string \<times> int \<times> string) option \<times> conn" where
  "skip_continue lr st m =
     (if fst (snd m) \<noteq> 100 then (Some m, st)
      else
        (case getline lr st of (ok, lr, st) \<Rightarrow>
           if \<not> ok then (None, st)
           else
             (case getline lr st of (ok, lr, st) \<Rightarrow>
                if \<not> ok then (None, st)
                else
                  (case match_response_line (c_text (lr_ptr lr)) of
                     None \<Rightarrow> (None, st)
                   | Some m \<Rightarrow> skip_continue lr st m))))"
  by pat_completeness auto
termination
  by (relation "measure (\<lambda>(lr, st, m). length (rest st))") (auto dest!: getline_less [OF sym])

declare skip_continue.simps [simp del]

definition read_response_line :: "string \<Rightarrow> client_response \<Rightarrow> conn \<Rightarrow> bool \<times> client_response \<times> conn" where
  "read_response_line m res st =
     (case getline (new_line_reader 2048) st of (ok, lr, st) \<Rightarrow>
        if \<not> ok then (False, res, st)
        else
          (case match_response_line (c_text (lr_ptr lr)) of
             None \<Rightarrow> (m = ''CONNECT'', res, st)
           | Some l \<Rightarrow>
               (case skip_continue lr st l of
                  (None, st) \<Rightarrow> (False, res, st)
                | (Some (v, stat, phrase), st) \<Rightarrow>
                    (True, res\<lparr>rsp_version := v, status := stat, reason := phrase\<rparr>, st))))"

definition is_redirect :: "'w client \<Rightarrow> client_response \<Rightarrow> bool" where
  "is_redirect c res \<longleftrightarrow> 300 < status res \<and> status res < 400 \<and> follow_location c"

text \<open>\<open>read_content\<close> with \<open>decompress_\<close>; without it the encoding of the content is not looked at.\<close>

definition client_read_content :: "bool \<Rightarrow> headers \<Rightarrow> conn \<Rightarrow> (string option \<times> int \<times> conn) res" where
  "client_read_content dec hs st =
     (if dec then detail_read_content body_receiver hs (2 ^ 64 - 1) 0 st []
      else read_body body_receiver hs (2 ^ 64 - 1) 0 st [])"

definition read_response_body ::
  "'w client \<Rightarrow> 'w client_request \<Rightarrow> client_response \<Rightarrow> client_error \<Rightarrow> conn \<Rightarrow> 'w network
     \<Rightarrow> (client_response option \<times> client_error \<times> conn \<times> 'w network) res" where
  "read_response_body c req res err st W =
     (if status res \<noteq> 204 \<and> req_method req \<noteq> ''HEAD'' \<and> req_method req \<noteq> ''CONNECT'' then
        (case (case response_handler req of
                 Some h \<Rightarrow> if is_redirect c res then (True, user W) else h res (user W)
               | None \<Rightarrow> (True, user W)) of (go_on, w) \<Rightarrow>
           if \<not> go_on then Inr (None, Canceled, st, W\<lparr>user := w\<rparr>)
           else
             rbind (client_read_content (decompress c) (rsp_headers res) st) (\<lambda>(content, _, st).
               case content of
                 None \<Rightarrow> Inr (None, if err = Canceled then err else Read_error, st, W\<lparr>user := w\<rparr>)
               | Some s \<Rightarrow> Inr (Some (res\<lparr>body := s\<rparr>), err, st, W\<lparr>user := w\<rparr>)))
      else Inr (Some res, err, st, W))"

definition ends_connection :: "client_response \<Rightarrow> bool res" where
  "ends_connection res =
     rbind (get_header_value (rsp_headers res) ''Connection'' 0 []) (\<lambda>v.
       Inr (v = ''close'' \<or> rsp_version res = ''HTTP/1.0'' \<and> reason res \<noteq> ''Connection established''))"

text \<open>
  A call that returns \<open>false\<close> has no response here: its callers drop what it has filled in. The
  request comes back with the fields that were added to it.
\<close>

type_synonym 'w reply =
  "client_response option \<times> client_error \<times> 'w client_request \<times> 'w client \<times> 'w network"

definition after_response ::
  "'w client \<Rightarrow> 'w client_request \<Rightarrow> client_response \<Rightarrow> client_error \<Rightarrow> conn \<Rightarrow> 'w network \<Rightarrow> 'w reply res" where
  "after_response c req res err st W =
     rbind (ends_connection res) (\<lambda>close.
       case (if close then close_client_socket (c\<lparr>cli_socket := Some st\<rparr>) W
             else (c\<lparr>cli_socket := Some st\<rparr>, W)) of (c, W) \<Rightarrow>
         Inr (Some res, err, req, c,
              case cli_logger c of None \<Rightarrow> W | Some l \<Rightarrow> W\<lparr>user := l req res (user W)\<rparr>))"

definition receive_response ::
  "'w client \<Rightarrow> 'w client_request \<Rightarrow> client_error \<Rightarrow> conn \<Rightarrow> 'w network \<Rightarrow> 'w reply res" where
  "receive_response c req err st W =
     (case read_response_line (req_method req) empty_client_response st of (ok, res, st) \<Rightarrow>
        if \<not> ok then Inr (None, Read_error, req, c\<lparr>cli_socket := Some st\<rparr>, W)
        else
          (case read_headers st (rsp_headers res) of (ok, st, hs) \<Rightarrow>
             if \<not> ok then Inr (None, Read_error, req, c\<lparr>cli_socket := Some st\<rparr>, W)
             else
               rbind (read_response_body c req (res\<lparr>rsp_headers := hs\<rparr>) err st W) (\<lambda>(ores, err, st, W).
                 case ores of
                   None \<Rightarrow> Inr (None, err, req, c\<lparr>cli_socket := Some st\<rparr>, W)
                 | Some res \<Rightarrow> after_response c req res err st W)))"

definition ClientImpl_process_request ::
  "'w client \<Rightarrow> 'w client_request \<Rightarrow> bool \<Rightarrow> client_error \<Rightarrow> conn \<Rightarrow> 'w network \<Rightarrow> 'w reply res option" where
  "ClientImpl_process_request c req close_connection err st W =
     robind (ClientImpl_write_request c req close_connection err st W) (\<lambda>(ok, err, req, st, W).
       if \<not> ok then Some (Inr (None, err, req, c\<lparr>cli_socket := Some st\<rparr>, W))
       else Some (receive_response c req err st W))"

text \<open>The part of \<open>handle_request\<close> before a redirect is looked for.\<close>

definition handle_once ::
  "'w client \<Rightarrow> 'w client_request \<Rightarrow> client_error \<Rightarrow> conn \<Rightarrow> 'w network \<Rightarrow> 'w reply res option" where
  "handle_once c req err st W =
     (if path req = [] then Some (Inr (None, Connection, req, c\<lparr>cli_socket := Some st\<rparr>, W))
      else if uses_proxy c then
        robind (ClientImpl_process_request c (req\<lparr>path := ''http://'' @ host_and_port c @ path req\<rparr>)
                  (\<not> cli_keep_alive c) err st W)
          (\<lambda>(ores, err, req2, c, W). Some (Inr (ores, err, req2\<lparr>path := path req\<rparr>, c, W)))
      else ClientImpl_process_request c req (\<not> cli_keep_alive c) err st W)"

section \<open>Redirects\<close>

text \<open>
  The regular expression of \<open>redirect\<close> on a whole location: scheme, host, port and path. What
  follows the authority matches every text, unless there is a line end behind the \<open>#\<close>, which no
  choice before it changes; so the first choice that fits is the only one that is tried.

  \<open>\\[([\\d:]+)\\]|([^:/?#]+)\<close>: what the alternatives take, and what is left.
\<close>

definition authorities :: "string \<Rightarrow> (string \<times> string) list" where
  "authorities t =
     (let v6 = takeWhile (\<lambda>c. is_digit c \<or> c = CHR '':'') (tl t);
          name = takeWhile (\<lambda>c. c \<notin> {CHR '':'', CHR ''/'', CHR ''?'', CHR ''#''}) t
      in (if take 1 t = ''['' \<and> v6 \<noteq> [] \<and> take 1 (drop (length v6 + 1) t) = '']''
          then [(v6, drop (length v6 + 2) t)] else [])
         @ (if name \<noteq> [] then [(name, drop (length name) t)] else []))"

definition match_port :: "string \<Rightarrow> string \<times> string" where
  "match_port t =
     (let ds = takeWhile is_digit (tl t) in
      if take 1 t = '':'' \<and> ds \<noteq> [] then (ds, drop (length ds + 1) t) else ([], t))"

definition match_path :: "string \<Rightarrow> string option" where
  "match_path t =
     (let p = takeWhile (\<lambda>c. c \<noteq> CHR ''?'' \<and> c \<noteq> CHR ''#'') t; q = drop (length p) t;
          query = (if take 1 q = ''?'' then takeWhile (\<lambda>c. c \<noteq> CHR ''#'') q else []);
          fragment = drop (length query) q
      in if list_all (\<lambda>c. c \<noteq> CR \<and> c \<noteq> LF) fragment then Some (p @ query) else None)"

definition match_location :: "string \<Rightarrow> (string \<times> string \<times> string \<times> string) option" where
  "match_location s =
     (case (if starts_with s ''https:'' then (''https'', drop 6 s)
            else if starts_with s ''http:'' then (''http'', drop 5 s) else ([], s)) of (scheme, s) \<Rightarrow>
        (case (if starts_with s ''//'' then authorities (drop 2 s) else []) of
           (host, t) # _ \<Rightarrow>
             (case match_port t of (port, t) \<Rightarrow> map_option (\<lambda>p. (scheme, host, port, p)) (match_path t))
         | [] \<Rightarrow> map_option (\<lambda>p. (scheme, [], [], p)) (match_path s)))"

text \<open>\<open>std::stoi\<close> on digits.\<close>

definition stoi_digits :: "string \<Rightarrow> int res" where
  "stoi_digits ds =
     (let n = int (dec_val ds) in if n < 2 ^ 31 then Inr n else Inl (Throws Std_out_of_range))"

text \<open>The request \<open>detail::redirect\<close> sends.\<close>

definition redirected_request :: "'w client_request \<Rightarrow> client_response \<Rightarrow> string \<Rightarrow> 'w client_request" where
  "redirected_request req res p =
     (let new_req = req\<lparr>path := p, redirect_count := redirect_count req - 1\<rparr> in
      if status res = 303 \<and> req_method req \<noteq> ''GET'' \<and> req_method req \<noteq> ''HEAD''
      then new_req\<lparr>req_method := ''GET'', req_body := [], req_headers := []\<rparr> else new_req)"

text \<open>
  \<open>ClientImpl::redirect\<close> up to the call of \<open>send\<close>: it fails, or sends with this client or with a new
  one. The last component is what becomes \<open>res.location\<close>.
\<close>

datatype 'w redirect =
    Not_redirected client_error
  | To_self "'w client_request" string
  | To_other "'w client" "'w client_request" string

definition next_hop :: "'w client \<Rightarrow> string \<times> string \<times> string \<times> string \<Rightarrow> (string \<times> string \<times> int \<times> string) res" where
  "next_hop c = (\<lambda>(scheme, host, port, p).
     rbind (if port \<noteq> [] then stoi_digits port
            else Inr (if scheme \<noteq> [] then (if scheme = ''https'' then 443 else 80) else cli_port c)) (\<lambda>next_port.
       Inr (if scheme = [] then ''http'' else scheme, if host = [] then cli_host c else host, next_port,
            if p = [] then ''/'' else p)))"

definition ClientImpl_redirect :: "'w client \<Rightarrow> 'w client_request \<Rightarrow> client_response \<Rightarrow> client_error \<Rightarrow> 'w redirect res" where
  "ClientImpl_redirect c req res err =
     (if redirect_count req = 0 then Inr (Not_redirected ExceedRedirectCount)
      else
        rbind (get_header_value (rsp_headers res) ''location'' 0 []) (\<lambda>v.
          let loc = decode_url v True in
          if loc = [] then Inr (Not_redirected err)
          else
            (case match_location loc of
               None \<Rightarrow> Inr (Not_redirected err)
             | Some m \<Rightarrow>
                 rbind (next_hop c m) (\<lambda>(scheme, host, port, p).
                   if scheme = ''http'' \<and> host = cli_host c \<and> port = cli_port c
                   then Inr (To_self (redirected_request req res p) loc)
                   else if scheme = ''https'' then Inr (Not_redirected err)
                   else Inr (To_other (copy_settings c (new_client (c_text host) port [] []))
                               (redirected_request req res p) loc)))))"

lemma redirect_count_less:
  assumes "ClientImpl_redirect c req res err = Inr r" and "r = To_self req' loc \<or> r = To_other c' req' loc"
  shows "redirect_count req' < redirect_count req"
  using assms
  by (auto simp: ClientImpl_redirect_def res_simps Let_def redirected_request_def
      split: if_splits option.splits)

section \<open>Sending\<close>

text \<open>The last part of \<open>send\<close>.\<close>

definition end_send ::
  "client_response option \<Rightarrow> client_error \<Rightarrow> 'w client_request \<Rightarrow> 'w client \<Rightarrow> 'w network \<Rightarrow> 'w reply" where
  "end_send ores err req c W =
     (let c = c\<lparr>requests_in_flight := requests_in_flight c - 1\<rparr>;
          err = (if ores = None \<and> err = Success then Unknown else err)
      in case (if close_when_done c \<or> \<not> cli_keep_alive c \<or> ores = None then close_client_socket c W else (c, W)) of
           (c, W) \<Rightarrow> (ores, err, req, c, W))"

text \<open>
  \<open>send\<close> with \<open>handle_request\<close> and \<open>detail::redirect\<close>. After a redirect that succeeds, the request and
  the response are those of the last hop; after one that fails, the request is the one before it.
  A client made for another host is destroyed, which closes its socket.
\<close>

function client_send :: "'w client \<Rightarrow> 'w client_request \<Rightarrow> client_error \<Rightarrow> 'w network \<Rightarrow> 'w reply res option" where
  "client_send c req err W =
     (case open_connection c W of
        (Inl e, c, W) \<Rightarrow> Some (Inr (None, e, req, c, W))
      | (Inr st, c, W) \<Rightarrow>
          (let req_save = add_default_headers c req in
           robind (handle_once c req_save err st W) (\<lambda>(ores, err, req1, c, W).
             case ores of
               None \<Rightarrow> Some (Inr (end_send None err req1 c W))
             | Some res \<Rightarrow>
                 if \<not> is_redirect c res then Some (Inr (end_send (Some res) err req1 c W))
                 else
                   robind (Some (ClientImpl_redirect c req_save res err)) (\<lambda>r.
                     case r of
                       Not_redirected err \<Rightarrow> Some (Inr (end_send None err req_save c W))
                     | To_self req2 loc \<Rightarrow>
                         robind (client_send c req2 err W) (\<lambda>(ores, err, req3, c, W).
                           Some (Inr (end_send (map_option (\<lambda>r. r\<lparr>location := loc\<rparr>) ores) err
                                        (if ores = None then req_save else req3) c W)))
                     | To_other c2 req2 loc \<Rightarrow>
                         robind (client_send c2 req2 err W) (\<lambda>(ores, err, req3, c2, W).
                           Some (Inr (end_send (map_option (\<lambda>r. r\<lparr>location := loc\<rparr>) ores) err
                                        (if ores = None then req_save else req3) c
                                        (snd (close_client_socket c2 W)))))))))"
  by pat_completeness auto
termination
  by (relation "measure (\<lambda>(c, req, err, W). redirect_count req)")
    (auto simp: add_default_headers_def dest!: redirect_count_less)

declare client_send.simps [simp del]

section \<open>Requests by method\<close>

record client_result =
  result_response :: "client_response option"
  result_error :: client_error
  result_headers :: headers

definition Result_has_request_header :: "client_result \<Rightarrow> string \<Rightarrow> bool" where
  "Result_has_request_header r key = mm_has to_lower (result_headers r) key"

definition Result_get_request_header_value :: "client_result \<Rightarrow> string \<Rightarrow> nat \<Rightarrow> string res" where
  "Result_get_request_header_value r key idx = get_header_value (result_headers r) key idx []"

definition Result_get_request_header_value_count :: "client_result \<Rightarrow> string \<Rightarrow> nat" where
  "Result_get_request_header_value_count r key = mm_count to_lower (result_headers r) key"

type_synonym 'w answered = "(client_result \<times> 'w client \<times> 'w network) res option"

text \<open>\<open>send_\<close>, and \<open>send\<close> with a request of one's own.\<close>

definition ClientImpl_send :: "'w client_request \<Rightarrow> 'w client \<Rightarrow> 'w network \<Rightarrow> 'w answered" where
  "ClientImpl_send req c W =
     robind (client_send c req Success W) (\<lambda>(ores, err, req, c, W).
       Some (Inr (\<lparr>result_response = ores, result_error = err, result_headers = req_headers req\<rparr>, c, W)))"

text \<open>\<open>send_with_content_provider\<close>: a body, a provider of known length, or one without.\<close>

datatype 'w upload_body =
    Plain_body string
  | Provider nat "'w content_provider"
  | Chunks "'w content_provider_without_length"

definition upload_request_of :: "string \<Rightarrow> string \<Rightarrow> headers \<Rightarrow> 'w upload_body \<Rightarrow> string option \<Rightarrow> 'w client_request" where
  "upload_request_of m p hs upload content_type =
     (let req = client_request m p
            (case content_type of Some t \<Rightarrow> mm_emplace to_lower ''Content-Type'' t hs | None \<Rightarrow> hs) in
      case upload of
        Plain_body s \<Rightarrow> req\<lparr>req_body := s\<rparr>
      | Provider n provider \<Rightarrow>
          req\<lparr>content_length := n, content_provider := Some provider, is_chunked_content_provider := False\<rparr>
      | Chunks provider \<Rightarrow>
          req\<lparr>content_length := 0, content_provider := Some (ContentProviderAdapter provider),
              is_chunked_content_provider := True,
              req_headers := mm_emplace to_lower ''Transfer-Encoding'' ''chunked'' (req_headers req)\<rparr>)"

definition send_with_content_provider ::
  "string \<Rightarrow> string \<Rightarrow> headers \<Rightarrow> 'w upload_body \<Rightarrow> string option \<Rightarrow> 'w client \<Rightarrow> 'w network \<Rightarrow> 'w answered" where
  "send_with_content_provider m p hs upload content_type =
     ClientImpl_send (upload_request_of m p hs upload content_type)"

definition ClientImpl_Get :: "string \<Rightarrow> headers \<Rightarrow> 'w client \<Rightarrow> 'w network \<Rightarrow> 'w answered" where
  "ClientImpl_Get p hs = ClientImpl_send (client_request ''GET'' p hs)"

text \<open>\<open>[^?]+\\?.*\<close> on a whole C string.\<close>

definition has_query :: "string \<Rightarrow> bool" where
  "has_query p \<longleftrightarrow>
     (let pre = takeWhile (\<lambda>c. c \<noteq> CHR ''?'') p; t = drop (length pre) p
      in pre \<noteq> [] \<and> t \<noteq> [] \<and> list_all (\<lambda>c. c \<noteq> CR \<and> c \<noteq> LF) (tl t))"

definition append_query_params :: "string \<Rightarrow> params \<Rightarrow> string" where
  "append_query_params p ps = p @ (if has_query p then ''&'' else ''?'') @ params_to_query_str ps"

definition ClientImpl_Get_params :: "string \<Rightarrow> params \<Rightarrow> headers \<Rightarrow> 'w client \<Rightarrow> 'w network \<Rightarrow> 'w answered" where
  "ClientImpl_Get_params p ps hs =
     (if ps = [] then ClientImpl_Get p hs else ClientImpl_Get (c_text (append_query_params p ps)) hs)"

definition ClientImpl_Head :: "string \<Rightarrow> headers \<Rightarrow> 'w client \<Rightarrow> 'w network \<Rightarrow> 'w answered" where
  "ClientImpl_Head p hs = ClientImpl_send (client_request ''HEAD'' p hs)"

definition ClientImpl_Options :: "string \<Rightarrow> headers \<Rightarrow> 'w client \<Rightarrow> 'w network \<Rightarrow> 'w answered" where
  "ClientImpl_Options p hs = ClientImpl_send (client_request ''OPTIONS'' p hs)"

definition ClientImpl_Post :: "string \<Rightarrow> headers \<Rightarrow> string \<Rightarrow> string option \<Rightarrow> 'w client \<Rightarrow> 'w network \<Rightarrow> 'w answered" where
  "ClientImpl_Post p hs content content_type = send_with_content_provider ''POST'' p hs (Plain_body content) content_type"

definition ClientImpl_Post_provider ::
  "string \<Rightarrow> headers \<Rightarrow> nat \<Rightarrow> 'w content_provider \<Rightarrow> string option \<Rightarrow> 'w client \<Rightarrow> 'w network \<Rightarrow> 'w answered" where
  "ClientImpl_Post_provider p hs n provider content_type =
     send_with_content_provider ''POST'' p hs (Provider n provider) content_type"

definition ClientImpl_Post_chunks ::
  "string \<Rightarrow> headers \<Rightarrow> 'w content_provider_without_length \<Rightarrow> string option \<Rightarrow> 'w client \<Rightarrow> 'w network \<Rightarrow> 'w answered" where
  "ClientImpl_Post_chunks p hs provider content_type =
     send_with_content_provider ''POST'' p hs (Chunks provider) content_type"

definition ClientImpl_Post_params :: "string \<Rightarrow> headers \<Rightarrow> params \<Rightarrow> 'w client \<Rightarrow> 'w network \<Rightarrow> 'w answered" where
  "ClientImpl_Post_params p hs ps =
     ClientImpl_Post p hs (params_to_query_str ps) (Some ''application/x-www-form-urlencoded'')"

definition ClientImpl_Post_items ::
  "string \<Rightarrow> headers \<Rightarrow> multipart_form_data list \<Rightarrow> string \<Rightarrow> 'w client \<Rightarrow> 'w network \<Rightarrow> 'w answered" where
  "ClientImpl_Post_items p hs items boundary c W =
     (if \<not> multipart_boundary_ok boundary
      then Some (Inr (\<lparr>result_response = None, result_error = UnsupportedMultipartBoundaryChars, result_headers = []\<rparr>, c, W))
      else ClientImpl_Post p hs (multipart_body boundary items) (Some (''multipart/form-data; boundary='' @ boundary)) c W)"

definition ClientImpl_Put :: "string \<Rightarrow> headers \<Rightarrow> string \<Rightarrow> string option \<Rightarrow> 'w client \<Rightarrow> 'w network \<Rightarrow> 'w answered" where
  "ClientImpl_Put p hs content content_type = send_with_content_provider ''PUT'' p hs (Plain_body content) content_type"

definition ClientImpl_Put_provider ::
  "string \<Rightarrow> headers \<Rightarrow> nat \<Rightarrow> 'w content_provider \<Rightarrow> string option \<Rightarrow> 'w client \<Rightarrow> 'w network \<Rightarrow> 'w answered" where
  "ClientImpl_Put_provider p hs n provider content_type =
     send_with_content_provider ''PUT'' p hs (Provider n provider) content_type"

definition ClientImpl_Put_chunks ::
  "string \<Rightarrow> headers \<Rightarrow> 'w content_provider_without_length \<Rightarrow> string option \<Rightarrow> 'w client \<Rightarrow> 'w network \<Rightarrow> 'w answered" where
  "ClientImpl_Put_chunks p hs provider content_type =
     send_with_content_provider ''PUT'' p hs (Chunks provider) content_type"

definition ClientImpl_Put_params :: "string \<Rightarrow> headers \<Rightarrow> params \<Rightarrow> 'w client \<Rightarrow> 'w network \<Rightarrow> 'w answered" where
  "ClientImpl_Put_params p hs ps =
     ClientImpl_Put p hs (params_to_query_str ps) (Some ''application/x-www-form-urlencoded'')"

definition ClientImpl_Patch :: "string \<Rightarrow> headers \<Rightarrow> string \<Rightarrow> string option \<Rightarrow> 'w client \<Rightarrow> 'w network \<Rightarrow> 'w answered" where
  "ClientImpl_Patch p hs content content_type = send_with_content_provider ''PATCH'' p hs (Plain_body content) content_type"

definition ClientImpl_Patch_provider ::
  "string \<Rightarrow> headers \<Rightarrow> nat \<Rightarrow> 'w content_provider \<Rightarrow> string option \<Rightarrow> 'w client \<Rightarrow> 'w network \<Rightarrow> 'w answered" where
  "ClientImpl_Patch_provider p hs n provider content_type =
     send_with_content_provider ''PATCH'' p hs (Provider n provider) content_type"

definition ClientImpl_Patch_chunks ::
  "string \<Rightarrow> headers \<Rightarrow> 'w content_provider_without_length \<Rightarrow> string option \<Rightarrow> 'w client \<Rightarrow> 'w network \<Rightarrow> 'w answered" where
  "ClientImpl_Patch_chunks p hs provider content_type =
     send_with_content_provider ''PATCH'' p hs (Chunks provider) content_type"

definition ClientImpl_Delete :: "string \<Rightarrow> headers \<Rightarrow> string \<Rightarrow> string option \<Rightarrow> 'w client \<Rightarrow> 'w network \<Rightarrow> 'w answered" where
  "ClientImpl_Delete p hs content content_type =
     ClientImpl_send
       ((client_request ''DELETE'' p
           (case content_type of Some t \<Rightarrow> mm_emplace to_lower ''Content-Type'' t hs | None \<Rightarrow> hs))
        \<lparr>req_body := content\<rparr>)"

section \<open>The client for a URL\<close>

text \<open>
  The constructor of \<open>Client\<close>: \<open>(?:([a-z]+):\\/\\/)?(?:\\[([\\d:]+)\\]|([^:/?#]+))(?::(\\d+))?\<close> on the
  whole text, else the text is the host. A scheme that is there cannot be read as a host, for \<open>://\<close>
  is no port; of the hosts the first is taken behind which the text ends.
\<close>

definition match_scheme_host_port :: "string \<Rightarrow> (string \<times> string \<times> string) option" where
  "match_scheme_host_port s =
     (let sch = takeWhile is_lower s;
          scheme = (if sch \<noteq> [] \<and> starts_with (drop (length sch) s) ''://'' then sch else []);
          t = (if scheme \<noteq> [] then drop (length sch + 3) s else s)
      in map_option (\<lambda>(host, t). (scheme, host, fst (match_port t)))
           (find (\<lambda>(host, t). snd (match_port t) = []) (authorities t)))"

definition universal_client :: "string \<Rightarrow> string \<Rightarrow> string \<Rightarrow> 'w client res" where
  "universal_client scheme_host_port cert key =
     (case match_scheme_host_port scheme_host_port of
        None \<Rightarrow> Inr (new_client scheme_host_port 80 cert key)
      | Some (scheme, host, port) \<Rightarrow>
          if scheme \<noteq> [] \<and> scheme \<noteq> ''http'' then Inl (Throws Invalid_argument)
          else
            rbind (if port \<noteq> [] then stoi_digits port else Inr 80) (\<lambda>p.
              Inr (new_client (c_text host) p cert key)))"

end
