(* ===== verification/Http_Connect.thy ===== *)
theory Http_Connect
  imports Http_Socket Http_Client
begin

text \<open>
  How sockets come to be (\<open>sgx/src/include/httplib.h\<close>): \<open>create_socket\<close> with the calls that bind a
  listening socket and those that connect a client, the addresses of a socket, and the part of
  \<open>Server\<close> that binds.

  The operating system is a record: the open descriptors with what is known of each, in the order
  they were opened, and its answers. An address that \<open>getaddrinfo\<close> gives carries the outcomes of
  the calls that try it, each of which is made at most once. As POSIX has it, \<open>socket\<close> gives the
  lowest number that is free.
\<close>

unbundle bit_operations_syntax

section \<open>The operating system\<close>

definition AF_UNSPEC :: int where "AF_UNSPEC = 0"
definition AF_INET :: int where "AF_INET = 2"
definition AF_INET6 :: int where "AF_INET6 = 10"
definition EINPROGRESS :: int where "EINPROGRESS = 115"
definition INET_ADDRSTRLEN :: nat where "INET_ADDRSTRLEN = 16"
definition O_NONBLOCK :: "32 word" where "O_NONBLOCK = 0x800"

datatype sock_option =
  Tcp_nodelay | Reuse_port | V6_only_off | Recv_timeout int int | Send_timeout int int

record sock =
  so_family :: int
  so_flags :: "32 word"
  so_cloexec :: bool
  so_options :: "sock_option list"
  so_bound :: "string option"
  so_listening :: bool
  so_peer :: "string option"

text \<open>
  What \<open>select\<close> says of a socket that is connecting: a signal, nothing within the timeout, an error,
  or that it is ready, with whether it can be read or written and what \<open>SO_ERROR\<close> then is (\<open>None\<close>
  when \<open>getsockopt\<close> fails). After the last event nothing happens.
\<close>

datatype ready_event = Ready_signal | Ready_timeout | Ready_select_error | Ready_for bool "int option"

record addr =
  ai_family :: int
  ai_addr :: string
  socket_ok :: bool
  cloexec_ok :: bool
  bind_ok :: bool
  listen_ok :: bool
  connect_errno :: "int option"
  becomes :: "ready_event list"

text \<open>An interface: its name and what \<open>inet_ntop\<close> writes, when its address is one of \<open>AF_INET\<close>.\<close>

record ifaddr =
  ifa_name :: string
  ifa_inet :: "string option"

record sockaddr =
  sa_family :: int
  sa_port :: "16 word"

record os =
  fds :: "(nat \<times> sock) list"
  resolve :: "string \<Rightarrow> string \<Rightarrow> int \<Rightarrow> int \<Rightarrow> addr list option"
  interfaces :: "ifaddr list option"
  sock_name :: "nat \<Rightarrow> sockaddr option"
  peer_name :: "nat \<Rightarrow> sockaddr option"
  name_info :: "sockaddr \<Rightarrow> string option"
  res_inits :: nat

type_synonym socket_options = "nat \<Rightarrow> os \<Rightarrow> os"

definition lowest_free :: "os \<Rightarrow> nat" where
  "lowest_free os = hd (filter (\<lambda>n. n \<notin> set (map fst (fds os))) [0..<Suc (length (fds os))])"

definition update_sock :: "nat \<Rightarrow> (sock \<Rightarrow> sock) \<Rightarrow> os \<Rightarrow> os" where
  "update_sock fd f os = os\<lparr>fds := map (\<lambda>(n, s). (n, if n = fd then f s else s)) (fds os)\<rparr>"

definition sys_socket :: "addr \<Rightarrow> os \<Rightarrow> nat option \<times> os" where
  "sys_socket a os =
     (if socket_ok a then
        (Some (lowest_free os),
         os\<lparr>fds := fds os @ [(lowest_free os,
           \<lparr>so_family = ai_family a, so_flags = 2, so_cloexec = False, so_options = [],
            so_bound = None, so_listening = False, so_peer = None\<rparr>)]\<rparr>)
      else (None, os))"

definition close_socket :: "nat \<Rightarrow> os \<Rightarrow> os" where
  "close_socket fd os = os\<lparr>fds := filter (\<lambda>(n, s). n \<noteq> fd) (fds os)\<rparr>"

definition setsockopt :: "nat \<Rightarrow> sock_option \<Rightarrow> os \<Rightarrow> os" where
  "setsockopt fd opt = update_sock fd (\<lambda>s. s\<lparr>so_options := so_options s @ [opt]\<rparr>)"

section \<open>The steps on one socket\<close>

definition default_socket_options :: socket_options where
  "default_socket_options fd os = setsockopt fd Reuse_port os"

definition set_nonblocking :: "nat \<Rightarrow> bool \<Rightarrow> os \<Rightarrow> os" where
  "set_nonblocking fd nonblocking =
     update_sock fd (\<lambda>s. s\<lparr>so_flags := (if nonblocking then so_flags s OR O_NONBLOCK
                                        else so_flags s AND NOT O_NONBLOCK)\<rparr>)"

definition is_connection_error :: "int \<Rightarrow> bool" where
  "is_connection_error errno \<longleftrightarrow> errno \<noteq> EINPROGRESS"

text \<open>\<open>bind_ip_address\<close>: the first address of the interface that can be bound.\<close>

primrec bind_first :: "nat \<Rightarrow> addr list \<Rightarrow> os \<Rightarrow> bool \<times> os" where
  "bind_first fd [] os = (False, os)"
| "bind_first fd (a # as) os =
     (if bind_ok a then (True, update_sock fd (\<lambda>s. s\<lparr>so_bound := Some (ai_addr a)\<rparr>) os)
      else bind_first fd as os)"

definition bind_ip_address :: "nat \<Rightarrow> string \<Rightarrow> os \<Rightarrow> bool \<times> os" where
  "bind_ip_address fd host os =
     (case resolve os host ''0'' AF_UNSPEC 0 of None \<Rightarrow> (False, os) | Some as \<Rightarrow> bind_first fd as os)"

text \<open>
  \<open>if2ip\<close>: when \<open>getifaddrs\<close> fails the pointer it was to set is read without a value. The text is
  the whole buffer, whatever follows the NUL in it.
\<close>

fun find_ip :: "string \<Rightarrow> ifaddr list \<Rightarrow> string" where
  "find_ip ifn [] = []"
| "find_ip ifn (i # is) =
     (case ifa_inet i of
        Some buf \<Rightarrow> if ifa_name i = ifn then take INET_ADDRSTRLEN buf else find_ip ifn is
      | None \<Rightarrow> find_ip ifn is)"

definition if2ip :: "string \<Rightarrow> os \<Rightarrow> string res" where
  "if2ip ifn os =
     (case interfaces os of
        None \<Rightarrow> Inl (Undefined Read_uninitialised)
      | Some is \<Rightarrow> Inr (find_ip ifn is))"

definition select_ready :: "ready_event list \<Rightarrow> (int \<times> bool \<times> int option) syscall \<times> ready_event list" where
  "select_ready es =
     (case es of
        [] \<Rightarrow> (Returns (0, False, None), [])
      | Ready_signal # es \<Rightarrow> (Interrupted, es)
      | Ready_timeout # es \<Rightarrow> (Returns (0, False, None), es)
      | Ready_select_error # es \<Rightarrow> (Returns (- 1, False, None), es)
      | Ready_for rw err # es \<Rightarrow> (Returns (1, rw, err), es))"

definition wait_until_socket_is_ready :: "nat \<Rightarrow> ready_event list \<Rightarrow> bool option" where
  "wait_until_socket_is_ready sock es =
     (if FD_SETSIZE \<le> sock then Some False
      else map_option (\<lambda>((ret, rw, err), es). 0 < ret \<and> rw \<and> err = Some 0) (handle_EINTR select_ready es))"

section \<open>Creating a socket\<close>

text \<open>
  \<open>create_socket\<close>. The call that binds or connects is an argument; it may end in undefined
  behaviour, and \<open>None\<close> would be a call that does not return. \<open>err\<close> is what the call keeps by
  reference.
\<close>

type_synonym 'e bind_or_connect = "nat \<Rightarrow> addr \<Rightarrow> 'e \<Rightarrow> os \<Rightarrow> (bool \<times> 'e \<times> os) res option"

definition prepare_socket :: "bool \<Rightarrow> socket_options option \<Rightarrow> nat \<Rightarrow> addr \<Rightarrow> os \<Rightarrow> os" where
  "prepare_socket nodelay opts fd a os =
     (let os = update_sock fd (\<lambda>s. s\<lparr>so_cloexec := True\<rparr>) os;
          os = (if nodelay then setsockopt fd Tcp_nodelay os else os);
          os = (case opts of None \<Rightarrow> os | Some f \<Rightarrow> f fd os)
      in if ai_family a = AF_INET6 then setsockopt fd V6_only_off os else os)"

primrec try_addresses ::
  "bool \<Rightarrow> socket_options option \<Rightarrow> 'e bind_or_connect \<Rightarrow> addr list \<Rightarrow> 'e \<Rightarrow> os \<Rightarrow> (nat option \<times> 'e \<times> os) res option" where
  "try_addresses nodelay opts act [] err os = Some (Inr (None, err, os))"
| "try_addresses nodelay opts act (a # as) err os =
     (case sys_socket a os of
        (None, os) \<Rightarrow> try_addresses nodelay opts act as err os
      | (Some fd, os) \<Rightarrow>
          if \<not> cloexec_ok a then try_addresses nodelay opts act as err os
          else
            (case act fd a err (prepare_socket nodelay opts fd a os) of
               None \<Rightarrow> None
             | Some (Inl e) \<Rightarrow> Some (Inl e)
             | Some (Inr (ok, err, os)) \<Rightarrow>
                 if ok then Some (Inr (Some fd, err, os))
                 else try_addresses nodelay opts act as err (close_socket fd os)))"

definition create_socket ::
  "string \<Rightarrow> int \<Rightarrow> int \<Rightarrow> int \<Rightarrow> bool \<Rightarrow> socket_options option \<Rightarrow> 'e bind_or_connect \<Rightarrow> 'e \<Rightarrow> os
   \<Rightarrow> (nat option \<times> 'e \<times> os) res option" where
  "create_socket host port family flags nodelay opts act err os =
     (case resolve os host (std_to_string port) family flags of
        None \<Rightarrow> Some (Inr (None, err, os\<lparr>res_inits := res_inits os + 1\<rparr>))
      | Some as \<Rightarrow> try_addresses nodelay opts act as err os)"

section \<open>Connecting a client\<close>

definition bind_interface :: "string \<Rightarrow> nat \<Rightarrow> os \<Rightarrow> (bool \<times> os) res" where
  "bind_interface intf fd os =
     (if intf = [] then Inr (True, os)
      else rbind (if2ip intf os) (\<lambda>ip. Inr (bind_ip_address fd (c_text (if ip = [] then intf else ip)) os)))"

definition connect_client :: "string \<Rightarrow> int \<times> int \<Rightarrow> int \<times> int \<Rightarrow> client_error bind_or_connect" where
  "connect_client intf rt wt fd a err os =
     (case bind_interface intf fd os of
        Inl e \<Rightarrow> Some (Inl e)
      | Inr (False, os) \<Rightarrow> Some (Inr (False, BindIPAddress, os))
      | Inr (True, os) \<Rightarrow>
          (let os = set_nonblocking fd True os in
           Option.bind
             (case connect_errno a of
                None \<Rightarrow> Some True
              | Some errno \<Rightarrow>
                  if is_connection_error errno then Some False else wait_until_socket_is_ready fd (becomes a))
             (\<lambda>connected.
               if \<not> connected then Some (Inr (False, Connection, os))
               else
                 (let os = update_sock fd (\<lambda>s. s\<lparr>so_peer := Some (ai_addr a)\<rparr>) os;
                      os = set_nonblocking fd False os;
                      os = setsockopt fd (Recv_timeout (fst rt) (snd rt)) os;
                      os = setsockopt fd (Send_timeout (fst wt) (snd wt)) os
                  in Some (Inr (True, Success, os))))))"

definition detail_create_client_socket ::
  "string \<Rightarrow> int \<Rightarrow> int \<Rightarrow> bool \<Rightarrow> socket_options option \<Rightarrow> int \<times> int \<Rightarrow> int \<times> int \<Rightarrow> string \<Rightarrow> client_error \<Rightarrow> os
   \<Rightarrow> (nat option \<times> client_error \<times> os) res option" where
  "detail_create_client_socket host port family nodelay opts rt wt intf err os =
     map_option (\<lambda>r. rbind r (\<lambda>(sock, err, os).
         Inr (sock, if sock \<noteq> None then Success else if err = Success then Connection else err, os)))
       (create_socket host port family 0 nodelay opts (connect_client intf rt wt) err os)"

definition ClientImpl_create_client_socket ::
  "'w client \<Rightarrow> socket_options option \<Rightarrow> client_error \<Rightarrow> os \<Rightarrow> (nat option \<times> client_error \<times> os) res option" where
  "ClientImpl_create_client_socket c opts err os =
     (let rt = (read_timeout_sec c, read_timeout_usec c);
          wt = (write_timeout_sec c, write_timeout_usec c)
      in if proxy_host c \<noteq> [] \<and> proxy_port c \<noteq> - 1 then
           detail_create_client_socket (c_text (proxy_host c)) (proxy_port c) (address_family c)
             (tcp_nodelay c) opts rt wt (cli_interface c) err os
         else
           detail_create_client_socket (c_text (cli_host c)) (cli_port c) (address_family c)
             (tcp_nodelay c) opts rt wt (cli_interface c) err os)"

section \<open>Addresses\<close>

definition ntohs :: "16 word \<Rightarrow> 16 word" where
  "ntohs w = (push_bit 8 w) OR (drop_bit 8 w)"

definition port_of :: "sockaddr \<Rightarrow> int \<Rightarrow> int" where
  "port_of sa port =
     (if sa_family sa = AF_INET \<or> sa_family sa = AF_INET6 then uint (ntohs (sa_port sa)) else port)"

definition get_remote_ip_and_port :: "nat \<Rightarrow> os \<Rightarrow> string \<Rightarrow> int \<Rightarrow> string \<times> int" where
  "get_remote_ip_and_port fd os ip port =
     (case peer_name os fd of
        None \<Rightarrow> (ip, port)
      | Some sa \<Rightarrow> (case name_info os sa of None \<Rightarrow> ip | Some t \<Rightarrow> t, port_of sa port))"

section \<open>Binding a server\<close>

text \<open>The members of \<open>Server\<close> that concern its sockets, beside the listener.\<close>

record endpoint = listener +
  srv_family :: int
  srv_nodelay :: bool
  srv_options :: "socket_options option"
  srv_read_timeout :: "int \<times> int"
  srv_write_timeout :: "int \<times> int"
  srv_idle_interval :: "int \<times> int"

definition new_endpoint :: endpoint where
  "new_endpoint =
     \<lparr>svr_sock = None, is_running = False, closed_socks = [], srv_family = AF_UNSPEC, srv_nodelay = False,
      srv_options = Some default_socket_options, srv_read_timeout = (5, 0), srv_write_timeout = (5, 0),
      srv_idle_interval = (0, 0)\<rparr>"

definition Server_set_address_family :: "int \<Rightarrow> endpoint \<Rightarrow> endpoint" where
  "Server_set_address_family family s = s\<lparr>srv_family := family\<rparr>"

definition Server_set_tcp_nodelay :: "bool \<Rightarrow> endpoint \<Rightarrow> endpoint" where
  "Server_set_tcp_nodelay on s = s\<lparr>srv_nodelay := on\<rparr>"

definition Server_set_socket_options :: "socket_options option \<Rightarrow> endpoint \<Rightarrow> endpoint" where
  "Server_set_socket_options opts s = s\<lparr>srv_options := opts\<rparr>"

definition Server_set_read_timeout :: "int \<Rightarrow> int \<Rightarrow> endpoint \<Rightarrow> endpoint" where
  "Server_set_read_timeout sec usec s = s\<lparr>srv_read_timeout := (sec, usec)\<rparr>"

definition Server_set_write_timeout :: "int \<Rightarrow> int \<Rightarrow> endpoint \<Rightarrow> endpoint" where
  "Server_set_write_timeout sec usec s = s\<lparr>srv_write_timeout := (sec, usec)\<rparr>"

definition Server_set_idle_interval :: "int \<Rightarrow> int \<Rightarrow> endpoint \<Rightarrow> endpoint" where
  "Server_set_idle_interval sec usec s = s\<lparr>srv_idle_interval := (sec, usec)\<rparr>"

definition bind_and_listen :: "unit bind_or_connect" where
  "bind_and_listen fd a err os =
     Some (Inr (if \<not> bind_ok a then (False, err, os)
       else
         (let os = update_sock fd (\<lambda>s. s\<lparr>so_bound := Some (ai_addr a)\<rparr>) os in
          if \<not> listen_ok a then (False, err, os)
          else (True, err, update_sock fd (\<lambda>s. s\<lparr>so_listening := True\<rparr>) os))))"

definition create_server_socket ::
  "endpoint \<Rightarrow> string \<Rightarrow> int \<Rightarrow> int \<Rightarrow> os \<Rightarrow> (nat option \<times> unit \<times> os) res option" where
  "create_server_socket s host port flags os =
     create_socket host port (srv_family s) flags (srv_nodelay s) (srv_options s) bind_and_listen () os"

definition bind_internal :: "string \<Rightarrow> int \<Rightarrow> int \<Rightarrow> endpoint \<Rightarrow> os \<Rightarrow> (int \<times> endpoint \<times> os) res option" where
  "bind_internal host port flags s os =
     map_option (\<lambda>r. rbind r (\<lambda>(sock, _, os).
         Inr (case sock of
                None \<Rightarrow> (- 1, s\<lparr>svr_sock := None\<rparr>, os)
              | Some fd \<Rightarrow>
                  (if port = 0 then
                     (case sock_name os fd of None \<Rightarrow> - 1 | Some sa \<Rightarrow> port_of sa (- 1))
                   else port, s\<lparr>svr_sock := Some fd\<rparr>, os))))
       (create_server_socket s host port flags os)"

definition bind_to_port :: "string \<Rightarrow> int \<Rightarrow> int \<Rightarrow> endpoint \<Rightarrow> os \<Rightarrow> (bool \<times> endpoint \<times> os) res option" where
  "bind_to_port host port flags s os =
     map_option (\<lambda>r. rbind r (\<lambda>(v, s, os). Inr (\<not> v < 0, s, os))) (bind_internal host port flags s os)"

definition bind_to_any_port :: "string \<Rightarrow> int \<Rightarrow> endpoint \<Rightarrow> os \<Rightarrow> (int \<times> endpoint \<times> os) res option" where
  "bind_to_any_port host flags s os = bind_internal host 0 flags s os"

text \<open>What \<open>listen_internal\<close> sets on a connection it has accepted.\<close>

definition set_accepted_timeouts :: "endpoint \<Rightarrow> nat \<Rightarrow> os \<Rightarrow> os" where
  "set_accepted_timeouts s fd os =
     setsockopt fd (Send_timeout (fst (srv_write_timeout s)) (snd (srv_write_timeout s)))
       (setsockopt fd (Recv_timeout (fst (srv_read_timeout s)) (snd (srv_read_timeout s))) os)"

text \<open>
  \<open>listen\<close>: the value it returns, or \<open>None\<close> while the loop of \<open>listen_internal\<close> has not ended; the
  connections that were accepted; server and system. The passes are as in \<open>Http_Server\<close>.
\<close>

definition listen_internal ::
  "listen_pass list \<Rightarrow> endpoint \<Rightarrow> os \<Rightarrow> bool option \<times> nat list \<times> endpoint \<times> os" where
  "listen_internal passes s os =
     (case listen_loop (0 < fst (srv_idle_interval s) \<or> 0 < snd (srv_idle_interval s)) passes [] of
        (jobs, None) \<Rightarrow> (None, jobs, s\<lparr>is_running := True\<rparr>, os)
      | (jobs, Some (closed, ret)) \<Rightarrow> (Some ret, jobs, s\<lparr>is_running := False\<rparr>, fold close_socket closed os))"

definition Server_listen ::
  "string \<Rightarrow> int \<Rightarrow> int \<Rightarrow> listen_pass list \<Rightarrow> endpoint \<Rightarrow> os
     \<Rightarrow> (bool option \<times> nat list \<times> endpoint \<times> os) res option" where
  "Server_listen host port flags passes s os =
     map_option (\<lambda>r. rbind r (\<lambda>(ok, s, os).
         Inr (if ok then listen_internal passes s os else (Some False, [], s, os))))
       (bind_to_port host port flags s os)"

section \<open>Facts about descriptors\<close>

text \<open>What a call that is given a descriptor may do: change what belongs to it, and nothing else.\<close>

definition only_changes :: "nat \<Rightarrow> os \<Rightarrow> os \<Rightarrow> bool" where
  "only_changes fd os os' \<longleftrightarrow>
     os' = os\<lparr>fds := fds os'\<rparr> \<and> map fst (fds os') = map fst (fds os) \<and>
     filter (\<lambda>p. fst p \<noteq> fd) (fds os') = filter (\<lambda>p. fst p \<noteq> fd) (fds os)"

definition opts_own :: "socket_options option \<Rightarrow> bool" where
  "opts_own opts \<longleftrightarrow> (\<forall>f fd os. opts = Some f \<longrightarrow> only_changes fd os (f fd os))"

lemma only_changes_refl [simp]: "only_changes fd os os"
  by (simp add: only_changes_def)

lemma only_changes_trans [trans]:
  "only_changes fd os os' \<Longrightarrow> only_changes fd os' os'' \<Longrightarrow> only_changes fd os os''"
  unfolding only_changes_def by (metis os.surjective os.update_convs(1))

lemma only_changes_interfaces: "only_changes fd os os' \<Longrightarrow> interfaces os' = interfaces os"
  unfolding only_changes_def by (metis os.ext_inject os.surjective os.update_convs(1))

lemma update_sock_own [simp]: "only_changes fd os (update_sock fd f os)"
proof -
  have "filter (\<lambda>p. fst p \<noteq> fd) (map (\<lambda>(n, s). (n, if n = fd then f s else s)) l) = filter (\<lambda>p. fst p \<noteq> fd) l" for l
    by (induction l) auto
  moreover have "map fst (map (\<lambda>(n, s). (n, if n = fd then f s else s)) l) = map fst l" for l
    by (induction l) auto
  ultimately show ?thesis by (simp add: only_changes_def update_sock_def)
qed

lemma update_sock_entry:
  "(n, s) \<in> set (fds (update_sock fd f os)) \<longleftrightarrow> (\<exists>s0. (n, s0) \<in> set (fds os) \<and> s = (if n = fd then f s0 else s0))"
  by (force simp: update_sock_def)

lemma own_steps [simp]:
  "only_changes fd os (setsockopt fd opt os)" "only_changes fd os (set_nonblocking fd b os)"
  by (simp_all add: setsockopt_def set_nonblocking_def)

lemma own_after:
  "only_changes fd os os0 \<Longrightarrow> only_changes fd os (update_sock fd f os0)"
  "only_changes fd os os0 \<Longrightarrow> only_changes fd os (setsockopt fd opt os0)"
  "only_changes fd os os0 \<Longrightarrow> only_changes fd os (set_nonblocking fd b os0)"
  "opts_own (Some g) \<Longrightarrow> only_changes fd os os0 \<Longrightarrow> only_changes fd os (g fd os0)"
  by (auto simp: opts_own_def elim: only_changes_trans)

lemma default_options_own: "opts_own (Some default_socket_options)" "opts_own None"
  by (simp_all add: opts_own_def default_socket_options_def)

lemma prepare_socket_own:
  assumes "opts_own opts"
  shows "only_changes fd os (prepare_socket nodelay opts fd a os)"
proof -
  define os1 where "os1 = update_sock fd (\<lambda>s. s\<lparr>so_cloexec := True\<rparr>) os"
  define os2 where "os2 = (if nodelay then setsockopt fd Tcp_nodelay os1 else os1)"
  define os3 where "os3 = (case opts of None \<Rightarrow> os2 | Some f \<Rightarrow> f fd os2)"
  have 1: "only_changes fd os os1" unfolding os1_def by simp
  have 2: "only_changes fd os os2" unfolding os2_def using own_after(2) [OF 1] 1 by simp
  have 3: "only_changes fd os os3"
  proof (cases opts)
    case None
    with 2 show ?thesis by (simp add: os3_def)
  next
    case (Some f)
    with own_after(4) [of f, OF _ 2] assms show ?thesis by (simp add: os3_def)
  qed
  have "prepare_socket nodelay opts fd a os = (if ai_family a = AF_INET6 then setsockopt fd V6_only_off os3 else os3)"
    unfolding prepare_socket_def Let_def os3_def os2_def os1_def by (rule refl)
  then show ?thesis using own_after(2) [OF 3] 3 by simp
qed

lemma lowest_free_new: "lowest_free os \<notin> set (map fst (fds os))"
proof -
  let ?u = "set (map fst (fds os))"
  have "\<not> {0..length (fds os)} \<subseteq> ?u"
  proof
    assume "{0..length (fds os)} \<subseteq> ?u"
    then have "card {0..length (fds os)} \<le> card ?u" by (rule card_mono [rotated]) simp
    also have "\<dots> \<le> length (fds os)" by (metis card_length length_map)
    finally show False by simp
  qed
  then have "filter (\<lambda>n. n \<notin> ?u) [0..<Suc (length (fds os))] \<noteq> []"
    by (auto simp: filter_empty_conv atLeastLessThanSuc_atLeastAtMost simp del: upt_Suc)
  from hd_in_set [OF this] have "lowest_free os \<in> set (filter (\<lambda>n. n \<notin> ?u) [0..<Suc (length (fds os))])"
    unfolding lowest_free_def .
  then show ?thesis unfolding set_filter by blast
qed

text \<open>The descriptor opened last is the only one that changes.\<close>

lemma only_changes_last:
  assumes "only_changes fd (os\<lparr>fds := l @ [(fd, s)]\<rparr>) os'" and "fd \<notin> set (map fst l)"
  obtains s' where "os' = os\<lparr>fds := l @ [(fd, s')]\<rparr>"
proof -
  from assms(1) have e: "os' = os\<lparr>fds := fds os'\<rparr>" and m: "map fst (fds os') = map fst l @ [fd]"
    and f: "filter (\<lambda>p. fst p \<noteq> fd) (fds os') = filter (\<lambda>p. fst p \<noteq> fd) (l @ [(fd, s)])"
    by (auto simp: only_changes_def)
  from m have "fds os' \<noteq> []" by fastforce
  then obtain l' p where d: "fds os' = l' @ [p]" by (metis rev_exhaust)
  with m have p: "fst p = fd" and m': "map fst l' = map fst l" by simp_all
  have keep: "fd \<notin> set (map fst k) \<Longrightarrow> filter (\<lambda>p. fst p \<noteq> fd) k = k" for k :: "(nat \<times> sock) list"
    by (auto simp: filter_id_conv)
  from keep [OF assms(2)] keep [of l', unfolded m', OF assms(2)] f d p have "l' = l" by simp
  with d p e have "os' = os\<lparr>fds := l @ [(fd, snd p)]\<rparr>" by (metis prod.collapse)
  then show ?thesis by (rule that)
qed

section \<open>What every way to set up a socket satisfies\<close>

definition lossy :: "addr \<Rightarrow> bool" where
  "lossy a \<longleftrightarrow> socket_ok a \<and> \<not> cloexec_ok a"

text \<open>
  The contract of the call that binds or connects: it returns, it touches its own socket only, and
  undefined behaviour needs an interface by name and a failure of \<open>getifaddrs\<close>.
\<close>

locale endpoint_setup =
  fixes act :: "'e bind_or_connect" and named :: bool
  assumes act_returns: "\<exists>r. act fd a err os = Some r"
    and act_own: "act fd a err os = Some (Inr (ok, err', os')) \<Longrightarrow> only_changes fd os os'"
    and act_undefined: "act fd a err os = Some (Inl e) \<Longrightarrow> named \<and> interfaces os = None"
begin

lemma returns: "\<exists>r. try_addresses nodelay opts act as err os = Some r"
proof (induction as arbitrary: err os)
  case (Cons a as)
  obtain sock os1 where s: "sys_socket a os = (sock, os1)" by fastforce
  show ?case
  proof (cases sock)
    case None
    with s Cons.IH show ?thesis by simp
  next
    case (Some fd)
    obtain r where "act fd a err (prepare_socket nodelay opts fd a os1) = Some r" using act_returns by blast
    with s Some Cons.IH show ?thesis by (cases r) auto
  qed
qed simp

text \<open>
  The descriptors after the call are those before it, one for each address that was given up when
  \<open>fcntl\<close> failed, and the one that is returned.
\<close>

lemma accounts:
  assumes "opts_own opts" and "try_addresses nodelay opts act as err os = Some (Inr (r, err', os'))"
  shows "\<exists>lost got. os' = os\<lparr>fds := fds os @ lost @ got\<rparr>
    \<and> map fst got = (case r of None \<Rightarrow> [] | Some fd \<Rightarrow> [fd])
    \<and> length lost \<le> length (filter lossy as) \<and> (r = None \<longrightarrow> length lost = length (filter lossy as))
    \<and> (distinct (map fst (fds os)) \<longrightarrow> distinct (map fst (fds os')))"
  using assms(2)
proof (induction as arbitrary: err os)
  case Nil
  then show ?case by (auto intro!: exI [of _ "[]"])
next
  case (Cons a as)
  show ?case
  proof (cases "socket_ok a")
    case False
    with Cons.prems have "try_addresses nodelay opts act as err os = Some (Inr (r, err', os'))"
      by (simp add: sys_socket_def)
    from Cons.IH [OF this] False show ?thesis by (auto simp: lossy_def)
  next
    case True
    define fd where "fd = lowest_free os"
    define s0 where "s0 = \<lparr>so_family = ai_family a, so_flags = 2, so_cloexec = False, so_options = [],
      so_bound = None, so_listening = False, so_peer = None\<rparr>"
    define os1 where "os1 = os\<lparr>fds := fds os @ [(fd, s0)]\<rparr>"
    have sys: "sys_socket a os = (Some fd, os1)"
      using True by (simp add: sys_socket_def fd_def os1_def s0_def)
    have new: "fd \<notin> set (map fst (fds os))" unfolding fd_def by (rule lowest_free_new)
    show ?thesis
    proof (cases "cloexec_ok a")
      case False
      with Cons.prems sys have "try_addresses nodelay opts act as err os1 = Some (Inr (r, err', os'))"
        by simp
      from Cons.IH [OF this] obtain lost got
        where "os' = os1\<lparr>fds := fds os1 @ lost @ got\<rparr>" "map fst got = (case r of None \<Rightarrow> [] | Some fd \<Rightarrow> [fd])"
          "length lost \<le> length (filter lossy as)" "r = None \<longrightarrow> length lost = length (filter lossy as)"
          "distinct (map fst (fds os1)) \<longrightarrow> distinct (map fst (fds os'))"
        by blast
      moreover from True False have "lossy a" by (simp add: lossy_def)
      ultimately show ?thesis
        using new by (intro exI [of _ "(fd, s0) # lost"] exI [of _ got]) (simp add: os1_def)
    next
      case cloexec: True
      obtain res where res: "act fd a err (prepare_socket nodelay opts fd a os1) = Some res"
        using act_returns by blast
      with Cons.prems sys cloexec obtain ok err1 os2 where "res = Inr (ok, err1, os2)"
        by (cases res) auto
      with res have act: "act fd a err (prepare_socket nodelay opts fd a os1) = Some (Inr (ok, err1, os2))"
        by simp
      have "only_changes fd os1 os2"
        using prepare_socket_own [OF assms(1)] act_own [OF act] by (rule only_changes_trans)
      then obtain s' where os2: "os2 = os\<lparr>fds := fds os @ [(fd, s')]\<rparr>"
        unfolding os1_def using new by (rule only_changes_last)
      show ?thesis
      proof (cases ok)
        case True
        with Cons.prems sys cloexec act have "r = Some fd" "os' = os2" by simp_all
        with os2 show ?thesis by (intro exI [of _ "[]"] exI [of _ "[(fd, s')]"]) (use new in simp)
      next
        case False
        have "\<And>p. p \<in> set (fds os) \<Longrightarrow> fst p \<noteq> fd"
          using new unfolding set_map by blast
        then have "filter (\<lambda>(n, s). n \<noteq> fd) (fds os) = fds os"
          by (simp add: filter_id_conv case_prod_unfold)
        with os2 have "close_socket fd os2 = os" by (simp add: close_socket_def)
        with False Cons.prems sys cloexec act
        have "try_addresses nodelay opts act as err1 os = Some (Inr (r, err', os'))" by simp
        from Cons.IH [OF this] cloexec show ?thesis by (auto simp: lossy_def)
      qed
    qed
  qed
qed

text \<open>A socket that is returned is one for which the call has just succeeded.\<close>

lemma success_from:
  "try_addresses nodelay opts act as err os = Some (Inr (Some fd, err', os')) \<Longrightarrow>
   \<exists>a \<in> set as. \<exists>err0 os0. act fd a err0 os0 = Some (Inr (True, err', os'))"
proof (induction as arbitrary: err os)
  case (Cons a as)
  then show ?case
    by (auto split: prod.splits option.splits sum.splits if_splits)
qed simp

lemma undefined_needs:
  assumes "opts_own opts" and "try_addresses nodelay opts act as err os = Some (Inl e)"
  shows "named \<and> interfaces os = None"
  using assms(2)
proof (induction as arbitrary: err os)
  case (Cons a as)
  obtain sock os1 where s: "sys_socket a os = (sock, os1)" by fastforce
  then have i1: "interfaces os1 = interfaces os" by (auto simp: sys_socket_def split: if_splits)
  show ?case
  proof (cases "sock = None \<or> \<not> cloexec_ok a")
    case True
    with s Cons.prems have "try_addresses nodelay opts act as err os1 = Some (Inl e)" by (auto split: option.splits)
    from Cons.IH [OF this] i1 show ?thesis by simp
  next
    case False
    then obtain fd where fd: "sock = Some fd" and c: "cloexec_ok a" by auto
    have i2: "interfaces (prepare_socket nodelay opts fd a os1) = interfaces os"
      using only_changes_interfaces [OF prepare_socket_own [OF assms(1)]] i1 by simp
    obtain r where r: "act fd a err (prepare_socket nodelay opts fd a os1) = Some r" using act_returns by blast
    show ?thesis
    proof (cases r)
      case (Inl e')
      with act_undefined r i2 show ?thesis by auto
    next
      case (Inr p)
      then obtain ok err1 os2 where p: "r = Inr (ok, err1, os2)" by (cases p) auto
      with s fd c r Cons.prems have "try_addresses nodelay opts act as err1 (close_socket fd os2) = Some (Inl e)"
        by (simp split: if_splits)
      from Cons.IH [OF this] only_changes_interfaces [OF act_own [OF r [unfolded p]]] i2
      show ?thesis by (simp add: close_socket_def)
    qed
  qed
qed simp

end

text \<open>When the address alone decides, the first one that can be used is taken.\<close>

locale predictable_setup = endpoint_setup +
  fixes usable :: "addr \<Rightarrow> bool"
  assumes act_usable: "act fd a err os = Some (Inr (ok, err', os')) \<Longrightarrow> ok = usable a"
begin

lemma first_usable:
  "try_addresses nodelay opts act as err os = Some (Inr (r, err', os')) \<Longrightarrow>
   case find (\<lambda>a. socket_ok a \<and> cloexec_ok a \<and> usable a) as of
     None \<Rightarrow> r = None
   | Some a \<Rightarrow> \<exists>fd err0 os0. r = Some fd \<and> act fd a err0 os0 = Some (Inr (True, err', os'))
       \<and> (opts_own opts \<longrightarrow> fd \<in> set (map fst (fds os0)))"
proof (induction as arbitrary: err os)
  case (Cons a as)
  obtain sock os1 where s: "sys_socket a os = (sock, os1)" by fastforce
  show ?case
  proof (cases "sock = None \<or> \<not> cloexec_ok a")
    case True
    with s Cons.prems have "try_addresses nodelay opts act as err os1 = Some (Inr (r, err', os'))"
      by (auto split: option.splits)
    from Cons.IH [OF this] True s show ?thesis by (cases "socket_ok a") (auto simp: sys_socket_def)
  next
    case False
    then obtain fd where fd: "sock = Some fd" and c: "cloexec_ok a" by auto
    with s have ok1: "socket_ok a" and in1: "fd \<in> set (map fst (fds os1))"
      by (auto simp: sys_socket_def split: if_splits)
    let ?os = "prepare_socket nodelay opts fd a os1"
    have in2: "opts_own opts \<longrightarrow> fd \<in> set (map fst (fds ?os))"
      using in1 prepare_socket_own [of opts fd os1 nodelay a] by (auto simp: only_changes_def)
    obtain r1 where r1: "act fd a err ?os = Some r1" using act_returns by blast
    with s fd c Cons.prems obtain ok err1 os2 where p: "r1 = Inr (ok, err1, os2)" by (cases r1) auto
    have u: "ok = usable a" using act_usable [OF r1 [unfolded p]] .
    show ?thesis
    proof (cases ok)
      case True
      with s fd c r1 p Cons.prems have "r = Some fd" "err' = err1" "os' = os2" by simp_all
      with True u ok1 c r1 p in2 show ?thesis by auto
    next
      case False
      with s fd c r1 p Cons.prems
      have "try_addresses nodelay opts act as err1 (close_socket fd os2) = Some (Inr (r, err', os'))" by simp
      from Cons.IH [OF this] False u show ?thesis by simp
    qed
  qed
qed simp

end

section \<open>The two ways, and what follows\<close>

lemma bind_first_own: "bind_first fd as os = (ok, os') \<Longrightarrow> only_changes fd os os'"
  by (induction as) (auto split: if_splits)

lemma bind_first_binds:
  "bind_first fd as os = (True, os') \<Longrightarrow> \<exists>a \<in> set as. os' = update_sock fd (\<lambda>s. s\<lparr>so_bound := Some (ai_addr a)\<rparr>) os"
  by (induction as) (auto split: if_splits)

lemma bind_interface_own: "bind_interface intf fd os = Inr (ok, os') \<Longrightarrow> only_changes fd os os'"
  by (auto simp: bind_interface_def rbind_def bind_ip_address_def dest: bind_first_own
      split: if_splits option.splits sum.splits)

lemma wait_returns: "\<exists>b. wait_until_socket_is_ready sock es = Some b"
proof -
  have "\<exists>r. handle_EINTR select_ready es = Some r"
  proof (induction es)
    case Nil
    then show ?case by (auto simp: select_ready_def handle_EINTR_returns)
  next
    case (Cons e es)
    show ?case
    proof (cases "e = Ready_signal")
      case True
      then have "select_ready (e # es) = (Interrupted, es)" by (simp add: select_ready_def)
      from handle_EINTR_again [of select_ready, OF this] Cons.IH show ?thesis by presburger
    next
      case False
      then obtain x where "select_ready (e # es) = (Returns x, es)" by (cases e) (auto simp: select_ready_def)
      from handle_EINTR_returns [of select_ready, OF this] show ?thesis by blast
    qed
  qed
  then show ?thesis by (auto simp: wait_until_socket_is_ready_def)
qed

text \<open>The three ends of \<open>connect_client\<close>.\<close>

lemma connect_client_cases:
  obtains (undefined) e where "bind_interface intf fd os = Inl e" "connect_client intf rt wt fd a err os = Some (Inl e)"
  | (unbound) os1 where "bind_interface intf fd os = Inr (False, os1)"
      "connect_client intf rt wt fd a err os = Some (Inr (False, BindIPAddress, os1))"
  | (refused) os1 where "bind_interface intf fd os = Inr (True, os1)"
      "connect_client intf rt wt fd a err os = Some (Inr (False, Connection, set_nonblocking fd True os1))"
  | (connected) os1 where "bind_interface intf fd os = Inr (True, os1)"
      "connect_client intf rt wt fd a err os = Some (Inr (True, Success,
         setsockopt fd (Send_timeout (fst wt) (snd wt)) (setsockopt fd (Recv_timeout (fst rt) (snd rt))
           (set_nonblocking fd False (update_sock fd (\<lambda>s. s\<lparr>so_peer := Some (ai_addr a)\<rparr>)
             (set_nonblocking fd True os1))))))"
proof (cases "bind_interface intf fd os")
  case (Inl e)
  with undefined show ?thesis by (simp add: connect_client_def)
next
  case (Inr p)
  then obtain ok os1 where p: "bind_interface intf fd os = Inr (ok, os1)" by (cases p) auto
  obtain b where b: "wait_until_socket_is_ready fd (becomes a) = Some b" using wait_returns by blast
  show ?thesis
  proof (cases ok)
    case False
    with p unbound show ?thesis by (simp add: connect_client_def)
  next
    case True
    with p b have "connect_client intf rt wt fd a err os = Some (Inr (False, Connection, set_nonblocking fd True os1))
      \<or> connect_client intf rt wt fd a err os = Some (Inr (True, Success,
         setsockopt fd (Send_timeout (fst wt) (snd wt)) (setsockopt fd (Recv_timeout (fst rt) (snd rt))
           (set_nonblocking fd False (update_sock fd (\<lambda>s. s\<lparr>so_peer := Some (ai_addr a)\<rparr>)
             (set_nonblocking fd True os1))))))"
      by (auto simp: connect_client_def Let_def split: option.splits)
    then show ?thesis
    proof
      assume "connect_client intf rt wt fd a err os = Some (Inr (False, Connection, set_nonblocking fd True os1))"
      with p True show ?thesis by (intro refused) simp_all
    next
      assume "connect_client intf rt wt fd a err os = Some (Inr (True, Success,
         setsockopt fd (Send_timeout (fst wt) (snd wt)) (setsockopt fd (Recv_timeout (fst rt) (snd rt))
           (set_nonblocking fd False (update_sock fd (\<lambda>s. s\<lparr>so_peer := Some (ai_addr a)\<rparr>)
             (set_nonblocking fd True os1))))))"
      with p True show ?thesis by (intro connected) simp_all
    qed
  qed
qed

interpretation client_socket: endpoint_setup "connect_client intf rt wt" "intf \<noteq> []" for intf rt wt
proof
  fix fd a err os
  show "\<exists>r. connect_client intf rt wt fd a err os = Some r"
    by (cases rule: connect_client_cases [of intf fd os rt wt a err]) auto
next
  fix fd a err os ok err' os'
  assume c: "connect_client intf rt wt fd a err os = Some (Inr (ok, err', os'))"
  show "only_changes fd os os'"
    by (cases rule: connect_client_cases [of intf fd os rt wt a err])
      (use c in \<open>auto dest!: bind_interface_own intro!: own_after\<close>)
next
  fix fd a err os e
  assume c: "connect_client intf rt wt fd a err os = Some (Inl e)"
  show "intf \<noteq> [] \<and> interfaces os = None"
    by (cases rule: connect_client_cases [of intf fd os rt wt a err])
      (use c in \<open>auto simp: bind_interface_def rbind_def if2ip_def split: if_splits option.splits\<close>)
qed

lemma bind_and_listen_ok:
  "bind_and_listen fd a err os = Some (Inr (ok, err', os')) \<Longrightarrow>
   ok = (bind_ok a \<and> listen_ok a) \<and> only_changes fd os os'"
  by (auto simp: bind_and_listen_def Let_def intro: own_after split: if_splits)

interpretation server_socket: predictable_setup bind_and_listen False "\<lambda>a. bind_ok a \<and> listen_ok a"
  by unfold_locales (auto simp: bind_and_listen_ok bind_and_listen_def)

lemma cleared [simp]: "(w AND NOT O_NONBLOCK) AND O_NONBLOCK = 0"
  by (simp add: and.assoc)

lemma connected_entry:
  assumes "connect_client intf rt wt fd a err os = Some (Inr (True, err', os'))" and "(fd, s) \<in> set (fds os')"
  shows "err' = Success \<and> so_flags s AND O_NONBLOCK = 0 \<and> so_peer s = Some (ai_addr a)
    \<and> (\<exists>set_before. so_options s = set_before @ [Recv_timeout (fst rt) (snd rt), Send_timeout (fst wt) (snd wt)])
    \<and> (intf \<noteq> [] \<longrightarrow> so_bound s \<noteq> None)"
proof -
  from assms(1) obtain os1 where b: "bind_interface intf fd os = Inr (True, os1)" and "err' = Success"
    and "os' = setsockopt fd (Send_timeout (fst wt) (snd wt)) (setsockopt fd (Recv_timeout (fst rt) (snd rt))
           (set_nonblocking fd False (update_sock fd (\<lambda>s. s\<lparr>so_peer := Some (ai_addr a)\<rparr>)
             (set_nonblocking fd True os1))))"
    by (cases rule: connect_client_cases [of intf fd os rt wt a err]) auto
  moreover have "(fd, s1) \<in> set (fds os1) \<Longrightarrow> intf \<noteq> [] \<Longrightarrow> so_bound s1 \<noteq> None" for s1
    using b by (auto simp: bind_interface_def rbind_def bind_ip_address_def update_sock_entry
      dest!: bind_first_binds split: sum.splits option.splits)
  ultimately show ?thesis
    using assms(2) by (auto simp: setsockopt_def set_nonblocking_def update_sock_entry)
qed

lemma connect_client_error:
  "connect_client intf rt wt fd a err os = Some (Inr (False, err', os')) \<Longrightarrow> err' \<in> {Connection, BindIPAddress}"
  by (cases rule: connect_client_cases [of intf fd os rt wt a err]) auto

lemma try_error:
  "try_addresses nodelay opts (connect_client intf rt wt) as err os = Some (Inr (None, err', os')) \<Longrightarrow>
   err' \<in> {err, Connection, BindIPAddress}"
proof (induction as arbitrary: err os)
  case (Cons a as)
  obtain sock os1 where s: "sys_socket a os = (sock, os1)" by fastforce
  show ?case
  proof (cases "sock = None \<or> \<not> cloexec_ok a")
    case True
    with s Cons.prems have "try_addresses nodelay opts (connect_client intf rt wt) as err os1 = Some (Inr (None, err', os'))"
      by (auto split: option.splits)
    from Cons.IH [OF this] show ?thesis .
  next
    case False
    then obtain fd where "sock = Some fd" "cloexec_ok a" by auto
    with s Cons.prems obtain err1 os2
      where c: "connect_client intf rt wt fd a err (prepare_socket nodelay opts fd a os1) = Some (Inr (False, err1, os2))"
        and r: "try_addresses nodelay opts (connect_client intf rt wt) as err1 (close_socket fd os2) = Some (Inr (None, err', os'))"
      by (auto split: option.splits sum.splits if_splits)
    from Cons.IH [OF r] connect_client_error [OF c] show ?thesis by auto
  qed
qed simp

text \<open>A socket of a client that could be created, or the error.\<close>

lemma client_socket_result:
  assumes own: "opts_own opts" and res: "resolve os host (std_to_string port) family 0 = Some as"
    and run: "detail_create_client_socket host port family nodelay opts rt wt intf err os = Some (Inr (r, err', os'))"
  obtains lost got where "os' = os\<lparr>fds := fds os @ lost @ got\<rparr>"
    and "map fst got = (case r of None \<Rightarrow> [] | Some fd \<Rightarrow> [fd])"
    and "length lost \<le> length (filter lossy as)" and "r = None \<Longrightarrow> length lost = length (filter lossy as)"
    and "distinct (map fst (fds os)) \<Longrightarrow> distinct (map fst (fds os'))"
    and "r = None \<Longrightarrow> err' \<noteq> Success \<and> err' \<in> {err, Connection, BindIPAddress}"
    and "\<And>fd. r = Some fd \<Longrightarrow> err' = Success \<and> (\<exists>a \<in> set as. \<exists>s. got = [(fd, s)]
       \<and> so_flags s AND O_NONBLOCK = 0 \<and> so_peer s = Some (ai_addr a)
       \<and> (\<exists>set_before. so_options s = set_before @ [Recv_timeout (fst rt) (snd rt), Send_timeout (fst wt) (snd wt)])
       \<and> (intf \<noteq> [] \<longrightarrow> so_bound s \<noteq> None))"
proof -
  obtain z where z: "try_addresses nodelay opts (connect_client intf rt wt) as err os = Some z"
    using client_socket.returns by blast
  with run res obtain err1
    where t: "try_addresses nodelay opts (connect_client intf rt wt) as err os = Some (Inr (r, err1, os'))"
      and e: "err' = (if r \<noteq> None then Success else if err1 = Success then Connection else err1)"
    by (cases z) (auto simp: detail_create_client_socket_def create_socket_def)
  from client_socket.accounts [OF own t] obtain lost got where a: "os' = os\<lparr>fds := fds os @ lost @ got\<rparr>"
    "map fst got = (case r of None \<Rightarrow> [] | Some fd \<Rightarrow> [fd])" "length lost \<le> length (filter lossy as)"
    "r = None \<longrightarrow> length lost = length (filter lossy as)"
    "distinct (map fst (fds os)) \<longrightarrow> distinct (map fst (fds os'))" by blast
  have ready: "err' = Success \<and> (\<exists>a \<in> set as. \<exists>s. got = [(fd, s)]
       \<and> so_flags s AND O_NONBLOCK = 0 \<and> so_peer s = Some (ai_addr a)
       \<and> (\<exists>set_before. so_options s = set_before @ [Recv_timeout (fst rt) (snd rt), Send_timeout (fst wt) (snd wt)])
       \<and> (intf \<noteq> [] \<longrightarrow> so_bound s \<noteq> None))" if r: "r = Some fd" for fd
  proof -
    from a(2) r have "map fst got = [fd]" by simp
    then obtain s where g: "got = [(fd, s)]" by (cases got) auto
    from client_socket.success_from [OF t [unfolded r]] obtain b err0 os0 where "b \<in> set as"
      and c: "connect_client intf rt wt fd b err0 os0 = Some (Inr (True, err1, os'))" by blast
    moreover from a(1) g have "(fd, s) \<in> set (fds os')" by simp
    ultimately show ?thesis using connected_entry [OF c] g e r by auto
  qed
  show ?thesis
  proof (rule that [OF a(1-3)])
    show "r = None \<Longrightarrow> length lost = length (filter lossy as)" using a(4) by simp
    show "distinct (map fst (fds os)) \<Longrightarrow> distinct (map fst (fds os'))" using a(5) by simp
    show "err' \<noteq> Success \<and> err' \<in> {err, Connection, BindIPAddress}" if "r = None"
      using try_error [of nodelay opts intf rt wt as err os err1 os'] t e that by auto
  qed (rule ready)
qed

section \<open>The properties\<close>

definition addr_of :: "string \<Rightarrow> int \<Rightarrow> bool \<Rightarrow> bool \<Rightarrow> int option \<Rightarrow> ready_event list \<Rightarrow> addr" where
  "addr_of n family cloexec can_bind errno es =
     \<lparr>ai_family = family, ai_addr = n, socket_ok = True, cloexec_ok = cloexec, bind_ok = can_bind, listen_ok = True,
      connect_errno = errno, becomes = es\<rparr>"

text \<open>
  A system with the standard descriptors, where every name has two addresses: one whose socket is
  lost, and one that connects after a signal.
\<close>

definition std_sock :: sock where
  "std_sock = \<lparr>so_family = 0, so_flags = 2, so_cloexec = False, so_options = [], so_bound = None,
     so_listening = False, so_peer = None\<rparr>"

definition example_addrs :: "addr list" where
  "example_addrs =
     [addr_of ''::1'' AF_INET6 False True (Some 111) [],
      addr_of ''10.0.0.2'' AF_INET True True (Some EINPROGRESS) [Ready_signal, Ready_for True (Some 0)]]"

definition os_example :: os where
  "os_example =
     \<lparr>fds = [(0, std_sock), (1, std_sock), (2, std_sock)], resolve = (\<lambda>_ _ _ _. Some example_addrs),
      interfaces = Some [\<lparr>ifa_name = ''eth0'', ifa_inet = Some (''10.0.0.9'' @ [NUL])\<rparr>],
      sock_name = (\<lambda>_. None), peer_name = (\<lambda>_. None), name_info = (\<lambda>_. None), res_inits = 0\<rparr>"

lemma example_connects:
  "map_option (\<lambda>r. rbind r (\<lambda>(r, e, os). Inr (r, e, map fst (fds os))))
     (detail_create_client_socket ''h'' 80 AF_UNSPEC True (Some default_socket_options) (5, 0) (5, 0) [] Success os_example)
   = Some (Inr (Some 4, Success, [0, 1, 2, 3, 4]))"
  by code_simp

lemma example_socket:
  obtains os' where
    "detail_create_client_socket ''h'' 80 AF_UNSPEC True (Some default_socket_options) (5, 0) (5, 0) [] Success os_example
      = Some (Inr (Some 4, Success, os'))" and "map fst (fds os') = [0, 1, 2, 3, 4]"
  using example_connects
  by (cases "detail_create_client_socket ''h'' 80 AF_UNSPEC True (Some default_socket_options) (5, 0) (5, 0) [] Success os_example";
      force simp: rbind_def split: sum.splits)

lemma example_facts:
  "resolve os_example h p f g = Some example_addrs" "map fst (fds os_example) = [0, 1, 2]"
  "filter (\<lambda>a. socket_ok a \<and> \<not> cloexec_ok a) example_addrs = [hd example_addrs]"
  by (simp_all add: os_example_def example_addrs_def addr_of_def)

text \<open>
  C26. Creating the socket of a client returns, whatever the system answers and however often a
  signal interrupts the wait; undefined behaviour needs an interface by name and a failure of
  \<open>getifaddrs\<close>, whose result is not looked at.
\<close>

theorem client_socket_returns:
  assumes "opts_own opts"
  shows "\<exists>r. detail_create_client_socket host port family nodelay opts rt wt intf err os = Some r
    \<and> (\<forall>e. r = Inl e \<longrightarrow> intf \<noteq> [] \<and> interfaces os = None)"
proof (cases "resolve os host (std_to_string port) family 0")
  case None
  then show ?thesis by (simp add: detail_create_client_socket_def create_socket_def)
next
  case (Some as)
  obtain z where z: "try_addresses nodelay opts (connect_client intf rt wt) as err os = Some z"
    using client_socket.returns by blast
  show ?thesis
  proof (cases z)
    case (Inl e)
    with client_socket.undefined_needs [OF assms z [unfolded Inl]] Some z show ?thesis
      by (simp add: detail_create_client_socket_def create_socket_def)
  next
    case (Inr p)
    with Some z show ?thesis
      by (cases p) (simp add: detail_create_client_socket_def create_socket_def)
  qed
qed

lemma client_socket_returns_witness:
  "\<exists>r. detail_create_client_socket ''h'' 80 AF_UNSPEC True (Some default_socket_options) (5, 0) (5, 0) ''eth0'' Success os_example = Some r
    \<and> (\<forall>e. r = Inl e \<longrightarrow> ''eth0'' \<noteq> [] \<and> interfaces os_example = None)"
  by (rule client_socket_returns) (rule default_options_own)

text \<open>
  C14. After the call every descriptor that was open is as it was, and beside it are open the one
  that is returned and one for each address given up because \<open>fcntl\<close> failed: these are lost, all
  others have been closed.
\<close>

theorem client_sockets_accounted:
  assumes "opts_own opts" and "resolve os host (std_to_string port) family 0 = Some as"
    and "distinct (map fst (fds os))"
    and "detail_create_client_socket host port family nodelay opts rt wt intf err os = Some (Inr (r, err', os'))"
  shows "\<exists>lost. map fst (fds os') = map fst (fds os) @ lost @ (case r of None \<Rightarrow> [] | Some fd \<Rightarrow> [fd])
    \<and> take (length (fds os)) (fds os') = fds os \<and> distinct (map fst (fds os'))
    \<and> length lost \<le> length (filter (\<lambda>a. socket_ok a \<and> \<not> cloexec_ok a) as)
    \<and> (r = None \<longrightarrow> length lost = length (filter (\<lambda>a. socket_ok a \<and> \<not> cloexec_ok a) as))"
proof -
  from client_socket_result [OF assms(1,2,4)] obtain lost got where r: "os' = os\<lparr>fds := fds os @ lost @ got\<rparr>"
    "map fst got = (case r of None \<Rightarrow> [] | Some fd \<Rightarrow> [fd])" "length lost \<le> length (filter lossy as)"
    "r = None \<Longrightarrow> length lost = length (filter lossy as)"
    "distinct (map fst (fds os)) \<Longrightarrow> distinct (map fst (fds os'))" by metis
  have l: "lossy = (\<lambda>a. socket_ok a \<and> \<not> cloexec_ok a)" by (simp add: fun_eq_iff lossy_def)
  show ?thesis
    by (intro exI [of _ "map fst lost"] conjI)
      (use r assms(3) in \<open>simp_all add: l\<close>)
qed

lemma client_sockets_accounted_witness:
  "\<exists>os'. detail_create_client_socket ''h'' 80 AF_UNSPEC True (Some default_socket_options) (5, 0) (5, 0) [] Success os_example
      = Some (Inr (Some 4, Success, os'))
    \<and> (\<exists>lost. map fst (fds os') = [0, 1, 2] @ lost @ [4] \<and> length lost = 1)"
proof -
  obtain os' where d: "detail_create_client_socket ''h'' 80 AF_UNSPEC True (Some default_socket_options) (5, 0) (5, 0) [] Success os_example
      = Some (Inr (Some 4, Success, os'))" and m: "map fst (fds os') = [0, 1, 2, 3, 4]" by (rule example_socket)
  from client_sockets_accounted [OF default_options_own(1) example_facts(1) _ d] obtain lost
    where "map fst (fds os') = map fst (fds os_example) @ lost @ [4]" by (auto simp: example_facts)
  with m have "map fst (fds os') = [0, 1, 2] @ lost @ [4] \<and> length lost = 1" by (auto simp: example_facts)
  with d show ?thesis by blast
qed

text \<open>
  C15. A socket that is returned to a client belongs to one of the addresses of the host, is
  connected to it, blocks again, has the timeouts of the client set last and is bound when an
  interface was asked for; without one the error says that binding or connecting failed.
\<close>

theorem client_socket_ready:
  assumes "opts_own opts" and "resolve os host (std_to_string port) family 0 = Some as"
    and "detail_create_client_socket host port family nodelay opts rt wt intf Success os = Some (Inr (r, err', os'))"
  shows "case r of
      None \<Rightarrow> err' \<in> {Connection, BindIPAddress}
    | Some fd \<Rightarrow> err' = Success \<and> (\<exists>a \<in> set as. \<exists>s. last (fds os') = (fd, s)
        \<and> so_flags s AND O_NONBLOCK = 0 \<and> so_peer s = Some (ai_addr a)
        \<and> (\<exists>before. so_options s = before @ [Recv_timeout (fst rt) (snd rt), Send_timeout (fst wt) (snd wt)])
        \<and> (intf \<noteq> [] \<longrightarrow> so_bound s \<noteq> None))"
proof (rule client_socket_result [OF assms])
  fix lost got
  assume o: "os' = os\<lparr>fds := fds os @ lost @ got\<rparr>" and n: "r = None \<Longrightarrow> err' \<noteq> Success \<and> err' \<in> {Success, Connection, BindIPAddress}"
    and s: "\<And>fd. r = Some fd \<Longrightarrow> err' = Success \<and> (\<exists>a \<in> set as. \<exists>s. got = [(fd, s)]
       \<and> so_flags s AND O_NONBLOCK = 0 \<and> so_peer s = Some (ai_addr a)
       \<and> (\<exists>before. so_options s = before @ [Recv_timeout (fst rt) (snd rt), Send_timeout (fst wt) (snd wt)])
       \<and> (intf \<noteq> [] \<longrightarrow> so_bound s \<noteq> None))"
  show ?thesis
  proof (cases r)
    case None
    with n show ?thesis by auto
  next
    case (Some fd)
    from s [OF this] o Some show ?thesis by force
  qed
qed

lemma client_socket_ready_witness:
  "\<exists>os' s. detail_create_client_socket ''h'' 80 AF_UNSPEC True (Some default_socket_options) (5, 0) (5, 0) [] Success os_example
      = Some (Inr (Some 4, Success, os'))
    \<and> last (fds os') = (4, s) \<and> so_flags s AND O_NONBLOCK = 0 \<and> so_peer s \<noteq> None"
proof -
  obtain os' where d: "detail_create_client_socket ''h'' 80 AF_UNSPEC True (Some default_socket_options) (5, 0) (5, 0) [] Success os_example
      = Some (Inr (Some 4, Success, os'))" by (rule example_socket)
  from client_socket_ready [OF default_options_own(1) example_facts(1) d] d show ?thesis by auto
qed

text \<open>What the client of \<open>Http_Client\<close> is given as the outcome of a call that connects.\<close>

definition connect_outcome :: "(nat \<Rightarrow> os \<Rightarrow> conn) \<Rightarrow> nat option \<times> client_error \<times> os \<Rightarrow> client_error + conn" where
  "connect_outcome stream r = (case r of (Some fd, _, os) \<Rightarrow> Inr (stream fd os) | (None, e, _) \<Rightarrow> Inl e)"

lemma failure_is_told:
  assumes "detail_create_client_socket host port family nodelay opts rt wt intf err os = Some (Inr (None, err', os'))"
  shows "err' \<noteq> Success"
proof (cases "create_socket host port family 0 nodelay opts (connect_client intf rt wt) err os")
  case None
  with assms show ?thesis by (simp add: detail_create_client_socket_def)
next
  case (Some z)
  with assms show ?thesis by (cases z) (auto simp: detail_create_client_socket_def split: if_splits)
qed

lemma connects_refined:
  assumes "opts_own opts" and "ClientImpl_create_client_socket c opts Success os = Some (Inr (r, err, os'))"
  shows "fst (create_client_socket c (W\<lparr>connects := connect_outcome stream (r, err, os') # rs\<rparr>))
    = connect_outcome stream (r, err, os')"
proof -
  have "r = None \<Longrightarrow> err \<noteq> Success"
    using assms(2) unfolding ClientImpl_create_client_socket_def Let_def
    by (auto dest: failure_is_told split: if_splits)
  then show ?thesis
    by (cases r) (auto simp: create_client_socket_def connect_outcome_def Let_def)
qed

lemma bind_spec:
  assumes "opts_own (srv_options s)" and "distinct (map fst (fds os))"
  shows "\<exists>v s' os'. bind_internal host port flags s os = Some (Inr (v, s', os'))
    \<and> take (length (fds os)) (fds os') = fds os
    \<and> (case Option.bind (resolve os host (std_to_string port) (srv_family s) flags)
              (find (\<lambda>a. socket_ok a \<and> cloexec_ok a \<and> bind_ok a \<and> listen_ok a)) of
         None \<Rightarrow> v = - 1 \<and> svr_sock s' = None
       | Some a \<Rightarrow> \<exists>fd sk. svr_sock s' = Some fd \<and> fd \<notin> set (map fst (fds os)) \<and> (fd, sk) \<in> set (fds os')
           \<and> so_bound sk = Some (ai_addr a) \<and> so_listening sk \<and> (port \<noteq> 0 \<longrightarrow> v = port))"
proof (cases "resolve os host (std_to_string port) (srv_family s) flags")
  case None
  then show ?thesis
    by (simp add: bind_internal_def create_server_socket_def create_socket_def)
next
  case (Some as)
  obtain z where z: "try_addresses (srv_nodelay s) (srv_options s) bind_and_listen as () os = Some z"
    using server_socket.returns by blast
  with server_socket.undefined_needs [OF assms(1)] obtain r os' where t:
    "try_addresses (srv_nodelay s) (srv_options s) bind_and_listen as () os = Some (Inr (r, (), os'))"
    by (cases z) auto
  from server_socket.accounts [OF assms(1) t] assms(2) obtain lost got where a:
    "os' = os\<lparr>fds := fds os @ lost @ got\<rparr>" "map fst got = (case r of None \<Rightarrow> [] | Some fd \<Rightarrow> [fd])"
    "distinct (map fst (fds os'))" by blast
  have b: "bind_internal host port flags s os = Some (Inr
      (case r of
         None \<Rightarrow> (- 1, s\<lparr>svr_sock := None\<rparr>, os')
       | Some fd \<Rightarrow> (if port = 0 then (case sock_name os' fd of None \<Rightarrow> - 1 | Some sa \<Rightarrow> port_of sa (- 1)) else port,
                     s\<lparr>svr_sock := Some fd\<rparr>, os')))"
    using t Some by (simp add: bind_internal_def create_server_socket_def create_socket_def)
  show ?thesis
  proof (cases "find (\<lambda>a. socket_ok a \<and> cloexec_ok a \<and> bind_ok a \<and> listen_ok a) as")
    case None
    with server_socket.first_usable [OF t] have "r = None" by simp
    with b a None Some show ?thesis by simp
  next
    case f: (Some x)
    with server_socket.first_usable [OF t] assms(1) obtain fd os0 where r: "r = Some fd"
      and c: "bind_and_listen fd x () os0 = Some (Inr (True, (), os'))" by auto
    from a(2) r obtain sk where g: "got = [(fd, sk)]" by (cases got) auto
    with a(1) have "(fd, sk) \<in> set (fds os')" by simp
    with c have "so_bound sk = Some (ai_addr x) \<and> so_listening sk"
      by (auto simp: bind_and_listen_def Let_def update_sock_entry split: if_splits)
    moreover from a(1,3) g have "fd \<notin> set (map fst (fds os))" by (auto simp del: set_map)
    moreover from a(1) g have "(fd, sk) \<in> set (fds os')" by simp
    moreover from a(1) have "take (length (fds os)) (fds os') = fds os" by simp
    ultimately show ?thesis unfolding b r Some using f by auto
  qed
qed

text \<open>
  C25. Binding a server takes the first address for which all calls succeed: the socket kept is
  bound to it and listens, and the result is the port. When there is none, or the name cannot be
  resolved, the result is \<open>-1\<close> and no socket is kept. No descriptor that was open is touched, a
  listening socket of an earlier call included.
\<close>

theorem server_binds_first:
  assumes "opts_own (srv_options s)" and "distinct (map fst (fds os))"
  shows "\<exists>v s' os'. bind_internal host port flags s os = Some (Inr (v, s', os'))
    \<and> take (length (fds os)) (fds os') = fds os
    \<and> (case Option.bind (resolve os host (std_to_string port) (srv_family s) flags)
              (find (\<lambda>a. socket_ok a \<and> cloexec_ok a \<and> bind_ok a \<and> listen_ok a)) of
         None \<Rightarrow> v = - 1 \<and> svr_sock s' = None
       | Some a \<Rightarrow> \<exists>fd sk. svr_sock s' = Some fd \<and> fd \<notin> set (map fst (fds os)) \<and> (fd, sk) \<in> set (fds os')
           \<and> so_bound sk = Some (ai_addr a) \<and> so_listening sk \<and> (port \<noteq> 0 \<longrightarrow> v = port))"
  using assms by (rule bind_spec)

lemma server_binds_first_witness:
  "\<exists>v s' os'. bind_internal ''0.0.0.0'' 1234 0 new_endpoint os_example = Some (Inr (v, s', os'))
    \<and> v = 1234 \<and> svr_sock s' \<notin> {None, Some 0, Some 1, Some 2}"
proof -
  have f: "find (\<lambda>a. socket_ok a \<and> cloexec_ok a \<and> bind_ok a \<and> listen_ok a) example_addrs = Some (last example_addrs)"
    by (simp add: example_addrs_def addr_of_def)
  have "opts_own (srv_options new_endpoint)" by (simp add: new_endpoint_def default_options_own)
  from server_binds_first [OF this, of os_example "''0.0.0.0''" 1234 0]
  obtain v s' os' fd where "bind_internal ''0.0.0.0'' 1234 0 new_endpoint os_example = Some (Inr (v, s', os'))"
    "svr_sock s' = Some fd" "fd \<notin> set (map fst (fds os_example))" "v = 1234"
    by (auto simp: example_facts f)
  then show ?thesis by (auto simp: example_facts simp del: set_map)
qed

text \<open>
  A second call forgets the socket of the first, which stays open and listening; so does a call for
  any port when \<open>getsockname\<close> fails, which reports a failure.
\<close>

lemma bind_again_keeps_socket:
  assumes "opts_own (srv_options s)" and "svr_sock s = Some fd0" and "(fd0, sk) \<in> set (fds os)"
    and "bind_internal host port flags s os = Some (Inr (v, s', os'))"
    and "distinct (map fst (fds os))"
  shows "svr_sock s' \<noteq> Some fd0 \<and> (fd0, sk) \<in> set (fds os')"
proof -
  from assms(3) have "fd0 \<in> set (map fst (fds os))" by force
  moreover from bind_spec [OF assms(1,5), of host port flags] assms(4)
  have "take (length (fds os)) (fds os') = fds os"
    and "\<And>fd. svr_sock s' = Some fd \<Longrightarrow> fd \<notin> set (map fst (fds os))"
    by (auto split: option.splits simp del: set_map)
  ultimately show ?thesis using assms(3) by (metis in_set_takeD)
qed

end
