(* ===== verification/Http_Server_Provider.thy ===== *)
theory Http_Server_Provider
  imports Http_Server Http_Provider
begin

text \<open>
  Responses whose content comes from a provider (\<open>sgx/src/include/httplib.h\<close>): the members and
  setters of \<open>Response\<close> for it, the branches of \<open>apply_ranges\<close> and \<open>write_response_core\<close> that look at
  them, and \<open>write_content_with_provider\<close>.

  A response is the plain one of the other theories with these members beside it; the hooks of the
  server take and change both. Without a provider this is the \<open>write_response_core\<close> of
  \<open>Http_Server\<close>.
\<close>

section \<open>Responses with a provider\<close>

record 'w provided =
  plain :: response
  p_length :: nat
  p_provider :: "'w content_provider option"
  p_releaser :: "(bool \<Rightarrow> 'w \<Rightarrow> 'w) option"
  p_chunked :: bool
  p_success :: bool

definition unprovided :: "response \<Rightarrow> 'w provided" where
  "unprovided res =
     \<lparr>plain = res, p_length = 0, p_provider = None, p_releaser = None, p_chunked = False, p_success = False\<rparr>"

definition set_content_provider ::
  "nat \<Rightarrow> string \<Rightarrow> 'w content_provider \<Rightarrow> (bool \<Rightarrow> 'w \<Rightarrow> 'w) option \<Rightarrow> 'w provided \<Rightarrow> 'w provided res" where
  "set_content_provider in_length content_type provider releaser r =
     (if in_length = 0 then Inl Aborted
      else Inr (r\<lparr>plain := set_header ''Content-Type'' content_type (plain r), p_length := in_length,
                 p_provider := Some provider, p_releaser := releaser, p_chunked := False\<rparr>))"

definition set_content_provider_without_length ::
  "string \<Rightarrow> 'w content_provider_without_length \<Rightarrow> (bool \<Rightarrow> 'w \<Rightarrow> 'w) option \<Rightarrow> 'w provided \<Rightarrow> 'w provided" where
  "set_content_provider_without_length content_type provider releaser r =
     r\<lparr>plain := set_header ''Content-Type'' content_type (plain r), p_length := 0,
       p_provider := Some (ContentProviderAdapter provider), p_releaser := releaser, p_chunked := False\<rparr>"

definition set_chunked_content_provider ::
  "string \<Rightarrow> 'w content_provider_without_length \<Rightarrow> (bool \<Rightarrow> 'w \<Rightarrow> 'w) option \<Rightarrow> 'w provided \<Rightarrow> 'w provided" where
  "set_chunked_content_provider content_type provider releaser r =
     r\<lparr>plain := set_header ''Content-Type'' content_type (plain r), p_length := 0,
       p_provider := Some (ContentProviderAdapter provider), p_releaser := releaser, p_chunked := True\<rparr>"

text \<open>The destructor of \<open>Response\<close>.\<close>

definition destroy_response :: "'w provided \<Rightarrow> 'w \<Rightarrow> 'w" where
  "destroy_response r w = (case p_releaser r of None \<Rightarrow> w | Some f \<Rightarrow> f (p_success r) w)"

text \<open>The overload of \<open>get_range_offset_and_length\<close> for a response, as the pair of \<open>size_t\<close> it makes.\<close>

definition provided_range :: "request \<Rightarrow> 'w provided \<Rightarrow> nat \<Rightarrow> nat \<times> nat" where
  "provided_range req r index =
     (case ranges req ! index of (first, final) \<Rightarrow>
        let final = (if final = - 1 then int (p_length r) - 1 else final)
        in (to_size_t first, to_size_t (final - first + 1)))"

section \<open>Several ranges\<close>

text \<open>
  \<open>process_multipart_ranges_data\<close>: the parts between which it calls \<open>content\<close>. Each token is one
  call of \<open>stoken\<close> or \<open>ctoken\<close>.
\<close>

definition part_tokens :: "string \<Rightarrow> string \<Rightarrow> nat \<Rightarrow> nat \<Rightarrow> nat \<Rightarrow> string list" where
  "part_tokens boundary content_type offset len body_size =
     [''--'', boundary, CRLF]
     @ (if content_type \<noteq> [] then [''Content-Type: '', content_type, CRLF] else [])
     @ [''Content-Range: '', make_content_range_header_field offset len body_size, CRLF, CRLF]"

fun multipart_parts ::
  "nat list \<Rightarrow> request \<Rightarrow> nat \<Rightarrow> string \<Rightarrow> string \<Rightarrow> (string \<Rightarrow> 's \<Rightarrow> 's)
     \<Rightarrow> (nat \<Rightarrow> nat \<Rightarrow> 's \<Rightarrow> (bool \<times> 's) res option) \<Rightarrow> 's \<Rightarrow> (bool \<times> 's) res option" where
  "multipart_parts [] req body_size boundary content_type token content s =
     Some (Inr (True, fold token [''--'', boundary, ''--'' @ CRLF] s))"
| "multipart_parts (i # is) req body_size boundary content_type token content s =
     (case get_range_offset_and_length req body_size i of (offset, len) \<Rightarrow>
        robind (content offset len (fold token (part_tokens boundary content_type offset len body_size) s))
          (\<lambda>(ok, s). if \<not> ok then Some (Inr (False, s))
             else multipart_parts is req body_size boundary content_type token content (token CRLF s)))"

definition process_multipart_ranges_data ::
  "request \<Rightarrow> response \<Rightarrow> string \<Rightarrow> string \<Rightarrow> (string \<Rightarrow> 's \<Rightarrow> 's)
     \<Rightarrow> (nat \<Rightarrow> nat \<Rightarrow> 's \<Rightarrow> (bool \<times> 's) res option) \<Rightarrow> 's \<Rightarrow> (bool \<times> 's) res option" where
  "process_multipart_ranges_data req res boundary content_type token content s =
     multipart_parts [0..<length (ranges req)] req (length (body res)) boundary content_type token content s"

text \<open>The length that is announced; the content is always \<open>true\<close> here.\<close>

fun multipart_length :: "nat list \<Rightarrow> request \<Rightarrow> nat \<Rightarrow> string \<Rightarrow> string \<Rightarrow> nat \<Rightarrow> nat" where
  "multipart_length [] req body_size boundary content_type n =
     to_size_t (int (n + length (concat [''--'', boundary, ''--'' @ CRLF])))"
| "multipart_length (i # is) req body_size boundary content_type n =
     (case get_range_offset_and_length req body_size i of (offset, len) \<Rightarrow>
        multipart_length is req body_size boundary content_type
          (to_size_t (int (n + length (concat (part_tokens boundary content_type offset len body_size)) + len + 2))))"

definition get_multipart_ranges_data_length :: "request \<Rightarrow> response \<Rightarrow> string \<Rightarrow> string \<Rightarrow> nat" where
  "get_multipart_ranges_data_length req res boundary content_type =
     multipart_length [0..<length (ranges req)] req (length (body res)) boundary content_type 0"

definition write_multipart_ranges_data ::
  "(conn \<Rightarrow> bool) \<Rightarrow> ('w \<Rightarrow> bool) \<Rightarrow> 'w content_provider \<Rightarrow> request \<Rightarrow> response \<Rightarrow> string \<Rightarrow> string \<Rightarrow> conn \<Rightarrow> 'w
     \<Rightarrow> (bool \<times> conn \<times> 'w) res option" where
  "write_multipart_ranges_data ready shutting_down provider req res boundary content_type st w =
     process_multipart_ranges_data req res boundary content_type
       (\<lambda>t (st, w). (snd (strm_write t st), w))
       (\<lambda>offset len (st, w).
          robind (write_content ready shutting_down provider offset len st w)
            (\<lambda>(ok, err, st, w). Some (Inr (ok, st, w))))
       (st, w)"

section \<open>Writing the response\<close>

text \<open>\<open>apply_ranges\<close>: the response, and what it keeps for the parts of several ranges.\<close>

definition provided_range_fields :: "request \<Rightarrow> 'w provided \<Rightarrow> string \<Rightarrow> string \<Rightarrow> response \<Rightarrow> response" where
  "provided_range_fields req r boundary content_type pl =
     (if 0 < p_length r then
        (if ranges req = [] then set_header ''Content-Length'' (nat_string (p_length r)) pl
         else if length (ranges req) = 1 then
           (case get_range_offset_and_length req (p_length r) 0 of (offset, len) \<Rightarrow>
              set_header ''Content-Length'' (nat_string len)
                (set_header ''Content-Range'' (make_content_range_header_field offset len (p_length r)) pl))
         else
           set_header ''Content-Length''
             (nat_string (get_multipart_ranges_data_length req pl boundary content_type)) pl)
      else if p_provider r \<noteq> None \<and> p_chunked r then set_header ''Transfer-Encoding'' ''chunked'' pl
      else pl)"

definition apply_ranges_provided ::
  "(nat \<Rightarrow> nat) \<Rightarrow> request \<Rightarrow> 'w provided \<Rightarrow> ('w provided \<times> string \<times> string) res" where
  "apply_ranges_provided engine req r =
     (let boundary = (if 1 < length (ranges req) then make_multipart_data_boundary engine else []);
          (pl, content_type) =
            (if 1 < length (ranges req) then multipart_headers boundary (plain r) else (plain r, []))
      in if body (plain r) \<noteq> [] then
           rbind (apply_ranges engine req (plain r)) (\<lambda>pl. Inr (r\<lparr>plain := pl\<rparr>, content_type, boundary))
         else
           rbind (encoding_type False False req pl) (\<lambda>_.
             Inr (r\<lparr>plain := provided_range_fields req r boundary content_type pl\<rparr>, content_type, boundary)))"

definition add_provided_fields :: "request \<Rightarrow> 'w provided \<Rightarrow> response \<Rightarrow> response" where
  "add_provided_fields req r res =
     (let res = (if \<not> Response_has_header res ''Content-Type''
                    \<and> (body res \<noteq> [] \<or> 0 < p_length r \<or> p_provider r \<noteq> None)
                 then set_header ''Content-Type'' ''text/plain'' res else res);
          res = (if \<not> Response_has_header res ''Content-Length'' \<and> body res = [] \<and> p_length r = 0
                    \<and> p_provider r = None
                 then set_header ''Content-Length'' ''0'' res else res)
      in if \<not> Response_has_header res ''Accept-Ranges'' \<and> req_method req = ''HEAD''
         then set_header ''Accept-Ranges'' ''bytes'' res else res)"

text \<open>\<open>write_content_with_provider\<close>; \<open>encoding_type\<close> is \<open>None\<close>, so the compressor is the \<open>nocompressor\<close>.\<close>

definition write_content_with_provider ::
  "(conn \<Rightarrow> bool) \<Rightarrow> ('w \<Rightarrow> bool) \<Rightarrow> request \<Rightarrow> 'w provided \<Rightarrow> 'w content_provider \<Rightarrow> string \<Rightarrow> string \<Rightarrow> conn \<Rightarrow> 'w
     \<Rightarrow> (bool \<times> conn \<times> 'w) res option" where
  "write_content_with_provider ready shutting_down req r provider boundary content_type st w =
     (let quiet = (\<lambda>m. robind m (\<lambda>(ok, err, st, w). Some (Inr (ok, st, w)))) in
      if 0 < p_length r then
        (if ranges req = [] then quiet (write_content ready shutting_down provider 0 (p_length r) st w)
         else if length (ranges req) = 1 then
           (case get_range_offset_and_length req (p_length r) 0 of (offset, len) \<Rightarrow>
              quiet (write_content ready shutting_down provider offset len st w))
         else write_multipart_ranges_data ready shutting_down provider req (plain r) boundary content_type st w)
      else if p_chunked r then
        robind (Some (encoding_type False False req (plain r)))
          (\<lambda>_. quiet (write_content_chunked ready shutting_down provider st w))
      else write_content_without_length ready shutting_down provider st w)"

record 'w provided_hooks =
  ph_error :: "(request \<Rightarrow> 'w provided \<Rightarrow> 'w \<Rightarrow> (bool \<times> 'w provided \<times> 'w) res) option"
  ph_post :: "(request \<Rightarrow> 'w provided \<Rightarrow> 'w \<Rightarrow> (unit \<times> 'w provided \<times> 'w) res) option"
  ph_logger :: "(request \<Rightarrow> 'w provided \<Rightarrow> 'w \<Rightarrow> 'w) option"

definition send_provided ::
  "(conn \<Rightarrow> bool) \<Rightarrow> ('w \<Rightarrow> bool) \<Rightarrow> request \<Rightarrow> 'w provided \<Rightarrow> string \<Rightarrow> string \<Rightarrow> conn \<Rightarrow> 'w
     \<Rightarrow> (bool \<times> 'w provided \<times> conn \<times> 'w) res option" where
  "send_provided ready shutting_down req r boundary content_type st w =
     (let (_, st) = strm_write (response_head (plain r)) st in
      if req_method req = ''HEAD'' then Some (Inr (True, r, st, w))
      else if body (plain r) \<noteq> [] then
        (let (n, st) = strm_write (body (plain r)) st in Some (Inr (n \<noteq> 0, r, st, w)))
      else
        (case p_provider r of
           None \<Rightarrow> Some (Inr (True, r, st, w))
         | Some provider \<Rightarrow>
             robind (write_content_with_provider ready shutting_down req r provider boundary content_type st w)
               (\<lambda>(ok, st, w). Some (Inr (ok, r\<lparr>p_success := ok\<rparr>, st, w)))))"

text \<open>\<open>write_response_core\<close> from the additional header fields on, and as a whole.\<close>

definition finish_provided ::
  "(conn \<Rightarrow> bool) \<Rightarrow> ('w \<Rightarrow> bool) \<Rightarrow> 'w server \<Rightarrow> 'w provided_hooks \<Rightarrow> bool \<Rightarrow> request \<Rightarrow> string \<Rightarrow> string
     \<Rightarrow> conn \<Rightarrow> 'w provided \<Rightarrow> 'w \<Rightarrow> (bool \<times> 'w provided \<times> conn \<times> 'w) res option" where
  "finish_provided ready shutting_down s hooks close_connection req content_type boundary st r w =
     robind (Some (add_connection_field s close_connection req (plain r))) (\<lambda>pl.
       robind (Some (let r = r\<lparr>plain := add_provided_fields req r pl\<rparr> in
                     case ph_post hooks of None \<Rightarrow> Inr ((), r, w) | Some h \<Rightarrow> h req r w)) (\<lambda>(_, r, w).
         robind (send_provided ready shutting_down req r boundary content_type st w) (\<lambda>(ret, r, st, w).
           Some (Inr (ret, r, st, case ph_logger hooks of None \<Rightarrow> w | Some l \<Rightarrow> l req r w)))))"

definition write_provided_core ::
  "(conn \<Rightarrow> bool) \<Rightarrow> ('w \<Rightarrow> bool) \<Rightarrow> env \<Rightarrow> 'w server \<Rightarrow> 'w provided_hooks \<Rightarrow> bool \<Rightarrow> request \<Rightarrow> 'w provided \<Rightarrow> bool
     \<Rightarrow> conn \<Rightarrow> 'w \<Rightarrow> (bool \<times> 'w provided \<times> conn \<times> 'w) res option" where
  "write_provided_core ready shutting_down env s hooks close_connection req r need_apply_ranges st w =
     (if status (plain r) = - 1 then Some (Inl Aborted) else
      robind (Some (case ph_error hooks of
                      Some h \<Rightarrow> if 400 \<le> status (plain r) then h req r w else Inr (False, r, w)
                    | None \<Rightarrow> Inr (False, r, w))) (\<lambda>(handled, r, w).
       robind (Some (if handled \<or> need_apply_ranges then apply_ranges_provided (random_numbers env) req r
                     else Inr (r, [], []))) (\<lambda>(r, content_type, boundary).
         finish_provided ready shutting_down s hooks close_connection req content_type boundary st r w)))"

section \<open>Facts\<close>

text \<open>The hooks of a server on plain responses.\<close>

definition lift_hook :: "('w, 'a) hook \<Rightarrow> request \<Rightarrow> 'w provided \<Rightarrow> 'w \<Rightarrow> ('a \<times> 'w provided \<times> 'w) res" where
  "lift_hook h req r w = rbind (h req (plain r) w) (\<lambda>(a, pl, w). Inr (a, r\<lparr>plain := pl\<rparr>, w))"

definition hooks_of :: "'w server \<Rightarrow> 'w provided_hooks" where
  "hooks_of s =
     \<lparr>ph_error = map_option lift_hook (error_handler s), ph_post = map_option lift_hook (post_routing_handler s),
      ph_logger = map_option (\<lambda>l req r w. l req (plain r) w) (server_logger s)\<rparr>"

lemma unprovided_update: "(unprovided res)\<lparr>plain := res'\<rparr> = unprovided res'"
  by (simp add: unprovided_def)

lemma plain_unprovided [simp]:
  "plain (unprovided res) = res" "p_length (unprovided res) = 0" "p_provider (unprovided res) = None"
  by (simp_all add: unprovided_def)

lemma robind_Some: "robind (Some m) f = (case m of Inl e \<Rightarrow> Some (Inl e) | Inr x \<Rightarrow> f x)"
  by (cases m) simp_all

lemma apply_ranges_unprovided:
  "\<exists>ct b. apply_ranges_provided engine req (unprovided res)
     = rbind (apply_ranges engine req res) (\<lambda>res'. Inr (unprovided res', ct, b))"
proof (cases "body res = []")
  case True
  obtain pl ct where m: "(if 1 < length (ranges req) then multipart_headers
      (make_multipart_data_boundary engine) res else (res, [])) = (pl, ct)" by fastforce
  from True m have b: "body pl = []"
    by (auto simp: multipart_headers_def Let_def split: if_splits prod.splits option.splits)
  show ?thesis
    by (intro exI [of _ ct]
        exI [of _ "if 1 < length (ranges req) then make_multipart_data_boundary engine else []"])
      (use True m b in \<open>simp add: apply_ranges_provided_def apply_ranges_def provided_range_fields_def
        unprovided_update Let_def rbind_assoc split: if_splits\<close>)
next
  case False
  obtain pl ct where m: "(if 1 < length (ranges req) then multipart_headers
      (make_multipart_data_boundary engine) res else (res, [])) = (pl, ct)" by fastforce
  show ?thesis
    by (intro exI [of _ ct]
        exI [of _ "if 1 < length (ranges req) then make_multipart_data_boundary engine else []"])
      (use False m in \<open>simp add: apply_ranges_provided_def unprovided_update Let_def split: if_splits\<close>)
qed

lemma send_unprovided:
  "send_provided ready shutting_down req (unprovided res) b ct st w
   = Some (Inr (case send_response req res st of (ret, st) \<Rightarrow> (ret, unprovided res, st, w)))"
  by (simp add: send_provided_def send_response_def Let_def split: prod.splits)

text \<open>Forgetting the response at the end.\<close>

definition forget :: "(bool \<times> 'w provided \<times> conn \<times> 'w) res option \<Rightarrow> (bool \<times> conn \<times> 'w) res option" where
  "forget m = map_option (\<lambda>r. rbind r (\<lambda>(ret, _, st, w). Inr (ret, st, w))) m"

lemma forget_simps [simp]:
  "forget (Some (Inl e)) = Some (Inl e)" "forget (Some (Inr (ret, r, st, w))) = Some (Inr (ret, st, w))"
  "forget None = None"
  by (simp_all add: forget_def)

lemma add_provided_unprovided: "add_provided_fields req (unprovided res) res' = add_default_fields req res'"
  by (simp add: add_provided_fields_def add_default_fields_def Let_def)

lemma finish_unprovided:
  "forget (finish_provided ready shutting_down s (hooks_of s) cc req ct b st (unprovided res) w)
   = Some (rbind (add_connection_field s cc req res) (\<lambda>res.
       rbind (case post_routing_handler s of
                None \<Rightarrow> Inr ((), add_default_fields req res, w)
              | Some h \<Rightarrow> h req (add_default_fields req res) w) (\<lambda>(_, res, w).
         let (ret, st) = send_response req res st;
             w = (case server_logger s of None \<Rightarrow> w | Some l \<Rightarrow> l req res w)
         in Inr (ret, st, w))))"
proof (cases "add_connection_field s cc req res")
  case (Inl e)
  then show ?thesis by (simp add: finish_provided_def)
next
  case c: (Inr res2)
  have sent: "forget (robind (send_provided ready shutting_down req (unprovided res3) b ct st w) (\<lambda>(ret, r, st, w).
      Some (Inr (ret, r, st, case ph_logger (hooks_of s) of None \<Rightarrow> w | Some l \<Rightarrow> l req r w))))
    = Some (let (ret, st) = send_response req res3 st;
                w = (case server_logger s of None \<Rightarrow> w | Some l \<Rightarrow> l req res3 w)
            in Inr (ret, st, w))" for res3 w
    by (simp add: send_unprovided hooks_of_def Let_def split: prod.splits option.splits)
  show ?thesis
  proof (cases "post_routing_handler s")
    case None
    then have "ph_post (hooks_of s) = None" by (simp add: hooks_of_def)
    with None c sent show ?thesis
      by (simp add: finish_provided_def unprovided_update add_provided_unprovided)
  next
    case (Some h)
    then have h: "ph_post (hooks_of s) = Some (lift_hook h)" by (simp add: hooks_of_def)
    show ?thesis
    proof (cases "h req (add_default_fields req res2) w")
      case (Inl e)
      with Some h c show ?thesis
        by (simp add: finish_provided_def unprovided_update add_provided_unprovided lift_hook_def)
    next
      case (Inr p)
      with Some h c sent show ?thesis
        by (cases p) (simp add: finish_provided_def unprovided_update add_provided_unprovided lift_hook_def)
    qed
  qed
qed

text \<open>
  A response without a provider goes out as by \<open>write_response_core\<close>, on which the theorems about
  the server rest, with the same hooks: the same result, the same bytes, the same state, and the
  same errors.
\<close>

theorem write_provided_core_plain:
  fixes s :: "'w server"
  shows "forget (write_provided_core ready shutting_down env s (hooks_of s) cc req (unprovided res) need st w)
   = Some (write_response_core env s cc req res need st w)"
proof (cases "status res = - 1")
  case True
  then show ?thesis by (simp add: write_provided_core_def write_response_core_def)
next
  case False
  have e: "(case ph_error (hooks_of s) of
       Some h \<Rightarrow> if 400 \<le> status (plain (unprovided res)) then h req (unprovided res) w else Inr (False, unprovided res, w)
     | None \<Rightarrow> Inr (False, unprovided res, w))
    = rbind (run_error_handler s req res w) (\<lambda>(a, res, w). Inr (a, unprovided res, w))"
    by (cases "error_handler s")
      (simp_all add: hooks_of_def run_error_handler_def lift_hook_def unprovided_update)
  show ?thesis
  proof (cases "run_error_handler s req res w")
    case (Inl err)
    with False show ?thesis by (simp add: write_provided_core_def write_response_core_def e)
  next
    case (Inr p)
    then obtain handled res1 w1 where p: "run_error_handler s req res w = Inr (handled, res1, w1)"
      by (cases p) auto
    obtain ct b where a: "apply_ranges_provided (random_numbers env) req (unprovided res1 :: 'w provided)
      = rbind (apply_ranges (random_numbers env) req res1) (\<lambda>res'. Inr (unprovided res', ct, b))"
      using apply_ranges_unprovided [of "random_numbers env" req res1] by blast
    show ?thesis
    proof (cases "handled \<or> need")
      case True
      with False p a show ?thesis
        by (cases "apply_ranges (random_numbers env) req res1")
          (simp_all add: write_provided_core_def write_response_core_def e finish_unprovided)
    next
      case False
      with \<open>status res \<noteq> - 1\<close> p show ?thesis
        by (simp add: write_provided_core_def write_response_core_def e finish_unprovided)
    qed
  qed
qed

text \<open>A provider that, asked for a part of the text, writes the beginning of it, and at least one byte.\<close>

definition serves :: "string \<Rightarrow> 'w content_provider \<Rightarrow> bool" where
  "serves txt provider \<longleftrightarrow>
     (\<forall>off len w. 0 < len \<longrightarrow> off + len \<le> length txt \<longrightarrow>
        (\<exists>ds w' aft. pieces (provider off len w) = Some (ds, False, w')
           \<and> concat ds \<noteq> [] \<and> take len (drop off txt) = concat ds @ aft))"

lemma serves_part:
  assumes "serves txt provider" and "\<And>st. ready st" and "\<And>w. \<not> shutting_down w" and "sends st = []"
    and "off + len \<le> length txt" and "length txt < 2 ^ 64"
  shows "\<exists>w'. write_content ready shutting_down provider off len st w
    = Some (Inr (True, Success, st\<lparr>sent := sent st @ take len (drop off txt)\<rparr>, w'))"
proof -
  let ?t = "take (off + len) txt"
  have l: "length ?t = off + len" using assms(5) by simp
  have "provides ?t provider"
    unfolding provides_def
  proof (intro allI impI)
    fix o' w assume o: "o' < length ?t"
    with l have "0 < length ?t - o'" "o' + (length ?t - o') \<le> length txt" using assms(5) by simp_all
    with assms(1) obtain ds w' aft where "pieces (provider o' (length ?t - o') w) = Some (ds, False, w')"
      "concat ds \<noteq> []" "take (length ?t - o') (drop o' txt) = concat ds @ aft"
      unfolding serves_def by blast
    moreover have "take (length ?t - o') (drop o' txt) = drop o' ?t"
      unfolding l by (simp add: drop_take)
    ultimately show "\<exists>ds w' aft. pieces (provider o' (length ?t - o') w) = Some (ds, False, w')
        \<and> concat ds \<noteq> [] \<and> drop o' ?t = concat ds @ aft" by metis
  qed
  from write_content_loop_provides [of ?t provider ready shutting_down st off w, OF this assms(2-4)] l
  have "\<exists>w'. write_content_loop ready shutting_down provider (off + len) off st w
    = Some (Inr (True, Success, st\<lparr>sent := sent st @ drop off ?t\<rparr>, w'))" by simp
  moreover have "to_size_t (int off + int len) = off + len"
    using assms(5,6) by (simp add: to_size_t_def)
  ultimately show ?thesis by (simp add: write_content_def drop_take)
qed

lemma body_commutes:
  "set_header k v (res\<lparr>body := b\<rparr>) = (set_header k v res)\<lparr>body := b\<rparr>"
  "connection_field s cc (res\<lparr>body := b\<rparr>) = (connection_field s cc res)\<lparr>body := b\<rparr>"
  "response_head (res\<lparr>body := b\<rparr>) = response_head res"
  "Response_has_header (res\<lparr>body := b\<rparr>) k = Response_has_header res k"
  by (simp_all add: set_header_def connection_field_def response_head_def Response_has_header_def)

lemma default_fields_provided:
  assumes "b \<noteq> []" and "0 < p_length r"
  shows "add_default_fields req (res\<lparr>body := b\<rparr>) = (add_provided_fields req r res)\<lparr>body := b\<rparr>"
  using assms by (simp add: add_default_fields_def add_provided_fields_def Let_def body_commutes)

lemma body_kept:
  "body (set_header k v res) = body res" "body (add_provided_fields req r res) = body res"
  "status (set_header k v res) = status res" "status (add_provided_fields req r res) = status res"
  by (simp_all add: set_header_def add_provided_fields_def Let_def)

text \<open>The range that is asked for: all of the text, or one part of it.\<close>

definition asked :: "request \<Rightarrow> nat \<Rightarrow> (nat \<times> nat) option" where
  "asked req n =
     (if ranges req = [] then Some (0, n)
      else if length (ranges req) = 1 then Some (get_range_offset_and_length req n 0) else None)"

definition asked_fields :: "request \<Rightarrow> nat \<Rightarrow> nat \<Rightarrow> nat \<Rightarrow> response \<Rightarrow> response" where
  "asked_fields req off len n res =
     set_header ''Content-Length'' (nat_string len)
       (if ranges req = [] then res
        else set_header ''Content-Range'' (make_content_range_header_field off len n) res)"

lemma encoding_type_none:
  "mm_sorted to_lower (rsp_headers res) \<Longrightarrow> mm_sorted to_lower (req_headers req) \<Longrightarrow>
   encoding_type False False req res = Inr Encoding_None"
  by (simp add: encoding_type_def Response_get_header_value_def Request_get_header_value_def
      get_header_value_def mm_get_first)

lemma apply_ranges_asked:
  assumes "mm_sorted to_lower (rsp_headers res)" and "mm_sorted to_lower (req_headers req)"
    and "asked req (length txt) = Some (off, len)" and "0 < len" and "off + len \<le> length txt"
  shows "apply_ranges engine req (res\<lparr>body := txt\<rparr>)
    = Inr ((asked_fields req off len (length txt) res)\<lparr>body := take len (drop off txt)\<rparr>)"
proof -
  have "txt \<noteq> []" using assms(4,5) by auto
  moreover have "length (take len (drop off txt)) = len" using assms(5) by simp
  moreover have "off < length txt" using assms(4,5) by simp
  moreover have "mm_sorted to_lower (rsp_headers (res\<lparr>body := txt\<rparr>))" using assms(1) by simp
  ultimately show ?thesis
    using assms(2,3)
    by (auto simp: apply_ranges_def asked_def asked_fields_def encoding_type_none body_commutes Let_def
        split: if_splits)
qed

lemma apply_ranges_provided_asked:
  assumes "mm_sorted to_lower (rsp_headers (plain r))" and "mm_sorted to_lower (req_headers req)"
    and "asked req (p_length r) = Some (off, len)" and "0 < p_length r" and "body (plain r) = []"
  shows "apply_ranges_provided engine req r
    = Inr (r\<lparr>plain := asked_fields req off len (p_length r) (plain r)\<rparr>, [], [])"
  using assms
  by (auto simp: apply_ranges_provided_def asked_def asked_fields_def encoding_type_none
      provided_range_fields_def Let_def split: if_splits)

lemma robind_id: "robind m (\<lambda>(a, b, c, d). Some (Inr (a, b, c, d))) = m"
  by (cases m; cases "the m") auto

text \<open>A server without hooks, once the ranges are applied.\<close>

lemma write_provided_bare:
  assumes "bare_server s" and "status (plain r) \<noteq> - 1"
    and "apply_ranges_provided (random_numbers env) req r = Inr (r\<lparr>plain := res\<rparr>, ct, b)"
    and "mm_sorted to_lower (req_headers req)" and "no_field (req_headers req) ''Connection''"
  shows "write_provided_core ready shutting_down env s (hooks_of s) cc req r True st w
    = send_provided ready shutting_down req (r\<lparr>plain := add_provided_fields req r (connection_field s cc res)\<rparr>) b ct st w"
proof -
  have hooks: "ph_error (hooks_of s) = None" "ph_post (hooks_of s) = None" "ph_logger (hooks_of s) = None"
    using assms(1) by (simp_all add: hooks_of_def bare_server_def)
  have cf: "add_connection_field s cc req res = Inr (connection_field s cc res)"
    using assms(4,5) by (rule add_connection_field_plain)
  have ph: "add_provided_fields req (r\<lparr>plain := x\<rparr>) y = add_provided_fields req r y" for x y
    by (simp add: add_provided_fields_def)
  show ?thesis
    using assms(2) by (simp add: write_provided_core_def finish_provided_def hooks assms(3) cf ph robind_id)
qed

text \<open>The fields that are added change none of the others.\<close>

lemma provided_fields_other:
  assumes "mm_sorted to_lower (rsp_headers res)" and "p_provider r \<noteq> None"
    and "to_lower key \<notin> {''connection'', ''keep-alive'', ''content-type'', ''accept-ranges''}"
  shows "mm_values to_lower (rsp_headers (add_provided_fields req r (connection_field s cc res))) key
    = mm_values to_lower (rsp_headers res) key"
    and "mm_sorted to_lower (rsp_headers (add_provided_fields req r (connection_field s cc res)))"
proof -
  let ?c = "connection_field s cc res"
  from assms(2) obtain provider where p: "p_provider r = Some provider" by auto
  have k: "to_lower ''Content-Type'' \<noteq> to_lower key" "to_lower ''Accept-Ranges'' \<noteq> to_lower key"
    using assms(3) unfolding field_names by auto
  have c: "mm_values to_lower (rsp_headers ?c) key = mm_values to_lower (rsp_headers res) key"
    "mm_sorted to_lower (rsp_headers ?c)"
    using connection_field_other [OF assms(1), of key s cc] assms(3) by auto
  show "mm_values to_lower (rsp_headers (add_provided_fields req r ?c)) key = mm_values to_lower (rsp_headers res) key"
    "mm_sorted to_lower (rsp_headers (add_provided_fields req r ?c))"
    using p k c
    by (simp_all add: add_provided_fields_def Let_def set_header_other set_header_sorted)
qed

text \<open>All the fields of a response with a provider that is not to \<open>HEAD\<close>.\<close>

lemma added_field_values:
  "mm_sorted to_lower (rsp_headers res) \<Longrightarrow> \<not> has_crlf k \<Longrightarrow> \<not> has_crlf v \<Longrightarrow>
   mm_values to_lower (rsp_headers (set_header k v res)) key
     = mm_values to_lower (rsp_headers res) key @ (if to_lower key = to_lower k then [v] else [])"
  by (simp add: set_header_def mm.values_emplace)

lemma field_ok_plain: "field_ok k v \<Longrightarrow> \<not> has_crlf k \<and> \<not> has_crlf v"
proof -
  assume "field_ok k v"
  then have "CR \<notin> set k" "LF \<notin> set k" "CR \<notin> set v" "LF \<notin> set v" unfolding field_ok_def list_all_iff by blast+
  then show ?thesis unfolding has_crlf_def list_ex_iff using set_takeWhileD by metis
qed

lemma provided_fields_all:
  assumes "mm_sorted to_lower (rsp_headers res)" and "p_provider r \<noteq> None" and "req_method req \<noteq> ''HEAD''"
    and "field_ok ''Keep-Alive'' (keep_alive_text s)"
  shows "mm_values to_lower (rsp_headers (add_provided_fields req r (connection_field s cc res))) key =
    (if to_lower key = ''content-type'' \<and> no_field (rsp_headers res) ''Content-Type'' then [''text/plain'']
     else mm_values to_lower (rsp_headers res) key
       @ (if to_lower key = (if cc then ''connection'' else ''keep-alive'') then [if cc then ''close'' else keep_alive_text s] else []))"
proof -
  let ?c = "connection_field s cc res"
  obtain provider where p: "p_provider r = Some provider" using assms(2) by auto
  have plain: "\<not> has_crlf ''Connection''" "\<not> has_crlf ''close''" "\<not> has_crlf ''Content-Type''" "\<not> has_crlf ''text/plain''"
    "\<not> has_crlf ''Keep-Alive''" "\<not> has_crlf (keep_alive_text s)"
    using field_ok_plain [OF assms(4)] by (simp_all add: has_crlf_def)
  have c: "mm_values to_lower (rsp_headers ?c) key = mm_values to_lower (rsp_headers res) key
      @ (if to_lower key = (if cc then ''connection'' else ''keep-alive'') then [if cc then ''close'' else keep_alive_text s] else [])"
    for key using assms(1) plain field_names by (simp add: connection_field_def added_field_values)
  have s: "mm_sorted to_lower (rsp_headers ?c)" using assms(1) by (simp add: connection_field_def set_header_sorted)
  have "no_field (rsp_headers ?c) ''Content-Type'' = no_field (rsp_headers res) ''Content-Type''"
    using c [of "''Content-Type''"] field_names by (simp add: no_field_def)
  moreover have "Response_has_header ?c ''Content-Type'' = (\<not> no_field (rsp_headers ?c) ''Content-Type'')"
    using s by (simp add: Response_has_header_def mm_has_values no_field_def)
  ultimately have "add_provided_fields req r ?c =
      (if no_field (rsp_headers res) ''Content-Type'' then set_header ''Content-Type'' ''text/plain'' ?c else ?c)"
    using assms(3) p by (simp add: add_provided_fields_def Let_def)
  moreover have "mm_values to_lower (rsp_headers res) key = []"
    if "to_lower key = ''content-type''" "no_field (rsp_headers res) ''Content-Type''"
    using that field_names by (simp add: no_field_def mm_values_def)
  ultimately show ?thesis
    using c [of key] added_field_values [OF s plain(3,4), of key] field_names
    by (cases "no_field (rsp_headers res) ''Content-Type''"; cases "to_lower key = ''content-type''") simp_all
qed

definition fields_ok :: "headers \<Rightarrow> bool" where
  "fields_ok hs \<longleftrightarrow> list_all (\<lambda>(k, v). field_ok k v) hs \<and> mm_sorted to_lower hs"

lemma fields_ok_set_header:
  "fields_ok (rsp_headers res) \<Longrightarrow> field_ok k v \<Longrightarrow> fields_ok (rsp_headers (set_header k v res))"
  by (auto simp: fields_ok_def set_header_def mm.inv_emplace list_all_iff)

lemma fields_ok_provided:
  assumes "fields_ok (rsp_headers res)" and "field_ok ''Keep-Alive'' (keep_alive_text s)"
  shows "fields_ok (rsp_headers (add_provided_fields req r (connection_field s cc res)))"
proof -
  have "fields_ok (rsp_headers (connection_field s cc res))"
    using assms default_fields_ok by (simp add: connection_field_def fields_ok_set_header)
  then show ?thesis
    using default_fields_ok unfolding add_provided_fields_def Let_def by (simp add: fields_ok_set_header)
qed

text \<open>
  C18. A response whose content comes from a provider is, on the connection, the response that has
  the text of the provider as its body: the same head and the same bytes behind it, for the whole
  text and for a part of it that a Range field asks for, and with \<open>HEAD\<close>. The provider may write in
  any pieces.
\<close>

theorem provided_like_plain:
  assumes "serves txt provider" and "\<And>st. ready st" and "\<And>w. \<not> shutting_down w"
    and "p_provider r = Some provider" and "p_length r = length txt" and "body (plain r) = []"
    and "asked req (length txt) = Some (off, len)" and "0 < len" and "off + len \<le> length txt" and "length txt < 2 ^ 64"
    and "bare_server s" and "status (plain r) \<noteq> - 1" and "sends st = []"
    and "mm_sorted to_lower (rsp_headers (plain r))" and "mm_sorted to_lower (req_headers req)"
    and "no_field (req_headers req) ''Connection''"
  shows "\<exists>r' st' w'. write_provided_core ready shutting_down env s (hooks_of s) cc req r True st w = Some (Inr (True, r', st', w'))
    \<and> write_response_core env s cc req ((plain r)\<lparr>body := txt\<rparr>) True st w = Inr (True, st', w)"
proof -
  let ?res = "asked_fields req off len (length txt) (plain r)" and ?part = "take len (drop off txt)"
  define h where "h = add_provided_fields req r (connection_field s cc ?res)"
  let ?st = "st\<lparr>sent := sent st @ response_head h\<rparr>"
  from assms(8,9) have part: "?part \<noteq> []" and pos: "0 < p_length r" using assms(5) by auto
  have b: "body h = []"
    using assms(6) by (simp add: h_def asked_fields_def body_kept)
  have a: "apply_ranges_provided (random_numbers env) req r = Inr (r\<lparr>plain := ?res\<rparr>, [], [])"
    using apply_ranges_provided_asked [of r req off len] assms(5,6,7,14,15) pos by simp
  have run: "write_provided_core ready shutting_down env s (hooks_of s) cc req r True st w
    = send_provided ready shutting_down req (r\<lparr>plain := h\<rparr>) [] [] st w"
    unfolding h_def using assms(11,12) a assms(15,16) by (rule write_provided_bare)
  have plain: "write_response_core env s cc req ((plain r)\<lparr>body := txt\<rparr>) True st w
    = Inr (True, st\<lparr>sent := sent st @ response_text req (h\<lparr>body := ?part\<rparr>)\<rparr>, w)"
    using write_response_core_bare [of s "(plain r)\<lparr>body := txt\<rparr>" st req True env "?res\<lparr>body := ?part\<rparr>" cc w]
      apply_ranges_asked [OF assms(14,15,7,8,9), of "random_numbers env"] assms(11-13,15,16)
    by (simp add: h_def body_commutes default_fields_provided [OF part pos])
  have head: "strm_write (response_head h) st = (int (length (response_head h)), ?st)"
    using assms(13) by (rule strm_write_all)
  show ?thesis
  proof (cases "req_method req = ''HEAD''")
    case True
    then show ?thesis
      unfolding run plain by (simp add: send_provided_def head response_text_def body_commutes)
  next
    case False
    have "sends ?st = []" using assms(13) by simp
    from serves_part [where ready = ready and shutting_down = shutting_down, OF assms(1-3) this assms(9,10)]
    obtain w' where p: "write_content ready shutting_down provider off len ?st w
      = Some (Inr (True, Success, ?st\<lparr>sent := sent ?st @ ?part\<rparr>, w'))" by auto
    have "write_content_with_provider ready shutting_down req (r\<lparr>plain := h\<rparr>) provider [] [] ?st w
      = Some (Inr (True, ?st\<lparr>sent := sent ?st @ ?part\<rparr>, w'))"
      using p pos assms(5,7)
      by (auto simp: write_content_with_provider_def asked_def Let_def split: if_splits)
    with False b assms(4) show ?thesis
      unfolding run plain by (simp add: send_provided_def head response_text_def body_commutes)
  qed
qed

definition one_byte_provider :: "string \<Rightarrow> nat content_provider" where
  "one_byte_provider txt off len calls =
     Sink_write (take 1 (drop off txt)) (\<lambda>_. Provider_returns True (calls + 1))"

lemma one_byte_provider_serves: "serves txt (one_byte_provider txt)"
proof -
  have "\<exists>aft. take len (drop off txt) = take 1 (drop off txt) @ aft" if "0 < len" for off len
    using that by (cases len; cases "drop off txt") auto
  then show ?thesis
    unfolding serves_def one_byte_provider_def by auto
qed

lemma provided_like_plain_witness:
  "\<exists>r' st' calls. write_provided_core (\<lambda>_. True) (\<lambda>_. False) env_example new_server (hooks_of new_server) True
      (empty_request\<lparr>req_method := ''GET'', ranges := [(1, 2)]\<rparr>)
      ((unprovided (empty_response\<lparr>status := 206\<rparr>))\<lparr>p_length := 3, p_provider := Some (one_byte_provider ''abc'')\<rparr>)
      True (conn_example []) 0 = Some (Inr (True, r', st', calls))
    \<and> write_response_core env_example new_server True (empty_request\<lparr>req_method := ''GET'', ranges := [(1, 2)]\<rparr>)
        (empty_response\<lparr>status := 206, body := ''abc''\<rparr>) True (conn_example []) (0 :: nat) = Inr (True, st', 0)"
proof -
  let ?req = "empty_request\<lparr>req_method := ''GET'', ranges := [(1, 2)]\<rparr>"
  let ?r = "(unprovided (empty_response\<lparr>status := 206\<rparr>))\<lparr>p_length := 3, p_provider := Some (one_byte_provider ''abc'')\<rparr>"
  have asked: "asked ?req (length ''abc'') = Some (1, 2)"
    by (simp add: asked_def get_range_offset_and_length_def to_size_t_def)
  have bare: "bare_server (new_server :: nat server)" by (simp add: bare_server_def new_server_def)
  from provided_like_plain [where ready = "\<lambda>_. True" and shutting_down = "\<lambda>_. False" and r = ?r and cc = True
      and env = env_example and st = "conn_example []" and w = 0, OF one_byte_provider_serves _ _ _ _ _ asked _ _ _ bare]
  show ?thesis
    by (simp add: unprovided_def empty_response_def empty_request_def conn_example_def no_field_def mm_values_def mm_sorted_def)
qed

text \<open>
  C19. A response in chunks arrives. For a provider whose calls, ended by one that calls \<open>done\<close>, write the
  pieces \<open>ds\<close>, none of them empty, \<open>write_response_core\<close> sends the status line, the header fields and the
  chunks. The fields are the ones the response has, \<open>Transfer-Encoding: chunked\<close>, what announces whether
  the connection stays open, and \<open>text/plain\<close> where the response has no type; no length is added. Whoever
  reads what is behind the status line reads these fields and the pieces as one content, with nothing of
  what follows.
\<close>

theorem chunked_response_arrives:
  assumes "chunk_script provider 0 w ds w'" and "list_all (\<lambda>d. d \<noteq> [] \<and> length d < 2 ^ 64 - 1) ds"
    and "\<And>st. ready st" and "\<And>w. \<not> shutting_down w"
    and "p_provider r = Some provider" and "p_length r = 0" and "p_chunked r" and "body (plain r) = []"
    and "fields_ok (rsp_headers (plain r))" and "no_field (rsp_headers (plain r)) ''Transfer-Encoding''"
    and "ranges req = []" and "req_method req \<noteq> ''HEAD''"
    and "bare_server s" and "field_ok ''Keep-Alive'' (keep_alive_text s)" and "status (plain r) \<noteq> - 1" and "sends st = []"
    and "mm_sorted to_lower (req_headers req)" and "no_field (req_headers req) ''Connection''"
  shows "\<exists>r' st' hs. write_provided_core ready shutting_down env s (hooks_of s) cc req r True st w
      = Some (Inr (True, r', st', w')) \<and> p_success r'
    \<and> sent st' = sent st @ status_line (status (plain r)) @ write_headers hs @ chunks_text ds
    \<and> (\<forall>key. mm_values to_lower hs key =
         (if to_lower key = ''transfer-encoding'' then [''chunked'']
          else if to_lower key = ''content-type'' \<and> no_field (rsp_headers (plain r)) ''Content-Type'' then [''text/plain'']
          else mm_values to_lower (rsp_headers (plain r)) key
            @ (if to_lower key = (if cc then ''connection'' else ''keep-alive'')
               then [if cc then ''close'' else keep_alive_text s] else [])))
    \<and> (\<forall>inp aft stat. rest inp = write_headers hs @ chunks_text ds @ aft \<longrightarrow>
         (\<exists>inp1 inp2. read_headers inp [] = (True, inp1, hs)
            \<and> read_body body_receiver hs (2 ^ 64 - 1) stat inp1 [] = Inr (Some (concat ds), stat, inp2) \<and> rest inp2 = aft))"
proof -
  let ?res = "set_header ''Transfer-Encoding'' ''chunked'' (plain r)"
  define h where "h = add_provided_fields req r (connection_field s cc ?res)"
  let ?hs = "rsp_headers h" and ?st = "st\<lparr>sent := sent st @ response_head h\<rparr>"
  have te: "field_ok ''Transfer-Encoding'' ''chunked''" by code_simp
  have crlf: "\<not> has_crlf ''Transfer-Encoding''" "\<not> has_crlf ''chunked''" by code_simp+
  have res: "fields_ok (rsp_headers ?res)" using assms(9) te by (rule fields_ok_set_header)
  have b: "body h = []" using assms(8) by (simp add: h_def body_kept)
  have stat: "status h = status (plain r)"
    by (simp add: h_def body_kept)
  have p: "p_provider r \<noteq> None" using assms(5) by simp
  have ok: "fields_ok ?hs" unfolding h_def using res assms(14) by (rule fields_ok_provided)
  have so: "mm_sorted to_lower (rsp_headers ?res)" "mm_sorted to_lower (rsp_headers (plain r))"
    using res assms(9) by (simp_all add: fields_ok_def)
  have own: "mm_values to_lower (rsp_headers ?res) key = mm_values to_lower (rsp_headers (plain r)) key
      @ (if to_lower key = ''transfer-encoding'' then [''chunked''] else [])" for key
    using so(2) crlf field_names by (simp add: added_field_values)
  have none: "mm_values to_lower (rsp_headers (plain r)) key = []" if "to_lower key = ''transfer-encoding''" for key
    using that assms(10) field_names by (simp add: no_field_def mm_values_def)
  have hs: "mm_values to_lower ?hs key =
         (if to_lower key = ''transfer-encoding'' then [''chunked'']
          else if to_lower key = ''content-type'' \<and> no_field (rsp_headers (plain r)) ''Content-Type'' then [''text/plain'']
          else mm_values to_lower (rsp_headers (plain r)) key
            @ (if to_lower key = (if cc then ''connection'' else ''keep-alive'')
               then [if cc then ''close'' else keep_alive_text s] else []))" for key
    unfolding h_def provided_fields_all [OF so(1) p assms(12,14)] no_field_def own
    using none field_names by simp
  have v: "mm_values to_lower ?hs ''Transfer-Encoding'' = [''chunked'']" unfolding hs using field_names by simp
  have a: "apply_ranges_provided (random_numbers env) req r = Inr (r\<lparr>plain := ?res\<rparr>, [], [])"
    using assms(5-9,11,17)
    by (simp add: apply_ranges_provided_def provided_range_fields_def encoding_type_none fields_ok_def)
  have run: "write_provided_core ready shutting_down env s (hooks_of s) cc req r True st w
    = send_provided ready shutting_down req (r\<lparr>plain := h\<rparr>) [] [] st w"
    unfolding h_def using assms(13,15) a assms(17,18) by (rule write_provided_bare)
  have ne: "list_all (\<lambda>d. d \<noteq> []) ds" using assms(2) by (simp add: list_all_iff)
  have "sends ?st = []" using assms(16) by simp
  then have w: "write_content_chunked ready shutting_down provider ?st w
    = Some (Inr (True, Success, ?st\<lparr>sent := sent ?st @ chunks_text ds\<rparr>, w'))"
    unfolding write_content_chunked_def
    using write_content_chunked_loop_script [where ready = ready and shutting_down = shutting_down,
        OF assms(1,3,4) _ ne] by blast
  have "encoding_type False False req h = Inr Encoding_None"
    using ok assms(17) by (simp add: encoding_type_none fields_ok_def)
  then have "write_provided_core ready shutting_down env s (hooks_of s) cc req r True st w
      = Some (Inr (True, r\<lparr>plain := h, p_success := True\<rparr>, ?st\<lparr>sent := sent ?st @ chunks_text ds\<rparr>, w'))"
    unfolding run using assms(5-7,12,16) w b
    by (simp add: send_provided_def write_content_with_provider_def strm_write_all)
  moreover have "\<exists>inp1 inp2. read_headers inp [] = (True, inp1, ?hs)
      \<and> read_body body_receiver ?hs (2 ^ 64 - 1) stat inp1 [] = Inr (Some (concat ds), stat, inp2) \<and> rest inp2 = aft"
    if inp: "rest inp = write_headers ?hs @ chunks_text ds @ aft" for inp aft stat
  proof -
    obtain inp1 where r1: "read_headers inp [] = (True, inp1, ?hs)" "rest inp1 = chunks_text ds @ aft"
      using read_headers_written [of ?hs "[]" inp] ok inp by (auto simp: read_headers_def fields_ok_def)
    obtain x inp2 where r2: "read_content_chunked body_receiver inp1 [] = (x, inp2)" by fastforce
    with body.chunked_reads [OF assms(2) r1(2) r2] have "x = Some (concat ds)" "rest inp2 = aft" by simp_all
    moreover have "is_chunked_transfer_encoding ?hs = Inr True"
    proof -
      have l: "to_lower ''chunked'' = ''chunked''" by code_simp
      show ?thesis
        using v ok by (simp add: is_chunked_transfer_encoding_def get_header_value_def mm_get_first fields_ok_def l)
    qed
    ultimately show ?thesis using r1(1) r2 by (simp add: read_body_def)
  qed
  moreover have "sent (?st\<lparr>sent := sent ?st @ chunks_text ds\<rparr>)
      = sent st @ status_line (status (plain r)) @ write_headers ?hs @ chunks_text ds"
    by (simp add: response_head_def stat)
  moreover have "p_success (r\<lparr>plain := h, p_success := True\<rparr>)" by simp
  ultimately show ?thesis
    using hs by (intro exI [of _ "r\<lparr>plain := h, p_success := True\<rparr>"] exI [of _ "?st\<lparr>sent := sent ?st @ chunks_text ds\<rparr>"]
        exI [of _ ?hs] conjI allI) blast+
qed

definition two_piece_provider :: "nat content_provider_without_length" where
  "two_piece_provider off calls =
     (if off = 0 then Sink_write ''ab'' (\<lambda>_. Sink_write ''c'' (\<lambda>_. Provider_returns True (calls + 1)))
      else Sink_write ''d'' (\<lambda>_. Sink_done (Provider_returns True (calls + 1))))"

lemma two_piece_script:
  "chunk_script (ContentProviderAdapter two_piece_provider) 0 0 ([''ab'', ''c''] @ [''d'']) 2"
proof -
  have "chunk_script (ContentProviderAdapter two_piece_provider) (0 + length (concat [''ab'', ''c''])) 1 [''d''] 2"
    by (rule last_call) (simp add: ContentProviderAdapter_def two_piece_provider_def)
  then show ?thesis
    by (intro next_call [where w' = 1]) (simp_all add: ContentProviderAdapter_def two_piece_provider_def)
qed

lemma new_server_bare: "bare_server new_server"
  by (simp add: bare_server_def new_server_def)

lemma new_server_keep_alive: "field_ok ''Keep-Alive'' (keep_alive_text (new_server :: nat server))"
proof -
  have e: "keep_alive_timeout_sec (new_server :: nat server) = 5" "keep_alive_max_count (new_server :: nat server) = 5"
    by (simp_all add: new_server_def)
  show ?thesis unfolding keep_alive_text_def e by code_simp
qed

lemma chunked_response_arrives_witness:
  "\<exists>r' st' hs. write_provided_core (\<lambda>_. True) (\<lambda>_. False) env_example new_server (hooks_of new_server) False
      (empty_request\<lparr>req_method := ''GET''\<rparr>)
      (set_chunked_content_provider ''text/plain'' two_piece_provider None (unprovided (empty_response\<lparr>status := 200\<rparr>)))
      True (conn_example []) 0 = Some (Inr (True, r', st', 2)) \<and> p_success r'
    \<and> sent st' = status_line 200 @ write_headers hs @ chunks_text [''ab'', ''c'', ''d'']
    \<and> mm_values to_lower hs ''Transfer-Encoding'' = [''chunked''] \<and> mm_values to_lower hs ''Content-Length'' = []
    \<and> (\<forall>inp aft stat. rest inp = write_headers hs @ chunks_text [''ab'', ''c'', ''d''] @ aft \<longrightarrow>
         (\<exists>inp1 inp2. read_headers inp [] = (True, inp1, hs)
            \<and> read_body body_receiver hs (2 ^ 64 - 1) stat inp1 [] = Inr (Some ''abcd'', stat, inp2) \<and> rest inp2 = aft))"
proof -
  let ?r = "set_chunked_content_provider ''text/plain'' two_piece_provider None (unprovided (empty_response\<lparr>status := 200\<rparr>))"
  let ?q = "empty_request\<lparr>req_method := ''GET''\<rparr>"
  have r: "p_provider ?r = Some (ContentProviderAdapter two_piece_provider)" "p_length ?r = 0" "p_chunked ?r"
    "body (plain ?r) = []" "status (plain ?r) = 200"
    by (simp_all add: set_chunked_content_provider_def unprovided_def body_kept empty_response_def)
  have hs: "rsp_headers (plain ?r) = [(''Content-Type'', ''text/plain'')]"
    by (simp add: set_chunked_content_provider_def unprovided_def empty_response_def set_header_def) code_simp
  have f: "fields_ok (rsp_headers (plain ?r))" "no_field (rsp_headers (plain ?r)) ''Transfer-Encoding''"
    unfolding hs fields_ok_def no_field_def by code_simp+
  have q: "list_all (\<lambda>d. d \<noteq> [] \<and> length d < 2 ^ 64 - 1) ([''ab'', ''c''] @ [''d''])" by simp
  have c: "p_length ?r = 0" "req_method ?q \<noteq> ''HEAD''" "ranges ?q = []" "sends (conn_example []) = []"
    "mm_sorted to_lower (req_headers ?q)" "no_field (req_headers ?q) ''Connection''" "status (plain ?r) \<noteq> - 1"
    using r by (simp_all add: empty_request_def conn_example_def no_field_def mm_values_def mm_sorted_def)
  obtain r' st' hs where w: "write_provided_core (\<lambda>_. True) (\<lambda>_. False) env_example new_server (hooks_of new_server) False ?q ?r
      True (conn_example []) 0 = Some (Inr (True, r', st', 2))" "p_success r'"
      "sent st' = sent (conn_example []) @ status_line (status (plain ?r)) @ write_headers hs @ chunks_text ([''ab'', ''c''] @ [''d''])"
    and v: "\<forall>key. mm_values to_lower hs key =
         (if to_lower key = ''transfer-encoding'' then [''chunked'']
          else if to_lower key = ''content-type'' \<and> no_field (rsp_headers (plain ?r)) ''Content-Type'' then [''text/plain'']
          else mm_values to_lower (rsp_headers (plain ?r)) key
            @ (if to_lower key = (if False then ''connection'' else ''keep-alive'')
               then [if False then ''close'' else keep_alive_text (new_server :: nat server)] else []))"
    and rd: "\<forall>inp aft stat. rest inp = write_headers hs @ chunks_text ([''ab'', ''c''] @ [''d'']) @ aft \<longrightarrow>
         (\<exists>inp1 inp2. read_headers inp [] = (True, inp1, hs) \<and> read_body body_receiver hs (2 ^ 64 - 1) stat inp1 []
            = Inr (Some (concat ([''ab'', ''c''] @ [''d''])), stat, inp2) \<and> rest inp2 = aft)"
    using chunked_response_arrives [where ready = "\<lambda>_. True" and shutting_down = "\<lambda>_. False" and cc = False and env = env_example,
      OF two_piece_script q _ _ r(1-4) f c(3,2) new_server_bare new_server_keep_alive c(7,4,5,6)] by auto
  have "mm_values to_lower hs ''Transfer-Encoding'' = [''chunked'']" "mm_values to_lower hs ''Content-Length'' = []"
    using spec [OF v, of "''Transfer-Encoding''"] spec [OF v, of "''Content-Length''"] field_names
    by (simp_all add: hs mm_values_def)
  with w rd r(5) show ?thesis by (intro exI [of _ r'] exI [of _ st'] exI [of _ hs]) (simp add: conn_example_def)
qed

text \<open>
  C21. The end of a response of unknown length cannot be seen. When a handler has set a provider without
  a length and without chunks, the provider writes the pieces \<open>ds\<close> and calls \<open>done\<close>, the connection is not to
  be closed, and neither handler nor client have set a field about length, encoding or connection, what is sent is the status line, the header fields and the pieces; the fields give
  neither a length nor an encoding and announce a connection that stays open, and \<open>write_response_core\<close>
  succeeds, so the next response follows on it. Whoever reads these fields and the content as \<open>read_content\<close>
  does takes all that comes behind for content.
\<close>

theorem unsized_response_unframed:
  assumes "chunk_script provider 0 w ds w'" and "\<And>st. ready st" and "\<And>w. \<not> shutting_down w"
    and "p_provider r = Some provider" and "p_length r = 0" and "\<not> p_chunked r" and "body (plain r) = []"
    and "fields_ok (rsp_headers (plain r))" and "no_field (rsp_headers (plain r)) ''Transfer-Encoding''"
    and "no_field (rsp_headers (plain r)) ''Content-Length''" and "no_field (rsp_headers (plain r)) ''Connection''"
    and "ranges req = []" and "req_method req \<noteq> ''HEAD''" and "bare_server s" and "field_ok ''Keep-Alive'' (keep_alive_text s)"
    and "status (plain r) \<noteq> - 1" and "sends st = []"
    and "mm_sorted to_lower (req_headers req)" and "no_field (req_headers req) ''Connection''"
  shows "\<exists>r' hs. write_provided_core ready shutting_down env s (hooks_of s) False req r True st w
      = Some (Inr (True, r', st\<lparr>sent := sent st @ status_line (status (plain r)) @ write_headers hs @ concat ds\<rparr>, w'))
    \<and> no_field hs ''Content-Length'' \<and> no_field hs ''Transfer-Encoding'' \<and> no_field hs ''Connection''
    \<and> keep_alive_text s \<in> set (mm_values to_lower hs ''Keep-Alive'')
    \<and> (\<forall>inp aft stat. rest inp = write_headers hs @ concat ds @ aft \<and> \<not> broken inp \<longrightarrow>
         (\<exists>inp1 inp2. read_headers inp [] = (True, inp1, hs)
            \<and> read_body body_receiver hs (2 ^ 64 - 1) stat inp1 [] = Inr (Some (concat ds @ aft), stat, inp2)))"
proof -
  define h where "h = add_provided_fields req r (connection_field s False (plain r))"
  let ?hs = "rsp_headers h" and ?st = "st\<lparr>sent := sent st @ response_head h\<rparr>"
  have p: "p_provider r \<noteq> None" using assms(4) by simp
  have so: "mm_sorted to_lower (rsp_headers (plain r))" using assms(8) by (simp add: fields_ok_def)
  note all = provided_fields_all [OF so p assms(13,15), of False, folded h_def]
  have v: "no_field ?hs ''Content-Length''" "no_field ?hs ''Transfer-Encoding''" "no_field ?hs ''Connection''"
    "keep_alive_text s \<in> set (mm_values to_lower ?hs ''Keep-Alive'')"
    using assms(9-11) field_names by (simp_all add: no_field_def all)
  have ok: "fields_ok ?hs" unfolding h_def using assms(8,15) by (rule fields_ok_provided)
  have b: "body h = []" "status h = status (plain r)" using assms(7) by (simp_all add: h_def body_kept)
  have a: "apply_ranges_provided (random_numbers env) req r = Inr (r\<lparr>plain := plain r\<rparr>, [], [])"
    using assms(4-7,12,18) so by (simp add: apply_ranges_provided_def provided_range_fields_def encoding_type_none)
  have run: "write_provided_core ready shutting_down env s (hooks_of s) False req r True st w
    = send_provided ready shutting_down req (r\<lparr>plain := h\<rparr>) [] [] st w"
    unfolding h_def using assms(14,16) a assms(18,19) by (rule write_provided_bare)
  have "sends ?st = []" using assms(17) by simp
  then have "write_content_without_length ready shutting_down provider ?st w
      = Some (Inr (True, ?st\<lparr>sent := sent ?st @ concat ds\<rparr>, w'))"
    unfolding write_content_without_length_def
    using write_content_without_length_script [where ready = ready and shutting_down = shutting_down, OF assms(1-3)] by blast
  then have "write_provided_core ready shutting_down env s (hooks_of s) False req r True st w
      = Some (Inr (True, r\<lparr>plain := h, p_success := True\<rparr>,
          st\<lparr>sent := sent st @ status_line (status (plain r)) @ write_headers ?hs @ concat ds\<rparr>, w'))"
    unfolding run using assms(4-6,13,17) b
    by (simp add: send_provided_def write_content_with_provider_def strm_write_all response_head_def)
  moreover have "\<exists>inp1 inp2. read_headers inp [] = (True, inp1, ?hs)
      \<and> read_body body_receiver ?hs (2 ^ 64 - 1) stat inp1 [] = Inr (Some (concat ds @ aft), stat, inp2)"
    if inp: "rest inp = write_headers ?hs @ concat ds @ aft \<and> \<not> broken inp" for inp aft stat
  proof -
    obtain inp1 where r1: "read_headers inp [] = (True, inp1, ?hs)" "rest inp1 = concat ds @ aft"
      using read_headers_written [of ?hs "[]" inp] ok inp by (auto simp: read_headers_def fields_ok_def)
    have "\<not> broken inp1" using read_headers_loop_keeps r1(1) inp unfolding read_headers_def by fastforce
    moreover obtain x inp2 where r2: "read_content_without_length body_receiver inp1 [] = (x, inp2)" by fastforce
    ultimately have "x = Some (concat ds @ aft)" using body.without_length r1(2) by fastforce
    moreover have "is_chunked_transfer_encoding ?hs = Inr False" "\<not> has_header ?hs ''Content-Length''"
      using v(1,2) ok
      by (simp_all add: is_chunked_transfer_encoding_def get_header_value_def mm_get_first fields_ok_def no_field_def
          has_header_def mm_has_values to_lower_def)
    ultimately show ?thesis using r1(1) r2 by (simp add: read_body_def)
  qed
  ultimately show ?thesis using v by (intro exI [of _ "r\<lparr>plain := h, p_success := True\<rparr>"] exI [of _ ?hs] conjI allI impI)
qed

theorem unsized_response_unframed_witness:
  "\<exists>r' hs. write_provided_core (\<lambda>_. True) (\<lambda>_. False) env_example new_server (hooks_of new_server) False
      (empty_request\<lparr>req_method := ''GET''\<rparr>)
      (set_content_provider_without_length ''text/plain'' two_piece_provider None (unprovided (empty_response\<lparr>status := 200\<rparr>)))
      True (conn_example []) 0
      = Some (Inr (True, r', (conn_example [])\<lparr>sent := status_line 200 @ write_headers hs @ ''abcd''\<rparr>, 2))
    \<and> no_field hs ''Content-Length'' \<and> no_field hs ''Transfer-Encoding'' \<and> no_field hs ''Connection''
    \<and> (\<exists>inp1 inp2. read_headers (conn_example [write_headers hs, ''abcdHTTP'']) [] = (True, inp1, hs)
         \<and> read_body body_receiver hs (2 ^ 64 - 1) 200 inp1 [] = Inr (Some ''abcdHTTP'', 200, inp2))"
proof -
  let ?r = "set_content_provider_without_length ''text/plain'' two_piece_provider None (unprovided (empty_response\<lparr>status := 200\<rparr>))"
  let ?q = "empty_request\<lparr>req_method := ''GET''\<rparr>"
  have r: "p_provider ?r = Some (ContentProviderAdapter two_piece_provider)" "p_length ?r = 0" "\<not> p_chunked ?r"
    "body (plain ?r) = []" "status (plain ?r) = 200"
    by (simp_all add: set_content_provider_without_length_def unprovided_def body_kept empty_response_def)
  have hs: "rsp_headers (plain ?r) = [(''Content-Type'', ''text/plain'')]"
    by (simp add: set_content_provider_without_length_def unprovided_def empty_response_def set_header_def) code_simp
  have f: "fields_ok (rsp_headers (plain ?r))" "no_field (rsp_headers (plain ?r)) ''Transfer-Encoding''"
    "no_field (rsp_headers (plain ?r)) ''Content-Length''" "no_field (rsp_headers (plain ?r)) ''Connection''"
    unfolding hs no_field_def fields_ok_def by code_simp+
  have c: "ranges ?q = []" "req_method ?q \<noteq> ''HEAD''" "status (plain ?r) \<noteq> - 1" "sends (conn_example []) = []"
    "mm_sorted to_lower (req_headers ?q)" "no_field (req_headers ?q) ''Connection''"
    using r by (simp_all add: empty_request_def conn_example_def no_field_def mm_values_def mm_sorted_def)
  obtain r' hs where w: "write_provided_core (\<lambda>_. True) (\<lambda>_. False) env_example new_server (hooks_of new_server) False ?q ?r
      True (conn_example []) 0 = Some (Inr (True, r', (conn_example [])\<lparr>sent := sent (conn_example [])
         @ status_line (status (plain ?r)) @ write_headers hs @ concat ([''ab'', ''c''] @ [''d''])\<rparr>, 2))"
    and n: "no_field hs ''Content-Length''" "no_field hs ''Transfer-Encoding''" "no_field hs ''Connection''"
    and rd: "\<forall>inp aft stat. rest inp = write_headers hs @ concat ([''ab'', ''c''] @ [''d'']) @ aft \<and> \<not> broken inp \<longrightarrow>
         (\<exists>inp1 inp2. read_headers inp [] = (True, inp1, hs) \<and> read_body body_receiver hs (2 ^ 64 - 1) stat inp1 []
            = Inr (Some (concat ([''ab'', ''c''] @ [''d'']) @ aft), stat, inp2))"
    using unsized_response_unframed [where ready = "\<lambda>_. True" and shutting_down = "\<lambda>_. False" and env = env_example,
      OF two_piece_script _ _ r(1-4) f c(1,2) new_server_bare new_server_keep_alive c(3-6)] by auto
  have "rest (conn_example [write_headers hs, ''abcdHTTP'']) = write_headers hs @ concat ([''ab'', ''c''] @ [''d'']) @ ''HTTP''
      \<and> \<not> broken (conn_example [write_headers hs, ''abcdHTTP''])" by (simp add: conn_example_def rest_def)
  from spec [OF spec [OF spec [OF rd]], THEN mp, OF this, of 200] n w r(5) show ?thesis
    by (intro exI [of _ r'] exI [of _ hs]) (simp add: conn_example_def)
qed

lemma provided_range_behind_end:
  assumes "ranges req = [(int a, int b)]" and "n \<le> a" and "a \<le> b" and "b < 2 ^ 63" and "0 < n"
    and "p_length r = n" and "body (plain r) = []" and "mm_sorted to_lower (req_headers req)" and "mm_sorted to_lower (rsp_headers (plain r))"
  shows "get_range_offset_and_length req n 0 = (a, b - a + 1)"
    and "apply_ranges_provided engine req r = Inr (r\<lparr>plain := set_header ''Content-Length'' (nat_string (b - a + 1))
          (set_header ''Content-Range'' (''bytes '' @ nat_string a @ ''-'' @ nat_string b @ ''/'' @ nat_string n) (plain r))\<rparr>, [], [])"
proof -
  have "to_size_t (int b - int a + 1) = b - a + 1"
    using assms(3,4) by (simp add: to_size_t_def of_nat_diff nat_add_distrib)
  moreover have "to_size_t (int a) = a" using assms(3,4) by (simp add: to_size_t_def)
  ultimately show g: "get_range_offset_and_length req n 0 = (a, b - a + 1)"
    by (simp add: get_range_offset_and_length_def assms(1))
  have "to_size_t (int a + int (b - a + 1) - 1) = b" using assms(3,4) by (simp add: to_size_t_def of_nat_diff)
  then have "make_content_range_header_field a (b - a + 1) n
      = ''bytes '' @ nat_string a @ ''-'' @ nat_string b @ ''/'' @ nat_string n"
    by (simp add: make_content_range_header_field_def)
  moreover have "asked req (p_length r) = Some (a, b - a + 1)" using g assms(1,6) by (simp add: asked_def)
  ultimately show "apply_ranges_provided engine req r = Inr (r\<lparr>plain := set_header ''Content-Length'' (nat_string (b - a + 1))
          (set_header ''Content-Range'' (''bytes '' @ nat_string a @ ''-'' @ nat_string b @ ''/'' @ nat_string n) (plain r))\<rparr>, [], [])"
    using apply_ranges_provided_asked [of r req a "b - a + 1" engine] assms(1,5-9) by (simp add: asked_fields_def)
qed

lemma write_content_one_call:
  assumes "0 < len" and "off + len < 2 ^ 64" and "\<And>st. ready st" and "\<And>w. \<not> shutting_down w" and "sends st = []"
  shows "pieces (provider off len w) = Some (ds, False, w') \<Longrightarrow> length (concat ds) = len \<Longrightarrow>
      write_content ready shutting_down provider off len st w = Some (Inr (True, Success, st\<lparr>sent := sent st @ concat ds\<rparr>, w'))"
    and "provider off len w = Provider_returns False w' \<Longrightarrow>
      write_content ready shutting_down provider off len st w = Some (Inr (False, Canceled, st, w'))"
proof -
  have e: "to_size_t (int off + int len) = off + len" using assms(2) by (simp add: to_size_t_def nat_add_distrib)
  show "write_content ready shutting_down provider off len st w = Some (Inr (False, Canceled, st, w'))"
    if "provider off len w = Provider_returns False w'"
    unfolding write_content_def e using assms(1,4) that by (subst write_content_loop.simps) simp
  show "write_content ready shutting_down provider off len st w = Some (Inr (True, Success, st\<lparr>sent := sent st @ concat ds\<rparr>, w'))"
    if p: "pieces (provider off len w) = Some (ds, False, w')" and l: "length (concat ds) = len"
    unfolding write_content_def e
    using assms(1,4) l content_sink_run [of _ ds w' st ready off, OF p assms(5) assms(3)]
    by (subst write_content_loop.simps) (simp, subst write_content_loop.simps, simp)
qed

text \<open>
  C34. A range behind the end is refused with 416 for a response with a body, but not for one with a
  provider. For a request for the bytes \<open>a\<close> to \<open>b\<close> of a content of \<open>n\<close> bytes, \<open>n\<close> at most \<open>a\<close>, the response
  with a provider keeps the status of the handler, announces \<open>bytes a-b/n\<close> and a length of \<open>b - a + 1\<close>
  bytes that do not exist, and the provider is called for exactly these: when it writes as many bytes in this
  call, whatever they are, they are sent as the content, and when it returns \<open>false\<close> there is none. Both ends of
  the range are given; the end of an open range behind the end wraps around, and the provider is not called.
\<close>

theorem provided_range_not_refused:
  assumes "ranges req = [(int a, int b)]" and "n \<le> a" and "a \<le> b" and "b < 2 ^ 63" and "0 < n"
    and "p_length r = n" and "body (plain r) = []" and "mm_sorted to_lower (req_headers req)" and "mm_sorted to_lower (rsp_headers (plain r))"
    and "\<And>st. ready st" and "\<And>w. \<not> shutting_down w" and "sends st = []"
  shows "(\<forall>txt. length txt = n \<longrightarrow>
        (\<exists>res. apply_ranges engine req ((plain r)\<lparr>body := txt\<rparr>) = Inr res \<and> status res = 416 \<and> body res = []))
    \<and> (\<exists>r1. apply_ranges_provided engine req r = Inr (r1, [], []) \<and> status (plain r1) = status (plain r)
      \<and> plain r1 = set_header ''Content-Length'' (nat_string (b - a + 1))
          (set_header ''Content-Range'' (''bytes '' @ nat_string a @ ''-'' @ nat_string b @ ''/'' @ nat_string n) (plain r))
      \<and> (\<forall>provider ds w w'. pieces (provider a (b - a + 1) w) = Some (ds, False, w') \<and> length (concat ds) = b - a + 1 \<longrightarrow>
          write_content_with_provider ready shutting_down req r1 provider [] [] st w
            = Some (Inr (True, st\<lparr>sent := sent st @ concat ds\<rparr>, w')))
      \<and> (\<forall>provider w w'. provider a (b - a + 1) w = Provider_returns False w' \<longrightarrow>
          write_content_with_provider ready shutting_down req r1 provider [] [] st w = Some (Inr (False, st, w'))))"
proof (intro conjI allI impI)
  fix t :: string
  assume len: "length t = n"
  have "mm_sorted to_lower (rsp_headers ((plain r)\<lparr>body := t\<rparr>))" using assms(9) by simp
  from encoding_type_none [OF this assms(8)] len assms(1,2,5) provided_range_behind_end(1) [OF assms(1-9)]
  show "\<exists>res. apply_ranges engine req ((plain r)\<lparr>body := t\<rparr>) = Inr res \<and> status res = 416 \<and> body res = []"
    by (auto simp: apply_ranges_def Let_def body_kept)
next
  let ?r1 = "r\<lparr>plain := set_header ''Content-Length'' (nat_string (b - a + 1))
          (set_header ''Content-Range'' (''bytes '' @ nat_string a @ ''-'' @ nat_string b @ ''/'' @ nat_string n) (plain r))\<rparr>"
  have len: "0 < b - a + 1" "a + (b - a + 1) < 2 ^ 64" using assms(3,4) by simp_all
  have run: "write_content_with_provider ready shutting_down req ?r1 provider [] [] st w
      = robind (write_content ready shutting_down provider a (b - a + 1) st w) (\<lambda>(ok, err, st, w). Some (Inr (ok, st, w)))"
    for provider w
    using assms(1,5,6) provided_range_behind_end(1) [OF assms(1-9)] by (simp add: write_content_with_provider_def)
  note one = write_content_one_call [OF len, where ready = ready and shutting_down = shutting_down, OF assms(10,11,12)]
  show "\<exists>r1. apply_ranges_provided engine req r = Inr (r1, [], []) \<and> status (plain r1) = status (plain r)
      \<and> plain r1 = set_header ''Content-Length'' (nat_string (b - a + 1))
          (set_header ''Content-Range'' (''bytes '' @ nat_string a @ ''-'' @ nat_string b @ ''/'' @ nat_string n) (plain r))
      \<and> (\<forall>provider ds w w'. pieces (provider a (b - a + 1) w) = Some (ds, False, w') \<and> length (concat ds) = b - a + 1 \<longrightarrow>
          write_content_with_provider ready shutting_down req r1 provider [] [] st w
            = Some (Inr (True, st\<lparr>sent := sent st @ concat ds\<rparr>, w')))
      \<and> (\<forall>provider w w'. provider a (b - a + 1) w = Provider_returns False w' \<longrightarrow>
          write_content_with_provider ready shutting_down req r1 provider [] [] st w = Some (Inr (False, st, w')))"
  proof (intro exI [of _ ?r1] conjI allI impI)
    show "apply_ranges_provided engine req r = Inr (?r1, [], [])" by (rule provided_range_behind_end(2) [OF assms(1-9)])
    show "write_content_with_provider ready shutting_down req ?r1 provider [] [] st w
        = Some (Inr (True, st\<lparr>sent := sent st @ concat ds\<rparr>, w'))"
      if "pieces (provider a (b - a + 1) w) = Some (ds, False, w') \<and> length (concat ds) = b - a + 1" for provider ds w w'
      unfolding run one(1) [where provider = provider and w = w and ds = ds, OF conjunct1 [OF that] conjunct2 [OF that]] by simp
    show "write_content_with_provider ready shutting_down req ?r1 provider [] [] st w = Some (Inr (False, st, w'))"
      if "provider a (b - a + 1) w = Provider_returns False w'" for provider w w'
      unfolding run one(2) [where provider = provider and w = w, OF that] by simp
  qed (simp_all add: body_kept)
qed

definition filling_provider :: "(nat \<times> nat) list content_provider" where
  "filling_provider off len calls =
     Sink_write (replicate len (CHR ''x'')) (\<lambda>_. Provider_returns True (calls @ [(off, len)]))"

theorem provided_range_not_refused_witness:
  "\<exists>r1. apply_ranges_provided id (empty_request\<lparr>ranges := [(5, 9)]\<rparr>)
      ((unprovided (empty_response\<lparr>status := 206\<rparr>))\<lparr>p_length := 3, p_provider := Some filling_provider\<rparr>)
      = Inr (r1, [], []) \<and> status (plain r1) = 206
    \<and> rsp_headers (plain r1) = [(''Content-Length'', ''5''), (''Content-Range'', ''bytes 5-9/3'')]
    \<and> write_content_with_provider (\<lambda>_. True) (\<lambda>_. False) (empty_request\<lparr>ranges := [(5, 9)]\<rparr>) r1 filling_provider [] []
        (conn_example []) []
      = Some (Inr (True, (conn_example [])\<lparr>sent := ''xxxxx''\<rparr>, [(5, 5)]))"
proof -
  let ?req = "empty_request\<lparr>ranges := [(5, 9)]\<rparr>"
  let ?r = "(unprovided (empty_response\<lparr>status := 206\<rparr>))\<lparr>p_length := 3, p_provider := Some filling_provider\<rparr>"
  have r: "ranges ?req = [(int 5, int 9)]" "(3::nat) \<le> 5" "(5::nat) \<le> 9" "(9::nat) < 2 ^ 63" "(0::nat) < 3" "p_length ?r = 3"
    "body (plain ?r) = []" "mm_sorted to_lower (req_headers ?req)" "mm_sorted to_lower (rsp_headers (plain ?r))"
    "sends (conn_example []) = []"
    by (simp_all add: unprovided_def empty_response_def empty_request_def mm_sorted_def conn_example_def)
  have p: "pieces (filling_provider 5 (9 - 5 + 1) []) = Some ([''xxxxx''], False, [(5, 5)]) \<and> length (concat [''xxxxx'']) = 9 - 5 + 1"
    by (simp add: filling_provider_def numeral_eq_Suc)
  from provided_range_not_refused [where ready = "\<lambda>_. True" and shutting_down = "\<lambda>_. False", OF r(1-9) _ _ r(10), of id]
  obtain r1 where a: "apply_ranges_provided id ?req ?r = Inr (r1, [], [])" "status (plain r1) = status (plain ?r)"
    "plain r1 = set_header ''Content-Length'' (nat_string (9 - 5 + 1))
       (set_header ''Content-Range'' (''bytes '' @ nat_string 5 @ ''-'' @ nat_string 9 @ ''/'' @ nat_string 3) (plain ?r))"
    and w: "write_content_with_provider (\<lambda>_. True) (\<lambda>_. False) ?req r1 filling_provider [] [] (conn_example []) []
      = Some (Inr (True, (conn_example [])\<lparr>sent := sent (conn_example []) @ concat [''xxxxx'']\<rparr>, [(5, 5)]))"
    using p by blast
  have "nat_string (9 - 5 + 1) = ''5''" "nat_string 5 = ''5''" "nat_string 9 = ''9''" "nat_string 3 = ''3''" by code_simp+
  moreover have "mm_emplace to_lower ''Content-Length'' ''5'' (mm_emplace to_lower ''Content-Range'' ''bytes 5-9/3'' [])
      = [(''Content-Length'', ''5''), (''Content-Range'', ''bytes 5-9/3'')]"
    "\<not> has_crlf ''Content-Length''" "\<not> has_crlf ''5''" "\<not> has_crlf ''Content-Range''" "\<not> has_crlf ''bytes 5-9/3''"
    by code_simp+
  ultimately have "rsp_headers (plain r1) = [(''Content-Length'', ''5''), (''Content-Range'', ''bytes 5-9/3'')]"
    unfolding a(3) by (simp add: set_header_def unprovided_def empty_response_def)
  with a(1,2) w show ?thesis by (simp add: conn_example_def unprovided_def empty_response_def)
qed

text \<open>
  Of several ranges of a provided response one without an end is computed for an empty body: nothing
  is written for it, and its length, a negative number modulo \<open>2 ^ 64\<close>, makes the announced length
  smaller than what is written.
\<close>

lemma open_range_writes_nothing:
  assumes "ranges req ! i = (a, - 1)" and "0 < a" and "a < 2 ^ 63" and "\<And>w. \<not> shutting_down w"
  shows "get_range_offset_and_length req 0 i = (nat a, nat (2 ^ 64 - a))"
    and "write_content ready shutting_down provider (nat a) (nat (2 ^ 64 - a)) st w = Some (Inr (True, Success, st, w))"
    and "n < 2 ^ 63 \<Longrightarrow> nat a \<le> n \<Longrightarrow> to_size_t (int (n + nat (2 ^ 64 - a))) = n - nat a"
proof -
  have "(- a) mod 2 ^ 64 = 2 ^ 64 - a" using assms(2,3) by (simp add: zmod_zminus1_eq_if)
  with assms(1-3) show "get_range_offset_and_length req 0 i = (nat a, nat (2 ^ 64 - a))"
    by (simp add: get_range_offset_and_length_def to_size_t_def)
  have "to_size_t (int (nat a) + int (nat (2 ^ 64 - a))) = 0" using assms(2,3) by (simp add: to_size_t_def)
  then show "write_content ready shutting_down provider (nat a) (nat (2 ^ 64 - a)) st w = Some (Inr (True, Success, st, w))"
    unfolding write_content_def by (subst write_content_loop.simps) simp
  assume n: "n < 2 ^ 63" "nat a \<le> n"
  have "int (n + nat (2 ^ 64 - a)) = (int n - a) + 2 ^ 64" using assms(2,3) by simp
  moreover have "int n < 2 ^ 63" using n(1) by (metis of_nat_less_iff of_nat_numeral of_nat_power)
  moreover have "(2 :: int) ^ 63 < 2 ^ 64" by simp
  ultimately have e: "int (n + nat (2 ^ 64 - a)) = (int n - a) + 2 ^ 64" "0 \<le> int n - a" "int n - a < 2 ^ 64"
    using n(2) assms(2) by linarith+
  then show "to_size_t (int (n + nat (2 ^ 64 - a))) = n - nat a"
    using assms(2) n(2) unfolding to_size_t_def e(1) by simp
qed

text \<open>\<open>make_multipart_ranges_data\<close> of \<open>Http_Content\<close> is \<open>process_multipart_ranges_data\<close> for a text.\<close>

lemma fold_append: "fold (\<lambda>t d. d @ t) ts d = d @ concat ts"
  by (induction ts arbitrary: d) simp_all

lemma part_tokens_head: "concat (part_tokens boundary ct off len n) = part_head boundary ct off len n"
  by (simp add: part_tokens_def part_head_def)

lemma make_multipart_as_parts:
  "\<exists>d. process_multipart_ranges_data req res boundary ct (\<lambda>t d. d @ t)
       (\<lambda>off len d. Some (Inr (if off < length (body res) then (True, d @ take len (drop off (body res))) else (False, d)))) []
     = Some (Inr (make_multipart_ranges_data req res boundary ct \<noteq> None, d))
   \<and> (\<forall>e. make_multipart_ranges_data req res boundary ct = Some e \<longrightarrow> d = e)"
proof -
  have "\<exists>d. multipart_parts is req (length (body res)) boundary ct (\<lambda>t d. d @ t)
       (\<lambda>off len d. Some (Inr (if off < length (body res) then (True, d @ take len (drop off (body res))) else (False, d)))) d0
     = Some (Inr (multipart_ranges_loop is req (body res) boundary ct d0 \<noteq> None, d))
   \<and> (\<forall>e. multipart_ranges_loop is req (body res) boundary ct d0 = Some e \<longrightarrow> d = e)" for "is" d0
  proof (induction "is" arbitrary: d0)
    case Nil
    then show ?case by simp
  next
    case (Cons i "is")
    obtain off len where g: "get_range_offset_and_length req (length (body res)) i = (off, len)" by fastforce
    show ?case
      using Cons.IH [of "d0 @ part_head boundary ct off len (length (body res)) @ take len (drop off (body res)) @ CRLF"]
      by (cases "off < length (body res)") (simp_all add: g fold_append part_tokens_head)
  qed
  then show ?thesis unfolding process_multipart_ranges_data_def make_multipart_ranges_data_def by blast
qed

end
