(* ===== verification/Logger.thy ===== *)
theory Logger
  imports Prelude
begin

text \<open>
  The class \<open>Log\<close> (\<open>sgx/src/log/Log.cpp\<close>) and the scope guard \<open>Defer\<close>
  (\<open>sgx/src/include/Defer.h\<close>).

  First the operations one after the other: formatting into the shared buffer, copying the text
  out of it and printing the line. Then the two places where threads meet, as step relations:
  \<open>get_instance\<close> with its double check around the mutex, and the printing of lines under
  \<open>log_mutex\<close>. The steps of different threads interleave in any order and each reads and writes
  shared memory at once (sequential consistency).
\<close>

section \<open>Formatting and printing\<close>

definition CRUST_LOG_BUF_SIZE :: nat where "CRUST_LOG_BUF_SIZE = 33554432"
definition CRUST_LOG_INFO_TAG :: string where "CRUST_LOG_INFO_TAG = ''INFO''"
definition CRUST_LOG_WARN_TAG :: string where "CRUST_LOG_WARN_TAG = ''WARN''"
definition CRUST_LOG_ERR_TAG :: string where "CRUST_LOG_ERR_TAG = ''ERROR''"
definition CRUST_LOG_DEBUG_TAG :: string where "CRUST_LOG_DEBUG_TAG = ''DEBUG''"

text \<open>
  The object: its flag, its buffer and what has gone to the standard output. The clock is what
  \<open>gettimeofday\<close>, \<open>localtime\<close> and \<open>strftime\<close> give: the text of the time, or \<open>None\<close> when
  \<open>strftime\<close> returns 0, and the microseconds.
\<close>

record log_state =
  debug_flag :: bool
  log_buf :: string
  log_out :: string

record clock =
  time_str :: "string option"
  tv_usec :: nat

definition Log_init :: "string \<Rightarrow> log_state" where
  "Log_init memory = \<lparr>debug_flag = False, log_buf = memory, log_out = []\<rparr>"

definition set_debug :: "bool \<Rightarrow> log_state \<Rightarrow> log_state" where
  "set_debug flag l = l\<lparr>debug_flag := flag\<rparr>"

definition get_debug_flag :: "log_state \<Rightarrow> bool" where
  "get_debug_flag l = debug_flag l"

text \<open>
  \<open>vsnprintf(buf, size, ...)\<close> where the formatted text is \<open>txt\<close>: at most \<open>size - 1\<close> characters
  and a NUL are stored, the number returned is the length of the whole text.
\<close>

definition vsnprintf :: "string \<Rightarrow> nat \<Rightarrow> string \<Rightarrow> string \<times> nat" where
  "vsnprintf buf size_n txt =
     (let stored = take (size_n - 1) txt
      in (stored @ NUL # drop (length stored + 1) buf, length txt))"

text \<open>\<open>std::string(buf, n)\<close>.\<close>

definition string_from_buf :: "string \<Rightarrow> nat \<Rightarrow> string res" where
  "string_from_buf buf n =
     (if n \<le> length buf then Inr (take n buf) else Inl (Undefined Read_out_of_bounds))"

text \<open>\<open>printf("%03d", n)\<close> for a number that is not negative.\<close>

definition printf_03d :: "nat \<Rightarrow> string" where
  "printf_03d n = replicate (3 - length (nat_string n)) CHR ''0'' @ nat_string n"

definition log_line :: "clock \<Rightarrow> string \<Rightarrow> string \<Rightarrow> string" where
  "log_line now tag log_str =
     ''['' @ (case time_str now of Some t \<Rightarrow> t | None \<Rightarrow> []) @ ''.'' @ printf_03d (tv_usec now div 1000)
     @ ''] ['' @ takeWhile (\<lambda>c. c \<noteq> NUL) tag @ ''] '' @ takeWhile (\<lambda>c. c \<noteq> NUL) log_str"

definition base_log :: "clock \<Rightarrow> string \<Rightarrow> string \<Rightarrow> log_state \<Rightarrow> log_state" where
  "base_log now log_str tag l = l\<lparr>log_out := log_out l @ log_line now tag log_str\<rparr>"

definition log_tagged :: "clock \<Rightarrow> string \<Rightarrow> string \<Rightarrow> log_state \<Rightarrow> log_state res" where
  "log_tagged now tag txt l =
     (let (buf, n) = vsnprintf (log_buf l) CRUST_LOG_BUF_SIZE txt
      in rbind (string_from_buf buf n) (\<lambda>log_str. Inr (base_log now log_str tag (l\<lparr>log_buf := buf\<rparr>))))"

definition log_info :: "clock \<Rightarrow> string \<Rightarrow> log_state \<Rightarrow> log_state res" where
  "log_info now txt l = log_tagged now CRUST_LOG_INFO_TAG txt l"

definition log_warn :: "clock \<Rightarrow> string \<Rightarrow> log_state \<Rightarrow> log_state res" where
  "log_warn now txt l = log_tagged now CRUST_LOG_WARN_TAG txt l"

definition log_err :: "clock \<Rightarrow> string \<Rightarrow> log_state \<Rightarrow> log_state res" where
  "log_err now txt l = log_tagged now CRUST_LOG_ERR_TAG txt l"

definition log_debug :: "clock \<Rightarrow> string \<Rightarrow> log_state \<Rightarrow> log_state res" where
  "log_debug now txt l = (if debug_flag l then log_tagged now CRUST_LOG_DEBUG_TAG txt l else Inr l)"

section \<open>The instance\<close>

text \<open>
  The program counter of a thread in \<open>get_instance\<close>: before the first check, before the lock,
  before the second check, before the unlock, before the final read, and behind it with the
  pointer it returned. A pointer is the number of the object, counting the constructions.
\<close>

datatype gi_pc = Check_first | Lock_mutex | Check_second | Unlock_mutex | Read_log | Returned "nat option"

record gi_state =
  log_ptr :: "nat option"
  n_created :: nat
  mutex_owner :: "nat option"
  gi_pcs :: "nat \<Rightarrow> gi_pc"

definition gi_init :: gi_state where
  "gi_init = \<lparr>log_ptr = None, n_created = 0, mutex_owner = None, gi_pcs = (\<lambda>_. Check_first)\<rparr>"

inductive get_instance_step :: "gi_state \<Rightarrow> gi_state \<Rightarrow> bool" where
  first_null: "gi_pcs s t = Check_first \<Longrightarrow> log_ptr s = None \<Longrightarrow>
    get_instance_step s (s\<lparr>gi_pcs := (gi_pcs s)(t := Lock_mutex)\<rparr>)"
| first_set: "gi_pcs s t = Check_first \<Longrightarrow> log_ptr s \<noteq> None \<Longrightarrow>
    get_instance_step s (s\<lparr>gi_pcs := (gi_pcs s)(t := Read_log)\<rparr>)"
| lock: "gi_pcs s t = Lock_mutex \<Longrightarrow> mutex_owner s = None \<Longrightarrow>
    get_instance_step s (s\<lparr>mutex_owner := Some t, gi_pcs := (gi_pcs s)(t := Check_second)\<rparr>)"
| second_null: "gi_pcs s t = Check_second \<Longrightarrow> log_ptr s = None \<Longrightarrow>
    get_instance_step s (s\<lparr>log_ptr := Some (n_created s), n_created := n_created s + 1,
                           gi_pcs := (gi_pcs s)(t := Unlock_mutex)\<rparr>)"
| second_set: "gi_pcs s t = Check_second \<Longrightarrow> log_ptr s \<noteq> None \<Longrightarrow>
    get_instance_step s (s\<lparr>gi_pcs := (gi_pcs s)(t := Unlock_mutex)\<rparr>)"
| unlock: "gi_pcs s t = Unlock_mutex \<Longrightarrow>
    get_instance_step s (s\<lparr>mutex_owner := None, gi_pcs := (gi_pcs s)(t := Read_log)\<rparr>)"
| return: "gi_pcs s t = Read_log \<Longrightarrow>
    get_instance_step s (s\<lparr>gi_pcs := (gi_pcs s)(t := Returned (log_ptr s))\<rparr>)"

text \<open>What a program counter says of the pointer and the mutex.\<close>

fun pc_ok :: "nat option \<Rightarrow> nat option \<Rightarrow> nat \<Rightarrow> gi_pc \<Rightarrow> bool" where
  "pc_ok ptr owner t Check_second \<longleftrightarrow> owner = Some t"
| "pc_ok ptr owner t Unlock_mutex \<longleftrightarrow> owner = Some t \<and> ptr = Some 0"
| "pc_ok ptr owner t Read_log \<longleftrightarrow> ptr = Some 0"
| "pc_ok ptr owner t (Returned p) \<longleftrightarrow> ptr = Some 0 \<and> p = Some 0"
| "pc_ok ptr owner t _ \<longleftrightarrow> True"

definition gi_inv :: "gi_state \<Rightarrow> bool" where
  "gi_inv s \<longleftrightarrow>
     (if log_ptr s = None then n_created s = 0 else log_ptr s = Some 0 \<and> n_created s = 1)
     \<and> (\<forall>t. pc_ok (log_ptr s) (mutex_owner s) t (gi_pcs s t))"

lemma gi_inv_init: "gi_inv gi_init"
  by (simp add: gi_inv_def gi_init_def)

text \<open>A thread that does not move keeps its assertion when the pointer is set or the mutex moves.\<close>

lemma pc_ok_create: "pc_ok None owner t pc \<Longrightarrow> pc_ok (Some 0) owner t pc"
  by (cases pc) auto

lemma pc_ok_lock: "pc_ok ptr None t pc \<Longrightarrow> pc_ok ptr (Some u) t pc"
  by (cases pc) auto

lemma pc_ok_unlock: "pc_ok ptr (Some u) t pc \<Longrightarrow> t \<noteq> u \<Longrightarrow> pc_ok ptr None t pc"
  by (cases pc) auto

lemma gi_invI:
  "(if log_ptr s = None then n_created s = 0 else log_ptr s = Some 0 \<and> n_created s = 1) \<Longrightarrow>
   (\<And>u. pc_ok (log_ptr s) (mutex_owner s) u (gi_pcs s u)) \<Longrightarrow> gi_inv s"
  by (simp add: gi_inv_def)

lemma gi_invD:
  assumes "gi_inv s"
  shows "if log_ptr s = None then n_created s = 0 else log_ptr s = Some 0 \<and> n_created s = 1"
    and "pc_ok (log_ptr s) (mutex_owner s) u (gi_pcs s u)"
  using assms by (simp_all add: gi_inv_def)

lemma gi_inv_step: "get_instance_step s s' \<Longrightarrow> gi_inv s \<Longrightarrow> gi_inv s'"
proof (induction rule: get_instance_step.induct)
  case (first_null s t)
  note ok = gi_invD(2) [OF first_null.prems] and ptr = gi_invD(1) [OF first_null.prems]
  show ?case using ptr ok first_null.hyps by (intro gi_invI) simp_all
next
  case (first_set s t)
  note ok = gi_invD(2) [OF first_set.prems] and ptr = gi_invD(1) [OF first_set.prems]
  show ?case using ptr ok first_set.hyps by (intro gi_invI) (simp_all split: if_splits)
next
  case (lock s t)
  note ok = gi_invD(2) [OF lock.prems] and ptr = gi_invD(1) [OF lock.prems]
  show ?case using ptr ok lock.hyps pc_ok_lock by (intro gi_invI) simp_all
next
  case (second_null s t)
  note ok = gi_invD(2) [OF second_null.prems] and ptr = gi_invD(1) [OF second_null.prems]
  have "mutex_owner s = Some t" using ok [of t] second_null.hyps by simp
  then   show ?case using ptr ok second_null.hyps pc_ok_create by (intro gi_invI) simp_all
next
  case (second_set s t)
  note ok = gi_invD(2) [OF second_set.prems] and ptr = gi_invD(1) [OF second_set.prems]
  have "mutex_owner s = Some t" using ok [of t] second_set.hyps by simp
  then   show ?case using ptr ok second_set.hyps by (intro gi_invI) (simp_all split: if_splits)
next
  case (unlock s t)
  note ok = gi_invD(2) [OF unlock.prems] and ptr = gi_invD(1) [OF unlock.prems]
  have "mutex_owner s = Some t" "log_ptr s = Some 0" using ok [of t] unlock.hyps by simp_all
  then   show ?case using ptr ok by (intro gi_invI) (auto intro: pc_ok_unlock)
next
  case (return s t)
  note ok = gi_invD(2) [OF return.prems] and ptr = gi_invD(1) [OF return.prems]
  have "log_ptr s = Some 0" using ok [of t] return.hyps by simp
  then   show ?case using ptr ok by (intro gi_invI) auto
qed

lemma gi_inv_reachable: "get_instance_step\<^sup>*\<^sup>* gi_init s \<Longrightarrow> gi_inv s"
  by (induction rule: rtranclp_induct) (auto intro: gi_inv_init gi_inv_step)

section \<open>Lines from several threads\<close>

text \<open>
  \<open>info\<close>, \<open>warn\<close>, \<open>err\<close> and \<open>debug\<close> as steps of threads on the shared buffer: taking
  \<open>log_mutex\<close>, formatting, copying the text out of the buffer, printing, releasing. The program
  counters remember the text of the call; \<open>calls\<close> lists the calls that have taken the mutex and
  \<open>lines\<close> what has been printed. Texts fit the buffer.
\<close>

datatype line_pc =
    Idle
  | Entered string string
  | Formatted string string nat
  | Copied string string string
  | Printed

record line_state =
  sh_buf :: string
  log_mutex :: "nat option"
  line_pcs :: "nat \<Rightarrow> line_pc"
  calls :: "(string \<times> string) list"
  printed :: "(string \<times> string) list"

definition line_init :: "string \<Rightarrow> line_state" where
  "line_init memory =
     \<lparr>sh_buf = memory, log_mutex = None, line_pcs = (\<lambda>_. Idle), calls = [], printed = []\<rparr>"

inductive line_step :: "line_state \<Rightarrow> line_state \<Rightarrow> bool" where
  take_mutex: "line_pcs s t = Idle \<Longrightarrow> log_mutex s = None \<Longrightarrow> length txt < CRUST_LOG_BUF_SIZE \<Longrightarrow>
    line_step s (s\<lparr>log_mutex := Some t, calls := calls s @ [(tag, txt)],
                   line_pcs := (line_pcs s)(t := Entered tag txt)\<rparr>)"
| format_text: "line_pcs s t = Entered tag txt \<Longrightarrow>
    vsnprintf (sh_buf s) CRUST_LOG_BUF_SIZE txt = (buf, n) \<Longrightarrow>
    line_step s (s\<lparr>sh_buf := buf, line_pcs := (line_pcs s)(t := Formatted tag txt n)\<rparr>)"
| copy_text: "line_pcs s t = Formatted tag txt n \<Longrightarrow> string_from_buf (sh_buf s) n = Inr str \<Longrightarrow>
    line_step s (s\<lparr>line_pcs := (line_pcs s)(t := Copied tag txt str)\<rparr>)"
| print_line: "line_pcs s t = Copied tag txt str \<Longrightarrow>
    line_step s (s\<lparr>printed := printed s @ [(tag, str)], line_pcs := (line_pcs s)(t := Printed)\<rparr>)"
| drop_mutex: "line_pcs s t = Printed \<Longrightarrow>
    line_step s (s\<lparr>log_mutex := None, line_pcs := (line_pcs s)(t := Idle)\<rparr>)"

text \<open>The fourth argument is the call that has been made but not printed, if there is one.\<close>

fun line_pc_ok :: "string \<Rightarrow> nat option \<Rightarrow> (string \<times> string) list \<Rightarrow> nat \<Rightarrow> line_pc \<Rightarrow> bool" where
  "line_pc_ok buf owner cs t Idle \<longleftrightarrow> True"
| "line_pc_ok buf owner cs t (Entered tag txt) \<longleftrightarrow>
     owner = Some t \<and> cs = [(tag, txt)] \<and> length txt < CRUST_LOG_BUF_SIZE"
| "line_pc_ok buf owner cs t (Formatted tag txt n) \<longleftrightarrow>
     owner = Some t \<and> cs = [(tag, txt)] \<and> string_from_buf buf n = Inr txt"
| "line_pc_ok buf owner cs t (Copied tag txt str) \<longleftrightarrow>
     owner = Some t \<and> cs = [(tag, txt)] \<and> str = txt"
| "line_pc_ok buf owner cs t Printed \<longleftrightarrow> owner = Some t \<and> cs = []"

definition line_inv :: "line_state \<Rightarrow> bool" where
  "line_inv s \<longleftrightarrow>
     (\<exists>cs. calls s = printed s @ cs \<and> (log_mutex s = None \<longrightarrow> cs = [])
       \<and> (\<forall>t. line_pc_ok (sh_buf s) (log_mutex s) cs t (line_pcs s t)))"

lemma line_invE:
  assumes "line_inv s"
  obtains cs where "calls s = printed s @ cs" and "log_mutex s = None \<longrightarrow> cs = []"
    and "\<forall>t. line_pc_ok (sh_buf s) (log_mutex s) cs t (line_pcs s t)"
  using that assms unfolding line_inv_def by (elim exE conjE)

lemma line_invI:
  "calls s = printed s @ cs \<Longrightarrow> (log_mutex s = None \<Longrightarrow> cs = []) \<Longrightarrow>
   (\<And>u. line_pc_ok (sh_buf s) (log_mutex s) cs u (line_pcs s u)) \<Longrightarrow> line_inv s"
  by (auto simp: line_inv_def)

text \<open>What fits the buffer comes out of it again.\<close>

lemma vsnprintf_fits:
  "length txt < size_n \<Longrightarrow> vsnprintf buf size_n txt = (buf', n) \<Longrightarrow>
   n = length txt \<and> string_from_buf buf' n = Inr txt"
  by (auto simp: vsnprintf_def Let_def string_from_buf_def)

text \<open>A thread other than the owner of the mutex is idle, and idle it stays whatever happens.\<close>

lemma line_pc_ok_other: "line_pc_ok buf (Some u) cs t pc \<Longrightarrow> t \<noteq> u \<Longrightarrow> pc = Idle"
  by (cases pc) auto

lemma line_pc_ok_free: "line_pc_ok buf None cs t pc \<Longrightarrow> pc = Idle"
  by (cases pc) auto

lemma line_inv_step:
  assumes "line_step s s'" and "line_inv s"
  shows "line_inv s'"
proof -
  from assms(2) obtain cs where c: "calls s = printed s @ cs" and n: "log_mutex s = None \<longrightarrow> cs = []"
    and all: "\<forall>t. line_pc_ok (sh_buf s) (log_mutex s) cs t (line_pcs s t)"
    by (rule line_invE)
  note ok = spec [OF all]
  have idle: "line_pcs s u = Idle" if "log_mutex s = None \<or> log_mutex s = Some t \<and> u \<noteq> t" for u t
    using ok [of u] that line_pc_ok_free line_pc_ok_other by (cases "log_mutex s") auto
  from assms(1) show ?thesis
  proof (cases rule: line_step.cases)
    case (take_mutex t msg tag)
    with c n idle show ?thesis by (intro line_invI [of _ "[(tag, msg)]"]) auto
  next
    case (format_text t tag msg buf n)
    with ok [of t] vsnprintf_fits [OF _ format_text(3)] c idle [of t]
    show ?thesis by (intro line_invI [of _ "[(tag, msg)]"]) auto
  next
    case (copy_text t tag msg n str)
    with ok [of t] c idle [of t] show ?thesis by (intro line_invI [of _ "[(tag, msg)]"]) auto
  next
    case (print_line t tag msg str)
    with ok [of t] c idle [of t] show ?thesis by (intro line_invI [of _ "[]"]) auto
  next
    case (drop_mutex t)
    with ok [of t] c idle [of t] show ?thesis by (intro line_invI [of _ "[]"]) auto
  qed
qed

lemma line_inv_init: "line_inv (line_init memory)"
  by (simp add: line_inv_def line_init_def)

lemma line_inv_reachable: "line_step\<^sup>*\<^sup>* (line_init memory) s \<Longrightarrow> line_inv s"
  by (induction rule: rtranclp_induct) (auto intro: line_inv_init line_inv_step)

text \<open>The owner of the mutex is in the middle of a call.\<close>

definition line_held :: "line_state \<Rightarrow> bool" where
  "line_held s \<longleftrightarrow> (\<forall>t. log_mutex s = Some t \<longrightarrow> line_pcs s t \<noteq> Idle)"

lemma line_held_step: "line_step s s' \<Longrightarrow> line_held s \<Longrightarrow> line_held s'"
  by (cases rule: line_step.cases) (auto simp: line_held_def split: if_splits)

lemma line_held_reachable: "line_step\<^sup>*\<^sup>* (line_init memory) s \<Longrightarrow> line_held s"
proof (induction rule: rtranclp_induct)
  case base
  show ?case by (simp add: line_held_def line_init_def)
qed (rule line_held_step)

lemma takeWhile_snoc_stop: "takeWhile (\<lambda>c. c \<noteq> a) (xs @ [a]) = takeWhile (\<lambda>c. c \<noteq> a) xs"
  by (induction xs) auto

section \<open>Scope guards\<close>

text \<open>
  \<open>Defer\<close> runs its function in the destructor; objects of one scope are destroyed in the
  reverse order of their construction.
\<close>

definition leave_scope :: "('s \<Rightarrow> 's) list \<Rightarrow> 's \<Rightarrow> 's" where
  "leave_scope guards s = foldr (\<lambda>f s. f s) guards s"

lemma leave_scope_last: "leave_scope (guards @ [f]) s = leave_scope guards (f s)"
  by (simp add: leave_scope_def)

section \<open>Properties\<close>

text \<open>
  There is one \<open>Log\<close>: whatever the interleaving of the threads that call \<open>get_instance\<close>,
  at most one object is constructed and every call that has returned gave that same object.
\<close>

theorem get_instance_unique:
  assumes "get_instance_step\<^sup>*\<^sup>* gi_init s"
  shows "n_created s \<le> 1 \<and> (case gi_pcs s t of Returned p \<Rightarrow> p = log_ptr s \<and> p \<noteq> None | _ \<Rightarrow> True)"
proof -
  have "gi_inv s" by (rule gi_inv_reachable [OF assms])
  from gi_invD(1) [OF this] have "n_created s \<le> 1" by (simp split: if_splits)
  with gi_invD(2) [OF \<open>gi_inv s\<close>, of t] show ?thesis by (cases "gi_pcs s t") simp_all
qed

text \<open>Two threads; the others have not started.\<close>

definition two_pcs :: "gi_pc \<Rightarrow> gi_pc \<Rightarrow> nat \<Rightarrow> gi_pc" where
  "two_pcs a b t = (if t = 0 then a else if t = 1 then b else Check_first)"

lemma two_pcs_simps [simp]:
  "two_pcs a b 0 = a" "two_pcs a b (Suc 0) = b"
  "(two_pcs a b)(0 := c) = two_pcs c b" "(two_pcs a b)(Suc 0 := c) = two_pcs a c"
  by (auto simp: two_pcs_def fun_eq_iff)

definition gi_two :: "nat option \<Rightarrow> nat \<Rightarrow> nat option \<Rightarrow> gi_pc \<Rightarrow> gi_pc \<Rightarrow> gi_state" where
  "gi_two ptr n owner a b =
     \<lparr>log_ptr = ptr, n_created = n, mutex_owner = owner, gi_pcs = two_pcs a b\<rparr>"

lemma gi_example:
  "get_instance_step\<^sup>*\<^sup>* gi_init (gi_two (Some 0) 1 None (Returned (Some 0)) Lock_mutex)"
proof -
  have "gi_init = gi_two None 0 None Check_first Check_first"
    by (simp add: gi_init_def gi_two_def two_pcs_def fun_eq_iff)
  moreover have "get_instance_step (gi_two None 0 None Check_first Check_first) (gi_two None 0 None Lock_mutex Check_first)"
    using first_null [of "gi_two None 0 None Check_first Check_first" 0] by (simp add: gi_two_def)
  moreover have "get_instance_step (gi_two None 0 None Lock_mutex Check_first) (gi_two None 0 None Lock_mutex Lock_mutex)"
    using first_null [of "gi_two None 0 None Lock_mutex Check_first" 1] by (simp add: gi_two_def)
  moreover have "get_instance_step (gi_two None 0 None Lock_mutex Lock_mutex) (gi_two None 0 (Some 0) Check_second Lock_mutex)"
    using lock [of "gi_two None 0 None Lock_mutex Lock_mutex" 0] by (simp add: gi_two_def)
  moreover have "get_instance_step (gi_two None 0 (Some 0) Check_second Lock_mutex) (gi_two (Some 0) 1 (Some 0) Unlock_mutex Lock_mutex)"
    using second_null [of "gi_two None 0 (Some 0) Check_second Lock_mutex" 0] by (simp add: gi_two_def)
  moreover have "get_instance_step (gi_two (Some 0) 1 (Some 0) Unlock_mutex Lock_mutex) (gi_two (Some 0) 1 None Read_log Lock_mutex)"
    using unlock [of "gi_two (Some 0) 1 (Some 0) Unlock_mutex Lock_mutex" 0] by (simp add: gi_two_def)
  moreover have "get_instance_step (gi_two (Some 0) 1 None Read_log Lock_mutex) (gi_two (Some 0) 1 None (Returned (Some 0)) Lock_mutex)"
    using return [of "gi_two (Some 0) 1 None Read_log Lock_mutex" 0] by (simp add: gi_two_def)
  ultimately show ?thesis
    by (metis converse_rtranclp_into_rtranclp rtranclp.rtrancl_refl)
qed

theorem get_instance_unique_witness:
  "n_created (gi_two (Some 0) 1 None (Returned (Some 0)) Lock_mutex) \<le> 1
   \<and> (case gi_pcs (gi_two (Some 0) 1 None (Returned (Some 0)) Lock_mutex) 0 of
        Returned p \<Rightarrow> p = log_ptr (gi_two (Some 0) 1 None (Returned (Some 0)) Lock_mutex) \<and> p \<noteq> None
      | _ \<Rightarrow> True)"
  by (rule get_instance_unique [OF gi_example])

text \<open>
  Lines of different threads are never mixed: what has been printed is, line by line, the tag
  and the whole text of the calls in the order they took \<open>log_mutex\<close>, although all calls format
  into one shared buffer, and at most the latest call is still to be printed.
\<close>

theorem log_lines_not_mixed:
  assumes "line_step\<^sup>*\<^sup>* (line_init memory) s"
  shows "\<exists>cs. calls s = printed s @ cs \<and> length cs \<le> 1"
proof -
  from assms have "line_inv s" by (rule line_inv_reachable)
  then obtain cs where c: "calls s = printed s @ cs" and n: "log_mutex s = None \<longrightarrow> cs = []"
    and all: "\<forall>t. line_pc_ok (sh_buf s) (log_mutex s) cs t (line_pcs s t)" by (rule line_invE)
  note ok = spec [OF all]
  have h: "line_held s" by (rule line_held_reachable [OF assms])
  have "length cs \<le> 1"
  proof (cases "log_mutex s")
    case (Some t)
    with h ok [of t] show ?thesis by (cases "line_pcs s t") (auto simp: line_held_def)
  qed (use n in simp)
  with c show ?thesis by blast
qed

theorem log_lines_not_mixed_witness:
  "\<exists>cs. calls ((line_init ''xxxx'')\<lparr>log_mutex := Some 3, calls := [(''INFO'', ''up'')],
          line_pcs := (\<lambda>_. Idle)(3 := Entered ''INFO'' ''up'')\<rparr>)
     = printed ((line_init ''xxxx'')\<lparr>log_mutex := Some 3, calls := [(''INFO'', ''up'')],
          line_pcs := (\<lambda>_. Idle)(3 := Entered ''INFO'' ''up'')\<rparr>) @ cs \<and> length cs \<le> 1"
proof (rule log_lines_not_mixed)
  let ?s = "line_init ''xxxx''"
  have "line_step ?s (?s\<lparr>log_mutex := Some 3, calls := calls ?s @ [(''INFO'', ''up'')],
          line_pcs := (line_pcs ?s)(3 := Entered ''INFO'' ''up'')\<rparr>)"
    by (rule line_step.take_mutex) (simp_all add: line_init_def CRUST_LOG_BUF_SIZE_def)
  then show "line_step\<^sup>*\<^sup>* ?s (?s\<lparr>log_mutex := Some 3, calls := [(''INFO'', ''up'')],
          line_pcs := (\<lambda>_. Idle)(3 := Entered ''INFO'' ''up'')\<rparr>)"
    by (simp add: line_init_def r_into_rtranclp)
qed

text \<open>
  A message goes out whole as long as its formatted text fits the buffer of 32 MiB; a longer
  one makes the logger read past the buffer, because the length \<open>vsnprintf\<close> returns is that of
  the text and not of what was stored.
\<close>

theorem log_info_outcome:
  assumes "length (log_buf l) = CRUST_LOG_BUF_SIZE"
  shows "if length txt \<le> CRUST_LOG_BUF_SIZE
         then \<exists>l'. log_info now txt l = Inr l' \<and> length (log_buf l') = CRUST_LOG_BUF_SIZE
                   \<and> log_out l' = log_out l
                       @ log_line now CRUST_LOG_INFO_TAG (take (CRUST_LOG_BUF_SIZE - 1) txt)
         else log_info now txt l = Inl (Undefined Read_out_of_bounds)"
proof -
  define size_n where "size_n = CRUST_LOG_BUF_SIZE"
  have pos: "0 < size_n" by (simp add: CRUST_LOG_BUF_SIZE_def size_n_def)
  let ?rest = "drop (length (take (size_n - 1) txt) + 1) (log_buf l)"
  let ?buf = "take (size_n - 1) txt @ NUL # ?rest"
  have call: "log_info now txt l = rbind (string_from_buf ?buf (length txt))
      (\<lambda>log_str. Inr (base_log now log_str CRUST_LOG_INFO_TAG (l\<lparr>log_buf := ?buf\<rparr>)))"
    by (simp add: log_info_def log_tagged_def vsnprintf_def Let_def size_n_def)
  have len: "length ?buf = size_n" using assms pos by (simp add: size_n_def)
  show ?thesis
  proof (cases "length txt \<le> size_n")
    case True
    have "takeWhile (\<lambda>c. c \<noteq> NUL) (take (length txt) ?buf)
        = takeWhile (\<lambda>c. c \<noteq> NUL) (take (size_n - 1) txt)"
    proof (cases "length txt < size_n")
      case False
      then have "length txt = Suc (size_n - 1)" using True pos by simp
      then have "take (length txt) ?buf = take (size_n - 1) txt @ [NUL]" by simp
      then show ?thesis by (simp only: takeWhile_snoc_stop)
    qed simp
    then have "log_line now CRUST_LOG_INFO_TAG (take (length txt) ?buf)
        = log_line now CRUST_LOG_INFO_TAG (take (size_n - 1) txt)" by (simp add: log_line_def)
    with True len show ?thesis
      by (simp add: call string_from_buf_def base_log_def flip: size_n_def del: length_append)
  next
    case False
    with len show ?thesis by (simp add: call string_from_buf_def flip: size_n_def del: length_append)
  qed
qed

theorem log_info_outcome_witness:
  "if length ''Start'' \<le> CRUST_LOG_BUF_SIZE
   then \<exists>l'. log_info \<lparr>time_str = None, tv_usec = 7000\<rparr> ''Start''
                 (Log_init (replicate CRUST_LOG_BUF_SIZE NUL)) = Inr l'
             \<and> length (log_buf l') = CRUST_LOG_BUF_SIZE
             \<and> log_out l' = log_out (Log_init (replicate CRUST_LOG_BUF_SIZE NUL))
                 @ log_line \<lparr>time_str = None, tv_usec = 7000\<rparr> CRUST_LOG_INFO_TAG
                     (take (CRUST_LOG_BUF_SIZE - 1) ''Start'')
   else log_info \<lparr>time_str = None, tv_usec = 7000\<rparr> ''Start''
          (Log_init (replicate CRUST_LOG_BUF_SIZE NUL)) = Inl (Undefined Read_out_of_bounds)"
  by (rule log_info_outcome) (simp only: Log_init_def log_state.simps length_replicate)

end
