(* ===== verification/Dcap_Service.thy ===== *)
theory Dcap_Service
  imports Json_Roundtrip Http_Data Logger
begin

text \<open>
  The attestation service, \<open>sgx/src/App.cpp\<close>: the command line, the three routes and the handler
  of \<open>/entryNetwork\<close>, which checks the signature of an identity report and its SGX quote.

  The SGX SDK, the DCAP quote verification library and OpenSSL are the record \<open>sdk\<close>: sizes and
  offsets of the SDK's structures, the hash, the two verifications and the numbers of the error
  codes. Nothing is assumed of them. A request ends with an \<open>outcome\<close>: the reply built so far,
  the lines logged, the blocks allocated and freed, and the exception that left the handler, if
  one did. The scope guard \<open>def_ret\<close> then turns it into the response (\<open>finish_response\<close>).
\<close>

section \<open>The libraries the service calls\<close>

datatype quote3_error =
    SGX_QL_SUCCESS
  | SGX_QL_QUOTE_FORMAT_UNSUPPORTED
  | SGX_QL_QUOTE_CERTIFICATION_DATA_UNSUPPORTED
  | SGX_QL_QE_REPORT_UNSUPPORTED_FORMAT
  | SGX_QL_QE_REPORT_INVALID_SIGNATURE
  | SGX_QL_PCK_CERT_UNSUPPORTED_FORMAT
  | SGX_QL_PCK_CERT_CHAIN_ERROR
  | SGX_QL_TCBINFO_UNSUPPORTED_FORMAT
  | SGX_QL_TCBINFO_CHAIN_ERROR
  | SGX_QL_TCBINFO_MISMATCH
  | SGX_QL_QEIDENTITY_UNSUPPORTED_FORMAT
  | SGX_QL_QEIDENTITY_MISMATCH
  | SGX_QL_QEIDENTITY_CHAIN_ERROR
  | SGX_QL_ENCLAVE_LOAD_ERROR
  | SGX_QL_ENCLAVE_LOST
  | SGX_QL_INVALID_REPORT
  | SGX_QL_PLATFORM_LIB_UNAVAILABLE
  | SGX_QL_UNABLE_TO_GENERATE_REPORT
  | SGX_QL_NETWORK_ERROR
  | SGX_QL_NO_QUOTE_COLLATERAL_DATA
  | SGX_QL_ERROR_QVL_QVE_MISMATCH
  | SGX_QL_ERROR_UNEXPECTED
  | SGX_QL_UNKNOWN_MESSAGE_RESPONSE
  | SGX_QL_ERROR_MESSAGE_PARSING_ERROR
  | SGX_QL_PLATFORM_UNKNOWN
  | Quote3_other nat

datatype qv_result =
    SGX_QL_QV_RESULT_OK
  | SGX_QL_QV_RESULT_CONFIG_NEEDED
  | SGX_QL_QV_RESULT_OUT_OF_DATE
  | SGX_QL_QV_RESULT_OUT_OF_DATE_CONFIG_NEEDED
  | SGX_QL_QV_RESULT_SW_HARDENING_NEEDED
  | SGX_QL_QV_RESULT_CONFIG_AND_SW_HARDENING_NEEDED
  | SGX_QL_QV_RESULT_INVALID_SIGNATURE
  | SGX_QL_QV_RESULT_REVOKED
  | SGX_QL_QV_RESULT_UNSPECIFIED
  | Qv_other nat

record ('b, 'k) sdk =
  report_data_offset :: nat
  report_data_size :: nat
  mr_enclave_offset :: nat
  mr_enclave_size :: nat
  ecp_key_size :: nat
  signature_size :: nat
  supplemental_size :: nat
  ssl :: "('b, 'k) ssl_api"
  sha256_msg :: "byte list \<Rightarrow> byte list"
  ECDSA_verify :: "byte list \<Rightarrow> byte list \<Rightarrow> 'k option \<Rightarrow> int"
  get_supplemental_data_size :: "quote3_error \<times> nat"
  verify_quote :: "byte list \<Rightarrow> int \<Rightarrow> nat \<Rightarrow> quote3_error \<times> qv_result"
  quote3_code :: "quote3_error \<Rightarrow> nat"
  qv_code :: "qv_result \<Rightarrow> nat"

section \<open>Outcomes\<close>

datatype block = Sig_block | Quote_block | Sig_data_block | Supplemental_block | Ec_key_block
datatype mem_event = Alloc block | Free block

type_synonym log_lines = "(string \<times> string) list"

record 'f outcome =
  ret_body :: "'f json"
  identity :: "'f json"
  logged :: log_lines
  memory :: "mem_event list"
  thrown :: "exn option"

definition reply :: "'f json \<Rightarrow> log_lines \<Rightarrow> mem_event list \<Rightarrow> string \<Rightarrow> int \<Rightarrow> 'f outcome res" where
  "reply ident lines mem message status_code =
     rbind (set_key JNull ''message'' (JString message)) (\<lambda>rb.
       rbind (set_key rb ''status_code'' (JIntegral status_code)) (\<lambda>rb.
         Inr \<lparr>ret_body = rb, identity = ident, logged = lines, memory = mem, thrown = None\<rparr>))"

section \<open>Texts\<close>

definition printf_x :: "nat \<Rightarrow> string" where "printf_x n = printf_lx n"

definition printf_04x :: "nat \<Rightarrow> string" where
  "printf_04x n = replicate (4 - length (printf_lx n)) CHR ''0'' @ printf_lx n"

text \<open>The typographic apostrophe in two of the messages, in UTF-8.\<close>

definition APOSTROPHE :: string where "APOSTROPHE = [CHR 0xE2, CHR 0x80, CHR 0x99]"

definition quote3_message :: "('b, 'k) sdk \<Rightarrow> quote3_error \<Rightarrow> string" where
  "quote3_message lib e =
     (case e of
        SGX_QL_QUOTE_FORMAT_UNSUPPORTED \<Rightarrow> ''The inputted quote format is not supported. Either because the header information is not supported or the quote is malformed in some way.''
      | SGX_QL_QUOTE_CERTIFICATION_DATA_UNSUPPORTED \<Rightarrow> ''The quote verifier doesn'' @ APOSTROPHE @ ''t support the certification data in the Quote. Currently, the Intel QVE only supported CertType = 5.''
      | SGX_QL_QE_REPORT_UNSUPPORTED_FORMAT \<Rightarrow> ''The quote verifier doesn'' @ APOSTROPHE @ ''t support the format of the application REPORT the Quote.''
      | SGX_QL_QE_REPORT_INVALID_SIGNATURE \<Rightarrow> ''The signature over the QE Report is invalid.''
      | SGX_QL_PCK_CERT_UNSUPPORTED_FORMAT \<Rightarrow> ''The format of the PCK Cert is unsupported.''
      | SGX_QL_PCK_CERT_CHAIN_ERROR \<Rightarrow> ''There was an error verifying the PCK Cert signature chain including PCK Cert revocation.''
      | SGX_QL_TCBINFO_UNSUPPORTED_FORMAT \<Rightarrow> ''The format of the TCBInfo structure is unsupported.''
      | SGX_QL_TCBINFO_CHAIN_ERROR \<Rightarrow> ''There was an error verifying the TCBInfo signature chain including TCBInfo revocation.''
      | SGX_QL_TCBINFO_MISMATCH \<Rightarrow> ''PCK Cert FMSPc does not match the TCBInfo FMSPc.''
      | SGX_QL_QEIDENTITY_UNSUPPORTED_FORMAT \<Rightarrow> ''The format of the QEIdentity structure is unsupported.''
      | SGX_QL_QEIDENTITY_MISMATCH \<Rightarrow> ''The Quote'' @ APOSTROPHE @ ''s QE doesn'' @ APOSTROPHE @ ''t match the inputted expected QEIdentity.''
      | SGX_QL_QEIDENTITY_CHAIN_ERROR \<Rightarrow> ''There was an error verifying the QEIdentity signature chain including QEIdentity revocation.''
      | SGX_QL_ENCLAVE_LOAD_ERROR \<Rightarrow> ''Unable to load the enclaves required to initialize the attestation key. error, loading infrastructure error or insufficient enclave memory.''
      | SGX_QL_ENCLAVE_LOST \<Rightarrow> ''Could be due to file I/O. Enclave lost after power transition or used in child process created by linux:fork().''
      | SGX_QL_INVALID_REPORT \<Rightarrow> ''Report MAC check failed on application report.''
      | SGX_QL_PLATFORM_LIB_UNAVAILABLE \<Rightarrow> ''The Quote Library could not locate the platform quote provider library or one of its required APIs.''
      | SGX_QL_UNABLE_TO_GENERATE_REPORT \<Rightarrow> ''The QVE was unable to generate its own report targeting the application enclave because there is an enclave compatibility issue.''
      | SGX_QL_NETWORK_ERROR \<Rightarrow> ''Network error when retrieving PCK certs.''
      | SGX_QL_NO_QUOTE_COLLATERAL_DATA \<Rightarrow> ''The Quote Library was available, but the quote library could not retrieve the data.''
      | SGX_QL_ERROR_QVL_QVE_MISMATCH \<Rightarrow> ''Only returned when the quote verification library supports both the untrusted mode of verification and the QvE backed mode of verification. This error indicates that the 2 versions of the verification modes are different. Most caused by using a QvE that does not match the version of the DCAP installed.''
      | SGX_QL_ERROR_UNEXPECTED \<Rightarrow> ''An unexpected internal error occurred.''
      | SGX_QL_UNKNOWN_MESSAGE_RESPONSE \<Rightarrow> ''Unexpected error from the attestation infrastructure while retrieving the platform data.''
      | SGX_QL_ERROR_MESSAGE_PARSING_ERROR \<Rightarrow> ''Generic message parsing error from the attestation infrastructure while retrieving the platform data.''
      | SGX_QL_PLATFORM_UNKNOWN \<Rightarrow> ''This platform is an unrecognized SGX platform.''
      | _ \<Rightarrow> ''undefined error: sgx_qv_verify_quote failed: 0x'' @ printf_04x (quote3_code lib e)) @ [LF]"

section \<open>The handler of \<open>/entryNetwork\<close>\<close>

text \<open>\<open>ecdsa_identity[key].ToString()\<close>: a missing member is created as \<open>Null\<close>.\<close>

definition take_field :: "'f json \<Rightarrow> string \<Rightarrow> ('f json \<times> string) res" where
  "take_field j key =
     rbind (index_key j key (\<lambda>v. v)) (\<lambda>j'.
       rbind (key_value j' key) (\<lambda>v. rbind (ToString v) (\<lambda>s. Inr (j', s))))"

text \<open>The data that was signed: \<open>memcpy\<close> of the quote and of the account into one block.\<close>

definition copy_sig_data :: "byte list option \<Rightarrow> nat \<Rightarrow> string \<Rightarrow> nat \<Rightarrow> byte list res" where
  "copy_sig_data p_quote quote_sz account_id sig_data_sz =
     (case p_quote of
        None \<Rightarrow>
          if quote_sz \<noteq> 0 then Inl (Undefined Null_dereference)
          else if sig_data_sz < length account_id then Inl (Undefined Write_out_of_bounds)
          else Inr (bytes_of account_id)
      | Some quote \<Rightarrow>
          if length quote < quote_sz then Inl (Undefined Read_out_of_bounds)
          else if sig_data_sz < quote_sz + length account_id then Inl (Undefined Write_out_of_bounds)
          else Inr (take quote_sz quote @ bytes_of account_id))"

text \<open>\<open>hexstring\<close> of a member of the quote, at its offset from \<open>p_quote\<close>.\<close>

definition quote_member_hex :: "byte list option \<Rightarrow> nat \<Rightarrow> nat \<Rightarrow> string res" where
  "quote_member_hex p_quote off n =
     (case p_quote of
        None \<Rightarrow> Inl (Undefined Null_dereference)
      | Some quote \<Rightarrow> hexstring (drop off quote) n True)"

definition identity_of :: "string \<Rightarrow> string \<Rightarrow> string \<Rightarrow> 'f json res" where
  "identity_of pubkey mrenclave account_id =
     rbind (set_key JNull ''pubkey'' (JString pubkey)) (\<lambda>j.
       rbind (set_key j ''mrenclave'' (JString mrenclave)) (\<lambda>j.
         set_key j ''account'' (JString account_id)))"

definition accepts :: "qv_result \<Rightarrow> bool" where
  "accepts r =
     (case r of
        SGX_QL_QV_RESULT_OK \<Rightarrow> True
      | SGX_QL_QV_RESULT_CONFIG_NEEDED \<Rightarrow> True
      | SGX_QL_QV_RESULT_OUT_OF_DATE \<Rightarrow> True
      | SGX_QL_QV_RESULT_OUT_OF_DATE_CONFIG_NEEDED \<Rightarrow> True
      | SGX_QL_QV_RESULT_SW_HARDENING_NEEDED \<Rightarrow> True
      | SGX_QL_QV_RESULT_CONFIG_AND_SW_HARDENING_NEEDED \<Rightarrow> True
      | _ \<Rightarrow> False)"

definition qv_line :: "('b, 'k) sdk \<Rightarrow> qv_result \<Rightarrow> string \<times> string" where
  "qv_line lib r =
     (if r = SGX_QL_QV_RESULT_OK
      then (CRUST_LOG_INFO_TAG, ''App: Verification completed successfully.'' @ [LF])
      else if accepts r
      then (CRUST_LOG_INFO_TAG, ''App: Verify quote successfully in condition! Status code: ''
              @ printf_x (qv_code lib r) @ [LF])
      else (CRUST_LOG_ERR_TAG, ''App: Verification completed with Terminal result: ''
              @ printf_x (qv_code lib r) @ [LF]))"

definition check_quote ::
  "('b, 'k) sdk \<Rightarrow> int \<Rightarrow> byte list \<Rightarrow> 'f json \<Rightarrow> log_lines \<Rightarrow> mem_event list \<Rightarrow> 'f outcome res" where
  "check_quote lib now quote ident lines mem =
     (let (size_ret, size_n) = get_supplemental_data_size lib;
          have_supp = (size_ret = SGX_QL_SUCCESS \<and> size_n = supplemental_size lib);
          lines = lines @ [if have_supp
            then (CRUST_LOG_INFO_TAG, ''sgx_qv_get_quote_supplemental_data_size successfully returned.'' @ [LF])
            else (CRUST_LOG_ERR_TAG, ''sgx_qv_get_quote_supplemental_data_size failed: 0x''
                    @ printf_04x (quote3_code lib size_ret) @ [LF])];
          mem = mem @ (if have_supp then [Alloc Supplemental_block, Free Supplemental_block] else []);
          (dcap_ret, result) = verify_quote lib quote now (if have_supp then size_n else 0)
      in if dcap_ret \<noteq> SGX_QL_SUCCESS
         then reply ident (lines @ [(CRUST_LOG_ERR_TAG, quote3_message lib dcap_ret)]) mem
                ''Verify quote failed!'' 500
         else
           (let lines = lines @ [(CRUST_LOG_INFO_TAG, ''App: sgx_qv_verify_quote successfully returned.'' @ [LF]),
                                 qv_line lib result]
            in if accepts result
               then rbind (set_key JNull ''status_code'' (JIntegral 200)) (\<lambda>rb.
                      Inr \<lparr>ret_body = rb, identity = ident, logged = lines, memory = mem, thrown = None\<rparr>)
               else reply ident lines mem ''Verify quote failed!'' 500))"

text \<open>
  From the decoded signature on. \<open>uint32_t\<close> sizes wrap. The guards free the signature and the
  signed data; the quote and the key are not freed on any path.
\<close>

definition free_on_exit :: "'f outcome res \<Rightarrow> mem_event list \<Rightarrow> 'f outcome res" where
  "free_on_exit r frees = rbind r (\<lambda>out. Inr (out\<lparr>memory := memory out @ frees\<rparr>))"

definition identity_key :: "('b, 'k) sdk \<Rightarrow> byte list \<Rightarrow> 'k option" where
  "identity_key lib quote =
     (let pub = drop (report_data_offset lib) quote
      in fst (key_from_sgx_ec256 (ssl lib)
           \<lparr>pub_gx = take (ecp_key_size lib) pub,
            pub_gy = take (ecp_key_size lib) (drop (ecp_key_size lib) pub)\<rparr>))"

definition verify_identity_signature ::
  "('b, 'k) sdk \<Rightarrow> 'k option \<Rightarrow> byte list \<Rightarrow> byte list \<Rightarrow> int res" where
  "verify_identity_signature lib ec_pkey sig_data p_sig =
     (if length p_sig < signature_size lib then Inl (Undefined Read_out_of_bounds)
      else Inr (ECDSA_verify lib (sha256_msg lib sig_data) (take (signature_size lib) p_sig) ec_pkey))"

definition check_report ::
  "('b, 'k) sdk \<Rightarrow> int \<Rightarrow> byte list \<Rightarrow> byte list option \<Rightarrow> nat \<Rightarrow> string \<Rightarrow> log_lines
   \<Rightarrow> 'f outcome res" where
  "check_report lib now p_sig p_quote quote_len account_id lines =
     (let quote_sz = (quote_len div 2) mod 2 ^ 32;
          sig_data_sz = (quote_sz + length account_id) mod 2 ^ 32;
          mem = [Alloc Sig_block] @ (if p_quote = None then [] else [Alloc Quote_block]) @ [Alloc Sig_data_block]
      in rbind (copy_sig_data p_quote quote_sz account_id sig_data_sz) (\<lambda>sig_data.
           rbind (quote_member_hex p_quote (report_data_offset lib) (report_data_size lib)) (\<lambda>pubkey.
             rbind (quote_member_hex p_quote (mr_enclave_offset lib) (mr_enclave_size lib)) (\<lambda>mrenclave.
               rbind (identity_of pubkey mrenclave account_id) (\<lambda>ident.
                 (let quote = (case p_quote of Some q \<Rightarrow> q | None \<Rightarrow> []);
                      ec_pkey = identity_key lib quote;
                      mem = mem @ (if ec_pkey = None then [] else [Alloc Ec_key_block])
                  in rbind (verify_identity_signature lib ec_pkey sig_data p_sig) (\<lambda>ret.
                       free_on_exit
                         (if ret = 0
                          then reply ident lines mem ''Verify identity signature failed!'' 500
                          else check_quote lib now (take quote_sz quote) ident lines mem)
                         [Free Sig_data_block, Free Sig_block]))))))) "

definition entry_network ::
  "('b, 'k) sdk \<Rightarrow> 'f::zero float_ops \<Rightarrow> int \<Rightarrow> request \<Rightarrow> 'f outcome res" where
  "entry_network lib fo now req =
     (let lines = [(CRUST_LOG_INFO_TAG, ''Dealing with new request...'' @ [LF])] in
      case Load fo CRUST_SUCCESS (req_body req) of
        Inl (Throws e) \<Rightarrow>
          Inr \<lparr>ret_body = JNull, identity = JNull, logged = lines, memory = [], thrown = Some e\<rparr>
      | Inl err \<Rightarrow> Inl err
      | Inr (ecdsa_identity, crust_status) \<Rightarrow>
          if crust_status \<noteq> CRUST_SUCCESS then
            reply JNull
              (lines @ [(CRUST_LOG_ERR_TAG, ''Load ecdsa_identity failed! Error code:''
                           @ printf_x (unat (crust_status_code crust_status)) @ [LF])])
              [] ''Load ecdsa_identity failed!'' 400
          else
            rbind (take_field ecdsa_identity ''sig'') (\<lambda>(j, sig).
              rbind (hexstring_to_bytes (c_str sig) (length sig)) (\<lambda>p_sig.
                case p_sig of
                  None \<Rightarrow> reply JNull lines [] ''Unexpected error'' 400
                | Some sig_bytes \<Rightarrow>
                    rbind (take_field j ''quote'') (\<lambda>(j, quote_hexstr).
                      rbind (hexstring_to_bytes (c_str quote_hexstr) (length quote_hexstr)) (\<lambda>p_quote.
                        rbind (take_field j ''account'') (\<lambda>(j, account_id).
                          check_report lib now sig_bytes p_quote (length quote_hexstr) account_id lines))))))"

text \<open>The guard \<open>def_ret\<close>: it reads the status and writes the response.\<close>

definition finish_response :: "'f float_ops \<Rightarrow> 'f outcome \<Rightarrow> response \<Rightarrow> response res" where
  "finish_response fo out res =
     rbind (index_key (ret_body out) ''status_code'' (\<lambda>v. v)) (\<lambda>rb.
       rbind (key_value rb ''status_code'') (\<lambda>v.
         (let code = ToInt v in
          rbind (if code = 200 then set_key rb ''message'' (json_copy (identity out)) else Inr rb) (\<lambda>rb.
            rbind (dump fo 1 ''  '' False rb) (\<lambda>text.
              Inr (set_content (remove_char (remove_char text BACKSLASH) LF) ''application/json''
                     (res\<lparr>status := code\<rparr>)))))))"

text \<open>The handler with its guards: the response, the lines logged, the exception if one leaves it.\<close>

definition post_entryNetwork ::
  "('b, 'k) sdk \<Rightarrow> 'f::zero float_ops \<Rightarrow> int \<Rightarrow> request \<Rightarrow> response
   \<Rightarrow> (response \<times> 'f outcome) res" where
  "post_entryNetwork lib fo now req res =
     rbind (entry_network lib fo now req) (\<lambda>out.
       rbind (finish_response fo out res) (\<lambda>res'. Inr (res', out)))"

definition get_hello :: "request \<Rightarrow> response \<Rightarrow> response" where
  "get_hello req res = set_content ''Hello World!'' ''text/plain'' res"

end
