(* ===== verification/Dcap_Laws.thy ===== *)
theory Dcap_Laws
  imports Dcap_Service
begin

text \<open>
  What the handler of \<open>/entryNetwork\<close> guarantees, and where it fails: a report is accepted only
  when signature and quote were verified, every complete report is decided, the statuses of the
  replies, the blocks that are freed and those that are not, and the inputs that break it.
\<close>

section \<open>Replies\<close>

lemma reply_eq:
  "reply ident lines mem msg st =
     Inr \<lparr>ret_body = JObject [(''message'', JString msg), (''status_code'', JIntegral st)],
          identity = ident, logged = lines, memory = mem, thrown = None\<rparr>"
  by (simp add: reply_def set_key_def index_key_def less_char_def)

definition accepted_body :: "'f json" where
  "accepted_body = JObject [(''status_code'', JIntegral 200)]"

definition refused_body :: "string \<Rightarrow> int \<Rightarrow> 'f json" where
  "refused_body msg st = JObject [(''message'', JString msg), (''status_code'', JIntegral st)]"

lemma reply_refused:
  "reply ident lines mem msg st =
     Inr \<lparr>ret_body = refused_body msg st, identity = ident, logged = lines, memory = mem, thrown = None\<rparr>"
  by (simp add: reply_eq refused_body_def)

lemma set_status_200: "set_key JNull ''status_code'' (JIntegral 200) = Inr accepted_body"
  by (simp add: set_key_def index_key_def accepted_body_def)

definition report_identity :: "string \<Rightarrow> string \<Rightarrow> string \<Rightarrow> 'f json" where
  "report_identity pubkey mrenclave account_id =
     JObject [(''account'', JString account_id), (''mrenclave'', JString mrenclave), (''pubkey'', JString pubkey)]"

lemma identity_of_eq: "identity_of pubkey mrenclave account_id = Inr (report_identity pubkey mrenclave account_id)"
  by (simp add: identity_of_def report_identity_def set_key_def index_key_def less_char_def)

text \<open>The text that \<open>dump\<close> gives for the objects the handler builds.\<close>

lemma dump_strings:
  assumes "list_all (\<lambda>(k, v). \<exists>t. dump fo (d + 1) tab b v = Inr t) m"
  shows "\<exists>t. dump fo d tab b (JObject m) = Inr t"
proof -
  have "\<exists>r. dump_members (dump fo (d + 1) tab b) Some sep pad m s skip = Inr r" for sep pad s skip
    using assms
  proof (induction m arbitrary: s skip)
    case (Cons e m)
    obtain k v where e: "e = (k, v)" by fastforce
    with Cons.prems obtain t where "dump fo (d + 1) tab b v = Inr t" by auto
    with Cons e show ?case by simp
  qed simp
  from this [of "'','' @ [LF]" "repeat_tab d tab" "''{'' @ [LF]" True]
  show ?thesis by (auto simp: Let_def split: prod.splits)
qed

lemma dump_report_identity: "\<exists>t. dump fo d tab b (report_identity p m a) = Inr t"
  unfolding report_identity_def by (rule dump_strings) simp

lemma finish_accepted:
  assumes "ret_body out = accepted_body" and "identity out = report_identity p m a"
  shows "\<exists>res'. finish_response fo out res = Inr res' \<and> status res' = 200"
proof -
  obtain t where "dump fo 1 ''  '' False
      (JObject [(''message'', json_copy (report_identity p m a)), (''status_code'', JIntegral 200)]) = Inr t"
    using dump_strings [of fo 1 "''  ''" False
        "[(''message'', json_copy (report_identity p m a)), (''status_code'', JIntegral 200)]"]
      dump_report_identity [of fo 2 "''  ''" False p m a]
    by (auto simp: report_identity_def)
  with assms show ?thesis
    by (simp add: finish_response_def accepted_body_def index_key_def key_value_def slot_def ToInt_def
        set_key_def less_char_def set_content_def set_header_def)
qed

lemma finish_refused:
  assumes "ret_body out = refused_body msg st" and "st \<noteq> 200"
  shows "\<exists>res'. finish_response fo out res = Inr res' \<and> status res' = st"
proof -
  obtain t where "dump fo 1 ''  '' False (refused_body msg st) = Inr t"
    using dump_strings [of fo 1 "''  ''" False "[(''message'', JString msg), (''status_code'', JIntegral st)]"]
    by (auto simp: refused_body_def)
  with assms show ?thesis
    by (simp add: finish_response_def refused_body_def index_key_def key_value_def slot_def ToInt_def
        set_key_def less_char_def set_content_def set_header_def)
qed

lemma finish_exception:
  assumes "ret_body out = JNull"
  shows "\<exists>res'. finish_response fo out res = Inr res' \<and> status res' = 0"
proof -
  obtain t where "dump fo 1 ''  '' False (JObject [(''status_code'', JNull)]) = Inr t"
    using dump_strings [of fo 1 "''  ''" False "[(''status_code'', JNull)]"] by auto
  with assms show ?thesis
    by (simp add: finish_response_def index_key_def key_value_def slot_def ToInt_def
        set_key_def set_content_def set_header_def)
qed

section \<open>The fields of a report\<close>

text \<open>
  What the handler takes out of the body before it checks anything: the bytes of the signature,
  the block of the quote (\<open>None\<close> for \<open>NULL\<close>), the length of the quote's text and the account.
\<close>

definition report_fields ::
  "'f::zero float_ops \<Rightarrow> string \<Rightarrow> (byte list \<times> byte list option \<times> nat \<times> string) option res" where
  "report_fields fo text =
     rbind (Load fo CRUST_SUCCESS text) (\<lambda>(j, st).
       if st \<noteq> CRUST_SUCCESS then Inr None
       else rbind (take_field j ''sig'') (\<lambda>(j, sig).
         rbind (hexstring_to_bytes (c_str sig) (length sig)) (\<lambda>p_sig.
           case p_sig of
             None \<Rightarrow> Inr None
           | Some sig_bytes \<Rightarrow>
               rbind (take_field j ''quote'') (\<lambda>(j, quote_hexstr).
                 rbind (hexstring_to_bytes (c_str quote_hexstr) (length quote_hexstr)) (\<lambda>p_quote.
                   rbind (take_field j ''account'') (\<lambda>(j, account_id).
                     Inr (Some (sig_bytes, p_quote, length quote_hexstr, account_id))))))))"

definition first_line :: log_lines where
  "first_line = [(CRUST_LOG_INFO_TAG, ''Dealing with new request...'' @ [LF])]"

lemma entry_network_fields:
  assumes "report_fields fo (req_body req) = Inr (Some (sig, p_quote, n, account))"
  shows "entry_network lib fo now req = check_report lib now sig p_quote n account first_line"
proof -
  from assms obtain j st where 1: "Load fo CRUST_SUCCESS (req_body req) = Inr (j, st)"
    by (auto simp: report_fields_def rbind_eq_Inr)
  from assms 1 have 2: "st = CRUST_SUCCESS" by (auto simp: report_fields_def split: if_splits)
  from assms 1 2 obtain j1 sg p_sig where 3: "take_field j ''sig'' = Inr (j1, sg)"
      "hexstring_to_bytes (c_str sg) (length sg) = Inr p_sig"
    by (auto simp: report_fields_def rbind_eq_Inr)
  from assms 1 2 3 have 4: "p_sig = Some sig"
    by (auto simp: report_fields_def rbind_eq_Inr split: option.splits)
  from assms 1 2 3 4 obtain j2 q j3 where 5: "take_field j1 ''quote'' = Inr (j2, q)"
      "hexstring_to_bytes (c_str q) (length q) = Inr p_quote" "n = length q"
      "take_field j2 ''account'' = Inr (j3, account)"
    by (auto simp: report_fields_def rbind_eq_Inr)
  show ?thesis by (simp add: entry_network_def Let_def 1 2 3 4 5 first_line_def)
qed

lemma entry_network_cases:
  assumes "entry_network lib fo now req = Inr out"
  obtains (fields) sig p_quote n account where
      "report_fields fo (req_body req) = Inr (Some (sig, p_quote, n, account))"
      "check_report lib now sig p_quote n account first_line = Inr out"
  | (refused) msg where "ret_body out = refused_body msg 400" "thrown out = None" "memory out = []"
  | (exception) e where "ret_body out = JNull" "thrown out = Some e" "memory out = []"
proof (cases "Load fo CRUST_SUCCESS (req_body req)")
  case (Inl e)
  with assms exception show ?thesis by (cases e) (auto simp: entry_network_def Let_def)
next
  case (Inr r)
  obtain j st where r: "r = (j, st)" by fastforce
  show ?thesis
  proof (cases "st = CRUST_SUCCESS")
    case False
    with assms Inr r refused show ?thesis by (auto simp: entry_network_def Let_def reply_refused)
  next
    case True
    with assms Inr r obtain j1 sig p_sig
      where 1: "take_field j ''sig'' = Inr (j1, sig)"
        "hexstring_to_bytes (c_str sig) (length sig) = Inr p_sig"
      by (auto simp: entry_network_def Let_def rbind_eq_Inr)
    show ?thesis
    proof (cases p_sig)
      case None
      with assms Inr r True 1 refused show ?thesis by (auto simp: entry_network_def Let_def reply_refused)
    next
      case (Some sig_bytes)
      with assms Inr r True 1 fields show ?thesis
        by (auto simp: entry_network_def Let_def report_fields_def first_line_def rbind_eq_Inr)
    qed
  qed
qed

section \<open>The check of a report\<close>

text \<open>What has to hold for a report with the given key to be accepted.\<close>

definition report_verified ::
  "('b, 'k) sdk \<Rightarrow> int \<Rightarrow> byte list \<Rightarrow> byte list \<Rightarrow> nat \<Rightarrow> string \<Rightarrow> bool" where
  "report_verified lib now sig quote quote_sz account \<longleftrightarrow>
     ECDSA_verify lib (sha256_msg lib (take quote_sz quote @ bytes_of account))
       (take (signature_size lib) sig) (identity_key lib quote) \<noteq> 0
     \<and> (let (size_ret, size_n) = get_supplemental_data_size lib;
            (dcap_ret, result) = verify_quote lib (take quote_sz quote) now
               (if size_ret = SGX_QL_SUCCESS \<and> size_n = supplemental_size lib then size_n else 0)
        in dcap_ret = SGX_QL_SUCCESS \<and> accepts result)"

lemma check_quote_cases:
  "\<exists>lines' mem'. check_quote lib now quote ident lines mem =
      Inr \<lparr>ret_body = (let (size_ret, size_n) = get_supplemental_data_size lib;
                          (dcap_ret, result) = verify_quote lib quote now
               (if size_ret = SGX_QL_SUCCESS \<and> size_n = supplemental_size lib then size_n else 0)
             in if dcap_ret = SGX_QL_SUCCESS \<and> accepts result then accepted_body
                else refused_body ''Verify quote failed!'' 500),
           identity = ident, logged = lines', memory = mem', thrown = None\<rparr>
    \<and> (mem' = mem \<or> mem' = mem @ [Alloc Supplemental_block, Free Supplemental_block])"
  by (simp add: check_quote_def Let_def reply_refused set_status_200 split: prod.splits)

lemma check_report_Inr:
  fixes out :: "'f outcome"
  assumes "check_report lib now sig p_quote n account lines = Inr out"
  obtains quote pubkey mrenclave mem where "p_quote = Some quote"
    "quote_member_hex p_quote (report_data_offset lib) (report_data_size lib) = Inr pubkey"
    "quote_member_hex p_quote (mr_enclave_offset lib) (mr_enclave_size lib) = Inr mrenclave"
    "identity out = report_identity pubkey mrenclave account" "thrown out = None"
    "ret_body out = (if report_verified lib now sig quote ((n div 2) mod 2 ^ 32) account then accepted_body
       else refused_body (if ECDSA_verify lib (sha256_msg lib (take ((n div 2) mod 2 ^ 32) quote @ bytes_of account))
              (take (signature_size lib) sig) (identity_key lib quote) = 0
            then ''Verify identity signature failed!'' else ''Verify quote failed!'') 500)"
    "memory out = [Alloc Sig_block, Alloc Quote_block, Alloc Sig_data_block]
       @ (if identity_key lib quote = None then [] else [Alloc Ec_key_block]) @ mem
       @ [Free Sig_data_block, Free Sig_block]"
    "mem = [] \<or> mem = [Alloc Supplemental_block, Free Supplemental_block]"
proof -
  let ?qsz = "(n div 2) mod 2 ^ 32"
  from assms obtain sig_data pubkey mrenclave ret where
      1: "copy_sig_data p_quote ?qsz account ((?qsz + length account) mod 2 ^ 32) = Inr sig_data"
    and 2: "quote_member_hex p_quote (report_data_offset lib) (report_data_size lib) = Inr pubkey"
    and 3: "quote_member_hex p_quote (mr_enclave_offset lib) (mr_enclave_size lib) = Inr mrenclave"
    and 4: "verify_identity_signature lib (identity_key lib (case p_quote of Some q \<Rightarrow> q | None \<Rightarrow> []))
              sig_data sig = Inr ret"
    by (auto simp: check_report_def Let_def rbind_eq_Inr)
  from 2 obtain quote where q: "p_quote = Some quote"
    by (auto simp: quote_member_hex_def split: option.splits)
  with 1 have d: "sig_data = take ?qsz quote @ bytes_of account"
    by (simp add: copy_sig_data_def split: if_splits)
  let ?ret = "ECDSA_verify lib (sha256_msg lib (take ?qsz quote @ bytes_of account))
      (take (signature_size lib) sig) (identity_key lib quote)"
  from 4 q d have r: "ret = ?ret" by (simp add: verify_identity_signature_def split: if_splits)
  let ?mem = "[Alloc Sig_block, Alloc Quote_block, Alloc Sig_data_block]
       @ (if identity_key lib quote = None then [] else [Alloc Ec_key_block])"
  let ?id = "report_identity pubkey mrenclave account :: 'f json"
  from assms have run: "free_on_exit (if ?ret = 0
        then reply ?id lines ?mem ''Verify identity signature failed!'' 500
        else check_quote lib now (take ?qsz quote) ?id lines ?mem) [Free Sig_data_block, Free Sig_block]
      = Inr out"
    using 1 2 3 4 q d r by (simp add: check_report_def Let_def identity_of_eq split del: if_split cong: if_cong)
  obtain lines' mem' where c: "check_quote lib now (take ?qsz quote) ?id lines ?mem =
      Inr \<lparr>ret_body = (let (size_ret, size_n) = get_supplemental_data_size lib;
                          (dcap_ret, result) = verify_quote lib (take ?qsz quote) now
               (if size_ret = SGX_QL_SUCCESS \<and> size_n = supplemental_size lib then size_n else 0)
             in if dcap_ret = SGX_QL_SUCCESS \<and> accepts result then accepted_body
                else refused_body ''Verify quote failed!'' 500),
           identity = ?id, logged = lines', memory = mem', thrown = None\<rparr>"
    and m: "mem' = ?mem \<or> mem' = ?mem @ [Alloc Supplemental_block, Free Supplemental_block]"
    using check_quote_cases by blast
  show ?thesis
  proof (cases "?ret = 0")
    case True
    with run show ?thesis
      by (intro that [OF q 2 3, of "[]"])
        (auto simp: free_on_exit_def reply_refused report_verified_def)
  next
    case False
    then have out: "out = \<lparr>ret_body = (let (size_ret, size_n) = get_supplemental_data_size lib;
                          (dcap_ret, result) = verify_quote lib (take ?qsz quote) now
               (if size_ret = SGX_QL_SUCCESS \<and> size_n = supplemental_size lib then size_n else 0)
             in if dcap_ret = SGX_QL_SUCCESS \<and> accepts result then accepted_body
                else refused_body ''Verify quote failed!'' 500),
           identity = ?id, logged = lines', memory = mem' @ [Free Sig_data_block, Free Sig_block],
           thrown = None\<rparr>"
      using run unfolding if_not_P [OF False] free_on_exit_def c rbind_Inr by simp
    from m obtain mem where mem: "mem' = ?mem @ mem"
        "mem = [] \<or> mem = [Alloc Supplemental_block, Free Supplemental_block]" by fastforce
    show ?thesis
    proof (rule that [OF q 2 3])
      show "ret_body out = (if report_verified lib now sig quote ?qsz account then accepted_body
         else refused_body (if ?ret = 0 then ''Verify identity signature failed!''
                            else ''Verify quote failed!'') 500)"
        unfolding out report_verified_def Let_def using False by (simp split: prod.split)
      show "memory out = [Alloc Sig_block, Alloc Quote_block, Alloc Sig_data_block]
         @ (if identity_key lib quote = None then [] else [Alloc Ec_key_block]) @ mem
         @ [Free Sig_data_block, Free Sig_block]"
        unfolding out mem(1) by simp
    qed (simp_all add: out mem(2))
  qed
qed

lemma hex_decode_loop_length:
  "hex_decode_loop src cap done = Inr bs \<Longrightarrow> length done \<le> cap \<Longrightarrow> length bs \<le> cap"
  by (induction src cap "done" rule: hex_decode_loop.induct) (auto split: if_splits)

lemma hexstring_to_bytes_length:
  "hexstring_to_bytes src n = Inr (Some bs) \<Longrightarrow> length bs = n div 2"
  by (auto simp: hexstring_to_bytes_def rbind_eq_Inr split: if_splits dest!: hex_decode_loop_length)

lemma report_fields_length:
  assumes "report_fields fo text = Inr (Some (sig, Some quote, n, account))"
  shows "length quote = n div 2"
proof -
  from assms obtain q where "hexstring_to_bytes (c_str q) (length q) = Inr (Some quote)" "n = length q"
    by (auto simp: report_fields_def rbind_eq_Inr split: if_splits option.splits)
  then show ?thesis by (simp add: hexstring_to_bytes_length)
qed

lemma quote_member_hex_Some:
  "quote_member_hex (Some quote) off n =
     (if n \<le> length quote - off then Inr (concat (map hex_pair (take n (drop off quote))))
      else Inl (Undefined Read_out_of_bounds))"
  by (simp add: quote_member_hex_def hexstring_def hex_encode_loop_eq)

text \<open>The reports whose members lie inside the blocks that are read.\<close>

definition report_complete :: "('b, 'k) sdk \<Rightarrow> byte list \<Rightarrow> byte list \<Rightarrow> string \<Rightarrow> bool" where
  "report_complete lib sig quote account \<longleftrightarrow>
     report_data_size lib \<le> length quote - report_data_offset lib
     \<and> mr_enclave_size lib \<le> length quote - mr_enclave_offset lib
     \<and> signature_size lib \<le> length sig \<and> length quote + length account < 2 ^ 32"

lemma check_report_returns:
  assumes "report_complete lib sig quote account" and "length quote = n div 2"
  shows "\<exists>out. check_report lib now sig (Some quote) n account lines = Inr out"
proof -
  have m: "(n div 2) mod 2 ^ 32 = length quote"
    "(length quote + length account) mod 2 ^ 32 = length quote + length account"
    using assms by (simp_all add: report_complete_def)
  have c: "copy_sig_data (Some quote) (length quote) account (length quote + length account)
      = Inr (quote @ bytes_of account)" by (simp add: copy_sig_data_def)
  have run: "\<exists>out. free_on_exit (if ret = 0 then reply i lines mem msg st
      else check_quote lib now q i lines mem) frees = Inr out" for ret :: int and i mem msg st q frees
  proof (cases "ret = 0")
    case False
    obtain out where "check_quote lib now q i lines mem = Inr out"
      using check_quote_cases [of lib now q i lines mem] by blast
    with False show ?thesis by (simp add: free_on_exit_def)
  qed (simp add: free_on_exit_def reply_refused)
  obtain p e where "quote_member_hex (Some quote) (report_data_offset lib) (report_data_size lib) = Inr p"
    and "quote_member_hex (Some quote) (mr_enclave_offset lib) (mr_enclave_size lib) = Inr e"
    using assms(1) by (simp add: quote_member_hex_Some report_complete_def)
  moreover have "\<exists>r. verify_identity_signature lib k d sig = Inr r" for k d
    using assms(1) by (simp add: verify_identity_signature_def report_complete_def)
  then obtain r where "verify_identity_signature lib (identity_key lib quote) (quote @ bytes_of account) sig = Inr r"
    by blast
  ultimately show ?thesis
    unfolding check_report_def Let_def m c by (simp add: identity_of_eq run)
qed

lemma report_decided:
  fixes fo :: "'f::zero float_ops"
  assumes "report_fields fo (req_body req) = Inr (Some (sig, Some quote, n, account))"
    and "report_complete lib sig quote account"
  shows "\<exists>res' out. post_entryNetwork lib fo now req res = Inr (res', out) \<and> thrown out = None
           \<and> status res' = (if report_verified lib now sig quote (length quote) account then 200 else 500)
           \<and> identity out = report_identity
               (concat (map hex_pair (take (report_data_size lib) (drop (report_data_offset lib) quote))))
               (concat (map hex_pair (take (mr_enclave_size lib) (drop (mr_enclave_offset lib) quote)))) account"
proof -
  have n: "length quote = n div 2" using report_fields_length [OF assms(1)] .
  then have m: "(n div 2) mod 2 ^ 32 = length quote"
    using assms(2) by (simp add: report_complete_def)
  obtain out :: "'f outcome" where c: "check_report lib now sig (Some quote) n account first_line = Inr out"
    using check_report_returns [OF assms(2) n] by blast
  then have e: "entry_network lib fo now req = Inr out"
    by (simp add: entry_network_fields [OF assms(1)])
  from c show ?thesis
  proof (cases rule: check_report_Inr)
    case (1 q pubkey mrenclave mem)
    have id: "identity out = report_identity
         (concat (map hex_pair (take (report_data_size lib) (drop (report_data_offset lib) quote))))
         (concat (map hex_pair (take (mr_enclave_size lib) (drop (mr_enclave_offset lib) quote)))) account"
      using 1(2,3,4) by (auto simp: quote_member_hex_Some split: if_splits)
    have "\<exists>res'. finish_response fo out res = Inr res'
        \<and> status res' = (if report_verified lib now sig quote (length quote) account then 200 else 500)"
      using finish_accepted [OF _ id, of fo res] finish_refused [of out _ 500 fo res] 1(1) 1(6) m
      by (cases "report_verified lib now sig quote (length quote) account") auto
    with id 1(5) e show ?thesis by (auto simp: post_entryNetwork_def)
  qed
qed

lemma sdk_ecdsa [simp]:
  "identity_key (lib\<lparr>ECDSA_verify := f\<rparr>) q = identity_key lib q"
  "quote3_message (lib\<lparr>ECDSA_verify := f\<rparr>) e = quote3_message lib e"
  "qv_line (lib\<lparr>ECDSA_verify := f\<rparr>) r = qv_line lib r"
proof -
  show "quote3_message (lib\<lparr>ECDSA_verify := f\<rparr>) e = quote3_message lib e"
    unfolding quote3_message_def by (cases e) simp_all
qed (simp_all add: identity_key_def qv_line_def cong: if_cong)

lemma check_quote_ecdsa [simp]: "check_quote (lib\<lparr>ECDSA_verify := f\<rparr>) = check_quote lib"
  by (simp add: check_quote_def fun_eq_iff Let_def cong: if_cong)

lemma check_report_ecdsa:
  "check_report (lib\<lparr>ECDSA_verify := (\<lambda>h s k. - 1)\<rparr>) = check_report (lib\<lparr>ECDSA_verify := (\<lambda>h s k. 1)\<rparr>)"
  by (simp add: check_report_def verify_identity_signature_def fun_eq_iff Let_def cong: if_cong)

section \<open>An example\<close>

definition sdk_example :: "int \<Rightarrow> qv_result \<Rightarrow> (nat, nat) sdk" where
  "sdk_example ret result =
     \<lparr>report_data_offset = 0, report_data_size = 2, mr_enclave_offset = 2, mr_enclave_size = 1,
      ecp_key_size = 1, signature_size = 2, supplemental_size = 5,
      ssl = \<lparr>BN_lebin2bn = (\<lambda>bs. Some (length bs)), EC_KEY_new_by_curve_name = Some 0,
             EC_KEY_set_public_key_affine_coordinates = (\<lambda>k x y. Some (x + y))\<rparr>,
      sha256_msg = (\<lambda>bs. bs), ECDSA_verify = (\<lambda>h s k. ret),
      get_supplemental_data_size = (SGX_QL_SUCCESS, 5), verify_quote = (\<lambda>q t n. (SGX_QL_SUCCESS, result)),
      quote3_code = (\<lambda>e. 1), qv_code = (\<lambda>r. 2)\<rparr>"

definition report_example :: string where
  "report_example =
     ''{'' @ quoted ''sig'' @ '':'' @ quoted ''0a0b'' @ '','' @ quoted ''quote'' @ '':'' @ quoted ''010203''
     @ '','' @ quoted ''account'' @ '':'' @ quoted ''bob'' @ ''}''"

lemma report_example_fields:
  "report_fields int_ops report_example = Inr (Some ([10, 11], Some [1, 2, 3], 6, ''bob''))"
  by code_simp

lemma report_example_complete: "report_complete (sdk_example ret result) [10, 11] [1, 2, 3] ''bob''"
  by (simp add: report_complete_def sdk_example_def)

lemma report_example_verified:
  "report_verified (sdk_example 1 SGX_QL_QV_RESULT_OK) now [10, 11] [1, 2, 3] (length [1 :: byte, 2, 3]) ''bob''"
  by (simp add: report_verified_def sdk_example_def accepts_def Let_def)

definition request_example :: "string \<Rightarrow> request" where
  "request_example text = empty_request\<lparr>req_method := ''POST'', path := ''/entryNetwork'', req_body := text\<rparr>"

lemma request_example_fields:
  "report_fields int_ops (req_body (request_example report_example))
     = Inr (Some ([10, 11], Some [1, 2, 3], 6, ''bob''))"
  by (simp add: request_example_def report_example_fields)

lemma request_example_accepted:
  "\<exists>res' out. post_entryNetwork (sdk_example 1 SGX_QL_QV_RESULT_OK) int_ops 0
     (request_example report_example) empty_response = Inr (res', out) \<and> status res' = 200"
  using report_decided [OF request_example_fields report_example_complete [of 1 SGX_QL_QV_RESULT_OK],
      of 0 empty_response] report_example_verified [of 0] by auto

definition forged_account :: string where
  "forged_account = ''bob'' @ [BACKSLASH, QUOTE] @ '','' @ [BACKSLASH, QUOTE] @ ''role'' @ [BACKSLASH, QUOTE]
     @ '':'' @ [BACKSLASH, QUOTE] @ ''root''"

definition report_injecting :: string where
  "report_injecting =
     ''{'' @ quoted ''sig'' @ '':'' @ quoted ''0a0b'' @ '','' @ quoted ''quote'' @ '':'' @ quoted ''010203''
     @ '','' @ quoted ''account'' @ '':'' @ quoted forged_account @ ''}''"

lemma report_injecting_fields:
  "report_fields int_ops report_injecting = Inr (Some ([10, 11], Some [1, 2, 3], 6, forged_account))"
  by code_simp

lemma finish_response_cong:
  "ret_body out = ret_body out' \<Longrightarrow> identity out = identity out' \<Longrightarrow>
   finish_response fo out res = finish_response fo out' res"
  by (simp add: finish_response_def cong: if_cong)

definition outcome_example :: "string \<Rightarrow> int outcome" where
  "outcome_example account = \<lparr>ret_body = accepted_body, identity = report_identity ''0102'' ''03'' account,
                     logged = [], memory = [], thrown = None\<rparr>"

text \<open>The outcome for a report of the example, by what becomes the reply.\<close>

lemma example_outcome:
  assumes f: "report_fields int_ops (req_body req) = Inr (Some ([10, 11], Some [1, 2, 3], 6, account))"
    and l: "length account < 2 ^ 31"
  shows "\<exists>out. entry_network (sdk_example 1 SGX_QL_QV_RESULT_OK) int_ops 0 req = Inr out
     \<and> ret_body out = ret_body (outcome_example account) \<and> identity out = identity (outcome_example account)"
proof -
  let ?lib = "sdk_example 1 SGX_QL_QV_RESULT_OK"
  have "report_complete ?lib [10, 11] [1, 2, 3] account"
    using l by (simp add: report_complete_def sdk_example_def)
  then obtain out :: "int outcome"
    where c: "check_report ?lib 0 [10, 11] (Some [1, 2, 3]) 6 account first_line = Inr out"
    using check_report_returns [of ?lib "[10, 11]" "[1, 2, 3]" account 6] by auto
  then show ?thesis
  proof (cases rule: check_report_Inr)
    case (1 quote pubkey mrenclave mem)
    have "report_verified ?lib 0 [10, 11] quote 3 account"
      by (simp add: report_verified_def sdk_example_def accepts_def Let_def)
    moreover have "pubkey = ''0102''" "mrenclave = ''03''"
      using 1(2,3) by (simp_all add: quote_member_hex_Some sdk_example_def hex_pair_def hextable_def)
    ultimately show ?thesis
      using 1 c by (simp add: entry_network_fields [OF f] outcome_example_def)
  qed
qed

section \<open>Accounts with quotation marks\<close>

text \<open>An account whose characters are plain but for escapes loses these in the reply, and only these.\<close>

lemma strip_escapes:
  assumes "list_all (\<lambda>c. plain_char c \<or> c = QUOTE \<or> c = BACKSLASH) s"
  shows "remove_char (remove_char (json_escape s) BACKSLASH) LF = remove_char s BACKSLASH"
  using assms by (induction s) (auto simp: remove_char_def json_escape_char_def plain_char_def)

lemma strip_plain: "plain s \<Longrightarrow> remove_char (remove_char s BACKSLASH) LF = s"
  by (induction s) (auto simp: remove_char_def plain_char_def)

lemma remove_char_simps:
  "remove_char [] c = []" "remove_char (x # s) c = (if x = c then remove_char s c else x # remove_char s c)"
  "remove_char (s @ t) c = remove_char s c @ remove_char t c"
  by (simp_all add: remove_char_def)

lemma reply_text:
  assumes "plain p" and "plain m" and "list_all (\<lambda>c. plain_char c \<or> c = QUOTE \<or> c = BACKSLASH) account"
  shows "\<exists>t. dump fo 1 ''  '' False
      (JObject [(''message'', report_identity p m account), (''status_code'', JIntegral 200)]) = Inr t
    \<and> remove_char (remove_char t BACKSLASH) LF =
      ''{  '' @ quoted ''message'' @ '' : {    '' @ quoted ''account'' @ '' : '' @ quoted (remove_char account BACKSLASH) @ '',    ''
      @ quoted ''mrenclave'' @ '' : '' @ quoted m @ '',    '' @ quoted ''pubkey'' @ '' : '' @ quoted p
      @ ''  },  '' @ quoted ''status_code'' @ '' : 200}''"
proof -
  have "std_to_string 200 = ''200''" by code_simp
  then show ?thesis
    using strip_escapes [OF assms(3)] strip_plain [OF assms(1)] strip_plain [OF assms(2)]
    by (simp add: report_identity_def quoted_def json_escape_plain [OF assms(1)] json_escape_plain [OF assms(2)] 
        repeat_tab_def numeral_2_eq_2 Let_def remove_char_simps)
qed


lemma untagged_hex_text [simp]: "untagged (hex_text bs)"
proof (cases bs)
  case (Cons b bs)
  have "\<forall>c \<in> set hextable. c \<noteq> CHR ''$''" by (simp add: hextable_def)
  moreover have "length hextable = 16" by (simp add: hextable_def)
  ultimately have "hextable ! n \<noteq> CHR ''$''" if "n < 16" for n using that by (metis nth_mem)
  with Cons nibbles_lt [of b] show ?thesis by (auto simp add: untagged_def hex_text_def hex_pair_def HASH_TAG_def BUFF_TAG_def)
qed (simp add: untagged_def hex_text_def HASH_TAG_def BUFF_TAG_def)

text \<open>The members the client finds in the identity of such a reply.\<close>

lemma text_plain_string: "plain s \<Longrightarrow> untagged s \<Longrightarrow> json_text (quoted s) (JString s)"
  using text_string [of s] by (simp add: json_escape_plain)

lemma member_plain_more:
  "plain k \<Longrightarrow> untagged k \<Longrightarrow> blank w1 \<Longrightarrow> blank w2 \<Longrightarrow> json_text t x \<Longrightarrow> hashes_bounded x \<Longrightarrow> blank w \<Longrightarrow> blank w' \<Longrightarrow>
   members_text u kvs \<Longrightarrow> members_text (quoted k @ w1 @ '':'' @ w2 @ t @ w @ '','' @ w' @ u) ((k, x) # kvs)"
  using member_more [of k w1 w2 t x w w' u kvs] by (simp add: json_escape_plain)

lemma member_plain_last:
  "plain k \<Longrightarrow> untagged k \<Longrightarrow> blank w1 \<Longrightarrow> blank w2 \<Longrightarrow> json_text t x \<Longrightarrow> hashes_bounded x \<Longrightarrow> blank w \<Longrightarrow>
   members_text (quoted k @ w1 @ '':'' @ w2 @ t @ w) [(k, x)]"
  using member_last [of k w1 w2 t x w] by (simp add: json_escape_plain)

lemma names_plain:
  "plain ''account'' \<and> untagged ''account''" "plain ''mrenclave'' \<and> untagged ''mrenclave''" "plain ''pubkey'' \<and> untagged ''pubkey''"
  "plain ''message'' \<and> untagged ''message''" "plain ''status_code'' \<and> untagged ''status_code''"
  by (simp_all add: plain_char_def untagged_def HASH_TAG_def BUFF_TAG_def)

lemma set_map_put: "set (map_put k v m) \<subseteq> insert (k, v) (set m)"
  by (induction k v m rule: map_put.induct) auto

lemma put_members_slot:
  assumes "\<forall>(k, v) \<in> set kvs \<union> set m. hashes_bounded v"
  shows "\<exists>m'. put_members (JObject m) kvs = Inr (JObject m') \<and> (\<forall>k. map_of m' k = map_of (rev kvs @ m) k)
    \<and> hashes_bounded (JObject m')"
  using assms
proof (induction kvs arbitrary: m)
  case (Cons kv kvs)
  obtain k v where "kv = (k, v)" by fastforce
  moreover from this Cons.prems have "\<forall>(k, v) \<in> set kvs \<union> set (map_put k v m). hashes_bounded v"
    using set_map_put [of k v m] by auto
  ultimately show ?case using Cons.IH [of "map_put k v m"]
    by (auto simp: set_key_def index_key_def map_of_put map_add_def split: option.splits)
qed (auto simp: list_all_iff)

lemma forged_identity:
  assumes "plain a" "untagged a" "plain k" "untagged k" "plain v" "untagged v"
    and "k \<notin> {''account'', ''mrenclave'', ''pubkey''}" and "p = hex_text ps" and "m = hex_text ms"
  shows "\<exists>id :: 'f::zero jmap. json_text (''{    '' @ quoted ''account'' @ '' : '' @ quoted (a @ [QUOTE] @ '','' @ quoted k @ '':'' @ [QUOTE] @ v)
        @ '',    '' @ quoted ''mrenclave'' @ '' : '' @ quoted m @ '',    '' @ quoted ''pubkey'' @ '' : '' @ quoted p @ ''  }'')
        (JObject id)
    \<and> hashes_bounded (JObject id) \<and> slot id ''account'' = JString a \<and> slot id k = JString v \<and> slot id ''mrenclave'' = JString m \<and> slot id ''pubkey'' = JString p"
proof -
  let ?kvs = "[(''account'', JString a), (k, JString v), (''mrenclave'', JString m), (''pubkey'', JString p)] :: 'f jmap"
  have p: "plain p" "untagged p" "plain m" "untagged m" using untagged_hex_text by (simp_all only: assms(8,9) plain_hex_text)
  have mem: "members_text (quoted ''account'' @ '' '' @ '':'' @ '' '' @ quoted a @ [] @ '','' @ [] @
      quoted k @ [] @ '':'' @ [] @ quoted v @ [] @ '','' @ ''    '' @
      quoted ''mrenclave'' @ '' '' @ '':'' @ '' '' @ quoted m @ [] @ '','' @ ''    '' @
      quoted ''pubkey'' @ '' '' @ '':'' @ '' '' @ quoted p @ ''  '') ?kvs"
    by (intro member_plain_more member_plain_last text_plain_string) (simp_all add: assms p names_plain is_space_code del: plain_simps)
  obtain id where id: "put_members (Make Class_Object) ?kvs = Inr (JObject id)" "\<forall>k. map_of id k = map_of (rev ?kvs) k"
      "hashes_bounded (JObject id)"
    using put_members_slot [of ?kvs "[]"] by (auto simp: Make_def SetType_def)
  have "json_text (''{'' @ object_tag Class_Object @ ''    '' @
      (quoted ''account'' @ '' '' @ '':'' @ '' '' @ quoted a @ [] @ '','' @ [] @
      quoted k @ [] @ '':'' @ [] @ quoted v @ [] @ '','' @ ''    '' @
      quoted ''mrenclave'' @ '' '' @ '':'' @ '' '' @ quoted m @ [] @ '','' @ ''    '' @
      quoted ''pubkey'' @ '' '' @ '':'' @ '' '' @ quoted p @ ''  '') @ ''}'') (JObject id)"
    by (rule text_object [OF _ mem _ id(1)]) (simp_all add: is_space_code)
  moreover have "slot id ''account'' = JString a \<and> slot id k = JString v \<and> slot id ''mrenclave'' = JString m \<and> slot id ''pubkey'' = JString p"
    using id(2) assms(7) by (auto simp add: slot_def)
  ultimately show ?thesis using id(3) by (intro exI [of _ id]) (simp add: quoted_def object_tag_def)
qed


lemma forged_text:
  fixes fo :: "'f::zero float_ops"
  assumes "plain a" "untagged a" "plain k" "untagged k" "plain v" "untagged v"
    and "k \<notin> {''account'', ''mrenclave'', ''pubkey''}" and "p = hex_text ps" and "m = hex_text ms"
  shows "\<exists>obj id. Load fo CRUST_SUCCESS
      (''{  '' @ quoted ''message'' @ '' : {    '' @ quoted ''account'' @ '' : ''
      @ quoted (a @ [QUOTE] @ '','' @ quoted k @ '':'' @ [QUOTE] @ v) @ '',    ''
      @ quoted ''mrenclave'' @ '' : '' @ quoted m @ '',    '' @ quoted ''pubkey'' @ '' : '' @ quoted p
      @ ''  },  '' @ quoted ''status_code'' @ '' : 200}'') = Inr (JObject obj, CRUST_SUCCESS)
    \<and> slot obj ''status_code'' = JIntegral 200 \<and> slot obj ''message'' = JObject id
    \<and> slot id ''account'' = JString a \<and> slot id k = JString v
    \<and> slot id ''mrenclave'' = JString m \<and> slot id ''pubkey'' = JString p"
proof -
  let ?id = "''{    '' @ quoted ''account'' @ '' : '' @ quoted (a @ [QUOTE] @ '','' @ quoted k @ '':'' @ [QUOTE] @ v)
        @ '',    '' @ quoted ''mrenclave'' @ '' : '' @ quoted m @ '',    '' @ quoted ''pubkey'' @ '' : '' @ quoted p @ ''  }''"
  obtain id where id: "json_text ?id (JObject id :: 'f json)" "hashes_bounded (JObject id)" "slot id ''account'' = JString a"
      "slot id k = JString v" "slot id ''mrenclave'' = JString m" "slot id ''pubkey'' = JString p"
    using forged_identity [OF assms] by blast
  let ?kvs = "[(''message'', JObject id), (''status_code'', JIntegral 200)]"
  have "std_to_string 200 = ''200''" "in_long 200" by code_simp+
  then have n: "json_text ''200'' (JIntegral 200)" using text_integral [of 200] by simp
  have mem: "members_text (quoted ''message'' @ '' '' @ '':'' @ '' '' @ ?id @ [] @ '','' @ ''  '' @
      quoted ''status_code'' @ '' '' @ '':'' @ '' '' @ ''200'' @ []) ?kvs"
    by (intro member_plain_more member_plain_last id(1,2) n) (simp_all add: names_plain is_space_code del: plain_simps)
  obtain obj where obj: "put_members (Make Class_Object) ?kvs = Inr (JObject obj)"
      "\<forall>k. map_of obj k = map_of (rev ?kvs) k"
    using put_members_slot [of ?kvs "[]"] id(2) by (auto simp: Make_def SetType_def)
  have "json_text (''{'' @ object_tag Class_Object @ ''  '' @
      (quoted ''message'' @ '' '' @ '':'' @ '' '' @ ?id @ [] @ '','' @ ''  '' @
      quoted ''status_code'' @ '' '' @ '':'' @ '' '' @ ''200'' @ []) @ ''}'') (JObject obj)"
    by (rule text_object [OF _ mem _ obj(1)]) (simp_all add: is_space_code)
  then have "Load fo CRUST_SUCCESS ([] @ (''{'' @ object_tag Class_Object @ ''  '' @
      (quoted ''message'' @ '' '' @ '':'' @ '' '' @ ?id @ [] @ '','' @ ''  '' @
      quoted ''status_code'' @ '' '' @ '':'' @ '' '' @ ''200'' @ []) @ ''}'') @ []) = Inr (JObject obj, CRUST_SUCCESS)"
    by (rule conjunct1 [OF Load_text [where data_size = 1]]) (simp_all add: is_integral_def)
  moreover have "slot obj ''status_code'' = JIntegral 200" "slot obj ''message'' = JObject id"
    using obj(2) by (simp_all add: slot_def)
  ultimately show ?thesis using id by (intro exI [of _ obj] exI [of _ id]) (simp add: quoted_def object_tag_def)
qed

lemma json_copy_identity: "json_copy (report_identity p m a) = report_identity p m a"
  by (simp add: report_identity_def)

lemma finish_accepted_body:
  assumes "finish_response fo out res = Inr res'" and "ret_body out = accepted_body" and "identity out = report_identity p m account"
    and "dump fo 1 ''  '' False
      (JObject [(''message'', report_identity p m account), (''status_code'', JIntegral 200)]) = Inr t"
  shows "body res' = remove_char (remove_char t BACKSLASH) LF"
proof -
  let ?j = "JObject [(''message'', report_identity p m account), (''status_code'', JIntegral 200)]"
  from assms(2,3) have "finish_response fo out res = rbind (dump fo 1 ''  '' False ?j) (\<lambda>text.
      Inr (set_content (remove_char (remove_char text BACKSLASH) LF) ''application/json'' (res\<lparr>status := 200\<rparr>)))"
    by (simp add: finish_response_def accepted_body_def index_key_def key_value_def slot_def ToInt_def set_key_def less_char_def
        json_copy_identity del: dump.simps)
  with assms(1,4) show ?thesis by (auto simp add: set_content_def set_header_def simp del: dump.simps)
qed

lemma accepted_reply:
  assumes "report_fields fo (req_body req) = Inr (Some (sig, p_quote, n, account))"
    and "post_entryNetwork lib fo now req res = Inr (res', out)" and "status res' = 200"
  obtains ps ms where "ret_body out = accepted_body"
    and "identity out = report_identity (hex_text ps) (hex_text ms) account" and "finish_response fo out res = Inr res'"
proof -
  from assms(2) have e: "entry_network lib fo now req = Inr out"
    and f: "finish_response fo out res = Inr res'" by (auto simp: post_entryNetwork_def rbind_eq_Inr)
  have c: "check_report lib now sig p_quote n account first_line = Inr out"
    using e by (simp add: entry_network_fields [OF assms(1)])
  then show thesis
  proof (cases rule: check_report_Inr)
    case (1 quote pubkey mrenclave mem)
    have acc: "ret_body out = accepted_body"
    proof (rule ccontr)
      assume "\<not> ?thesis"
      with 1(6) have "\<exists>msg. ret_body out = refused_body msg 500" by auto
      with finish_refused [of out _ 500 fo res] f assms(3) show False by fastforce
    qed
    obtain ps ms where "pubkey = hex_text ps" "mrenclave = hex_text ms"
      using 1(1-3) by (auto simp: quote_member_hex_Some hex_text_def split: if_splits)
    with that acc 1(4) f show thesis by blast
  qed
qed

section \<open>Properties\<close>

text \<open>
  C1. The service accepts only what it verified: when the response to \<open>/entryNetwork\<close> has status
  200, the body was a report with a signature and a quote, \<open>ECDSA_verify\<close> did not return 0 for the
  quote and the account under the key inside the quote, and the quote verification succeeded with
  one of the six results the code takes for acceptable.
\<close>

theorem entry_network_accepts_only_verified:
  assumes "post_entryNetwork lib fo now req res = Inr (res', out)" and "status res' = 200"
  shows "\<exists>sig quote n account. report_fields fo (req_body req) = Inr (Some (sig, Some quote, n, account))
           \<and> report_verified lib now sig quote ((n div 2) mod 2 ^ 32) account"
proof -
  from assms(1) have e: "entry_network lib fo now req = Inr out"
    and f: "finish_response fo out res = Inr res'" by (auto simp: post_entryNetwork_def rbind_eq_Inr)
  from e show ?thesis
  proof (cases rule: entry_network_cases)
    case (fields sig p_quote n account)
    from fields(2) show ?thesis
    proof (cases rule: check_report_Inr)
      case (1 quote pubkey mrenclave mem)
      have "report_verified lib now sig quote ((n div 2) mod 2 ^ 32) account"
      proof (rule ccontr)
        assume "\<not> ?thesis"
        with 1(6) have "\<exists>msg. ret_body out = refused_body msg 500" by auto
        with finish_refused [of out _ 500 fo res] f assms(2) show False by fastforce
      qed
      with fields(1) 1(1) show ?thesis by blast
    qed
  next
    case (refused msg)
    with finish_refused [of out msg 400 fo res] f assms(2) show ?thesis by auto
  next
    case (exception e)
    with finish_exception [of out fo res] f assms(2) show ?thesis by auto
  qed
qed

theorem entry_network_accepts_only_verified_witness:
  "\<exists>sig quote n account. report_fields int_ops (req_body (request_example report_example))
       = Inr (Some (sig, Some quote, n, account))
     \<and> report_verified (sdk_example 1 SGX_QL_QV_RESULT_OK) 0 sig quote ((n div 2) mod 2 ^ 32) account"
  using request_example_accepted
    entry_network_accepts_only_verified [of "sdk_example 1 SGX_QL_QV_RESULT_OK" int_ops 0
      "request_example report_example" empty_response] by blast

text \<open>
  C5. Every complete report is decided: when the members read from the quote and the signature lie
  inside their blocks, the handler returns normally, with status 200 for a verified report and
  500 for any other, and the identity it forms holds the key and the enclave measurement of the
  quote and the account.
\<close>

theorem entry_network_decides:
  assumes "report_fields fo (req_body req) = Inr (Some (sig, Some quote, n, account))"
    and "report_complete lib sig quote account"
  shows "\<exists>res' out. post_entryNetwork lib fo now req res = Inr (res', out) \<and> thrown out = None
           \<and> status res' = (if report_verified lib now sig quote (length quote) account then 200 else 500)
           \<and> identity out = report_identity
               (concat (map hex_pair (take (report_data_size lib) (drop (report_data_offset lib) quote))))
               (concat (map hex_pair (take (mr_enclave_size lib) (drop (mr_enclave_offset lib) quote)))) account"
  by (rule report_decided [OF assms])

theorem entry_network_decides_witness:
  "\<exists>res' out. post_entryNetwork (sdk_example 1 SGX_QL_QV_RESULT_OK) int_ops 0
     (request_example report_example) empty_response = Inr (res', out) \<and> status res' = 200"
  using entry_network_decides [OF request_example_fields report_example_complete [of 1 SGX_QL_QV_RESULT_OK],
      of 0 empty_response] report_example_verified [of 0] by auto

text \<open>
  The statuses of the handler: 200, 400 or 500 when it returns, and 0 exactly when an exception
  leaves it (the guard then reads \<open>status_code\<close> from a reply nobody filled in).
\<close>

theorem entry_network_statuses:
  assumes "post_entryNetwork lib fo now req res = Inr (res', out)"
  shows "(thrown out = None \<and> status res' \<in> {200, 400, 500}) \<or> (thrown out \<noteq> None \<and> status res' = 0)"
proof -
  from assms have e: "entry_network lib fo now req = Inr out"
    and f: "finish_response fo out res = Inr res'" by (auto simp: post_entryNetwork_def rbind_eq_Inr)
  from e show ?thesis
  proof (cases rule: entry_network_cases)
    case (fields sig p_quote n account)
    from fields(2) show ?thesis
    proof (cases rule: check_report_Inr)
      case (1 quote pubkey mrenclave mem)
      from f have "status res' = 200 \<or> status res' = 500"
        using finish_accepted [OF _ 1(4), of fo res] finish_refused [of out _ 500 fo res] 1(6)
        by (auto split: if_splits)
      with 1(5) show ?thesis by auto
    qed
  next
    case (refused msg)
    with finish_refused [of out msg 400 fo res] f show ?thesis by auto
  next
    case (exception e)
    with finish_exception [of out fo res] f show ?thesis by auto
  qed
qed

theorem entry_network_statuses_witness:
  "\<exists>res' out. post_entryNetwork (sdk_example 1 SGX_QL_QV_RESULT_OK) int_ops 0
      (request_example report_example) empty_response = Inr (res', out)
    \<and> ((thrown out = None \<and> status res' \<in> {200, 400, 500}) \<or> (thrown out \<noteq> None \<and> status res' = 0))"
  using request_example_accepted entry_network_statuses by blast

text \<open>
  The memory of a request: the blocks of the signature, of the signed data and of the
  supplemental data are freed as often as they are allocated, but the block of the quote and the
  EC key never are, so every request that gets to the check of the signature leaks them.
\<close>

theorem entry_network_leaks_quote:
  assumes "entry_network lib fo now req = Inr out"
  shows "(if b \<in> {Sig_block, Sig_data_block, Supplemental_block}
          then count_list (memory out) (Alloc b) = count_list (memory out) (Free b)
          else Free b \<notin> set (memory out))
    \<and> (Alloc Quote_block \<in> set (memory out)
         \<longleftrightarrow> (\<exists>report. report_fields fo (req_body req) = Inr (Some report)))"
proof (cases "\<exists>report. report_fields fo (req_body req) = Inr (Some report)")
  case True
  then obtain sig p_quote n account
    where f: "report_fields fo (req_body req) = Inr (Some (sig, p_quote, n, account))" by auto
  with assms have "check_report lib now sig p_quote n account first_line = Inr out"
    by (simp add: entry_network_fields [OF f])
  then show ?thesis
  proof (cases rule: check_report_Inr)
    case (1 quote pubkey mrenclave mem)
    from 1(8) have "count_list mem (Alloc b) = count_list mem (Free b)"
      "Free b \<in> set mem \<Longrightarrow> b = Supplemental_block" by auto
    with True show ?thesis unfolding 1(7) by (cases b) auto
  qed
next
  case False
  from assms show ?thesis
    by (cases rule: entry_network_cases) (use False in auto)
qed

theorem entry_network_leaks_quote_witness:
  "\<exists>out. entry_network (sdk_example 1 SGX_QL_QV_RESULT_OK) int_ops 0 (request_example report_example) = Inr out
     \<and> Alloc Quote_block \<in> set (memory out) \<and> Free Quote_block \<notin> set (memory out)"
proof -
  obtain out where e: "entry_network (sdk_example 1 SGX_QL_QV_RESULT_OK) int_ops 0
      (request_example report_example) = Inr out"
    using request_example_accepted by (auto simp: post_entryNetwork_def rbind_eq_Inr)
  with entry_network_leaks_quote [OF e, of Quote_block] request_example_fields show ?thesis by auto
qed

text \<open>
  Nothing compares the size of the quote with the structure it is cast to: a report whose quote
  is too short for the report data is read past the end of its block, and one whose quote has an
  odd number of digits is read through \<open>NULL\<close>.
\<close>

theorem entry_network_overreads_short_quote:
  assumes "report_fields fo (req_body req) = Inr (Some (sig, p_quote, n, account))"
    and "n + length account < 2 ^ 32"
    and "case p_quote of None \<Rightarrow> True | Some quote \<Rightarrow> length quote - report_data_offset lib < report_data_size lib"
  shows "entry_network lib fo now req
     = Inl (Undefined (if p_quote = None then Null_dereference else Read_out_of_bounds))"
proof (cases p_quote)
  case None
  have "n div 2 + length account < 2 ^ 32" using assms(2) by linarith
  then show ?thesis
    by (simp add: entry_network_fields [OF assms(1)] None check_report_def copy_sig_data_def
        quote_member_hex_def Let_def)
next
  case (Some quote)
  have l: "length quote = n div 2" using report_fields_length assms(1) Some by blast
  have "n div 2 + length account < 2 ^ 32" using assms(2) by linarith
  then show ?thesis
    using assms(3) Some l
    by (auto simp: entry_network_fields [OF assms(1)] check_report_def copy_sig_data_def
        quote_member_hex_Some Let_def)
qed

lemma request_empty_fields:
  "report_fields int_ops (req_body (request_example ''{}'')) = Inr (Some ([], Some [], 0, []))"
  by code_simp

theorem entry_network_overreads_short_quote_witness:
  "entry_network (sdk_example 1 SGX_QL_QV_RESULT_OK) int_ops 0 (request_example ''{}'')
     = Inl (Undefined Read_out_of_bounds)"
  using entry_network_overreads_short_quote [OF request_empty_fields,
      of "sdk_example 1 SGX_QL_QV_RESULT_OK" 0]
  by (simp add: sdk_example_def)

text \<open>
  C36. \<open>ECDSA_verify\<close> returns 1 for a correct signature, 0 for an incorrect one and -1 for an error,
  such as a signature it cannot decode. The handler only refuses 0: whatever the request, it does
  with -1 exactly what it does with 1.
\<close>

theorem entry_network_takes_error_for_valid:
  "entry_network (lib\<lparr>ECDSA_verify := (\<lambda>h s k. - 1)\<rparr>) fo now req
     = entry_network (lib\<lparr>ECDSA_verify := (\<lambda>h s k. 1)\<rparr>) fo now req"
  unfolding entry_network_def check_report_ecdsa ..

text \<open>
  C37. The account of a report can add members to the reply. The guard strips every backslash from the
  body it sends, after the strings in it were escaped. So whenever a report is accepted whose account,
  backslashes aside, is \<open>a","k":"v\<close> for texts \<open>a\<close>, \<open>k\<close> and \<open>v\<close> without quotation marks, backslashes, control
  characters that are escaped and type tags, \<open>k\<close> none of the three names the handler uses, the body of the reply is a text
  that \<open>Load\<close> reads as an object whose \<open>message\<close> has the member \<open>k\<close> with the value \<open>v\<close>, beside
  the account \<open>a\<close> and the key and the measurement that were verified.
\<close>

theorem account_forges_reply_members:
  fixes fo :: "'f::zero float_ops"
  assumes "report_fields fo (req_body req) = Inr (Some (sig, p_quote, n, account))"
    and "remove_char account BACKSLASH = a @ [QUOTE] @ '','' @ quoted k @ '':'' @ [QUOTE] @ v"
    and "plain a" "untagged a" "plain k" "untagged k" "plain v" "untagged v"
    and "k \<notin> {''account'', ''mrenclave'', ''pubkey''}"
    and "post_entryNetwork lib fo now req res = Inr (res', out)" and "status res' = 200"
  shows "\<exists>obj id pubkey mrenclave. Load fo CRUST_SUCCESS (body res') = Inr (JObject obj, CRUST_SUCCESS)
    \<and> slot obj ''message'' = JObject id \<and> slot id k = JString v \<and> slot id ''account'' = JString a
    \<and> identity out = report_identity pubkey mrenclave account
    \<and> slot id ''pubkey'' = JString pubkey \<and> slot id ''mrenclave'' = JString mrenclave"
proof -
  obtain ps ms where acc: "ret_body out = accepted_body"
    and id: "identity out = report_identity (hex_text ps) (hex_text ms) account" and f: "finish_response fo out res = Inr res'"
    using accepted_reply [OF assms(1,10,11)] .
  have "list_all (\<lambda>c. plain_char c \<or> c = QUOTE) (remove_char account BACKSLASH)"
    using assms(3,5,7) unfolding assms(2) by (auto simp: quoted_def plain_def list_all_iff) (simp_all add: plain_char_def)
  then have chars: "list_all (\<lambda>c. plain_char c \<or> c = QUOTE \<or> c = BACKSLASH) account"
    unfolding remove_char_def list_all_iff by fastforce
  obtain t where t: "dump fo 1 ''  '' False
      (JObject [(''message'', report_identity (hex_text ps) (hex_text ms) account), (''status_code'', JIntegral 200)]) = Inr t"
    and strip: "remove_char (remove_char t BACKSLASH) LF =
      ''{  '' @ quoted ''message'' @ '' : {    '' @ quoted ''account'' @ '' : '' @ quoted (remove_char account BACKSLASH) @ '',    ''
      @ quoted ''mrenclave'' @ '' : '' @ quoted (hex_text ms) @ '',    '' @ quoted ''pubkey'' @ '' : '' @ quoted (hex_text ps)
      @ ''  },  '' @ quoted ''status_code'' @ '' : 200}''"
    using reply_text [OF plain_hex_text plain_hex_text chars] by blast
  have b: "body res' = ''{  '' @ quoted ''message'' @ '' : {    '' @ quoted ''account'' @ '' : ''
      @ quoted (a @ [QUOTE] @ '','' @ quoted k @ '':'' @ [QUOTE] @ v) @ '',    ''
      @ quoted ''mrenclave'' @ '' : '' @ quoted (hex_text ms) @ '',    '' @ quoted ''pubkey'' @ '' : '' @ quoted (hex_text ps)
      @ ''  },  '' @ quoted ''status_code'' @ '' : 200}''"
    using finish_accepted_body [OF f acc id t] unfolding strip assms(2) .
  show ?thesis
    using forged_text [OF assms(3-9) refl refl, of fo] id unfolding b by blast
qed

theorem account_forges_reply_members_witness:
  "\<exists>res' out obj id. post_entryNetwork (sdk_example 1 SGX_QL_QV_RESULT_OK) int_ops 0
        (request_example report_injecting) empty_response = Inr (res', out)
    \<and> Load int_ops CRUST_SUCCESS (body res') = Inr (JObject obj, CRUST_SUCCESS)
    \<and> slot obj ''message'' = JObject id \<and> slot id ''role'' = JString ''root'' \<and> slot id ''account'' = JString ''bob''"
proof -
  let ?lib = "sdk_example 1 SGX_QL_QV_RESULT_OK"
  have f: "report_fields int_ops (req_body (request_example report_injecting)) = Inr (Some ([10, 11], Some [1, 2, 3], 6, forged_account))"
    by (simp add: request_example_def report_injecting_fields)
  have "report_complete ?lib [10, 11] [1, 2, 3] forged_account"
    by (simp add: report_complete_def sdk_example_def forged_account_def)
  moreover have "report_verified ?lib 0 [10, 11] [1, 2, 3] (length [1 :: byte, 2, 3]) forged_account"
    by (simp add: report_verified_def sdk_example_def accepts_def Let_def)
  ultimately obtain res' out where r: "post_entryNetwork ?lib int_ops 0 (request_example report_injecting) empty_response
      = Inr (res', out)" "status res' = 200"
    using report_decided [OF f, of ?lib 0 empty_response] by auto
  have a: "remove_char forged_account BACKSLASH = ''bob'' @ [QUOTE] @ '','' @ quoted ''role'' @ '':'' @ [QUOTE] @ ''root''"
    by (simp add: forged_account_def remove_char_def quoted_def)
  have "plain ''bob''" "untagged ''bob''" "plain ''role''" "untagged ''role''" "plain ''root''" "untagged ''root''"
      "''role'' \<notin> {''account'', ''mrenclave'', ''pubkey''}"
    by (simp_all add: plain_char_def untagged_def HASH_TAG_def BUFF_TAG_def)
  from account_forges_reply_members [OF f a this r] r(1) show ?thesis by blast
qed

end
