(* ===== verification/Dcap_Main.thy ===== *)
theory Dcap_Main
  imports Dcap_Laws Http_Server Logger
begin

text \<open>
  The program \<open>sgx/src/App.cpp\<close> as a whole: the command line, the routes of the server and what a
  client gets for the bytes it sends.

  The state the handlers share is the log and the listening socket that \<open>/stop\<close> closes.
\<close>

section \<open>The command line\<close>

definition atoi :: "string \<Rightarrow> int res" where
  "atoi s =
     (let t = dropWhile is_space s;
          neg = (t \<noteq> [] \<and> hd t = CHR ''-'');
          u = (if t \<noteq> [] \<and> (hd t = CHR ''-'' \<or> hd t = CHR ''+'') then tl t else t);
          n = int (dec_val (takeWhile is_digit u));
          v = (if neg then - n else n)
      in if - (2 ^ 31) \<le> v \<and> v < 2 ^ 31 then Inr v else Inl (Undefined Signed_overflow))"

definition show_help :: "string \<Rightarrow> string \<Rightarrow> int \<Rightarrow> string" where
  "show_help name host port =
     ''    Usage: '' @ [LF]
     @ ''        '' @ name @ '' <option> <argument>'' @ [LF]
     @ ''          option: '' @ [LF]
     @ ''           -h, --help: help information. '' @ [LF]
     @ ''           -t, --host: set server host, default is '' @ host @ '' '' @ [LF]
     @ ''           -p, --port: set server port, default is '' @ std_to_string port @ '' '' @ [LF]"

text \<open>What the loop over the arguments ends with: the help text, a missing argument, host and port.\<close>

datatype command = Help string | Missing string | Serve string int

datatype argument = Help_option | Host_option | Port_option | Unknown_option

definition argument_of :: "string \<Rightarrow> argument" where
  "argument_of a =
     (if a = ''-h'' \<or> a = ''--help'' then Help_option
      else if a = ''-t'' \<or> a = ''--host'' then Host_option
      else if a = ''-p'' \<or> a = ''--port'' then Port_option
      else Unknown_option)"

fun parse_args :: "string \<Rightarrow> string list \<Rightarrow> string \<Rightarrow> int \<Rightarrow> command res" where
  "parse_args name [] host port = Inr (Serve host port)"
| "parse_args name (a # as) host port =
     (case argument_of a of
        Help_option \<Rightarrow> Inr (Help (show_help name host port))
      | Host_option \<Rightarrow>
          (case as of
             [] \<Rightarrow> Inr (Missing (''-t,--host option needs configure file path as argument!'' @ [LF]))
           | v # as' \<Rightarrow> parse_args name as' v port)
      | Port_option \<Rightarrow>
          (case as of
             [] \<Rightarrow> Inr (Missing (''-p,--port option needs configure file path as argument!'' @ [LF]))
           | v # as' \<Rightarrow> rbind (atoi v) (\<lambda>port. parse_args name as' host port))
      | Unknown_option \<Rightarrow> Inr (Help (show_help name host port)))"

text \<open>The program: what it prints, what it logs, the host and port it listens on, its exit code.\<close>

record run =
  printed_text :: string
  logged_lines :: log_lines
  listens_on :: "(string \<times> int) option"
  exit_code :: int

text \<open>The result of \<open>listen\<close> is not looked at; \<open>serve\<close> is what it logs while it runs.\<close>

definition dcap_main :: "string \<Rightarrow> string list \<Rightarrow> (string \<Rightarrow> int \<Rightarrow> bool \<times> log_lines) \<Rightarrow> run res" where
  "dcap_main name args serve =
     rbind (parse_args name args ''0.0.0.0'' 1234) (\<lambda>c.
       Inr (case c of
          Help t \<Rightarrow> \<lparr>printed_text = t, logged_lines = [], listens_on = None, exit_code = 1\<rparr>
        | Missing t \<Rightarrow>
            \<lparr>printed_text = [], logged_lines = [(CRUST_LOG_ERR_TAG, t)], listens_on = None, exit_code = 1\<rparr>
        | Serve host port \<Rightarrow>
            \<lparr>printed_text = [],
             logged_lines = (CRUST_LOG_INFO_TAG, ''Start dcap service at '' @ host @ '':'' @ std_to_string port
                               @ '' successfully!'' @ [LF]) # snd (serve host port),
             listens_on = Some (host, port), exit_code = 0\<rparr>))"

section \<open>The routes\<close>

record service =
  svc_log :: log_lines
  svc_listener :: listener

definition hello_handler :: "(service, unit) action" where
  "hello_handler req res w = Inr (Gives (), get_hello req res, w)"

definition stop_handler :: "(service, unit) action" where
  "stop_handler req res w =
     rbind (stop_server (svc_listener w)) (\<lambda>l. Inr (Gives (), res, w\<lparr>svc_listener := l\<rparr>))"

text \<open>The last argument but three is the time at which the handler asks for it.\<close>

definition entry_handler :: "('b, 'k) sdk \<Rightarrow> 'f::zero float_ops \<Rightarrow> int \<Rightarrow> (service, unit) action" where
  "entry_handler lib fo now req res w =
     rbind (post_entryNetwork lib fo now req res) (\<lambda>(res', out).
       Inr (case thrown out of None \<Rightarrow> Gives () | Some e \<Rightarrow> Raises (Std_exception e), res',
            w\<lparr>svc_log := svc_log w @ logged out\<rparr>))"

definition dcap_server :: "('b, 'k) sdk \<Rightarrow> 'f::zero float_ops \<Rightarrow> int \<Rightarrow> service server" where
  "dcap_server lib fo now =
     Server_Post (literal_pattern ''/entryNetwork'') (entry_handler lib fo now)
       (Server_Get (literal_pattern ''/stop'') stop_handler
         (Server_Get (literal_pattern ''/hello'') hello_handler new_server))"

section \<open>Facts\<close>

lemma dcap_server_parts [simp]:
  "get_handlers (dcap_server lib fo now) =
     [(literal_pattern ''/hello'', hello_handler), (literal_pattern ''/stop'', stop_handler)]"
  "post_handlers (dcap_server lib fo now) = [(literal_pattern ''/entryNetwork'', entry_handler lib fo now)]"
  "payload_max_length (dcap_server lib fo now) = 2 ^ 64 - 1"
  by (simp_all add: dcap_server_def Server_Post_def Server_Get_def new_server_def)

lemma dcap_server_times: "keep_alive_timeout_sec (dcap_server lib fo now) = 5" "keep_alive_max_count (dcap_server lib fo now) = 5"
  by (simp_all add: dcap_server_def Server_Post_def Server_Get_def new_server_def)

lemma dcap_server_bare: "bare_server (dcap_server lib fo now)"
  by (simp add: bare_server_def dcap_server_def Server_Post_def Server_Get_def new_server_def)

lemma post_entryNetwork_body:
  "req_body req = req_body req' \<Longrightarrow> post_entryNetwork lib fo now req res = post_entryNetwork lib fo now req' res"
  by (simp add: post_entryNetwork_def entry_network_def)

text \<open>What the guard makes of a response.\<close>

lemma finish_response_shape:
  "finish_response fo out res = Inr res' \<Longrightarrow>
   \<exists>t stat. res' = set_content t ''application/json'' (res\<lparr>status := stat\<rparr>)"
  by (auto simp: finish_response_def res_simps Let_def)

lemma post_entryNetwork_headers:
  assumes "post_entryNetwork lib fo now req res = Inr (res', out)" and "rsp_headers res = []"
  shows "rsp_headers res' = [(''Content-Type'', ''application/json'')]"
proof -
  obtain t stat where "res' = set_content t ''application/json'' (res\<lparr>status := stat\<rparr>)"
    using assms(1) finish_response_shape [of fo out res res'] by (auto simp: post_entryNetwork_def res_simps)
  then show ?thesis
    using assms(2)
    by (simp add: set_content_def set_header_def has_crlf_def mm_erase_range_def mm_emplace_def mm_lower_def mm_upper_def)
qed

text \<open>The header fields of a POST request that the server reads in one go.\<close>

definition post_fields :: "headers \<Rightarrow> string \<Rightarrow> bool" where
  "post_fields hs content \<longleftrightarrow>
     list_all (\<lambda>(k, v). field_ok k v) hs \<and> mm_sorted to_lower hs
     \<and> list_all (no_field hs) [''Connection'', ''Range'', ''Expect'', ''Content-Encoding'', ''Transfer-Encoding'']
     \<and> mm_values to_lower hs ''Content-Length'' = [nat_string (length content)]
     \<and> length content < 2 ^ 64
     \<and> \<not> starts_with (first_value hs ''Content-Type'') ''multipart/form-data''
     \<and> \<not> starts_with (first_value hs ''Content-Type'') ''application/x-www-form-urlencoded''"

definition first_response :: response where
  "first_response = empty_response\<lparr>rsp_version := ''HTTP/1.1''\<rparr>"

definition report_bytes :: "headers \<Rightarrow> string \<Rightarrow> string" where
  "report_bytes hs content = request_line ''POST'' ''/entryNetwork'' @ write_headers hs @ content"

text \<open>
  A report comes to the handler: from the bytes of the connection to the call, whose request has
  exactly the content as its body.
\<close>

lemma report_routed:
  assumes req: "mm_sorted to_lower (req_headers req)" "req_method req = ''POST''" "path req = ''/entryNetwork''" "req_body req = []"
    and len: "mm_values to_lower (req_headers req) ''Content-Length'' = [nat_string (length content)]" "length content < 2 ^ 64"
    and enc: "no_field (req_headers req) ''Content-Encoding''" "no_field (req_headers req) ''Transfer-Encoding''"
    and ct: "\<not> starts_with (first_value (req_headers req) ''Content-Type'') ''multipart/form-data''"
      "\<not> starts_with (first_value (req_headers req) ''Content-Type'') ''application/x-www-form-urlencoded''"
    and st: "rest st = content @ aft"
  obtains st' where "rest st' = aft" "sent st' = sent st" "sends st' = sends st"
    and "routing env (dcap_server lib fo now) st req res w
       = rbind (entry_handler lib fo now (req\<lparr>req_body := content, matches := [''/entryNetwork'']\<rparr>) res w)
           (\<lambda>(a, res, w). Inr (case a of Gives _ \<Rightarrow> Gives True | Raises t \<Rightarrow> Raises t, st', req\<lparr>req_body := content\<rparr>, res, w))"
proof -
  have l: "length content \<le> 2 ^ 64 - 1" "(2::nat) ^ 64 - 1 < 2 ^ 64" using len(2) by simp_all
  obtain st' where s: "rest st' = aft" "sent st' = sent st" "sends st' = sends st"
    and r: "Server_read_content (2 ^ 64 - 1) st req res = Inr (True, st', req\<lparr>req_body := content\<rparr>, res)"
    by (rule read_plain_content [OF req(1) len(1) enc refl ct l st req(4)])
  let ?h = "rbind (entry_handler lib fo now (req\<lparr>req_body := content, matches := [''/entryNetwork'']\<rparr>) res w)"
  have d: "dispatch_request (post_handlers (dcap_server lib fo now)) (req\<lparr>req_body := content\<rparr>) res w
      = ?h (\<lambda>(a, res, w). Inr (case a of Gives _ \<Rightarrow> Gives True | Raises t \<Rightarrow> Raises t, res, w))"
    using req(3) by (simp add: literal_pattern_def)
  have "handlers_for (dcap_server lib fo now) ''POST'' = Some (post_handlers (dcap_server lib fo now))"
    by (simp add: handlers_for_def)
  then have "route_to_handler (dcap_server lib fo now) st' (req\<lparr>req_body := content\<rparr>) res w
      = ?h (\<lambda>(a, res, w). Inr (case a of Gives _ \<Rightarrow> Gives True | Raises t \<Rightarrow> Raises t, st', req\<lparr>req_body := content\<rparr>, res, w))"
    unfolding route_to_handler_def using req(2)
    by (simp add: d rbind_assoc split_beta split_beta' del: dispatch_request.simps dcap_server_parts)
  then have "routing env (dcap_server lib fo now) st req res w
      = ?h (\<lambda>(a, res, w). Inr (case a of Gives _ \<Rightarrow> Gives True | Raises t \<Rightarrow> Raises t, st', req\<lparr>req_body := content\<rparr>, res, w))"
    using req(2) r by (simp add: routing_bare [OF dcap_server_bare] route_content_def expect_content_def)
  with s that show thesis by blast
qed

text \<open>From the first byte of the connection to routing.\<close>

lemma report_head_read:
  assumes fields: "post_fields hs content" and st: "rest st = report_bytes hs content @ aft"
    and fd: "socket_number env < FD_SETSIZE"
  obtains st' req where
    "process_request env (dcap_server lib fo now) cc st w
       = rbind (route_and_respond env (dcap_server lib fo now) cc st' req first_response w)
           (\<lambda>(ret, st, w). Inr (ret, False, st, w))"
    and "rest st' = content @ aft" "sent st' = sent st" "sends st' = sends st"
    and "mm_sorted to_lower (req_headers req)" "req_method req = ''POST''" "path req = ''/entryNetwork''" "req_body req = []"
      "ranges req = []"
    and "\<And>key. to_lower key \<noteq> ''remote_addr'' \<Longrightarrow> to_lower key \<noteq> ''remote_port'' \<Longrightarrow>
           mm_values to_lower (req_headers req) key = mm_values to_lower hs key"
proof -
  let ?req = "head_request ''POST'' ''/entryNetwork'' hs"
  have hs: "list_all (\<lambda>(k, v). field_ok k v) hs" "mm_sorted to_lower hs" "no_field hs ''Connection''"
    "no_field hs ''Range''" "no_field hs ''Expect''"
    using fields by (simp_all add: post_fields_def)
  have m: "''POST'' \<in> set known_methods" by (simp add: known_methods_def)
  have t: "plain_target ''/entryNetwork''" by (simp add: plain_target_def is_space_or_tab_def)
  have l: "length (request_line ''POST'' ''/entryNetwork'') \<le> CPPHTTPLIB_REQUEST_URI_MAX_LENGTH"
    by (simp add: request_line_def CPPHTTPLIB_REQUEST_URI_MAX_LENGTH_def)
  have "rest st = request_line ''POST'' ''/entryNetwork'' @ write_headers hs @ (content @ aft)"
    using st by (simp add: report_bytes_def)
  then obtain st' where p: "process_request env (dcap_server lib fo now) cc st w
      = process_parsed env (dcap_server lib fo now) cc st' ?req (initial_response (dcap_server lib fo now)) w"
    and s: "rest st' = content @ aft" "sent st' = sent st" "sends st' = sends st"
    by (rule process_request_head [OF m t hs(1,2) _ l fd])
  have h: "req_headers ?req = hs" "req_version ?req = ''HTTP/1.1''" "req_method ?req = ''POST''"
    "path ?req = ''/entryNetwork''" "ranges ?req = []" "req_body ?req = []"
    by (simp_all add: head_request_def empty_request_def)
  show thesis
  proof (rule that [OF _ s])
    show "process_request env (dcap_server lib fo now) cc st w
       = rbind (route_and_respond env (dcap_server lib fo now) cc st' (add_peer env ?req) first_response w)
           (\<lambda>(ret, st, w). Inr (ret, False, st, w))"
      using process_parsed_plain [of ?req env "dcap_server lib fo now" cc st' first_response w] hs h
      by (simp add: p initial_response_bare [OF dcap_server_bare] first_response_def)
  qed (use h hs add_peer_sorted [of ?req env] add_peer_values [of ?req _ env] in simp_all)
qed


lemma set_header_same:
  "mm_sorted to_lower (rsp_headers res) \<Longrightarrow> \<not> has_crlf k \<Longrightarrow> \<not> has_crlf v \<Longrightarrow>
   mm_values to_lower (rsp_headers (set_header k v res)) k = mm_values to_lower (rsp_headers res) k @ [v]"
  by (simp add: set_header_def mm.values_emplace)

lemma content_length_plain [simp]: "\<not> has_crlf ''Content-Length''"
  by (simp add: has_crlf_def)

text \<open>The response of the handler on its way out.\<close>

lemma report_answered:
  assumes "rsp_headers res = [(''Content-Type'', ''application/json'')]" and "status res \<noteq> - 1" and "sends st = []"
    and "mm_sorted to_lower (req_headers req)" and "no_field (req_headers req) ''Connection''" and "ranges req = []"
    and "req_method req = ''POST''"
  obtains hs' where "write_response_with_content env (dcap_server lib fo now) cc req res st w
      = Inr (True, st\<lparr>sent := sent st @ status_line (status res) @ write_headers hs' @ body res\<rparr>, w)"
    and "framed hs' (body res)"
proof -
  let ?s = "dcap_server lib fo now"
  define res1 where "res1 = (if body res = [] then res else set_header ''Content-Length'' (nat_string (length (body res))) res)"
  define res2 where "res2 = add_default_fields req (connection_field (dcap_server lib fo now) cc res1)"
  have sorted: "mm_sorted to_lower (rsp_headers res)" using assms(1) by (simp add: mm_sorted_def)
  have "write_response_with_content env (dcap_server lib fo now) cc req res st w
      = Inr (True, st\<lparr>sent := sent st @ response_text req res2\<rparr>, w)"
    using write_response_core_bare [OF dcap_server_bare assms(2-5), of True env res1 lib fo now cc w]
      apply_ranges_none [OF sorted assms(4,6)]
    by (simp add: write_response_with_content_def res1_def res2_def)
  moreover have "status res1 = status res" "body res1 = body res" by (simp_all add: res1_def)
  then have "response_text req res2 = status_line (status res) @ write_headers (rsp_headers res2) @ body res"
    using assms(7) by (simp add: response_text_status res2_def)
  moreover have "framed (rsp_headers res2) (body res)" unfolding framed_def
  proof
    have "field_ok ''Keep-Alive'' (keep_alive_text ?s)" "field_ok ''Content-Type'' ''application/json''"
      unfolding keep_alive_text_def dcap_server_times by code_simp+
    moreover have "field_ok ''Content-Length'' (nat_string n)" for n by (rule field_ok_number) simp
    moreover have "plain_fields (rsp_headers res)"
      using assms(1) calculation(2) sorted field_names by (simp add: plain_fields_def no_field_def mm_values_def)
    ultimately show "plain_fields (rsp_headers res2)"
      unfolding res2_def res1_def
      by (intro plain_fields_default plain_fields_connection) (simp_all add: plain_fields_set_header field_names)
    show "mm_values to_lower (rsp_headers res2) ''Content-Length'' = [nat_string (length (body res))]"
    proof (cases "body res = []")
      case True
      have "\<not> has_crlf ''0''" "nat_string 0 = ''0''" by code_simp+
      moreover have "no_field (rsp_headers (connection_field (dcap_server lib fo now) cc res)) ''Content-Length''"
        using connection_field_other(1) [OF sorted, of "''Content-Length''" ?s] field_names assms(1)
        by (simp add: no_field_def mm_values_def)
      ultimately show ?thesis
        using True connection_field_other(2) [OF sorted, of "''Content-Length''" ?s cc] field_names assms(7)
        by (simp add: res2_def res1_def add_default_fields_def Let_def no_field_def Response_has_header_def
            mm_has_values set_header_same)
    next
      case False
      have c: "mm_values to_lower (rsp_headers res) ''Content-Length'' = []"
        using assms(1) field_names by (simp add: mm_values_def)
      then show ?thesis
        using False connection_field_other [of res1 "''Content-Length''" ?s cc] field_names sorted assms(7)
        by (simp add: res2_def res1_def add_default_fields_def Let_def Response_has_header_def
            mm_has_values set_header_same set_header_sorted set_header_other nat_string_plain)
    qed
  qed
  ultimately show thesis using that by simp
qed


text \<open>A report from the first byte of the connection to the result of the handler.\<close>

lemma report_handled:
  assumes fields: "post_fields hs content" and st: "rest st = report_bytes hs content @ aft"
    and fd: "socket_number env < FD_SETSIZE"
  obtains st1 req where
    "process_request env (dcap_server lib fo now) cc st w
       = rbind (post_entryNetwork lib fo now (empty_request\<lparr>req_body := content\<rparr>) first_response) (\<lambda>(res, out).
           let w' = w\<lparr>svc_log := svc_log w @ logged out\<rparr> in
           rbind (case thrown out of
                    None \<Rightarrow> write_response_with_content env (dcap_server lib fo now) cc req
                              (if status res = - 1 then res\<lparr>status := 200\<rparr> else res) st1 w'
                  | Some e \<Rightarrow> write_response env (dcap_server lib fo now) cc req
                      (set_header ''EXCEPTION_WHAT'' (c_text (what env e)) (res\<lparr>status := 500\<rparr>)) st1 w')
             (\<lambda>(ret, st, w). Inr (ret, False, st, w)))"
    and "rest st1 = aft" "sent st1 = sent st" "sends st1 = sends st"
    and "mm_sorted to_lower (req_headers req)" "no_field (req_headers req) ''Connection''" "ranges req = []"
      "req_method req = ''POST''"
proof -
  let ?s = "dcap_server lib fo now"
  from fields have f: "mm_values to_lower hs ''Content-Length'' = [nat_string (length content)]" "length content < 2 ^ 64"
    "no_field hs ''Connection''" "no_field hs ''Content-Encoding''" "no_field hs ''Transfer-Encoding''"
    "\<not> starts_with (first_value hs ''Content-Type'') ''multipart/form-data''"
    "\<not> starts_with (first_value hs ''Content-Type'') ''application/x-www-form-urlencoded''"
    by (simp_all add: post_fields_def)
  obtain st0 req where p: "process_request env ?s cc st w
       = rbind (route_and_respond env ?s cc st0 req first_response w) (\<lambda>(ret, st, w). Inr (ret, False, st, w))"
    and s0: "rest st0 = content @ aft" "sent st0 = sent st" "sends st0 = sends st"
    and r: "mm_sorted to_lower (req_headers req)" "req_method req = ''POST''" "path req = ''/entryNetwork''"
      "req_body req = []" "ranges req = []"
    and v: "\<And>key. to_lower key \<noteq> ''remote_addr'' \<Longrightarrow> to_lower key \<noteq> ''remote_port'' \<Longrightarrow>
           mm_values to_lower (req_headers req) key = mm_values to_lower hs key"
    by (rule report_head_read [OF fields st fd, of lib fo now cc w]) blast
  have vs: "mm_values to_lower (req_headers req) k = mm_values to_lower hs k"
    if "k \<in> {''Connection'', ''Content-Type'', ''Content-Length'', ''Content-Encoding'', ''Transfer-Encoding''}" for k
    using that v [of k] field_names by auto
  let ?req = "req\<lparr>req_body := content\<rparr>"
  obtain st1 where s1: "rest st1 = aft" "sent st1 = sent st0" "sends st1 = sends st0"
    and routed: "routing env ?s st0 req first_response w
       = rbind (entry_handler lib fo now (?req\<lparr>matches := [''/entryNetwork'']\<rparr>) first_response w)
           (\<lambda>(a, res, w). Inr (case a of Gives _ \<Rightarrow> Gives True | Raises t \<Rightarrow> Raises t, st1, ?req, res, w))"
    by (rule report_routed [OF r(1-4) _ f(2) _ _ _ _ s0(1), of env lib fo now first_response w])
      (use f vs in \<open>auto simp: no_field_def first_value_def\<close>)
  let ?post = "post_entryNetwork lib fo now (empty_request\<lparr>req_body := content\<rparr>) first_response"
  have post: "post_entryNetwork lib fo now (?req\<lparr>matches := [''/entryNetwork'']\<rparr>) first_response = ?post"
    by (rule post_entryNetwork_body) simp
  have ans: "route_and_respond env ?s cc st0 req first_response w = rbind ?post (\<lambda>(res, out).
      let w' = w\<lparr>svc_log := svc_log w @ logged out\<rparr> in
      case thrown out of
        None \<Rightarrow> write_response_with_content env ?s cc ?req (if status res = - 1 then res\<lparr>status := 200\<rparr> else res) st1 w'
      | Some e \<Rightarrow> write_response env ?s cc ?req
          (set_header ''EXCEPTION_WHAT'' (c_text (what env e)) (res\<lparr>status := 500\<rparr>)) st1 w')"
  proof (cases ?post)
    case (Inl e)
    then show ?thesis using routed post by (simp add: route_and_respond_def entry_handler_def)
  next
    case (Inr res_out)
    obtain res out where p: "?post = Inr (res, out)" using Inr by (cases res_out) auto
    let ?w = "w\<lparr>svc_log := svc_log w @ logged out\<rparr>"
    show ?thesis
    proof (cases "thrown out")
      case None
      with routed post p have "routing env ?s st0 req first_response w = Inr (Gives True, st1, ?req, res, ?w)"
        by (simp add: entry_handler_def)
      from route_and_respond_routed [OF this] show ?thesis using r(5) by (simp add: p None)
    next
      case (Some e)
      with routed post p
      have "routing env ?s st0 req first_response w = Inr (Raises (Std_exception e), st1, ?req, res, ?w)"
        by (simp add: entry_handler_def)
      from route_and_respond_raised [OF dcap_server_bare this] show ?thesis by (simp add: p Some)
    qed
  qed
  show thesis
  proof (rule that [of ?req st1])
    show "process_request env ?s cc st w = rbind ?post (\<lambda>(res, out).
        let w' = w\<lparr>svc_log := svc_log w @ logged out\<rparr> in
        rbind (case thrown out of
                 None \<Rightarrow> write_response_with_content env ?s cc ?req (if status res = - 1 then res\<lparr>status := 200\<rparr> else res) st1 w'
               | Some e \<Rightarrow> write_response env ?s cc ?req
                   (set_header ''EXCEPTION_WHAT'' (c_text (what env e)) (res\<lparr>status := 500\<rparr>)) st1 w')
          (\<lambda>(ret, st, w). Inr (ret, False, st, w)))"
      unfolding p ans by (cases ?post) (auto simp: Let_def)
  qed (use s0 s1 r f(3) vs in \<open>simp_all add: no_field_def\<close>)
qed


subsection \<open>An exception in the handler\<close>

lemma exception_text_eq:
  "rbind (dump fo 1 ''  '' False (JObject [(''status_code'', JNull)])) (\<lambda>t.
     Inr (remove_char (remove_char t BACKSLASH) LF)) = Inr (''{  '' @ quoted ''status_code'' @ '' : null}'')"
  by code_simp

lemma finish_exception_text:
  assumes "ret_body out = JNull"
  shows "finish_response fo out res
    = Inr (set_content (''{  '' @ quoted ''status_code'' @ '' : null}'') ''application/json'' (res\<lparr>status := 0\<rparr>))"
  using assms exception_text_eq [of fo]
  by (auto simp: finish_response_def index_key_def key_value_def slot_def ToInt_def set_key_def res_simps)

lemma post_entryNetwork_raises:
  assumes "Load fo CRUST_SUCCESS (req_body req) = Inl (Throws e)"
  shows "post_entryNetwork lib fo now req res
    = Inr (set_content (''{  '' @ quoted ''status_code'' @ '' : null}'') ''application/json'' (res\<lparr>status := 0\<rparr>),
           \<lparr>ret_body = JNull, identity = JNull, logged = first_line, memory = [], thrown = Some e\<rparr>)"
  by (simp add: post_entryNetwork_def entry_network_def assms finish_exception_text first_line_def)

subsection \<open>The \<open>/stop\<close> route\<close>

lemma stop_routed:
  assumes hs: "list_all (\<lambda>(k, v). field_ok k v) hs" "mm_sorted to_lower hs"
    and none: "no_field hs ''Connection''" "no_field hs ''Range''" "no_field hs ''Expect''"
    and m: "m \<in> {''GET'', ''HEAD''}"
    and st: "rest st = request_line m ''/stop'' @ write_headers hs @ aft" "sends st = []"
    and fd: "socket_number env < FD_SETSIZE"
  obtains st' where "rest st' = aft" "sends st' = []"
    and "process_request env (dcap_server lib fo now) cc st w
      = rbind (stop_server (svc_listener w)) (\<lambda>l. Inr (True, False, st', w\<lparr>svc_listener := l\<rparr>))"
proof -
  let ?s = "dcap_server lib fo now" and ?req = "head_request m ''/stop'' hs"
  have h: "req_headers ?req = hs" "req_version ?req = ''HTTP/1.1''" "req_method ?req = m" "path ?req = ''/stop''"
    "ranges ?req = []"
    by (simp_all add: head_request_def empty_request_def)
  obtain st1 where p: "process_request env ?s cc st w = process_parsed env ?s cc st1 ?req (initial_response ?s) w"
    and s1: "rest st1 = aft" "sends st1 = sends st"
    by (rule process_request_head [OF _ _ hs st(1) _ fd, of ?s cc w])
      (use m in \<open>auto simp: known_methods_def plain_target_def is_space_or_tab_def request_line_def
         CPPHTTPLIB_REQUEST_URI_MAX_LENGTH_def\<close>)
  let ?req1 = "add_peer env ?req"
  let ?w = "\<lambda>l. w\<lparr>svc_listener := l\<rparr>"
  have q: "mm_sorted to_lower (req_headers ?req1)" "no_field (req_headers ?req1) ''Connection''"
    using hs(2) none(1) add_peer_sorted [of ?req env] add_peer_values [of ?req "''Connection''" env] h field_names
    by (simp_all add: no_field_def)
  have routed: "routing env ?s st1 ?req1 first_response w
      = rbind (stop_server (svc_listener w)) (\<lambda>l. Inr (Gives True, st1, ?req1, first_response, ?w l))"
    using m h
    by (auto simp: routing_bare [OF dcap_server_bare] route_content_def expect_content_def route_to_handler_def
        handlers_for_def literal_pattern_def stop_handler_def rbind_assoc)
  let ?res = "add_default_fields ?req1 (connection_field ?s cc (first_response\<lparr>status := 200\<rparr>))"
  let ?st = "st1\<lparr>sent := sent st1 @ response_text ?req1 ?res\<rparr>"
  have written: "write_response_with_content env ?s cc ?req1 (first_response\<lparr>status := 200\<rparr>) st1 w1 = Inr (True, ?st, w1)"
    for w1
    using write_response_core_bare [OF dcap_server_bare _ _ q, of "first_response\<lparr>status := 200\<rparr>" st1 True env
        "first_response\<lparr>status := 200\<rparr>" lib fo now cc w1]
      apply_ranges_none [of "first_response\<lparr>status := 200\<rparr>" ?req1 "random_numbers env"] q(1) s1(2) st(2) h
    by (simp add: write_response_with_content_def first_response_def empty_response_def mm_sorted_def)
  have "route_and_respond env ?s cc st1 ?req1 first_response w
      = rbind (stop_server (svc_listener w)) (\<lambda>l. Inr (True, ?st, ?w l))"
  proof (cases "stop_server (svc_listener w)")
    case (Inl e)
    then show ?thesis using routed by (simp add: route_and_respond_def)
  next
    case (Inr l)
    with routed have "routing env ?s st1 ?req1 first_response w = Inr (Gives True, st1, ?req1, first_response, ?w l)" by simp
    from route_and_respond_routed [OF this] written [of "?w l"] h show ?thesis
      by (simp add: Inr first_response_def empty_response_def)
  qed
  moreover have "process_request env ?s cc st w
      = rbind (route_and_respond env ?s cc st1 ?req1 first_response w) (\<lambda>(ret, st, w). Inr (ret, False, st, w))"
    using process_parsed_plain [of ?req env ?s cc st1 first_response w] hs h none
    by (simp add: p initial_response_bare [OF dcap_server_bare] first_response_def)
  moreover have "rest ?st = aft" "sends ?st = []" using s1 st(2) by (simp_all add: rest_def)
  ultimately show thesis using that [of ?st] by (simp add: rbind_assoc)
qed

subsection \<open>One report\<close>

lemma report_attested:
  assumes "post_fields hs content" and "rest st = report_bytes hs content @ aft" and "sends st = []"
    and "socket_number env < FD_SETSIZE"
    and "report_fields fo content = Inr (Some (sig, Some quote, n, account))"
    and "report_complete lib sig quote account"
  shows "\<exists>res out hs' st' w'.
      post_entryNetwork lib fo now (empty_request\<lparr>req_body := content\<rparr>) first_response = Inr (res, out)
    \<and> process_request env (dcap_server lib fo now) cc st w = Inr (True, False, st', w')
    \<and> rest st' = aft
    \<and> sent st' = sent st
        @ status_line (if report_verified lib now sig quote (length quote) account then 200 else 500)
        @ write_headers hs' @ body res
    \<and> framed hs' (body res)
    \<and> svc_listener w' = svc_listener w \<and> sends st' = []"
proof -
  have f: "report_fields fo (req_body (empty_request\<lparr>req_body := content\<rparr>)) = Inr (Some (sig, Some quote, n, account))"
    using assms(5) by simp
  from report_decided [OF f assms(6), of now first_response] obtain res out
    where p: "post_entryNetwork lib fo now (empty_request\<lparr>req_body := content\<rparr>) first_response = Inr (res, out)"
      and t: "thrown out = None"
      and c: "status res = (if report_verified lib now sig quote (length quote) account then 200 else 500)"
    by blast
  have h: "rsp_headers res = [(''Content-Type'', ''application/json'')]"
    using post_entryNetwork_headers [OF p] by (simp add: first_response_def empty_response_def)
  obtain st1 req where e: "process_request env (dcap_server lib fo now) cc st w
       = rbind (write_response_with_content env (dcap_server lib fo now) cc req res st1 (w\<lparr>svc_log := svc_log w @ logged out\<rparr>))
           (\<lambda>(ret, st, w). Inr (ret, False, st, w))"
    and s: "rest st1 = aft" "sent st1 = sent st" "sends st1 = sends st"
    and r: "mm_sorted to_lower (req_headers req)" "no_field (req_headers req) ''Connection''" "ranges req = []"
      "req_method req = ''POST''"
    by (rule report_handled [OF assms(1,2,4), of lib fo now cc w]) (use p t c in \<open>auto simp: Let_def split: if_splits\<close>)
  have "status res \<noteq> - 1" "sends st1 = []" using c s assms(3) by simp_all
  then obtain hs' where "write_response_with_content env (dcap_server lib fo now) cc req res st1
      (w\<lparr>svc_log := svc_log w @ logged out\<rparr>)
      = Inr (True, st1\<lparr>sent := sent st1 @ status_line (status res) @ write_headers hs' @ body res\<rparr>,
             w\<lparr>svc_log := svc_log w @ logged out\<rparr>)"
    and "framed hs' (body res)"
    using report_answered [OF h _ _ r] by metis
  with p e s assms(3) show ?thesis by (auto simp: c rest_def)
qed

subsection \<open>Several reports on one connection\<close>

record report =
  rep_fields :: headers
  rep_content :: string
  rep_sig :: "byte list"
  rep_quote :: "byte list"
  rep_length :: nat
  rep_account :: string

definition is_report :: "('b, 'k) sdk \<Rightarrow> 'f::zero float_ops \<Rightarrow> report \<Rightarrow> bool" where
  "is_report lib fo r \<longleftrightarrow>
     post_fields (rep_fields r) (rep_content r)
     \<and> report_fields fo (rep_content r) = Inr (Some (rep_sig r, Some (rep_quote r), rep_length r, rep_account r))
     \<and> report_complete lib (rep_sig r) (rep_quote r) (rep_account r)"

definition answers :: "('b, 'k) sdk \<Rightarrow> int \<Rightarrow> report \<Rightarrow> string \<Rightarrow> bool" where
  "answers lib now r a \<longleftrightarrow>
     (\<exists>hs text. a = status_line (if report_verified lib now (rep_sig r) (rep_quote r) (length (rep_quote r)) (rep_account r)
                         then 200 else 500) @ write_headers hs @ text
        \<and> mm_values to_lower hs ''Content-Length'' = [nat_string (length text)])"

abbreviation reports_bytes :: "report list \<Rightarrow> string" where
  "reports_bytes rs \<equiv> concat (map (\<lambda>r. report_bytes (rep_fields r) (rep_content r)) rs)"

lemma server_loop_reports:
  assumes "length rs \<le> n" and "list_all (is_report lib fo) rs" and "rest st = reports_bytes rs @ aft"
    and "sends st = []" and "socket_number env < FD_SETSIZE"
  shows "\<exists>as st' w'. server_socket_loop env (dcap_server lib fo now) n (replicate (length rs) True) ret st w
      = Inr (ret \<or> rs \<noteq> [], st', w')
    \<and> rest st' = aft \<and> sent st' = sent st @ concat as \<and> list_all2 (answers lib now) rs as
    \<and> svc_listener w' = svc_listener w"
  using assms
proof (induction rs arbitrary: n ret st w)
  case Nil
  then show ?case by (cases n) auto
next
  case (Cons r rs)
  obtain m where n: "n = Suc m" "length rs \<le> m" using Cons.prems(1) by (cases n) auto
  have r: "post_fields (rep_fields r) (rep_content r)"
    "report_fields fo (rep_content r) = Inr (Some (rep_sig r, Some (rep_quote r), rep_length r, rep_account r))"
    "report_complete lib (rep_sig r) (rep_quote r) (rep_account r)"
    using Cons.prems(2) by (simp_all add: is_report_def)
  have rs: "list_all (is_report lib fo) rs" using Cons.prems(2) by simp
  have st: "rest st = report_bytes (rep_fields r) (rep_content r) @ (reports_bytes rs @ aft)"
    using Cons.prems(3) by simp
  obtain a st1 w1 where p: "process_request env (dcap_server lib fo now) (m = 0) st w = Inr (True, False, st1, w1)"
    and s1: "rest st1 = reports_bytes rs @ aft" "sends st1 = []" "sent st1 = sent st @ a" "answers lib now r a"
    and l1: "svc_listener w1 = svc_listener w"
    using report_attested [OF r(1) st Cons.prems(4,5) r(2,3), of now "m = 0" w] unfolding answers_def framed_def by blast
  obtain as st' w' where "server_socket_loop env (dcap_server lib fo now) m (replicate (length rs) True) True st1 w1
      = Inr (True, st', w')"
    and "rest st' = aft" "sent st' = sent st1 @ concat as" "list_all2 (answers lib now) rs as"
      "svc_listener w' = svc_listener w1"
    using Cons.IH [OF n(2) rs s1(1,2) Cons.prems(5), of True w1] by auto
  with p s1 l1 show ?case by (intro exI [of _ "a # as"] exI [of _ st'] exI [of _ w']) (simp add: n(1))
qed

section \<open>Properties\<close>

text \<open>
  C2. The attestation over HTTP, end to end: when a client sends a complete report to
  \<open>/entryNetwork\<close>, the server, in whatever packets the bytes come, reads exactly this request and
  sends one response whose status is 200 if the report is verified and 500 if it is not, and whose
  content, framed by its \<open>Content-Length\<close>, is what the handler wrote.
\<close>

theorem attestation_over_http:
  assumes "post_fields hs content" and "rest st = report_bytes hs content @ aft" and "sends st = []"
    and "socket_number env < FD_SETSIZE"
    and "report_fields fo content = Inr (Some (sig, Some quote, n, account))"
    and "report_complete lib sig quote account"
  shows "\<exists>res out hs' st' w'.
      post_entryNetwork lib fo now (empty_request\<lparr>req_body := content\<rparr>) first_response = Inr (res, out)
    \<and> process_request env (dcap_server lib fo now) cc st w = Inr (True, False, st', w')
    \<and> rest st' = aft
    \<and> sent st' = sent st
        @ status_line (if report_verified lib now sig quote (length quote) account then 200 else 500)
        @ write_headers hs' @ body res
    \<and> mm_values to_lower hs' ''Content-Length'' = [nat_string (length (body res))]
    \<and> svc_listener w' = svc_listener w"
  using report_attested [OF assms] unfolding framed_def by blast

definition fields_example :: "string \<Rightarrow> headers" where
  "fields_example v = [(''Content-Length'', v), (''Host'', ''dcap'')]"

lemma fields_example_post:
  assumes "field_ok ''Content-Length'' v" and "v = nat_string (length content)" and "length content < 2 ^ 64"
  shows "post_fields (fields_example v) content"
proof -
  have "field_ok ''Host'' ''dcap''" by code_simp
  moreover have "''content-length'' \<le> ''host''" "to_lower ''Host'' = ''host''" by code_simp+
  then have "mm_sorted to_lower (fields_example v)" by (simp add: mm_sorted_def fields_example_def field_names)
  moreover have "list_all (no_field (fields_example v))
      [''Connection'', ''Range'', ''Expect'', ''Content-Encoding'', ''Transfer-Encoding'']"
    "mm_values to_lower (fields_example v) ''Content-Length'' = [v]" "first_value (fields_example v) ''Content-Type'' = []"
    by code_simp+
  ultimately show ?thesis using assms by (simp add: post_fields_def starts_with_def fields_example_def)
qed

theorem attestation_over_http_witness:
  "\<exists>(res :: response) hs' st' w'.
      process_request env_example (dcap_server (sdk_example 1 SGX_QL_QV_RESULT_OK) int_ops 0) False
        (conn_example [''POST /entry'', ''Network HTTP/1.1'' @ CRLF @ ''Content-Length: 47'' @ CRLF,
           ''Host: dcap'' @ CRLF @ CRLF @ report_example])
        \<lparr>svc_log = [], svc_listener = \<lparr>svr_sock = Some 3, is_running = True, closed_socks = []\<rparr>\<rparr>
        = Inr (True, False, st', w')
    \<and> sent st' = status_line 200 @ write_headers hs' @ body res"
proof -
  let ?lib = "sdk_example 1 SGX_QL_QV_RESULT_OK"
  let ?st = "conn_example [''POST /entry'', ''Network HTTP/1.1'' @ CRLF @ ''Content-Length: 47'' @ CRLF,
           ''Host: dcap'' @ CRLF @ CRLF @ report_example]"
  have c: "field_ok ''Content-Length'' ''47''" "nat_string 47 = ''47''" "length report_example = 47" by code_simp+
  have f: "post_fields (fields_example ''47'') report_example"
    by (rule fields_example_post) (use c in simp_all)
  have st: "rest ?st = report_bytes (fields_example ''47'') report_example @ []" "sends ?st = []"
    by (simp_all add: conn_example_def rest_def report_bytes_def request_line_def write_headers_def c_text_def fields_example_def)
  have fd: "socket_number env_example < FD_SETSIZE" by (simp add: env_example_def FD_SETSIZE_def)
  have r: "report_fields int_ops report_example = Inr (Some ([10, 11], Some [1, 2, 3], 6, ''bob''))"
    using request_example_fields by (simp add: request_example_def)
  have v: "report_verified ?lib 0 [10, 11] [1, 2, 3] (length [1::byte, 2, 3]) ''bob''"
    using report_example_verified [of 0] by simp
  have s: "sent ?st = []" by (simp add: conn_example_def)
  show ?thesis
    using attestation_over_http [OF f st fd r report_example_complete [of 1 SGX_QL_QV_RESULT_OK], of 0 False
      "\<lparr>svc_log = [], svc_listener = \<lparr>svr_sock = Some 3, is_running = True, closed_socks = []\<rparr>\<rparr>"]
    unfolding s append_Nil if_P [OF v] by blast
qed

text \<open>
  C35. Anyone can stop the service: while it runs, the first GET or HEAD request to \<open>/stop\<close>, which
  asks for nothing more than the route, closes the listening socket; a further one, from a
  connection that is still served, fails the assertion of \<open>Server::stop\<close> and aborts the process.
\<close>

theorem anyone_can_stop:
  assumes "list_all (\<lambda>(k, v). field_ok k v) hs" and "mm_sorted to_lower hs"
    and "no_field hs ''Connection''" and "no_field hs ''Range''" and "no_field hs ''Expect''"
    and "m \<in> {''GET'', ''HEAD''}"
    and "rest st = request_line m ''/stop'' @ write_headers hs @ aft" and "sends st = []"
    and "socket_number env < FD_SETSIZE" and "is_running (svc_listener w)"
  shows "case svr_sock (svc_listener w) of
      Some sock \<Rightarrow>
        (\<exists>st'. process_request env (dcap_server lib fo now) cc st w
           = Inr (True, False, st', w\<lparr>svc_listener := (svc_listener w)
               \<lparr>svr_sock := None, closed_socks := closed_socks (svc_listener w) @ [sock]\<rparr>\<rparr>)
           \<and> rest st' = aft \<and> sends st' = [])
    | None \<Rightarrow> process_request env (dcap_server lib fo now) cc st w = Inl Aborted"
proof -
  obtain st' where "rest st' = aft" "sends st' = []"
    and "process_request env (dcap_server lib fo now) cc st w
      = rbind (stop_server (svc_listener w)) (\<lambda>l. Inr (True, False, st', w\<lparr>svc_listener := l\<rparr>))"
    by (rule stop_routed [OF assms(1-9)])
  with assms(10) show ?thesis by (auto simp: stop_server_def split: option.split)
qed

lemma bare_request_fields:
  "list_all (\<lambda>(k, v). field_ok k v) []" "mm_sorted to_lower []" "no_field [] k"
  by (simp_all add: mm_sorted_def no_field_def mm_values_def)

theorem anyone_can_stop_witness:
  "\<exists>st' w'. process_request env_example (dcap_server (sdk_example 1 SGX_QL_QV_RESULT_OK) int_ops 0) False
       (conn_example [''GET /stop HTTP/1.1'' @ CRLF @ CRLF, ''HEAD /stop HTTP/1.1'' @ CRLF @ CRLF])
       \<lparr>svc_log = [], svc_listener = \<lparr>svr_sock = Some 3, is_running = True, closed_socks = []\<rparr>\<rparr>
     = Inr (True, False, st', w')
   \<and> svr_sock (svc_listener w') = None \<and> closed_socks (svc_listener w') = [3]
   \<and> process_request env_example (dcap_server (sdk_example 1 SGX_QL_QV_RESULT_OK) int_ops 0) False st' w' = Inl Aborted"
proof -
  let ?st = "conn_example [''GET /stop HTTP/1.1'' @ CRLF @ CRLF, ''HEAD /stop HTTP/1.1'' @ CRLF @ CRLF]"
  let ?l = "\<lparr>svr_sock = Some 3, is_running = True, closed_socks = []\<rparr>"
  have fd: "socket_number env_example < FD_SETSIZE" by (simp add: env_example_def FD_SETSIZE_def)
  have st: "rest ?st = request_line ''GET'' ''/stop'' @ write_headers [] @ request_line ''HEAD'' ''/stop'' @ write_headers [] @ []"
    "sends ?st = []"
    by (simp_all add: conn_example_def rest_def request_line_def write_headers_def)
  from anyone_can_stop [OF bare_request_fields bare_request_fields(3,3) _ st fd, of "\<lparr>svc_log = [], svc_listener = ?l\<rparr>" "sdk_example 1 SGX_QL_QV_RESULT_OK" int_ops 0 False]
  obtain st' where first: "process_request env_example (dcap_server (sdk_example 1 SGX_QL_QV_RESULT_OK) int_ops 0) False ?st \<lparr>svc_log = [], svc_listener = ?l\<rparr>
      = Inr (True, False, st', \<lparr>svc_log = [], svc_listener = ?l\<lparr>svr_sock := None, closed_socks := [3]\<rparr>\<rparr>)"
    and st': "rest st' = request_line ''HEAD'' ''/stop'' @ write_headers [] @ []" "sends st' = []"
    by auto
  from anyone_can_stop [OF bare_request_fields bare_request_fields(3,3) _ st' fd,
      of "\<lparr>svc_log = [], svc_listener = ?l\<lparr>svr_sock := None, closed_socks := [3]\<rparr>\<rparr>" "sdk_example 1 SGX_QL_QV_RESULT_OK" int_ops 0 False]
  have "process_request env_example (dcap_server (sdk_example 1 SGX_QL_QV_RESULT_OK) int_ops 0) False st'
      \<lparr>svc_log = [], svc_listener = ?l\<lparr>svr_sock := None, closed_socks := [3]\<rparr>\<rparr> = Inl Aborted" by simp
  with first show ?thesis by auto
qed

text \<open>
  An exception in the handler gives a response without an end: the guard of the handler has set
  the content by the time the exception reaches the server, which answers 500 without adding the
  length of the content, so on a connection that stays open nothing tells the client where the
  content ends.
\<close>

theorem exception_reply_has_no_length:
  assumes "post_fields hs content" and "rest st = report_bytes hs content @ aft" and "sends st = []"
    and "socket_number env < FD_SETSIZE"
    and "Load fo CRUST_SUCCESS content = Inl (Throws e)"
  shows "\<exists>hs' st' w'.
      process_request env (dcap_server lib fo now) False st w = Inr (True, False, st', w')
    \<and> sent st' = sent st @ status_line 500 @ write_headers hs' @ ''{  '' @ quoted ''status_code'' @ '' : null}''
    \<and> list_all (no_field hs') [''Content-Length'', ''Transfer-Encoding'', ''Connection'']"
proof -
  let ?t = "''{  '' @ quoted ''status_code'' @ '' : null}''"
  let ?out = "\<lparr>ret_body = JNull, identity = JNull, logged = first_line, memory = [], thrown = Some e\<rparr> :: 'f outcome"
  let ?w = "w\<lparr>svc_log := svc_log w @ first_line\<rparr>"
  have post: "post_entryNetwork lib fo now (empty_request\<lparr>req_body := content\<rparr>) first_response
      = Inr (set_content ?t ''application/json'' (first_response\<lparr>status := 0\<rparr>), ?out)"
    by (rule post_entryNetwork_raises) (simp add: assms(5))
  define res0 where "res0 = (set_content ?t ''application/json'' (first_response\<lparr>status := 0\<rparr>))\<lparr>status := 500\<rparr>"
  define res where "res = set_header ''EXCEPTION_WHAT'' (c_text (what env e)) res0"
  obtain st1 req where p: "process_request env (dcap_server lib fo now) False st w
       = rbind (write_response env (dcap_server lib fo now) False req res st1 ?w) (\<lambda>(ret, st, w). Inr (ret, False, st, w))"
    and s: "rest st1 = aft" "sent st1 = sent st" "sends st1 = sends st"
    and r: "mm_sorted to_lower (req_headers req)" "no_field (req_headers req) ''Connection''" "req_method req = ''POST''"
    by (rule report_handled [OF assms(1,2,4), of lib fo now False w]) (auto simp: post res_def res0_def Let_def)
  have b: "status res = 500" "body res = ?t" by (simp_all add: res_def res0_def set_content_def set_header_def)
  have h: "rsp_headers res0 = [(''Content-Type'', ''application/json'')]"
    by (simp add: res0_def set_content_def set_header_def has_crlf_def mm_erase_range_def mm_emplace_def mm_lower_def
        mm_upper_def first_response_def empty_response_def)
  then have h2: "mm_sorted to_lower (rsp_headers res0)" by (simp add: mm_sorted_def)
  have n: "list_all (no_field (rsp_headers res)) [''Content-Length'', ''Transfer-Encoding'', ''Connection'']"
    "mm_sorted to_lower (rsp_headers res)"
    using set_header_other [OF h2, of "''EXCEPTION_WHAT''"] set_header_sorted [OF h2] field_names
    by (simp_all add: res_def no_field_def) (simp add: h mm_values_def)
  define res' where "res' = add_default_fields req (connection_field (dcap_server lib fo now) False res)"
  have "process_request env (dcap_server lib fo now) False st w
      = Inr (True, False, st1\<lparr>sent := sent st1 @ response_text req res'\<rparr>, ?w)"
    using write_response_core_bare [OF dcap_server_bare _ _ r(1,2), of res st1 False env res lib fo now False ?w] b(1) s(3) assms(3)
    by (simp add: p write_response_def res'_def)
  moreover have "response_text req res' = status_line 500 @ write_headers (rsp_headers res') @ ?t"
    using r(3) b by (simp add: response_text_status res'_def)
  moreover have "list_all (no_field (rsp_headers res')) [''Content-Length'', ''Transfer-Encoding'', ''Connection'']"
    using n b connection_field_other [OF n(2), of _ "dcap_server lib fo now" False] field_names set_header_sorted [OF n(2)]
    by (simp add: res'_def connection_field_def add_default_fields_def no_field_def Let_def r(3) set_header_other set_header_sorted)
  ultimately show ?thesis using s(2) by auto
qed

theorem exception_reply_has_no_length_witness:
  "\<exists>hs' st' w'.
      process_request env_example (dcap_server (sdk_example 1 SGX_QL_QV_RESULT_OK) int_ops 0) False
        (conn_example [''POST /entryNetwork HTTP/1.1'' @ CRLF @ ''Content-Length: 7'' @ CRLF @ ''Host: dcap'' @ CRLF,
           CRLF @ ''[1e5,2]''])
        \<lparr>svc_log = [], svc_listener = \<lparr>svr_sock = Some 3, is_running = True, closed_socks = []\<rparr>\<rparr>
        = Inr (True, False, st', w')
    \<and> sent st' = status_line 500 @ write_headers hs' @ ''{  '' @ quoted ''status_code'' @ '' : null}''
    \<and> list_all (no_field hs') [''Content-Length'', ''Transfer-Encoding'', ''Connection'']"
proof -
  let ?st = "conn_example [''POST /entryNetwork HTTP/1.1'' @ CRLF @ ''Content-Length: 7'' @ CRLF @ ''Host: dcap'' @ CRLF,
           CRLF @ ''[1e5,2]'']"
  have c: "field_ok ''Content-Length'' ''7''" "''7'' = nat_string (length ''[1e5,2]'')" by code_simp+
  have f: "post_fields (fields_example ''7'') ''[1e5,2]''"
    by (rule fields_example_post [OF c]) simp
  have st: "rest ?st = report_bytes (fields_example ''7'') ''[1e5,2]'' @ []" "sends ?st = []"
    by (simp_all add: conn_example_def rest_def report_bytes_def request_line_def write_headers_def c_text_def fields_example_def)
  have fd: "socket_number env_example < FD_SETSIZE" by (simp add: env_example_def FD_SETSIZE_def)
  have l: "Load int_ops CRUST_SUCCESS ''[1e5,2]'' = Inl (Throws Invalid_argument)" by code_simp
  have s: "sent ?st = []" by (simp add: conn_example_def)
  show ?thesis
    using exception_reply_has_no_length [OF f st fd l] unfolding s append_Nil by blast
qed

text \<open>
  C4. A connection with several reports: up to \<open>keep_alive_max_count_\<close> complete reports that a client
  sends one behind the other, without waiting for answers and cut into packets in any way, are
  answered by one response each, in their order, each with its own verdict and framed by its
  \<open>Content-Length\<close>; then the connection is closed and what the client sent behind them is unread.
\<close>

theorem connection_answers_reports:
  assumes "rs \<noteq> []" and "length rs \<le> keep_alive_max_count (dcap_server lib fo now)"
    and "list_all (is_report lib fo) rs" and "rest st = reports_bytes rs @ aft" and "sends st = []"
    and "socket_number env < FD_SETSIZE"
  shows "\<exists>as st' w'.
      process_and_close_socket env (dcap_server lib fo now) (replicate (length rs) True) st closed w
        = Inr (True, st', closed @ [socket_number env], w')
    \<and> rest st' = aft \<and> sent st' = sent st @ concat as \<and> list_all2 (answers lib now) rs as"
proof -
  have "keep_alive_max_count (dcap_server lib fo now) \<noteq> 0" using assms(1,2) by (cases rs) auto
  then show ?thesis
    using server_loop_reports [OF assms(2-6), of now False w] assms(1)
    by (auto simp: process_and_close_socket_def process_server_socket_def)
qed

theorem connection_answers_reports_witness:
  "\<exists>as st' w'.
      process_and_close_socket env_example (dcap_server (sdk_example 1 SGX_QL_QV_RESULT_OK) int_ops 0) [True, True]
        (conn_example [report_bytes (fields_example ''47'') report_example,
           report_bytes (fields_example ''47'') report_example]) []
        \<lparr>svc_log = [], svc_listener = \<lparr>svr_sock = Some 3, is_running = True, closed_socks = []\<rparr>\<rparr>
        = Inr (True, st', [7], w')
    \<and> sent st' = concat as \<and> length as = 2"
proof -
  let ?lib = "sdk_example 1 SGX_QL_QV_RESULT_OK"
  let ?r = "\<lparr>rep_fields = fields_example ''47'', rep_content = report_example, rep_sig = [10, 11], rep_quote = [1, 2, 3],
      rep_length = 6, rep_account = ''bob''\<rparr>"
  let ?st = "conn_example [report_bytes (fields_example ''47'') report_example, report_bytes (fields_example ''47'') report_example]"
  have c: "field_ok ''Content-Length'' ''47''" "nat_string 47 = ''47''" "length report_example = 47" by code_simp+
  have "post_fields (fields_example ''47'') report_example"
    by (rule fields_example_post) (use c in simp_all)
  then have r: "list_all (is_report ?lib int_ops) [?r, ?r]"
    using request_example_fields report_example_complete [of 1 SGX_QL_QV_RESULT_OK]
    by (simp add: is_report_def request_example_def)
  have st: "rest ?st = reports_bytes [?r, ?r] @ []" "sends ?st = []" by (simp_all add: conn_example_def rest_def)
  have fd: "socket_number env_example < FD_SETSIZE" by (simp add: env_example_def FD_SETSIZE_def)
  have "length [?r, ?r] \<le> keep_alive_max_count (dcap_server ?lib int_ops 0)"
    by (simp add: dcap_server_def Server_Post_def Server_Get_def new_server_def)
  from connection_answers_reports [OF _ this r st fd, of "[]"
      "\<lparr>svc_log = [], svc_listener = \<lparr>svr_sock = Some 3, is_running = True, closed_socks = []\<rparr>\<rparr>"]
  obtain as st' w' where p: "process_and_close_socket env_example (dcap_server ?lib int_ops 0) (replicate (length [?r, ?r]) True) ?st []
      \<lparr>svc_log = [], svc_listener = \<lparr>svr_sock = Some 3, is_running = True, closed_socks = []\<rparr>\<rparr>
        = Inr (True, st', [] @ [socket_number env_example], w')"
    and s: "sent st' = sent ?st @ concat as" and a: "list_all2 (answers ?lib 0) [?r, ?r] as"
    by blast
  have "length as = 2" using list_all2_lengthD [OF a] by simp
  moreover have "sent ?st = []" "replicate (length [?r, ?r]) True = [True, True]" "socket_number env_example = 7"
    by (simp_all add: conn_example_def env_example_def)
  ultimately show ?thesis using p s by auto
qed

end
