(* ===== verification/Dcap_Listen.thy ===== *)
theory Dcap_Listen
  imports Dcap_Main Http_Connect
begin

text \<open>
  The start of the service: \<open>main\<close> of \<open>sgx/src/App.cpp\<close> with the \<open>listen\<close> of its server over the
  sockets of \<open>Http_Connect\<close>.
\<close>

section \<open>Starting\<close>

text \<open>\<open>main\<close> with the result of \<open>listen\<close>, which it does not use; nothing is logged by \<open>listen\<close> itself.\<close>

definition main_run :: "string \<Rightarrow> string list \<Rightarrow> bool \<Rightarrow> run res" where
  "main_run name args listened = dcap_main name args (\<lambda>host port. (listened, []))"

lemma main_run_serve:
  assumes "parse_args name args ''0.0.0.0'' 1234 = Inr (Serve host port)"
  shows "main_run name args listened = Inr
    \<lparr>printed_text = [],
     logged_lines = [(CRUST_LOG_INFO_TAG, ''Start dcap service at '' @ host @ '':'' @ std_to_string port
                        @ '' successfully!'' @ [LF])],
     listens_on = Some (host, port), exit_code = 0\<rparr>"
  using assms by (simp add: main_run_def dcap_main_def)

text \<open>
  C12. The service that is started with any host and a port greater than 0 listens on the first address that can be bound,
  and only on that. When there is none, \<open>listen\<close> returns \<open>false\<close> and the server has no socket, but
  \<open>main\<close> behaves as before: it has logged that the service was started successfully, and returns 0.
\<close>

theorem main_listens_or_hides_failure:
  assumes "parse_args name args ''0.0.0.0'' 1234 = Inr (Serve host port)" and "0 < port"
    and "distinct (map fst (fds os))"
  shows "\<exists>ret s' os'. Server_listen host port 0 [] new_endpoint os = Some (Inr (ret, [], s', os'))
    \<and> main_run name args (ret = Some True) = Inr
        \<lparr>printed_text = [],
         logged_lines = [(CRUST_LOG_INFO_TAG, ''Start dcap service at '' @ host @ '':'' @ std_to_string port
                            @ '' successfully!'' @ [LF])],
         listens_on = Some (host, port), exit_code = 0\<rparr>
    \<and> (case Option.bind (resolve os host (std_to_string port) AF_UNSPEC 0)
              (find (\<lambda>a. socket_ok a \<and> cloexec_ok a \<and> bind_ok a \<and> listen_ok a)) of
         None \<Rightarrow> ret = Some False \<and> svr_sock s' = None \<and> \<not> is_running s'
       | Some a \<Rightarrow> ret = None \<and> is_running s'
           \<and> (\<exists>fd sk. svr_sock s' = Some fd \<and> (fd, sk) \<in> set (fds os')
               \<and> so_bound sk = Some (ai_addr a) \<and> so_listening sk))"
proof -
  have own: "opts_own (srv_options new_endpoint)" by (simp add: new_endpoint_def default_options_own)
  have e: "srv_family new_endpoint = AF_UNSPEC" "is_running new_endpoint = False" by (simp_all add: new_endpoint_def)
  from bind_spec [OF own assms(3), of host port 0] obtain v s1 os1
    where b: "bind_internal host port 0 new_endpoint os = Some (Inr (v, s1, os1))"
      and c: "case Option.bind (resolve os host (std_to_string port) AF_UNSPEC 0)
              (find (\<lambda>a. socket_ok a \<and> cloexec_ok a \<and> bind_ok a \<and> listen_ok a)) of
         None \<Rightarrow> v = - 1 \<and> svr_sock s1 = None
       | Some a \<Rightarrow> \<exists>fd sk. svr_sock s1 = Some fd \<and> fd \<notin> set (map fst (fds os)) \<and> (fd, sk) \<in> set (fds os1)
           \<and> so_bound sk = Some (ai_addr a) \<and> so_listening sk \<and> (port \<noteq> 0 \<longrightarrow> v = port)"
    unfolding e by blast
  have r: "is_running s1 = False"
  proof (cases "create_server_socket new_endpoint host port 0 os")
    case None
    with b show ?thesis by (simp add: bind_internal_def)
  next
    case (Some z)
    with b e(2) show ?thesis by (cases z) (auto simp: bind_internal_def split: option.splits)
  qed
  have l: "Server_listen host port 0 [] new_endpoint os
    = Some (Inr (if \<not> v < 0 then (None, [], s1\<lparr>is_running := True\<rparr>, os1) else (Some False, [], s1, os1)))"
    by (simp add: Server_listen_def bind_to_port_def b listen_internal_def)
  show ?thesis
  proof (cases "Option.bind (resolve os host (std_to_string port) AF_UNSPEC 0)
              (find (\<lambda>a. socket_ok a \<and> cloexec_ok a \<and> bind_ok a \<and> listen_ok a))")
    case None
    with c l r show ?thesis by (simp add: main_run_serve [OF assms(1)])
  next
    case (Some a)
    with c l assms(2) show ?thesis by (auto simp: main_run_serve [OF assms(1)])
  qed
qed

lemma main_listens_or_hides_failure_witness:
  "\<exists>s' os'. Server_listen ''0.0.0.0'' 80 0 [] new_endpoint (os_example\<lparr>resolve := (\<lambda>_ _ _ _. None)\<rparr>)
      = Some (Inr (Some False, [], s', os'))
    \<and> main_run ''dcap'' [''-p'', ''80''] False = Inr
        \<lparr>printed_text = [], logged_lines = [(CRUST_LOG_INFO_TAG, ''Start dcap service at 0.0.0.0:80 successfully!'' @ [LF])],
         listens_on = Some (''0.0.0.0'', 80), exit_code = 0\<rparr>"
proof -
  have p: "parse_args ''dcap'' [''-p'', ''80''] ''0.0.0.0'' 1234 = Inr (Serve ''0.0.0.0'' 80)" by code_simp
  have t: "std_to_string 80 = ''80''" by code_simp
  from main_listens_or_hides_failure [OF p, of "os_example\<lparr>resolve := (\<lambda>_ _ _ _. None)\<rparr>"]
  show ?thesis by (auto simp: t os_example_def)
qed

end
