(* ===== verification/Http_Client_Laws.thy ===== *)
theory Http_Client_Laws
  imports Http_Client
begin

text \<open>
  What holds of the client: the request it writes is the request the server reads, the response a
  server writes is the response it reads; what it does with its connections; and where redirects
  go wrong.
\<close>

section \<open>The request\<close>

subsection \<open>Header fields\<close>

lemma values_emplace_missing:
  assumes "mm_sorted to_lower hs"
  shows "mm_values to_lower (emplace_missing k v hs) k'
    = (if to_lower k = to_lower k' \<and> no_field hs k then [v] else mm_values to_lower hs k')"
proof -
  have "mm_values to_lower hs k = mm_values to_lower hs k'" if "to_lower k = to_lower k'"
    using that by (simp add: mm_values_def)
  then show ?thesis
    using assms by (auto simp: emplace_missing_def has_header_def mm_has_values no_field_def mm.values_emplace)
qed

lemma sorted_emplace_missing: "mm_sorted to_lower hs \<Longrightarrow> mm_sorted to_lower (emplace_missing k v hs)"
  by (simp add: emplace_missing_def mm.inv_emplace)

text \<open>The fields the client adds by itself.\<close>

lemma client_field_names:
  "to_lower ''Host'' = ''host''" "to_lower ''Accept'' = ''accept''" "to_lower ''User-Agent'' = ''user-agent''"
  "to_lower ''Authorization'' = ''authorization''" "to_lower ''Proxy-Authorization'' = ''proxy-authorization''"
  by code_simp+

lemma client_fields_ok:
  "field_ok ''Connection'' ''close''" "field_ok ''Accept'' ''*/*''" "field_ok ''User-Agent'' ''cpp-httplib/0.9''"
  "field_ok ''Content-Type'' ''text/plain''" "field_ok ''Content-Length'' ''0''"
  by code_simp+

lemma length_field_ok: "field_ok ''Content-Length'' (nat_string n)"
  by (rule field_ok_number) simp

text \<open>The credentials of a client that can stand in a header field.\<close>

definition credentials_ok :: "'w client \<Rightarrow> bool" where
  "credentials_ok c \<longleftrightarrow>
     (basic_auth_username c \<noteq> [] \<or> basic_auth_password c \<noteq> [] \<longrightarrow>
        field_ok ''Authorization'' (''Basic '' @ base64_encode (basic_auth_username c @ '':'' @ basic_auth_password c)))
     \<and> (proxy_basic_auth_username c \<noteq> [] \<and> proxy_basic_auth_password c \<noteq> [] \<longrightarrow>
        field_ok ''Proxy-Authorization''
          (''Basic '' @ base64_encode (proxy_basic_auth_username c @ '':'' @ proxy_basic_auth_password c)))
     \<and> (bearer_token_auth_token c \<noteq> [] \<longrightarrow> field_ok ''Authorization'' (''Bearer '' @ bearer_token_auth_token c))
     \<and> (proxy_bearer_token_auth_token c \<noteq> [] \<longrightarrow>
        field_ok ''Proxy-Authorization'' (''Bearer '' @ proxy_bearer_token_auth_token c))"

text \<open>Fields are only added, under some names and well formed.\<close>

definition adds :: "string set \<Rightarrow> headers \<Rightarrow> headers \<Rightarrow> bool" where
  "adds names hs hs' \<longleftrightarrow>
     (\<exists>kvs. hs' = fold (\<lambda>(k, v). mm_emplace to_lower k v) kvs hs
        \<and> (\<forall>(k, v) \<in> set kvs. field_ok k v \<and> to_lower k \<in> names))"

lemma adds_refl: "adds names hs hs"
  unfolding adds_def by (intro exI [of _ "[]"]) simp

lemma adds_emplace:
  "adds names hs hs' \<Longrightarrow> field_ok k v \<Longrightarrow> to_lower k \<in> names \<Longrightarrow> adds names hs (mm_emplace to_lower k v hs')"
  unfolding adds_def
proof (elim exE conjE)
  fix kvs
  assume "hs' = fold (\<lambda>(k, v). mm_emplace to_lower k v) kvs hs" "\<forall>(k, v) \<in> set kvs. field_ok k v \<and> to_lower k \<in> names"
    "field_ok k v" "to_lower k \<in> names"
  then show "\<exists>kvs. mm_emplace to_lower k v hs' = fold (\<lambda>(k, v). mm_emplace to_lower k v) kvs hs
      \<and> (\<forall>(k, v) \<in> set kvs. field_ok k v \<and> to_lower k \<in> names)"
    by (intro exI [of _ "kvs @ [(k, v)]"]) auto
qed

lemma adds_missing:
  "adds names hs hs' \<Longrightarrow> field_ok k v \<Longrightarrow> to_lower k \<in> names \<Longrightarrow> adds names hs (emplace_missing k v hs')"
  by (simp add: emplace_missing_def adds_emplace)

lemma adds_if: "adds names hs h1 \<Longrightarrow> (b \<Longrightarrow> adds names hs h2) \<Longrightarrow> adds names hs (if b then h2 else h1)"
  by simp

lemma mm_sorted_fold: "mm_sorted norm hs \<Longrightarrow> mm_sorted norm (fold (\<lambda>(k, v). mm_emplace norm k v) kvs hs)"
  by (induction kvs arbitrary: hs) (auto simp: mm.inv_emplace)

lemma adds_sorted: "adds names hs hs' \<Longrightarrow> mm_sorted to_lower hs \<Longrightarrow> mm_sorted to_lower hs'"
  by (auto simp: adds_def intro: mm_sorted_fold)

lemma adds_fields:
  assumes "adds names hs hs'" and "list_all (\<lambda>(k, v). field_ok k v) hs"
  shows "list_all (\<lambda>(k, v). field_ok k v) hs'"
proof -
  have "set (fold (\<lambda>(k, v). mm_emplace to_lower k v) kvs hs) = set kvs \<union> set hs" for kvs
    by (induction kvs arbitrary: hs) auto
  with assms show ?thesis by (auto simp: adds_def list_all_iff)
qed

lemma adds_sendable:
  assumes "adds names hs hs'" and "list_all (\<lambda>(k, v). field_sendable k v) hs"
  shows "list_all (\<lambda>(k, v). field_sendable k v) hs'"
proof -
  have "set (fold (\<lambda>(k, v). mm_emplace to_lower k v) kvs hs) = set kvs \<union> set hs" for kvs
    by (induction kvs arbitrary: hs) auto
  moreover obtain kvs where "hs' = fold (\<lambda>(k, v). mm_emplace to_lower k v) kvs hs" "\<forall>(k, v) \<in> set kvs. field_ok k v"
    using assms(1) unfolding adds_def by blast
  moreover have "\<forall>(k, v) \<in> set hs. field_sendable k v" using assms(2) by (simp add: list_all_iff)
  ultimately show ?thesis unfolding list_all_iff using field_ok_back(1) by auto
qed

lemma adds_values:
  assumes "adds names hs hs'" and "mm_sorted to_lower hs" and "to_lower key \<notin> names"
  shows "mm_values to_lower hs' key = mm_values to_lower hs key"
proof -
  obtain kvs where k: "hs' = fold (\<lambda>(k, v). mm_emplace to_lower k v) kvs hs" "\<forall>(k, v) \<in> set kvs. to_lower k \<in> names"
    using assms(1) by (auto simp: adds_def)
  have "filter (\<lambda>(k, v). to_lower k = to_lower key) kvs = []"
    using k(2) assms(3) by (auto simp: filter_empty_conv)
  then show ?thesis unfolding k(1) mm.values_emplace_all [OF assms(2)] by simp
qed

lemma auth_fields_adds:
  assumes "adds names hs hs'" and "credentials_ok c" and "{''authorization'', ''proxy-authorization''} \<subseteq> names"
  shows "adds names hs (auth_fields c hs')"
proof -
  have n: "to_lower ''Authorization'' \<in> names" "to_lower ''Proxy-Authorization'' \<in> names"
    using assms(3) client_field_names by simp_all
  have step: "adds names hs (if b then emplace_missing k v h else h)"
    if "adds names hs h" "to_lower k \<in> names" "b \<longrightarrow> field_ok k v" for b k v h
    using that by (simp add: adds_missing)
  show ?thesis
    unfolding auth_fields_def make_basic_authentication_header_def make_bearer_token_authentication_header_def
      Let_def prod.case if_True if_False
    by (intro step assms(1) n) (use assms(2) in \<open>unfold credentials_ok_def, blast+\<close>)
qed

lemma content_fields_adds:
  assumes "adds names hs hs'" and "{''content-type'', ''content-length''} \<subseteq> names"
  shows "adds names hs (content_fields req hs')"
proof -
  have n: "to_lower ''Content-Type'' \<in> names" "to_lower ''Content-Length'' \<in> names" using assms(2) field_names by simp_all
  note ok = client_fields_ok(4,5) length_field_ok
  show ?thesis
    using assms(1) n ok unfolding content_fields_def
    by (intro adds_if) (auto intro: adds_missing adds_emplace split: option.split)
qed

definition client_names :: "string set" where
  "client_names = {''connection'', ''host'', ''accept'', ''user-agent'', ''content-type'', ''content-length'',
                   ''authorization'', ''proxy-authorization''}"

lemma client_headers_adds:
  assumes "credentials_ok c" and "field_ok ''Host'' (host_field c)"
  shows "adds client_names (req_headers req) (client_headers c close_connection req)"
  unfolding client_headers_def Let_def
proof (intro auth_fields_adds content_fields_adds adds_missing adds_if adds_refl)
qed (use assms client_fields_ok client_field_names field_names in \<open>simp_all add: client_names_def\<close>)

lemma client_headers_length:
  assumes "mm_sorted to_lower (req_headers req)" and "no_field (req_headers req) ''Content-Length''" and "req_body req \<noteq> []"
    and "credentials_ok c" and "field_ok ''Host'' (host_field c)"
  shows "mm_values to_lower (client_headers c close_connection req) ''Content-Length'' = [nat_string (length (req_body req))]"
proof -
  let ?names = "{''connection'', ''host'', ''accept'', ''user-agent''}"
  define hs where "hs = emplace_missing ''User-Agent'' ''cpp-httplib/0.9'' (emplace_missing ''Accept'' ''*/*''
    (emplace_missing ''Host'' (host_field c)
      (if close_connection then emplace_missing ''Connection'' ''close'' (req_headers req) else req_headers req)))"
  have a: "adds ?names (req_headers req) hs"
    unfolding hs_def
  proof (intro adds_missing adds_if adds_refl)
  qed (use assms(5) client_fields_ok client_field_names field_names in simp_all)
  have v: "no_field hs ''Content-Length''"
    using adds_values [OF a assms(1), of "''Content-Length''"] assms(2) field_names by (simp add: no_field_def)
  let ?hs = "emplace_missing ''Content-Type'' ''text/plain'' hs"
  have s: "mm_sorted to_lower hs" "mm_sorted to_lower ?hs"
    using adds_sorted [OF a assms(1)] adds_sorted [OF adds_missing [OF adds_refl], of "''Content-Type''" "''text/plain''"]
      client_fields_ok field_names by auto
  have "no_field ?hs ''Content-Length''"
    using v field_names by (simp add: no_field_def values_emplace_missing [OF s(1)])
  then have "mm_values to_lower (content_fields req hs) ''Content-Length'' = [nat_string (length (req_body req))]"
    "mm_sorted to_lower (content_fields req hs)"
    using assms(3) s adds_sorted [OF adds_missing [OF adds_refl length_field_ok UNIV_I] s(2)]
    by (simp_all add: content_fields_def values_emplace_missing)
  moreover have "adds {''authorization'', ''proxy-authorization''} h (auth_fields c h)" for h
    by (rule auth_fields_adds [OF adds_refl assms(4)]) simp
  ultimately show ?thesis
    using adds_values [of "{''authorization'', ''proxy-authorization''}" "content_fields req hs"
        "auth_fields c (content_fields req hs)" "''Content-Length''"] field_names
    by (simp add: client_headers_def Let_def hs_def)
qed

subsection \<open>What is written\<close>

text \<open>A request with a body that is at hand, or with none.\<close>

definition plain_upload :: "'w client_request \<Rightarrow> bool" where
  "plain_upload req \<longleftrightarrow>
     content_provider req = None \<and> \<not> is_chunked_content_provider req \<and> content_length req = 0"

lemma write_request_plain:
  assumes "sends st = []" and "plain_upload req"
    and "req1 = req\<lparr>req_headers := client_headers c close_connection req\<rparr>"
  shows "ClientImpl_write_request c req close_connection err st W
    = Some (Inr (True, if req_body req = [] then Success else err, req1,
                 st\<lparr>sent := sent st @ request_head c req1 @ req_body req\<rparr>, W))"
  using assms
  by (simp add: ClientImpl_write_request_def ClientImpl_write_content_with_provider_def plain_upload_def
      write_data_all Let_def)

lemma request_head_eq:
  assumes "req_method req \<in> set known_methods" and "target_text (if url_encode c then encode_url (path req) else path req)"
  shows "request_head c req
    = request_line (req_method req) (if url_encode c then encode_url (path req) else path req) @ write_headers (req_headers req)"
proof -
  have "c_text s = s" if "list_all (\<lambda>c. c \<noteq> NUL) s" for s
    using that by (simp add: c_text_def takeWhile_eq_all_conv list_all_iff)
  moreover have "list_all (\<lambda>c. c \<noteq> NUL) (req_method req)"
    using known_method_chars [OF assms(1)] by (auto simp: list_all_iff)
  moreover have "list_all (\<lambda>c. c \<noteq> NUL) (if url_encode c then encode_url (path req) else path req)"
    using assms(2) by (auto simp: target_text_def list_all_iff)
  ultimately show ?thesis by (simp add: request_head_def request_line_def)
qed

text \<open>A path that \<open>encode_url\<close> writes so that it is read back.\<close>

definition path_ok :: "string \<Rightarrow> bool" where
  "path_ok p \<longleftrightarrow> p \<noteq> [] \<and> list_all (\<lambda>c. c \<notin> {NUL, TAB, CHR ''?'', CHR ''%''}) p"

lemma path_ok_target: "path_ok p \<Longrightarrow> target_text (encode_url p) \<and> decode_url (encode_url p) False = p"
  using encode_url_plain [of p] decode_encode_url [of p False]
  by (auto simp: path_ok_def target_text_def list_all_iff)

section \<open>The response\<close>

lemma status_message_plain: "list_all (\<lambda>c. c \<notin> {NUL, CR, LF}) (status_message stat)"
proof -
  let ?plain = "list_all (\<lambda>c. c \<notin> {NUL, CR, LF})"
  have lookup: "list_all (\<lambda>(k, m). ?plain m) xs \<Longrightarrow>
    ?plain (case map_of xs stat of Some msg \<Rightarrow> msg | None \<Rightarrow> ''Internal Server Error'')" for xs :: "(int \<times> string) list"
    by (induction xs) auto
  show ?thesis unfolding status_message_def by (rule lookup) code_simp
qed

lemma nat_string_three: "100 \<le> n \<Longrightarrow> n < 1000 \<Longrightarrow> length (nat_string n) = 3"
proof -
  assume "100 \<le> n" "n < 1000"
  then have "10 \<le> n div 10" "n div 10 div 10 < 10" by simp_all
  then show ?thesis using \<open>100 \<le> n\<close> by (simp add: nat_string.simps)
qed

lemma digits_no_LF: "LF \<notin> set (nat_string n)" "CR \<notin> set (nat_string n)"
  using nat_string_digits [of n] by (auto simp: is_digit_def less_eq_char_def)

lemma c_text_id: "NUL \<notin> set s \<Longrightarrow> c_text s = s"
  by (auto simp: c_text_def takeWhile_eq_all_conv)

lemma match_status_line:
  assumes "100 \<le> stat" and "stat < 1000"
  shows "match_response_line (c_text (status_line stat)) = Some (''HTTP/1.1'', stat, status_message stat)"
proof -
  define d m where "d = nat_string (nat stat)" and "m = status_message stat"
  have d: "length d = 3" "list_all is_digit d" "int (dec_val d) = stat" "NUL \<notin> set d"
    using nat_string_three [of "nat stat"] nat_string_digits assms nat_string_no_NUL by (auto simp: list_all_iff d_def)
  have m: "NUL \<notin> set m" "list_all (\<lambda>c. c \<noteq> CR \<and> c \<noteq> LF) m"
    using status_message_plain [of stat] by (auto simp: list_all_iff m_def)
  have line: "status_line stat = ''HTTP/1.1 '' @ d @ '' '' @ m @ CRLF"
    using assms by (simp add: status_line_def std_to_string_def d_def m_def)
  then have "c_text (status_line stat) = ''HTTP/1.1 '' @ d @ '' '' @ m @ CRLF"
    using d(4) m(1) by (simp add: c_text_id)
  moreover have "take 3 (drop 9 (''HTTP/1.1 '' @ d @ t)) = d" "drop 12 (''HTTP/1.1 '' @ d @ t) = t"
    "take 8 (''HTTP/1.1 '' @ d @ t) = ''HTTP/1.1''" "take 1 (drop 8 (''HTTP/1.1 '' @ d @ t)) = '' ''" for t
    using d(1) by simp_all
  moreover have "drop 1 (take (length ('' '' @ m @ CRLF) - 2) ('' '' @ m @ CRLF)) = m"
    "drop (length ('' '' @ m @ CRLF) - 2) ('' '' @ m @ CRLF) = CRLF" "2 \<le> length ('' '' @ m @ CRLF)"
    "take 1 ('' '' @ m @ CRLF) = '' ''"
    by simp_all
  ultimately show ?thesis
    unfolding match_response_line_def Let_def using d(1-3) m(2) by (simp only: simp_thms insert_iff m_def if_True)
qed

lemma read_status_line:
  assumes "rest st = status_line stat @ aft" and "100 < stat" and "stat < 1000"
  obtains st' where "read_response_line m res st
      = (True, res\<lparr>rsp_version := ''HTTP/1.1'', status := stat, reason := status_message stat\<rparr>, st')"
    and "rest st' = aft" "broken st' = broken st" "sent st' = sent st" "sends st' = sends st"
proof -
  have "list_all (\<lambda>c. c \<noteq> LF) (status_message stat)" using status_message_plain [of stat] by (auto simp: list_all_iff)
  then have lf: "LF \<notin> set (''HTTP/1.1 '' @ std_to_string stat @ '' '' @ status_message stat @ [CR])"
    using assms(2) digits_no_LF by (auto simp: std_to_string_def list_all_iff)
  have "rest st = (''HTTP/1.1 '' @ std_to_string stat @ '' '' @ status_message stat @ [CR]) @ LF # aft"
    using assms(1) by (simp add: status_line_def)
  from getline_line [OF this lf, of "new_line_reader 2048"] obtain lr st'
    where g: "getline (new_line_reader 2048) st = (True, lr, st')" "lr_ptr lr = status_line stat" "rest st' = aft"
      "broken st' = broken st" "sent st' = sent st" "sends st' = sends st"
    by (auto simp: status_line_def)
  have "skip_continue lr st' (''HTTP/1.1'', stat, status_message stat) = (Some (''HTTP/1.1'', stat, status_message stat), st')"
    using assms(2) by (subst skip_continue.simps) simp
  with g(1,2) match_status_line [of stat] assms(2,3) have "read_response_line m res st
      = (True, res\<lparr>rsp_version := ''HTTP/1.1'', status := stat, reason := status_message stat\<rparr>, st')"
    by (simp add: read_response_line_def)
  with g that show thesis by blast
qed

text \<open>A content of that length, behind fields that need not be read back as they are.\<close>

definition carries :: "headers \<Rightarrow> string \<Rightarrow> bool" where
  "carries hs content \<longleftrightarrow>
     mm_sorted to_lower hs \<and> no_field hs ''Content-Encoding'' \<and> no_field hs ''Transfer-Encoding''
     \<and> mm_values to_lower hs ''Content-Length'' = [nat_string (length content)]"

lemma framed_carries: "framed hs content \<Longrightarrow> carries hs content"
  by (simp add: framed_def plain_fields_def carries_def)

lemma carries_back: "carries hs content \<Longrightarrow> carries (fields_back hs) content"
  using field_ok_back(2) [OF length_field_ok]
  by (simp add: carries_def no_field_def fields_back_values fields_back_sorted)

lemma read_framed_content:
  assumes "carries hs content" and "length content < 2 ^ 64" and "rest st = content @ aft"
  obtains st' n where "client_read_content dec hs st = Inr (Some content, n, st')"
    and "rest st' = aft" "broken st' = broken st" "sent st' = sent st" "sends st' = sends st"
proof -
  have hs: "mm_sorted to_lower hs" "mm_values to_lower hs ''Content-Length'' = [nat_string (length content)]"
    "mm_values to_lower hs ''Content-Encoding'' = []" "mm_values to_lower hs ''Transfer-Encoding'' = []"
    using assms(1) by (simp_all add: carries_def no_field_def)
  obtain r st' where r: "read_content_with_length body_receiver (length content) st [] = (r, st')" by fastforce
  have "length content \<le> length (rest st)" using assms(3) by simp
  from body.with_length [OF this r] assms(3)
  have b: "r = Some content" "rest st' = aft" "broken st' = broken st" "sent st' = sent st" "sends st' = sends st"
    by auto
  have g: "get_header_value hs key 0 d = Inr (case mm_values to_lower hs key of [] \<Rightarrow> d | v # vs \<Rightarrow> v)"
    "get_header_value_u64 hs key 0 n = Inr (case mm_values to_lower hs key of [] \<Rightarrow> n | v # vs \<Rightarrow> strtoull v)" for key d n
    by (simp_all add: get_header_value_def get_header_value_u64_def mm_get_first [OF hs(1)] split: list.splits)
  have "read_body body_receiver hs (2 ^ 64 - 1) 0 st [] = Inr (Some content, 0, st')"
    using hs(2-4) r b(1) strtoull_nat_string [OF assms(2)] assms(2)
    by (simp add: read_body_def is_chunked_transfer_encoding_def g has_header_def mm_has_values [OF hs(1)] to_lower_def)
  then have "client_read_content dec hs st = Inr (Some content, 0, st')"
    using hs(3) by (simp add: client_read_content_def detail_read_content_def g unsupported_encoding_def contains_def starts_with_def)
  with b that show thesis by blast
qed

definition read_response :: "int \<Rightarrow> headers \<Rightarrow> string \<Rightarrow> client_response" where
  "read_response stat hs content =
     \<lparr>rsp_version = ''HTTP/1.1'', status = stat, rsp_headers = hs, body = content,
      reason = status_message stat, location = []\<rparr>"

lemma receive_carried:
  assumes "rest st = status_line stat @ write_headers hs @ content @ aft" and "carries hs content"
    and "length content < 2 ^ 64" and "100 < stat" and "stat < 1000" and "stat \<noteq> 204"
    and "req_method req \<noteq> ''HEAD''" and "req_method req \<noteq> ''CONNECT''" and "response_handler req = None"
    and "cli_logger c = None" and "list_all (\<lambda>(k, v). field_sendable k v) hs"
  obtains st' where "receive_response c req err st W =
      (case (if first_value (fields_back hs) ''Connection'' = ''close'' then close_client_socket (c\<lparr>cli_socket := Some st'\<rparr>) W
             else (c\<lparr>cli_socket := Some st'\<rparr>, W)) of
         (c, W) \<Rightarrow> Inr (Some (read_response stat (fields_back hs) content), err, req, c, W))"
    and "rest st' = aft" "sent st' = sent st" "sends st' = sends st"
proof -
  note c = carries_back [OF assms(2)]
  have hs: "list_all (\<lambda>(k, v). field_sendable k v) hs" "mm_sorted to_lower (fields_back hs)"
    using assms(11) c by (simp_all add: carries_def)
  let ?line = "empty_client_response\<lparr>rsp_version := ''HTTP/1.1'', status := stat, reason := status_message stat\<rparr>"
  obtain st1 where s1: "read_response_line (req_method req) empty_client_response st = (True, ?line, st1)"
    "rest st1 = write_headers hs @ content @ aft" "sent st1 = sent st" "sends st1 = sends st"
    using read_status_line [OF assms(1,4,5)] by metis
  obtain st2 where s2: "read_headers st1 [] = (True, st2, fields_back hs)" "rest st2 = content @ aft"
    using read_headers_sent [OF hs(1), of "[]" st1] hs(2) s1(2) by (auto simp: read_headers_def)
  have k2: "sent st2 = sent st" "sends st2 = sends st"
    using read_headers_loop_keeps s2(1) s1(3,4) unfolding read_headers_def by fastforce+
  obtain st' n where s3: "client_read_content (decompress c) (fields_back hs) st2 = Inr (Some content, n, st')" "rest st' = aft"
    "sent st' = sent st2" "sends st' = sends st2"
    using read_framed_content [OF c assms(3) s2(2)] by metis
  have e: "rsp_headers ?line = []" "?line\<lparr>rsp_headers := fields_back hs\<rparr> = read_response stat (fields_back hs) []"
    "(read_response stat (fields_back hs) [])\<lparr>body := content\<rparr> = read_response stat (fields_back hs) content"
    by (simp_all add: empty_client_response_def read_response_def)
  have "read_response_body c req (read_response stat (fields_back hs) []) err st2 W = Inr (Some (read_response stat (fields_back hs) content), err, st', W)"
    using assms(6-9) s3(1) e(3) by (simp add: read_response_body_def) (simp add: read_response_def)
  moreover have "ends_connection (read_response stat (fields_back hs) content) = Inr (first_value (fields_back hs) ''Connection'' = ''close'')"
    by (simp add: ends_connection_def read_response_def get_header_value_def mm_get_first [OF hs(2)] first_value_def split: list.split)
  ultimately have "receive_response c req err st W =
      (case (if first_value (fields_back hs) ''Connection'' = ''close'' then close_client_socket (c\<lparr>cli_socket := Some st'\<rparr>) W
             else (c\<lparr>cli_socket := Some st'\<rparr>, W)) of
         (c, W) \<Rightarrow> Inr (Some (read_response stat (fields_back hs) content), err, req, c, W))"
    using s1(1) s2(1) e(1,2) assms(10)
    by (simp add: receive_response_def after_response_def close_client_socket_def)
  with s3(2-4) k2 that show thesis by metis
qed

lemma receive_framed:
  assumes "rest st = status_line stat @ write_headers hs @ content @ aft" and "framed hs content"
    and "length content < 2 ^ 64" and "100 < stat" and "stat < 1000" and "stat \<noteq> 204"
    and "req_method req \<noteq> ''HEAD''" and "req_method req \<noteq> ''CONNECT''" and "response_handler req = None"
    and "cli_logger c = None"
  obtains st' where "receive_response c req err st W =
      (case (if first_value hs ''Connection'' = ''close'' then close_client_socket (c\<lparr>cli_socket := Some st'\<rparr>) W
             else (c\<lparr>cli_socket := Some st'\<rparr>, W)) of
         (c, W) \<Rightarrow> Inr (Some (read_response stat hs content), err, req, c, W))"
    and "rest st' = aft" "sent st' = sent st" "sends st' = sends st"
proof -
  have "list_all (\<lambda>(k, v). field_ok k v) hs" using assms(2) by (simp add: framed_def plain_fields_def)
  then have b: "list_all (\<lambda>(k, v). field_sendable k v) hs" "fields_back hs = hs" using fields_ok_back by auto
  show thesis
    using receive_carried [OF assms(1) framed_carries [OF assms(2)] assms(3-10) b(1), of err W] that unfolding b(2) .
qed

section \<open>One request and its response\<close>

text \<open>A client without an open connection, proxy, default fields and logger, that keeps connections.\<close>

definition plain_client :: "'w client \<Rightarrow> bool" where
  "plain_client c \<longleftrightarrow>
     cli_socket c = None \<and> \<not> uses_proxy c \<and> cli_default_headers c = [] \<and> cli_keep_alive c
     \<and> cli_logger c = None \<and> url_encode c \<and> credentials_ok c \<and> field_ok ''Host'' (host_field c)"

text \<open>The connection of a request: the client still has it, or has closed it.\<close>

definition used_connection :: "'w client \<Rightarrow> 'w network \<Rightarrow> 'w network \<Rightarrow> conn \<Rightarrow> bool" where
  "used_connection c W W' st \<longleftrightarrow>
     cli_socket c = Some st \<and> ended W' = ended W \<or> cli_socket c = None \<and> ended W' = ended W @ [st]"

text \<open>The state of the socket is not in what is written.\<close>

lemma settings_kept [simp]:
  "request_head (c\<lparr>cli_socket := s\<rparr>) r = request_head c r"
  "request_head (c\<lparr>close_when_done := b\<rparr>) r = request_head c r"
  "request_head (c\<lparr>requests_in_flight := n\<rparr>) r = request_head c r"
  "client_headers (c\<lparr>cli_socket := s\<rparr>) cc r = client_headers c cc r"
  "client_headers (c\<lparr>close_when_done := b\<rparr>) cc r = client_headers c cc r"
  "client_headers (c\<lparr>requests_in_flight := n\<rparr>) cc r = client_headers c cc r"
  "add_default_headers (c\<lparr>cli_socket := s\<rparr>) r = add_default_headers c r"
  "add_default_headers (c\<lparr>close_when_done := b\<rparr>) r = add_default_headers c r"
  "add_default_headers (c\<lparr>requests_in_flight := n\<rparr>) r = add_default_headers c r"
  "uses_proxy (c\<lparr>cli_socket := s\<rparr>) = uses_proxy c"
  "uses_proxy (c\<lparr>close_when_done := b\<rparr>) = uses_proxy c"
  "uses_proxy (c\<lparr>requests_in_flight := n\<rparr>) = uses_proxy c"
  by (simp_all add: request_head_def client_headers_def auth_fields_def host_field_def uses_proxy_def
      add_default_headers_def Let_def split_beta)

lemma client_send_framed:
  assumes c: "plain_client c" and W: "connects W = Inr st # rs" and "sends st = []"
    and req: "path req \<noteq> []" "plain_upload req" "response_handler req = None"
      "req_method req \<noteq> ''HEAD''" "req_method req \<noteq> ''CONNECT''"
    and st: "rest st = status_line stat @ write_headers hs @ content @ aft"
    and ok: "framed hs content" "length content < 2 ^ 64" "100 < stat" "stat < 1000" "stat \<noteq> 204"
      "\<not> (300 < stat \<and> stat < 400 \<and> follow_location c)"
    and req1: "req1 = req\<lparr>req_headers := client_headers c False req\<rparr>"
  shows "\<exists>c' W' st'. client_send c req Success W = Some (Inr (Some (read_response stat hs content), Success, req1, c', W'))
    \<and> used_connection c' W W' st' \<and> sent st' = sent st @ request_head c req1 @ req_body req \<and> rest st' = aft
    \<and> dialed W' = dialed W @ [(cli_host c, cli_port c)] \<and> connects W' = rs"
proof -
  let ?c = "c\<lparr>close_when_done := False, cli_socket := Some st, requests_in_flight := requests_in_flight c + 1\<rparr>"
  let ?W = "W\<lparr>dialed := dialed W @ [(cli_host c, cli_port c)], connects := rs\<rparr>"
  let ?st = "st\<lparr>sent := sent st @ request_head c req1 @ req_body req\<rparr>"
  have cs: "cli_socket c = None" "\<not> uses_proxy c" "cli_default_headers c = []" "cli_keep_alive c" "cli_logger c = None"
    using c by (simp_all add: plain_client_def)
  have o: "open_connection c W = (Inr st, ?c, ?W)"
    using cs W by (auto simp: open_connection_def create_client_socket_def uses_proxy_def Let_def)
  have d: "add_default_headers ?c req = req" using cs(3) by (simp add: add_default_headers_def)
  have w: "ClientImpl_write_request ?c req False Success st ?W = Some (Inr (True, Success, req1, ?st, ?W))"
    using write_request_plain [OF assms(3) req(2), of req1 ?c False Success ?W] req1 by simp
  have r1: "req_method req1 = req_method req" "response_handler req1 = response_handler req" using req1 by simp_all
  have "rest ?st = status_line stat @ write_headers hs @ content @ aft" using st by (simp add: rest_def)
  from receive_framed [OF this ok(1-5), of req1 ?c Success ?W] obtain st' where
    r: "receive_response ?c req1 Success ?st ?W =
      (case (if first_value hs ''Connection'' = ''close'' then close_client_socket (?c\<lparr>cli_socket := Some st'\<rparr>) ?W
             else (?c\<lparr>cli_socket := Some st'\<rparr>, ?W)) of
         (c, W) \<Rightarrow> Inr (Some (read_response stat hs content), Success, req1, c, W))"
    and s': "rest st' = aft" "sent st' = sent ?st"
    using req(3-5) r1 cs(5) by auto
  have h: "handle_once ?c req Success st ?W = Some (receive_response ?c req1 Success ?st ?W)"
    using req(1) cs w by (simp add: handle_once_def ClientImpl_process_request_def)
  have nr: "\<not> is_redirect c1 (read_response stat hs content)" if "follow_location c1 = follow_location c" for c1 :: "'a client"
    using ok(6) that by (simp add: is_redirect_def read_response_def)
  show ?thesis
  proof (cases "first_value hs ''Connection'' = ''close''")
    case True
    let ?c2 = "?c\<lparr>cli_socket := None\<rparr>" and ?W2 = "?W\<lparr>ended := ended W @ [st']\<rparr>"
    have "receive_response ?c req1 Success ?st ?W = Inr (Some (read_response stat hs content), Success, req1, ?c2, ?W2)"
      using r True by (simp add: close_client_socket_def)
    with o h have "client_send c req Success W = Some (Inr (end_send (Some (read_response stat hs content)) Success req1 ?c2 ?W2))"
      using nr [of ?c2] d by (subst client_send.simps) (simp add: Let_def)
    then show ?thesis using cs s'
      by (simp add: end_send_def Let_def) (intro exI [of _ st'], simp add: used_connection_def)
  next
    case False
    let ?c2 = "?c\<lparr>cli_socket := Some st'\<rparr>"
    have "receive_response ?c req1 Success ?st ?W = Inr (Some (read_response stat hs content), Success, req1, ?c2, ?W)"
      using r False by simp
    with o h have "client_send c req Success W = Some (Inr (end_send (Some (read_response stat hs content)) Success req1 ?c2 ?W))"
      using nr [of ?c2] d by (subst client_send.simps) (simp add: Let_def)
    then show ?thesis using cs s'
      by (simp add: end_send_def Let_def) (intro exI [of _ st'], simp add: used_connection_def)
  qed
qed

section \<open>Connections\<close>

text \<open>The connections there are: still to be made, open, and closed.\<close>

definition conns :: "'w client \<Rightarrow> 'w network \<Rightarrow> nat" where
  "conns c W = length (filter (\<lambda>r. \<exists>st. r = Inr st) (connects W)) + (if cli_socket c = None then 0 else 1) + length (ended W)"

lemma close_accounts:
  assumes "close_client_socket c W = (c', W')"
  shows "conns c' W' = conns c W" "cli_socket c' = None" "cli_keep_alive c' = cli_keep_alive c"
    "requests_in_flight c' = requests_in_flight c" "dialed W' = dialed W"
  using assms by (auto simp: close_client_socket_def conns_def split: option.splits)

lemma create_accounts:
  assumes "create_client_socket c W = (r, W')" and "cli_socket c = None"
  shows "conns c W = (case r of Inl _ \<Rightarrow> conns c W' | Inr st \<Rightarrow> conns (c\<lparr>cli_socket := Some st\<rparr>) W')"
    and "length (dialed W') = length (dialed W) + 1"
  using assms by (auto simp: create_client_socket_def conns_def Let_def split: list.splits sum.splits)

lemma open_accounts:
  assumes "open_connection c W = (r, c', W')"
  shows "conns c' W' = conns c W" "cli_keep_alive c' = cli_keep_alive c" "length (dialed W') \<le> length (dialed W) + 1"
    "case r of Inl e \<Rightarrow> cli_socket c' = None \<and> requests_in_flight c' = requests_in_flight c
     | Inr st \<Rightarrow> cli_socket c' = Some st \<and> requests_in_flight c' = requests_in_flight c + 1"
proof -
  let ?c = "c\<lparr>close_when_done := False\<rparr>"
  obtain c1 W1 where o: "(case cli_socket ?c of
      Some st \<Rightarrow> if writable W st then (?c, W) else close_client_socket ?c W | None \<Rightarrow> (?c, W)) = (c1, W1)"
    by fastforce
  have "conns ?c W = conns c W" by (simp add: conns_def)
  with o have c1: "conns c1 W1 = conns c W" "cli_keep_alive c1 = cli_keep_alive c"
    "requests_in_flight c1 = requests_in_flight c" "dialed W1 = dialed W"
    using close_accounts [of ?c W c1 W1] by (auto split: option.splits if_splits)
  have in_flight: "conns (c\<lparr>requests_in_flight := n\<rparr>) W = conns c W" for c :: "'a client" and n W by (simp add: conns_def)
  have "conns c' W' = conns c W \<and> cli_keep_alive c' = cli_keep_alive c \<and> length (dialed W') \<le> length (dialed W) + 1
    \<and> (case r of Inl e \<Rightarrow> cli_socket c' = None \<and> requests_in_flight c' = requests_in_flight c
       | Inr st \<Rightarrow> cli_socket c' = Some st \<and> requests_in_flight c' = requests_in_flight c + 1)"
  proof (cases "cli_socket c1")
    case None
    obtain r2 W2 where n: "create_client_socket c1 W1 = (r2, W2)" by fastforce
    show ?thesis
      using assms o None n create_accounts [OF n None] c1 in_flight
      by (cases r2) (auto simp: open_connection_def Let_def)
  next
    case (Some st)
    then show ?thesis using assms o c1 in_flight by (auto simp: open_connection_def Let_def)
  qed
  then show "conns c' W' = conns c W" "cli_keep_alive c' = cli_keep_alive c" "length (dialed W') \<le> length (dialed W) + 1"
    "case r of Inl e \<Rightarrow> cli_socket c' = None \<and> requests_in_flight c' = requests_in_flight c
     | Inr st \<Rightarrow> cli_socket c' = Some st \<and> requests_in_flight c' = requests_in_flight c + 1" by blast+
qed

text \<open>Writing and reading change the state of the connection and of the user, no other.\<close>

lemma write_request_network:
  assumes "ClientImpl_write_request c req cc err st W = Some (Inr (ok, err', req', st', W'))"
  shows "\<exists>u. W' = W\<lparr>user := u\<rparr>"
proof -
  have same: "\<exists>u. W = W\<lparr>user := u\<rparr>" by (intro exI [of _ "user W"]) simp
  show ?thesis
    using assms same
    by (auto simp: ClientImpl_write_request_def ClientImpl_write_content_with_provider_def Let_def res_simps
        split: prod.splits if_splits)
qed

lemma read_body_network:
  assumes "read_response_body c req res err st W = Inr (ores, err', st', W')"
  shows "\<exists>u. W' = W\<lparr>user := u\<rparr>"
proof -
  have same: "\<exists>u. W = W\<lparr>user := u\<rparr>" by (intro exI [of _ "user W"]) simp
  show ?thesis
    using assms same
    by (auto simp: read_response_body_def res_simps split: prod.splits if_splits option.splits)
qed

lemma conns_user [simp]: "conns c (W\<lparr>user := u\<rparr>) = conns c W"
  by (simp add: conns_def)

lemma conns_socket: "cli_socket c \<noteq> None \<Longrightarrow> conns (c\<lparr>cli_socket := Some st\<rparr>) W = conns c W"
  by (simp add: conns_def)

definition settled :: "'w client \<Rightarrow> 'w network \<Rightarrow> 'w client \<Rightarrow> 'w network \<Rightarrow> bool" where
  "settled c W c' W' \<longleftrightarrow>
     conns c' W' = conns c W \<and> cli_keep_alive c' = cli_keep_alive c
     \<and> requests_in_flight c' = requests_in_flight c \<and> dialed W' = dialed W"

lemma settled_socket: "cli_socket c \<noteq> None \<Longrightarrow> settled c W (c\<lparr>cli_socket := Some s\<rparr>) W"
  by (simp add: settled_def conns_socket)

lemma settled_user [simp]:
  "settled c (W\<lparr>user := u\<rparr>) c' W' = settled c W c' W'" "settled c W c' (W'\<lparr>user := u\<rparr>) = settled c W c' W'"
  by (simp_all add: settled_def)

lemma after_accounts:
  assumes "after_response c req res err st W = Inr (ores, err', req', c', W')" and "cli_socket c \<noteq> None"
  shows "settled c W c' W' \<and> ores \<noteq> None"
proof -
  let ?o = "\<lambda>close. if close then close_client_socket (c\<lparr>cli_socket := Some st\<rparr>) W else (c\<lparr>cli_socket := Some st\<rparr>, W)"
  from assms(1) obtain close where "(case ?o close of (c, W) \<Rightarrow> Inr (Some res, err, req, c,
      case cli_logger c of None \<Rightarrow> W | Some l \<Rightarrow> W\<lparr>user := l req res (user W)\<rparr>)) = (Inr (ores, err', req', c', W') :: 'a reply res)"
    unfolding after_response_def res_simps by blast
  moreover obtain c1 W1 where c1: "?o close = (c1, W1)" by fastforce
  ultimately have r: "c' = c1" "W' = (case cli_logger c1 of None \<Rightarrow> W1 | Some l \<Rightarrow> W1\<lparr>user := l req res (user W1)\<rparr>)"
    "ores = Some res"
    by auto
  have "settled c W c1 W1"
    using c1 assms(2) close_accounts [of "c\<lparr>cli_socket := Some st\<rparr>" W c1 W1] settled_socket [OF assms(2)]
    by (auto simp: settled_def conns_socket split: if_splits)
  then show ?thesis unfolding r by (simp split: option.split)
qed

lemma receive_accounts:
  assumes "receive_response c req err st W = Inr (ores, err', req', c', W')" and "cli_socket c \<noteq> None"
  shows "settled c W c' W'"
proof -
  obtain ok res st1 where l: "read_response_line (req_method req) empty_client_response st = (ok, res, st1)" by (metis prod_cases3)
  obtain ok2 st2 hs where h: "read_headers st1 (rsp_headers res) = (ok2, st2, hs)" by (metis prod_cases3)
  show ?thesis
  proof (cases "ok \<and> ok2")
    case True
    with assms(1) l h obtain ores1 err1 st3 W1 where
      b: "read_response_body c req (res\<lparr>rsp_headers := hs\<rparr>) err st2 W = Inr (ores1, err1, st3, W1)"
      and r: "(case ores1 of None \<Rightarrow> Inr (None, err1, req, c\<lparr>cli_socket := Some st3\<rparr>, W1)
        | Some res \<Rightarrow> after_response c req res err1 st3 W1) = Inr (ores, err', req', c', W')"
      by (auto simp: receive_response_def res_simps)
    obtain u where "W1 = W\<lparr>user := u\<rparr>" using read_body_network [OF b] by blast
    with r show ?thesis
      using after_accounts [of c req _ err1 st3 W1 ores err' req' c' W'] settled_socket [OF assms(2)] assms(2)
      by (cases ores1) auto
  next
    case False
    then show ?thesis
      using assms(1) l h settled_socket [OF assms(2)] by (auto simp: receive_response_def split: if_splits)
  qed
qed

lemma process_accounts:
  assumes "ClientImpl_process_request c req cc err st W = Some (Inr (ores, err', req', c', W'))" and "cli_socket c \<noteq> None"
  shows "settled c W c' W'"
proof -
  from assms(1) obtain ok err1 req1 st1 W1 where
    w: "ClientImpl_write_request c req cc err st W = Some (Inr (ok, err1, req1, st1, W1))"
    and r: "(if \<not> ok then Some (Inr (None, err1, req1, c\<lparr>cli_socket := Some st1\<rparr>, W1))
      else Some (receive_response c req1 err1 st1 W1)) = Some (Inr (ores, err', req', c', W'))"
    by (auto simp: ClientImpl_process_request_def res_simps)
  obtain u where u: "W1 = W\<lparr>user := u\<rparr>" using write_request_network [OF w] by blast
  show ?thesis
    using r receive_accounts [OF _ assms(2)] settled_socket [OF assms(2)]
    by (cases ok) (force simp: u)+
qed

lemma handle_accounts:
  assumes "handle_once c req err st W = Some (Inr (ores, err', req', c', W'))" and "cli_socket c \<noteq> None"
  shows "settled c W c' W'"
  using assms(1) settled_socket [OF assms(2)]
  by (auto simp: handle_once_def res_simps dest: process_accounts [OF _ assms(2)] split: if_splits)

lemma end_accounts:
  assumes "end_send ores err req c W = (ores', err', req', c', W')"
  shows "ores' = ores" "conns c' W' = conns c W" "cli_keep_alive c' = cli_keep_alive c" "dialed W' = dialed W"
    "requests_in_flight c' = requests_in_flight c - 1" "\<not> cli_keep_alive c \<or> ores = None \<Longrightarrow> cli_socket c' = None"
proof -
  let ?c = "c\<lparr>requests_in_flight := requests_in_flight c - 1\<rparr>"
  have "conns ?c W = conns c W" by (simp add: conns_def)
  moreover define b where "b \<longleftrightarrow> close_when_done ?c \<or> \<not> cli_keep_alive ?c \<or> ores = None"
  moreover obtain c1 W1 where "(if b then close_client_socket ?c W else (?c, W)) = (c1, W1)" by fastforce
  moreover from this have "c' = c1" "W' = W1" "ores' = ores"
    using assms unfolding end_send_def Let_def b_def by simp_all
  ultimately show "ores' = ores" "conns c' W' = conns c W" "cli_keep_alive c' = cli_keep_alive c" "dialed W' = dialed W"
    "requests_in_flight c' = requests_in_flight c - 1" "\<not> cli_keep_alive c \<or> ores = None \<Longrightarrow> cli_socket c' = None"
    using close_accounts [of ?c W c1 W1] by (auto split: if_splits)
qed

lemma add_default_headers_parts [simp]:
  "redirect_count (add_default_headers c req) = redirect_count req"
  "content_provider (add_default_headers c req) = content_provider req"
  "is_chunked_content_provider (add_default_headers c req) = is_chunked_content_provider req"
  "content_length (add_default_headers c req) = content_length req"
  by (simp_all add: add_default_headers_def)

lemma end_send_parts: "end_send ores err req c W = (ores', err', req', c', W') \<Longrightarrow> ores' = ores \<and> req' = req"
  by (auto simp: end_send_def Let_def split: prod.splits)

text \<open>\<open>client_send\<close> by the ways it can go, with what the two clients of a redirect have in common.\<close>

lemma client_send_cases:
  assumes "client_send c req err W = Some (Inr result)"
  obtains (refused) e c1 W1 where "open_connection c W = (Inl e, c1, W1)" "result = (None, e, req, c1, W1)"
  | (ended) st c1 W1 ores1 err1 req1 c2 W2 ores2 err2 req2 where
      "open_connection c W = (Inr st, c1, W1)"
      "handle_once c1 (add_default_headers c1 req) err st W1 = Some (Inr (ores1, err1, req1, c2, W2))"
      "result = end_send ores2 err2 req2 c2 W2" "ores2 = None \<or> ores2 = ores1"
      "req2 = req1 \<or> req2 = add_default_headers c1 req"
  | (same_host) st c1 W1 res1 err1 req1 c2 W2 req2 loc ores3 err3 req3 c3 W3 req4 where
      "open_connection c W = (Inr st, c1, W1)"
      "handle_once c1 (add_default_headers c1 req) err st W1 = Some (Inr (Some res1, err1, req1, c2, W2))"
      "ClientImpl_redirect c2 (add_default_headers c1 req) res1 err1 = Inr (To_self req2 loc)"
      "client_send c2 req2 err1 W2 = Some (Inr (ores3, err3, req3, c3, W3))"
      "result = end_send (map_option (\<lambda>r. r\<lparr>location := loc\<rparr>) ores3) err3 req4 c3 W3"
      "req4 = req3 \<or> req4 = add_default_headers c1 req"
  | (other_host) st c1 W1 res1 err1 req1 c2 W2 d req2 loc ores3 err3 req3 d' W3 req4 where
      "open_connection c W = (Inr st, c1, W1)"
      "handle_once c1 (add_default_headers c1 req) err st W1 = Some (Inr (Some res1, err1, req1, c2, W2))"
      "ClientImpl_redirect c2 (add_default_headers c1 req) res1 err1 = Inr (To_other d req2 loc)"
      "client_send d req2 err1 W2 = Some (Inr (ores3, err3, req3, d', W3))"
      "result = end_send (map_option (\<lambda>r. r\<lparr>location := loc\<rparr>) ores3) err3 req4 c2 (snd (close_client_socket d' W3))"
      "req4 = req3 \<or> req4 = add_default_headers c1 req"
proof -
  obtain r c1 W1 where o: "open_connection c W = (r, c1, W1)" by (metis prod_cases3)
  show thesis
  proof (cases r)
    case (Inl e)
    then show thesis using assms o by (intro refused [of e c1 W1]) (simp_all add: client_send.simps [of c req])
  next
    case (Inr st)
    let ?req = "add_default_headers c1 req"
    obtain h where h: "handle_once c1 ?req err st W1 = Some (Inr h)"
      using assms o Inr by (auto simp: client_send.simps [of c req] Let_def res_simps)
    obtain ores1 err1 req1 c2 W2 where t: "h = (ores1, err1, req1, c2, W2)" by (metis prod_cases5)
    note s = assms [unfolded client_send.simps [of c req] o Inr prod.case sum.case Let_def h t robind_simps]
    show thesis
    proof (cases ores1)
      case None
      with s show thesis by (intro ended [OF o [unfolded Inr] h [unfolded t], of None err1 req1]) simp_all
    next
      case (Some res1)
      note h1 = h [unfolded t Some] and s1 = s [unfolded Some option.case]
      show thesis
      proof (cases "is_redirect c2 res1")
        case False
        with s1 show thesis by (intro ended [OF o [unfolded Inr] h1, of "Some res1" err1 req1]) simp_all
      next
        case True
        with s1 obtain rd where rd: "ClientImpl_redirect c2 ?req res1 err1 = Inr rd"
          by (auto simp: res_simps)
        note s2 = s1 [unfolded rd robind_simps]
        show thesis
        proof (cases rd)
          case (Not_redirected e)
          with s2 True show thesis by (intro ended [OF o [unfolded Inr] h1, of None e ?req]) simp_all
        next
          case (To_self req2 loc)
          with s2 True obtain ores3 err3 req3 c3 W3 where "client_send c2 req2 err1 W2 = Some (Inr (ores3, err3, req3, c3, W3))"
            by (auto simp: res_simps)
          moreover from this To_self s2 True
          have "result = end_send (map_option (\<lambda>r. r\<lparr>location := loc\<rparr>) ores3) err3 (if ores3 = None then ?req else req3) c3 W3"
            by simp
          ultimately show thesis by (rule same_host [OF o [unfolded Inr] h1 rd [unfolded To_self]]) simp
        next
          case (To_other d req2 loc)
          with s2 True obtain ores3 err3 req3 d' W3 where "client_send d req2 err1 W2 = Some (Inr (ores3, err3, req3, d', W3))"
            by (auto simp: res_simps)
          moreover from this To_other s2 True
          have "result = end_send (map_option (\<lambda>r. r\<lparr>location := loc\<rparr>) ores3) err3 (if ores3 = None then ?req else req3) c2
              (snd (close_client_socket d' W3))"
            by simp
          ultimately show thesis by (rule other_host [OF o [unfolded Inr] h1 rd [unfolded To_other]]) simp
        qed
      qed
    qed
  qed
qed

lemma new_hop_socket: "ClientImpl_redirect c req res err = Inr (To_other d req2 loc) \<Longrightarrow> cli_socket d = None"
  by (auto simp: ClientImpl_redirect_def res_simps Let_def copy_settings_def new_client_def split: if_splits option.splits)

lemma client_send_keeps:
  assumes "client_send c req err W = Some (Inr (ores, err', req', c', W'))"
  shows "conns c' W' = conns c W \<and> cli_keep_alive c' = cli_keep_alive c \<and> requests_in_flight c' = requests_in_flight c
    \<and> (\<not> cli_keep_alive c \<or> ores = None \<longrightarrow> cli_socket c' = None)
    \<and> length (dialed W') \<le> length (dialed W) + redirect_count req + 1"
  using assms
proof (induction "redirect_count req" arbitrary: c req err W ores err' req' c' W' rule: less_induct)
  case less
  have open_handled: "settled c1 W1 c2 W2 \<and> conns c1 W1 = conns c W \<and> cli_keep_alive c1 = cli_keep_alive c
      \<and> requests_in_flight c1 = requests_in_flight c + 1 \<and> length (dialed W1) \<le> length (dialed W) + 1"
    if "open_connection c W = (Inr st, c1, W1)" "handle_once c1 r e st W1 = Some (Inr (o1, e1, r1, c2, W2))"
    for st c1 W1 r e o1 e1 r1 c2 W2
    using open_accounts [OF that(1)] handle_accounts [OF that(2)] by simp
  from less.prems show ?case
  proof (cases rule: client_send_cases)
    case (refused e c1 W1)
    then show ?thesis using open_accounts [OF refused(1)] by simp
  next
    case (ended st c1 W1 ores1 err1 req1 c2 W2 ores2 err2 req2)
    show ?thesis
      using open_handled [OF ended(1,2)] end_accounts [OF ended(3) [symmetric]] by (auto simp: settled_def)
  next
    case (same_host st c1 W1 res1 err1 req1 c2 W2 req2 loc ores3 err3 req3 c3 W3 req4)
    have "redirect_count req2 < redirect_count req" using redirect_count_less [OF same_host(3)] by simp
    from less.hyps [OF this same_host(4)] this show ?thesis
      using open_handled [OF same_host(1,2)] end_accounts [OF same_host(5) [symmetric]] by (auto simp: settled_def)
  next
    case (other_host st c1 W1 res1 err1 req1 c2 W2 d req2 loc ores3 err3 req3 d' W3 req4)
    have n: "redirect_count req2 < redirect_count req" using redirect_count_less [OF other_host(3)] by simp
    obtain d2 W4 where d2: "close_client_socket d' W3 = (d2, W4)" by fastforce
    have "conns c2 W4 = conns c2 W2"
      using less.hyps [OF n other_host(4)] close_accounts(1,2) [OF d2] new_hop_socket [OF other_host(3)]
      by (simp add: conns_def split: if_splits)
    then show ?thesis
      using less.hyps [OF n other_host(4)] n open_handled [OF other_host(1,2)] close_accounts(5) [OF d2]
        end_accounts [OF other_host(5) [symmetric]] d2
      by (auto simp: settled_def)
  qed
qed

subsection \<open>Well-formed headers and responses\<close>

lemma read_headers_loop_sorted:
  "read_headers_loop lr st hs = (ok, st', hs') \<Longrightarrow> mm_sorted to_lower hs \<Longrightarrow> mm_sorted to_lower hs'"
proof (induction lr st hs arbitrary: ok st' hs' rule: read_headers_loop.induct)
  case (1 lr st hs)
  let ?next = "\<lambda>lr'. case parse_header (take (lr_size lr' - 2) (lr_ptr lr')) of
    None \<Rightarrow> hs | Some (key, val) \<Rightarrow> mm_emplace to_lower key val hs"
  obtain got lr1 st1 where g: "getline lr st = (got, lr1, st1)" by (metis prod_cases3)
  have "mm_sorted to_lower (?next lr1)" using 1(4) by (auto simp: mm.inv_emplace split: option.split)
  then show ?case
    using 1(1) [OF g [symmetric] refl] 1(2) [OF g [symmetric] refl] 1(3,4) g
    by (simp add: read_headers_loop.simps [of lr st] split: if_splits)
qed

text \<open>What a client takes for a response.\<close>

definition response_ok :: "client_response \<Rightarrow> bool" where
  "response_ok res \<longleftrightarrow>
     rsp_version res \<in> {''HTTP/1.0'', ''HTTP/1.1''} \<and> 0 \<le> status res \<and> status res < 1000 \<and> status res \<noteq> 100
     \<and> mm_sorted to_lower (rsp_headers res)"

lemma dec_val_bound: "list_all is_digit ds \<Longrightarrow> dec_val ds < 10 ^ length ds"
proof (induction ds rule: rev_induct)
  case (snoc c ds)
  then have "dec_val ds < 10 ^ length ds" "is_digit c" by simp_all
  moreover from this(2) have "digit_val c < 10" unfolding is_digit_code digit_val_def by linarith
  ultimately have "10 * dec_val ds + digit_val c < 10 * 10 ^ length ds" by linarith
  then show ?case by (simp add: dec_val_snoc)
qed (simp add: dec_val_def)

lemma match_response_line_Some:
  "match_response_line s = Some (v, stat, phrase) \<Longrightarrow> v \<in> {''HTTP/1.0'', ''HTTP/1.1''} \<and> 0 \<le> stat \<and> stat < 1000"
  using dec_val_bound [of "take 3 (drop 9 s)"]
  by (auto simp: match_response_line_def Let_def split: if_splits)

lemma skip_continue_Some:
  assumes "skip_continue lr st l = (Some (v, stat, phrase), st')"
    and "fst l \<in> {''HTTP/1.0'', ''HTTP/1.1''} \<and> 0 \<le> fst (snd l) \<and> fst (snd l) < 1000"
  shows "v \<in> {''HTTP/1.0'', ''HTTP/1.1''} \<and> 0 \<le> stat \<and> stat < 1000 \<and> stat \<noteq> 100"
  using assms
proof (induction lr st l rule: skip_continue.induct)
  case (1 lr st l)
  show ?case
  proof (cases "fst (snd l) = 100")
    case True
    with 1(2) obtain lr1 st1 lr2 st2 m where g: "getline lr st = (True, lr1, st1)" "getline lr1 st1 = (True, lr2, st2)"
        "match_response_line (c_text (lr_ptr lr2)) = Some m"
      and s: "skip_continue lr2 st2 m = (Some (v, stat, phrase), st')"
      by (auto simp: skip_continue.simps [of lr st] split: prod.splits if_splits option.splits)
    show ?thesis
      using 1(1) [of True "(lr1, st1)" lr1 st1 True "(lr2, st2)" lr2 st2 m] True g s match_response_line_Some [of _ "fst m"]
      by (cases m) auto
  next
    case False
    then show ?thesis using 1(2,3) by (auto simp: skip_continue.simps [of lr st])
  qed
qed

lemma read_response_line_ok:
  assumes "read_response_line m res st = (True, res', st')" and "m \<noteq> ''CONNECT''"
  shows "rsp_version res' \<in> {''HTTP/1.0'', ''HTTP/1.1''} \<and> 0 \<le> status res' \<and> status res' < 1000 \<and> status res' \<noteq> 100
    \<and> rsp_headers res' = rsp_headers res"
proof -
  obtain lr1 st1 l v stat phrase where l: "match_response_line (c_text (lr_ptr lr1)) = Some l"
    and s: "skip_continue lr1 st1 l = (Some (v, stat, phrase), st')"
    and r: "res' = res\<lparr>rsp_version := v, status := stat, reason := phrase\<rparr>"
    using assms by (auto simp: read_response_line_def split: prod.splits if_splits option.splits)
  obtain v0 stat0 phrase0 where "l = (v0, stat0, phrase0)" by (metis prod_cases3)
  with l s r skip_continue_Some [OF s] match_response_line_Some [of _ v0] show ?thesis by simp
qed

lemma client_headers_sorted:
  assumes "mm_sorted to_lower (req_headers req)"
  shows "mm_sorted to_lower (client_headers c cc req)"
proof -
  have "mm_sorted to_lower (content_fields req hs)" if "mm_sorted to_lower hs" for hs
    using that by (simp add: content_fields_def sorted_emplace_missing mm.inv_emplace split: option.split)
  moreover have "mm_sorted to_lower (auth_fields c hs)" if "mm_sorted to_lower hs" for hs
    using that
    by (simp add: auth_fields_def make_basic_authentication_header_def make_bearer_token_authentication_header_def
        Let_def sorted_emplace_missing)
  ultimately show ?thesis using assms by (simp add: client_headers_def Let_def sorted_emplace_missing)
qed

lemma default_headers_sorted:
  "mm_sorted to_lower (req_headers req) \<Longrightarrow> mm_sorted to_lower (req_headers (add_default_headers c req))"
proof -
  have "mm_sorted to_lower (fold (\<lambda>(k, v) hs. if mm_has to_lower hs k then hs else mm_emplace to_lower k v hs) kvs hs)"
    if "mm_sorted to_lower hs" for kvs :: headers and hs
    using that by (induction kvs arbitrary: hs) (auto simp: mm.inv_emplace)
  then show "mm_sorted to_lower (req_headers req) \<Longrightarrow> ?thesis" by (simp add: add_default_headers_def)
qed

text \<open>Requests as they come back, and the responses to them.\<close>

definition result_ok :: "client_response option \<Rightarrow> 'w client_request \<Rightarrow> bool" where
  "result_ok ores req \<longleftrightarrow> mm_sorted to_lower (req_headers req) \<and> pred_option response_ok ores"

lemma write_request_headers:
  assumes "ClientImpl_write_request c req cc err st W = Some (Inr (ok, err', req', st', W'))"
  shows "req' = req\<lparr>req_headers := client_headers c cc req\<rparr>"
  using assms by (auto simp: ClientImpl_write_request_def Let_def res_simps split: prod.splits if_splits)

lemma after_keeps:
  "after_response c req res err st W = Inr (ores, err', req', c', W') \<Longrightarrow> ores = Some res \<and> req' = req"
  by (auto simp: after_response_def res_simps split_beta)

lemma receive_ok:
  assumes "receive_response c req err st W = Inr (ores, err', req', c', W')" and "req_method req \<noteq> ''CONNECT''"
  shows "req' = req \<and> pred_option response_ok ores"
proof -
  obtain ok res st1 where l: "read_response_line (req_method req) empty_client_response st = (ok, res, st1)" by (metis prod_cases3)
  obtain ok2 st2 hs where h: "read_headers st1 (rsp_headers res) = (ok2, st2, hs)" by (metis prod_cases3)
  show ?thesis
  proof (cases "ok \<and> ok2")
    case True
    then have "response_ok (res\<lparr>rsp_headers := hs\<rparr>)"
      using read_response_line_ok [of _ empty_client_response st res st1, OF _ assms(2)] l h
        read_headers_loop_sorted [of "new_line_reader 2048" st1 "[]"]
      by (simp add: response_ok_def read_headers_def empty_client_response_def mm_sorted_def)
    moreover from True assms(1) l h obtain ores1 err1 st3 W1 where
      b: "read_response_body c req (res\<lparr>rsp_headers := hs\<rparr>) err st2 W = Inr (ores1, err1, st3, W1)"
      and r: "(case ores1 of None \<Rightarrow> Inr (None, err1, req, c\<lparr>cli_socket := Some st3\<rparr>, W1)
        | Some res \<Rightarrow> after_response c req res err1 st3 W1) = Inr (ores, err', req', c', W')"
      by (auto simp: receive_response_def res_simps)
    moreover have "ores1 = None \<or> (\<exists>s. ores1 = Some (res\<lparr>rsp_headers := hs, body := s\<rparr>)) \<or> ores1 = Some (res\<lparr>rsp_headers := hs\<rparr>)"
      using b by (auto simp: read_response_body_def res_simps split: prod.splits if_splits option.splits)
    ultimately show ?thesis
      by (cases ores1) (auto simp: response_ok_def dest!: after_keeps)
  next
    case False
    then show ?thesis using assms(1) l h by (auto simp: receive_response_def split: if_splits)
  qed
qed

lemma handle_ok:
  assumes "handle_once c req err st W = Some (Inr (ores, err', req', c', W'))" and "req_method req \<noteq> ''CONNECT''"
    and "mm_sorted to_lower (req_headers req)"
  shows "result_ok ores req'"
proof -
  have p: "result_ok ores1 r1"
    if "ClientImpl_process_request c r cc err st W = Some (Inr (ores1, err1, r1, c1, W1))"
      "req_method r = req_method req" "req_headers r = req_headers req" for r cc ores1 err1 r1 c1 W1
  proof -
    from that(1) obtain ok err2 req2 st2 W2 where
      w: "ClientImpl_write_request c r cc err st W = Some (Inr (ok, err2, req2, st2, W2))"
      and e: "(if \<not> ok then Some (Inr (None, err2, req2, c\<lparr>cli_socket := Some st2\<rparr>, W2))
        else Some (receive_response c req2 err2 st2 W2)) = Some (Inr (ores1, err1, r1, c1, W1))"
      by (auto simp: ClientImpl_process_request_def res_simps)
    have "mm_sorted to_lower (req_headers req2)" "req_method req2 \<noteq> ''CONNECT''"
      using write_request_headers [OF w] client_headers_sorted [of r c cc] that(2,3) assms(2,3) by simp_all
    with e show ?thesis by (cases ok) (auto simp: result_ok_def dest: receive_ok)
  qed
  have "result_ok ores (req2\<lparr>path := t\<rparr>)" if "result_ok ores req2" for req2 :: "'a client_request" and t
    using that by (simp add: result_ok_def)
  then show ?thesis
    using assms(1,3) p
    by (auto simp: handle_once_def res_simps result_ok_def split: if_splits)
qed

lemma redirected_request_keeps:
  assumes "ClientImpl_redirect c req res err = Inr r" and "r = To_self req2 loc \<or> r = To_other d req2 loc"
    and "req_method req \<noteq> ''CONNECT''" and "mm_sorted to_lower (req_headers req)"
  shows "req_method req2 \<noteq> ''CONNECT'' \<and> mm_sorted to_lower (req_headers req2)"
  using assms
  by (auto simp: ClientImpl_redirect_def res_simps Let_def redirected_request_def mm_sorted_def split: if_splits option.splits)

lemma add_default_headers_method [simp]: "req_method (add_default_headers c req) = req_method req"
  by (simp add: add_default_headers_def)

lemma result_ok_location: "result_ok ores req \<Longrightarrow> result_ok (map_option (\<lambda>r. r\<lparr>location := loc\<rparr>) ores) req"
  by (cases ores) (simp_all add: result_ok_def response_ok_def)

lemma client_send_ok:
  assumes "client_send c req err W = Some (Inr (ores, err', req', c', W'))"
    and "req_method req \<noteq> ''CONNECT''" and "mm_sorted to_lower (req_headers req)"
  shows "result_ok ores req'"
  using assms
proof (induction "redirect_count req" arbitrary: c req err W ores err' req' c' W' rule: less_induct)
  case less
  have d: "mm_sorted to_lower (req_headers (add_default_headers c1 req))" for c1
    using default_headers_sorted less.prems(3) .
  have none: "result_ok None (add_default_headers c1 req)" for c1 using d by (simp add: result_ok_def)
  have handled: "result_ok ores1 req1"
    if "handle_once c1 (add_default_headers c1 req) err st W1 = Some (Inr (ores1, err1, req1, c2, W2))"
    for c1 st W1 ores1 err1 req1 c2 W2
    using handle_ok [OF that] less.prems(2) d by simp
  have again: "result_ok ores3 req3"
    if "ClientImpl_redirect c2 (add_default_headers c1 req) res1 err1 = Inr r" "r = To_self req2 loc \<or> r = To_other e req2 loc"
      "client_send x req2 err1 W2 = Some (Inr (ores3, err3, req3, c3, W3))"
    for c2 c1 res1 err1 r req2 loc e x W2 ores3 err3 req3 c3 W3
    using less.hyps [OF _ that(3)] redirect_count_less [OF that(1,2)] redirected_request_keeps [OF that(1,2)] less.prems(2) d
    by simp
  have pick: "result_ok (map_option (\<lambda>r. r\<lparr>location := loc\<rparr>) ores3) req4"
    if "result_ok ores3 req3" "req4 = req3 \<or> req4 = add_default_headers c1 req" for ores3 req3 req4 c1 loc
    using that d result_ok_location [of ores3 req3 loc] by (auto simp: result_ok_def)
  from less.prems(1) show ?case
  proof (cases rule: client_send_cases)
    case (refused e c1 W1)
    then show ?thesis using less.prems(3) by (simp add: result_ok_def)
  next
    case (ended st c1 W1 ores1 err1 req1 c2 W2 ores2 err2 req2)
    show ?thesis
      using handled [OF ended(2)] ended(4,5) end_send_parts [OF ended(3) [symmetric]] d by (auto simp: result_ok_def)
  next
    case (same_host st c1 W1 res1 err1 req1 c2 W2 req2 loc ores3 err3 req3 c3 W3 req4)
    show ?thesis
      using pick [OF again [OF same_host(3) _ same_host(4)] same_host(6), of loc]
        end_send_parts [OF same_host(5) [symmetric]] by simp
  next
    case (other_host st c1 W1 res1 err1 req1 c2 W2 d' req2 loc ores3 err3 req3 d2 W3 req4)
    show ?thesis
      using pick [OF again [OF other_host(3) _ other_host(4)] other_host(6), of loc]
        end_send_parts [OF other_host(5) [symmetric]] by simp
  qed
qed


subsection \<open>A request without a provider returns\<close>

lemma robind_returns:
  "m \<noteq> None \<Longrightarrow> (\<And>x. m = Some (Inr x) \<Longrightarrow> f x \<noteq> None) \<Longrightarrow> robind m f \<noteq> None"
  by (cases m; cases "the m") simp_all

lemma write_returns:
  "content_provider req = None \<Longrightarrow> ClientImpl_write_request c req cc err st W \<noteq> None"
  by (auto simp: ClientImpl_write_request_def ClientImpl_write_content_with_provider_def Let_def split: prod.splits)

lemma process_returns:
  "content_provider req = None \<Longrightarrow> ClientImpl_process_request c req cc err st W \<noteq> None"
  unfolding ClientImpl_process_request_def
  by (intro robind_returns write_returns) (auto split: prod.split)

lemma handle_once_returns:
  assumes "content_provider req = None"
  shows "handle_once c req err st W \<noteq> None"
proof -
  let ?p = "\<lambda>t. ClientImpl_process_request c (req\<lparr>path := t\<rparr>) (\<not> cli_keep_alive c) err st W"
  let ?f = "\<lambda>(ores, err, req2, c, W). Some (Inr (ores, err, req2\<lparr>path := path req\<rparr>, c, W)) :: 'a reply res option"
  have "robind (?p t) ?f \<noteq> None" for t
    using assms by (intro robind_returns process_returns) (auto split: prod.split)
  moreover have "ClientImpl_process_request c req (\<not> cli_keep_alive c) err st W \<noteq> None"
    using assms by (rule process_returns)
  ultimately show ?thesis
    unfolding handle_once_def by (cases "path req = []"; cases "uses_proxy c") (simp_all del: not_None_eq)
qed

lemma redirect_provider:
  assumes "ClientImpl_redirect c req res err = Inr r" and "r = To_self req2 loc \<or> r = To_other d req2 loc"
  shows "content_provider req2 = content_provider req"
  using assms
  by (auto simp: ClientImpl_redirect_def res_simps Let_def redirected_request_def split: if_splits option.splits)

lemma client_send_returns: "content_provider req = None \<Longrightarrow> client_send c req err W \<noteq> None"
proof (induction "redirect_count req" arbitrary: c req err W rule: less_induct)
  case less
  obtain r c1 W1 where o: "open_connection c W = (r, c1, W1)" by (metis prod_cases3)
  show ?case
  proof (cases r)
    case (Inr st)
    let ?req = "add_default_headers c1 req"
    have h: "handle_once c1 ?req err st W1 \<noteq> None" using handle_once_returns [of ?req c1 err st W1] less.prems by simp
    have again: "\<exists>y. robind (client_send d req2 e V) f = Some y"
      if "ClientImpl_redirect c2 ?req res1 err1 = Inr rd" "rd = To_self req2 loc \<or> rd = To_other d' req2 loc" "\<And>x. f x \<noteq> None"
      for c2 res1 err1 rd req2 loc d d' e V and f :: "'a reply \<Rightarrow> 'a reply res option"
      using less.hyps [of req2] redirect_count_less [OF that(1,2)] redirect_provider [OF that(1,2)] less.prems that(3)
        robind_returns [of "client_send d req2 e V" f] by simp
    obtain rr where rr: "handle_once c1 ?req err st W1 = Some rr" using h by blast
    show ?thesis
    proof (cases rr)
      case (Inr x)
      obtain ores err1 req1 c2 W2 where x: "x = (ores, err1, req1, c2, W2)" by (metis prod_cases5)
      note s = client_send.simps [of c req err W, unfolded o \<open>r = Inr st\<close> prod.case sum.case Let_def rr Inr x robind_simps]
      show ?thesis
      proof (cases ores)
        case (Some res)
        show ?thesis
        proof (cases "is_redirect c2 res")
          case True
          obtain rs where rs: "ClientImpl_redirect c2 ?req res err1 = rs" by blast
          show ?thesis
          proof (cases rs)
            case (Inr rd)
            then show ?thesis
              using s Some True rs
              by (cases rd) (auto intro!: again [OF rs [unfolded Inr]] split: prod.split)
          qed (simp add: s Some True rs)
        qed (simp add: s Some)
      qed (simp add: s)
    qed (simp add: client_send.simps [of c req] o Inr rr Let_def)
  qed (simp add: client_send.simps [of c req] o)
qed

subsection \<open>Credentials and redirects\<close>

lemma match_location_parts:
  assumes "match_location loc = Some (scheme, h, port, p)"
  shows "scheme \<in> {''https'', ''http'', []}" and "set h \<subseteq> set loc"
proof -
  obtain t where t: "(if starts_with loc ''https:'' then (''https'', drop 6 loc)
        else if starts_with loc ''http:'' then (''http'', drop 5 loc) else ([], loc)) = (scheme, t)"
    using assms by (auto simp: match_location_def split: prod.splits list.splits)
  then show "scheme \<in> {''https'', ''http'', []}" by (auto split: if_splits)
  have sub: "set (fst a) \<subseteq> set u" if "a \<in> set (authorities u)" for a u
    using that
    by (auto simp: authorities_def Let_def dest: set_takeWhileD list.set_sel(2) split: if_splits)
       (metis list.set_sel(2) list.sel(2) list.set(1) empty_iff set_takeWhileD)+
  have "h = [] \<or> (\<exists>a \<in> set (authorities (drop 2 t)). h = fst a)"
    using assms unfolding match_location_def t prod.case
    by (auto split: list.splits prod.splits if_splits)
  moreover have "set (drop 2 t) \<subseteq> set loc"
    using t by (auto split: if_splits dest!: in_set_dropD)
  ultimately show "set h \<subseteq> set loc" using sub by fastforce
qed

text \<open>A field of the name \<open>k\<close> that stays as it is.\<close>

definition has_field :: "headers \<Rightarrow> string \<Rightarrow> string list \<Rightarrow> bool" where
  "has_field hs k vs \<longleftrightarrow> mm_sorted to_lower hs \<and> mm_values to_lower hs k = vs"

lemma has_field_missing:
  "has_field hs k vs \<Longrightarrow> to_lower k' \<noteq> to_lower k \<or> vs \<noteq> [] \<Longrightarrow> has_field (emplace_missing k' v hs) k vs"
proof -
  assume h: "has_field hs k vs" "to_lower k' \<noteq> to_lower k \<or> vs \<noteq> []"
  have "to_lower k' = to_lower k \<Longrightarrow> mm_values to_lower hs k' = mm_values to_lower hs k" by (simp add: mm_values_def)
  with h show ?thesis
    by (auto simp: has_field_def sorted_emplace_missing values_emplace_missing no_field_def)
qed

lemma has_field_emplace:
  "has_field hs k vs \<Longrightarrow> to_lower k' \<noteq> to_lower k \<Longrightarrow> has_field (mm_emplace to_lower k' v hs) k vs"
  by (simp add: has_field_def mm.inv_emplace mm.values_emplace)

lemma content_fields_keep:
  assumes "has_field hs k vs" and "to_lower k \<notin> {''content-type'', ''content-length''}"
  shows "has_field (content_fields req hs) k vs"
proof -
  have n: "to_lower ''Content-Type'' \<noteq> to_lower k" "to_lower ''Content-Length'' \<noteq> to_lower k"
    using assms(2) field_names by auto
  show ?thesis
    using assms(1) n by (auto simp: content_fields_def intro: has_field_missing has_field_emplace split: option.split)
qed

lemma auth_fields_keep:
  assumes "has_field hs k vs" and "to_lower k \<notin> {''authorization'', ''proxy-authorization''}"
  shows "has_field (auth_fields c hs) k vs"
proof -
  have n: "to_lower ''Authorization'' \<noteq> to_lower k" "to_lower ''Proxy-Authorization'' \<noteq> to_lower k"
    using assms(2) client_field_names by auto
  show ?thesis
    using assms(1) n
    unfolding auth_fields_def make_basic_authentication_header_def make_bearer_token_authentication_header_def Let_def
      prod.case if_True if_False
    by (auto intro!: has_field_missing)
qed

lemma auth_fields_basic:
  assumes "has_field hs ''Authorization'' []" and "basic_auth_username c \<noteq> []"
  shows "has_field (auth_fields c hs) ''Authorization''
    [''Basic '' @ base64_encode (basic_auth_username c @ '':'' @ basic_auth_password c)]"
proof -
  let ?v = "''Basic '' @ base64_encode (basic_auth_username c @ '':'' @ basic_auth_password c)"
  let ?h = "emplace_missing ''Authorization'' ?v hs"
  have "has_field ?h ''Authorization'' [?v]"
    using assms(1) by (simp add: has_field_def sorted_emplace_missing values_emplace_missing no_field_def)
  then show ?thesis
    using assms(2)
    unfolding auth_fields_def make_basic_authentication_header_def make_bearer_token_authentication_header_def Let_def
      prod.case if_True if_False
    by (auto intro!: has_field_missing)
qed

section \<open>Properties\<close>

text \<open>
  C10. The server reads the request that the client writes. For a method the server knows, a path that is
  not empty and has no question mark, percent sign, tab or NUL, fields with no line feed and no colon in
  the key, well-formed credentials and host, the body at hand (no provider), percent-encoding on, a
  request line within the server's limit and a socket below \<open>FD_SETSIZE\<close>: the bytes \<open>write_request\<close> puts on
  the connection, in whatever packets they come, are read by \<open>process_request\<close> of the server as the same
  method and path (percent-encoded on the way) and the fields \<open>hs\<close>, the client's own added, as \<open>fields_back\<close>
  gives them, which is \<open>hs\<close> itself when all are well formed; the body is what comes next, and a
  \<open>Content-Length\<close> counts it.
\<close>

theorem client_request_roundtrip:
  assumes "req_method req \<in> set known_methods" and "path_ok (path req)" and "url_encode c"
    and "list_all (\<lambda>(k, v). field_sendable k v) (req_headers req)" and "mm_sorted to_lower (req_headers req)"
    and "credentials_ok c" and "field_ok ''Host'' (host_field c)" and "plain_upload req" and "sends st = []"
    and "length (request_line (req_method req) (encode_url (path req))) \<le> CPPHTTPLIB_REQUEST_URI_MAX_LENGTH"
    and "socket_number env < FD_SETSIZE"
  shows "\<exists>hs err' bytes.
      ClientImpl_write_request c req close_connection err st W
        = Some (Inr (True, err', req\<lparr>req_headers := hs\<rparr>, st\<lparr>sent := sent st @ bytes\<rparr>, W))
    \<and> adds client_names (req_headers req) hs
    \<and> (req_body req \<noteq> [] \<and> no_field (req_headers req) ''Content-Length'' \<longrightarrow>
         mm_values to_lower hs ''Content-Length'' = [nat_string (length (req_body req))])
    \<and> (\<forall>inp aft. rest inp = bytes @ aft \<longrightarrow>
         (\<exists>inp' sreq. process_request env s cc inp w = process_parsed env s cc inp' sreq (initial_response s) w
            \<and> rest inp' = req_body req @ aft \<and> req_method sreq = req_method req \<and> path sreq = path req
            \<and> params sreq = [] \<and> req_headers sreq = fields_back hs))
    \<and> (list_all (\<lambda>(k, v). field_ok k v) (req_headers req) \<longrightarrow> fields_back hs = hs)"
proof -
  let ?hs = "client_headers c close_connection req" and ?tgt = "encode_url (path req)"
  let ?req = "req\<lparr>req_headers := ?hs\<rparr>"
  have a: "adds client_names (req_headers req) ?hs" by (rule client_headers_adds [OF assms(6,7)])
  have tgt: "target_text ?tgt" "decode_url ?tgt False = path req" using path_ok_target [OF assms(2)] by simp_all
  have head: "request_head c ?req = request_line (req_method req) ?tgt @ write_headers ?hs"
    using request_head_eq [of ?req c] assms(1,3) tgt(1) by simp
  have "\<exists>inp' sreq. process_request env s cc inp w = process_parsed env s cc inp' sreq (initial_response s) w
      \<and> rest inp' = req_body req @ aft \<and> req_method sreq = req_method req \<and> path sreq = path req
      \<and> params sreq = [] \<and> req_headers sreq = fields_back ?hs"
    if "rest inp = (request_head c ?req @ req_body req) @ aft" for inp aft
  proof -
    have "rest inp = request_line (req_method req) ?tgt @ write_headers ?hs @ (req_body req @ aft)"
      using that head by simp
    from process_request_sent [OF assms(1) tgt(1) adds_sendable [OF a assms(4)] adds_sorted [OF a assms(5)] this assms(10,11),
        of s cc w]
    obtain inp' where "process_request env s cc inp w = process_parsed env s cc inp'
        ((head_request (req_method req) ?tgt (fields_back ?hs))\<lparr>path := decode_url ?tgt False\<rparr>) (initial_response s) w"
      "rest inp' = req_body req @ aft" by blast
    then show ?thesis using tgt(2) by (intro exI conjI) (assumption, simp_all add: head_request_def empty_request_def)
  qed
  moreover have "list_all (\<lambda>(k, v). field_ok k v) (req_headers req) \<longrightarrow> fields_back ?hs = ?hs"
    using adds_fields [OF a] fields_ok_back by blast
  ultimately show ?thesis
    using write_request_plain [OF assms(9,8) refl, of c close_connection err W] a
      client_headers_length [OF assms(5) _ _ assms(6,7), of close_connection]
    by (intro exI [of _ ?hs]) blast
qed

definition client_example :: "nat client" where
  "client_example = (new_client ''dcap'' 1234 [] [])\<lparr>cli_keep_alive := True\<rparr>"

definition request_example_client :: "nat client_request" where
  "request_example_client = (client_request ''PUT'' ''/a b'' [])\<lparr>req_body := ''xyz''\<rparr>"

lemma client_example_parts:
  "plain_client client_example" "credentials_ok client_example" "field_ok ''Host'' (host_field client_example)"
  "url_encode client_example" "\<not> follow_location client_example"
proof -
  show c: "credentials_ok client_example" by (simp add: credentials_ok_def client_example_def new_client_def)
  have "host_field client_example = ''dcap:1234''"
    by (simp add: host_field_def client_example_def new_client_def adjust_host_string_def) code_simp
  moreover have "field_ok ''Host'' ''dcap:1234''" by code_simp
  ultimately show h: "field_ok ''Host'' (host_field client_example)" by simp
  show "plain_client client_example"
    using c h by (simp add: plain_client_def uses_proxy_def) (simp add: client_example_def new_client_def)
qed (simp_all add: client_example_def new_client_def)

theorem client_request_roundtrip_witness:
  "\<exists>hs err' bytes.
      ClientImpl_write_request client_example request_example_client False Success
          \<lparr>packets = [], broken = False, sends = [], sent = []\<rparr>
          \<lparr>connects = [], dialed = [], ended = [], writable = \<lambda>_. True, user = 0\<rparr>
        = Some (Inr (True, err', request_example_client\<lparr>req_headers := hs\<rparr>,
            \<lparr>packets = [], broken = False, sends = [], sent = bytes\<rparr>,
            \<lparr>connects = [], dialed = [], ended = [], writable = \<lambda>_. True, user = 0\<rparr>))
    \<and> mm_values to_lower hs ''Content-Length'' = [nat_string 3]
    \<and> (\<exists>inp' sreq. process_request env_example (new_server :: unit server) True
            \<lparr>packets = [bytes], broken = False, sends = [], sent = []\<rparr> ()
          = process_parsed env_example new_server True inp' sreq (initial_response (new_server :: unit server)) ()
        \<and> rest inp' = ''xyz'' \<and> req_method sreq = ''PUT'' \<and> path sreq = ''/a b'')"
proof -
  let ?r = request_example_client and ?st = "\<lparr>packets = [], broken = False, sends = [], sent = []\<rparr>"
  let ?W = "\<lparr>connects = [], dialed = [], ended = [], writable = \<lambda>_ :: conn. True, user = 0 :: nat\<rparr>"
  have r: "req_method ?r = ''PUT''" "path ?r = ''/a b''" "req_headers ?r = []" "req_body ?r = ''xyz''" "plain_upload ?r"
    by (simp_all add: request_example_client_def client_request_def plain_upload_def)
  have "encode_url ''/a b'' = ''/a%20b''" by code_simp
  then have l: "length (request_line (req_method ?r) (encode_url (path ?r))) \<le> CPPHTTPLIB_REQUEST_URI_MAX_LENGTH"
    by (simp add: r request_line_def CPPHTTPLIB_REQUEST_URI_MAX_LENGTH_def)
  have m: "req_method ?r \<in> set known_methods" by (simp add: r known_methods_def)
  have p: "path_ok (path ?r)" by (simp add: r path_ok_def)
  have sd: "sends ?st = []" by simp
  have e: "socket_number env_example < FD_SETSIZE" by (simp add: env_example_def FD_SETSIZE_def)
  have h: "list_all (\<lambda>(k, v). field_sendable k v) (req_headers ?r)" "mm_sorted to_lower (req_headers ?r)"
    "no_field (req_headers ?r) ''Content-Length''" by (simp_all add: r mm_sorted_def no_field_def mm_values_def)
  from client_request_roundtrip [OF m p client_example_parts(4) h(1,2) client_example_parts(2,3) r(5) sd l e, of False Success ?W
      "new_server :: unit server" True "()"]
  obtain hs err' bytes where t: "ClientImpl_write_request client_example ?r False Success ?st ?W
        = Some (Inr (True, err', ?r\<lparr>req_headers := hs\<rparr>, ?st\<lparr>sent := sent ?st @ bytes\<rparr>, ?W))"
    and n: "req_body ?r \<noteq> [] \<and> no_field (req_headers ?r) ''Content-Length'' \<longrightarrow>
         mm_values to_lower hs ''Content-Length'' = [nat_string (length (req_body ?r))]"
    and s: "\<forall>inp aft. rest inp = bytes @ aft \<longrightarrow>
         (\<exists>inp' sreq. process_request env_example (new_server :: unit server) True inp ()
              = process_parsed env_example new_server True inp' sreq (initial_response (new_server :: unit server)) ()
            \<and> rest inp' = req_body ?r @ aft \<and> req_method sreq = req_method ?r \<and> path sreq = path ?r
            \<and> params sreq = [] \<and> req_headers sreq = fields_back hs)"
    by (elim exE conjE) (rule that)
  have "mm_values to_lower hs ''Content-Length'' = [nat_string 3]" using n h(3) r(4) by (simp add: numeral_3_eq_3)
  moreover have "rest \<lparr>packets = [bytes], broken = False, sends = [], sent = []\<rparr> = bytes @ []" by (simp add: rest_def)
  with s r have "\<exists>inp' sreq. process_request env_example (new_server :: unit server) True
            \<lparr>packets = [bytes], broken = False, sends = [], sent = []\<rparr> ()
          = process_parsed env_example new_server True inp' sreq (initial_response (new_server :: unit server)) ()
        \<and> rest inp' = ''xyz'' \<and> req_method sreq = ''PUT'' \<and> path sreq = ''/a b''" by fastforce
  ultimately show ?thesis using t by (intro exI [of _ hs] exI [of _ err'] exI [of _ bytes]) simp
qed

text \<open>
  C11. The client reads the response that a server writes. A status line with a status between 101 and
  999 but 204, the line feed-free fields of any response (no colon in a key) with no encoding and one
  \<open>Content-Length\<close>, and a content of that length, in whatever packets they come, are read by
  \<open>process_request\<close> of the client, for a request other than \<open>HEAD\<close> and \<open>CONNECT\<close> and without handlers, as a response
  with that status, this content and the fields as \<open>fields_back\<close> gives them: those that are well formed as they
  are, the others stripped and percent-decoded. What comes behind stays unread, and the connection is
  closed if the response says so and kept if not.
\<close>

theorem client_reads_response:
  assumes "rest st = status_line stat @ write_headers hs @ content @ aft" and "carries hs content"
    and "length content < 2 ^ 64" and "100 < stat" and "stat < 1000" and "stat \<noteq> 204"
    and "req_method req \<noteq> ''HEAD''" and "req_method req \<noteq> ''CONNECT''" and "response_handler req = None"
    and "cli_logger c = None" and "list_all (\<lambda>(k, v). field_sendable k v) hs"
  shows "(\<exists>st' c' W'. receive_response c req err st W
        = Inr (Some (read_response stat (fields_back hs) content), err, req, c', W')
      \<and> rest st' = aft
      \<and> (if first_value (fields_back hs) ''Connection'' = ''close''
          then cli_socket c' = None \<and> ended W' = ended W @ [st'] else cli_socket c' = Some st' \<and> W' = W))
    \<and> (list_all (\<lambda>(k, v). field_ok k v) hs \<longrightarrow> fields_back hs = hs)"
proof
  show "\<exists>st' c' W'. receive_response c req err st W
        = Inr (Some (read_response stat (fields_back hs) content), err, req, c', W')
      \<and> rest st' = aft
      \<and> (if first_value (fields_back hs) ''Connection'' = ''close''
          then cli_socket c' = None \<and> ended W' = ended W @ [st'] else cli_socket c' = Some st' \<and> W' = W)"
  proof (rule receive_carried [OF assms, of err W], goal_cases)
    case (1 st')
    then show ?case by (intro exI [of _ st']) (auto simp: close_client_socket_def split: prod.splits)
  qed
qed (use fields_ok_back [of hs] in blast)

theorem client_reads_response_witness:
  "\<exists>st' c' W'. receive_response client_example request_example_client Success
        \<lparr>packets = [''HTTP/1.1 200 OK'', CRLF @ ''Content-Length: 2'' @ CRLF @ ''Location: /a%20b'' @ CRLF @ CRLF @ ''h'', ''iHTTP''],
         broken = False, sends = [], sent = []\<rparr>
        \<lparr>connects = [], dialed = [], ended = [], writable = \<lambda>_. True, user = 0\<rparr>
      = Inr (Some (read_response 200 [(''Content-Length'', ''2''), (''Location'', ''/a b'')] ''hi''), Success,
          request_example_client, c', W')
    \<and> rest st' = ''HTTP'' \<and> cli_socket c' = Some st'"
proof -
  let ?st = "\<lparr>packets = [''HTTP/1.1 200 OK'', CRLF @ ''Content-Length: 2'' @ CRLF @ ''Location: /a%20b'' @ CRLF @ CRLF @ ''h'', ''iHTTP''],
         broken = False, sends = [], sent = []\<rparr>"
  let ?W = "\<lparr>connects = [], dialed = [], ended = [], writable = \<lambda>_ :: conn. True, user = 0 :: nat\<rparr>"
  let ?hs = "[(''Content-Length'', ''2''), (''Location'', ''/a%20b'')]"
  have "status_line 200 = ''HTTP/1.1 200 OK'' @ CRLF" by code_simp
  then have st: "rest ?st = status_line 200 @ write_headers ?hs @ ''hi'' @ ''HTTP''"
    using c_text_id [of "''Content-Length''"] c_text_id [of "''2''"] c_text_id [of "''Location''"] c_text_id [of "''/a%20b''"]
    by (simp add: rest_def write_headers_def)
  have "nat_string (length ''hi'') = ''2''" by code_simp
  moreover have "mm_sorted to_lower ?hs" "mm_values to_lower ?hs ''Content-Length'' = [''2'']"
    "mm_values to_lower ?hs ''Content-Encoding'' = []" "mm_values to_lower ?hs ''Transfer-Encoding'' = []"
    by code_simp+
  ultimately have f: "carries ?hs ''hi''" by (simp add: carries_def no_field_def)
  have k: "list_all (\<lambda>(k, v). field_sendable k v) ?hs" and b: "fields_back ?hs = [(''Content-Length'', ''2''), (''Location'', ''/a b'')]"
    by code_simp+
  have r: "req_method request_example_client \<noteq> ''HEAD''" "req_method request_example_client \<noteq> ''CONNECT''"
    "response_handler request_example_client = None" "cli_logger client_example = None"
    by (simp_all add: request_example_client_def client_request_def client_example_def new_client_def)
  have "first_value (fields_back ?hs) ''Connection'' \<noteq> ''close''" unfolding b by code_simp
  with client_reads_response [OF st f _ _ _ _ r k, of Success ?W] show ?thesis unfolding b by (simp, blast)
qed


text \<open>A request that is redirected to another host, with \<open>HEAD\<close>.\<close>

definition redirect_example :: "string \<Rightarrow> conn" where
  "redirect_example loc = \<lparr>packets = [''HTTP/1.1 302 Found'' @ CRLF @ ''Location: '' @ loc @ CRLF @ CRLF],
     broken = False, sends = [], sent = []\<rparr>"

definition network_example :: "nat network" where
  "network_example = \<lparr>connects = [Inr (redirect_example ''http://other/x''),
       Inr \<lparr>packets = [''HTTP/1.1 200 OK'' @ CRLF @ CRLF], broken = False, sends = [], sent = []\<rparr>],
     dialed = [], ended = [], writable = \<lambda>_. True, user = 0\<rparr>"

lemma redirected_head_example:
  "\<exists>r c' W'. ClientImpl_send (client_request ''HEAD'' ''/'' []) (client_example\<lparr>follow_location := True\<rparr>) network_example
      = Some (Inr (r, c', W'))
    \<and> dialed W' = [(''dcap'', 1234), (''other'', 80)] \<and> result_response r \<noteq> None"
proof -
  let ?s = "ClientImpl_send (client_request ''HEAD'' ''/'' []) (client_example\<lparr>follow_location := True\<rparr>) network_example"
  have "map_option (\<lambda>x. map_sum id (\<lambda>(r, c', W'). (dialed W', case result_response r of None \<Rightarrow> False | Some _ \<Rightarrow> True)) x) ?s
      = Some (Inr ([(''dcap'', 1234), (''other'', 80)], True))"
    by code_simp
  then show ?thesis by (cases ?s; cases "the ?s") (auto split: option.splits)
qed


text \<open>
  C29. What a client hands back is well formed: for every request but \<open>CONNECT\<close>, whatever the peers send,
  the header fields of the request stay ordered by name, and a response has a version the client
  knows, a status of three digits that is not 100, and ordered header fields.
\<close>

theorem client_result_well_formed:
  assumes "ClientImpl_send req c W = Some (Inr (r, c', W'))" and "req_method req \<noteq> ''CONNECT''"
    and "mm_sorted to_lower (req_headers req)"
  shows "mm_sorted to_lower (result_headers r) \<and> pred_option response_ok (result_response r)"
proof -
  obtain ores err req' where "client_send c req Success W = Some (Inr (ores, err, req', c', W'))"
    "result_response r = ores" "result_headers r = req_headers req'"
    using assms(1) by (auto simp: ClientImpl_send_def res_simps)
  with client_send_ok [OF this(1) assms(2,3)] show ?thesis by (simp add: result_ok_def)
qed

theorem client_result_well_formed_witness:
  "\<exists>r c' W' res. ClientImpl_send (client_request ''HEAD'' ''/'' []) (client_example\<lparr>follow_location := True\<rparr>) network_example
      = Some (Inr (r, c', W'))
    \<and> result_response r = Some res \<and> response_ok res"
proof -
  obtain r c' W' where s: "ClientImpl_send (client_request ''HEAD'' ''/'' []) (client_example\<lparr>follow_location := True\<rparr>)
      network_example = Some (Inr (r, c', W'))" and r: "result_response r \<noteq> None"
    using redirected_head_example by blast
  from client_result_well_formed [OF s] r s show ?thesis by (auto simp: client_request_def mm_sorted_def)
qed

text \<open>
  C28. A request without a content provider returns: \<open>send\<close> ends, with a result or an exception, for
  every client, whatever the peers send and however they redirect it.
\<close>

theorem request_returns:
  assumes "content_provider req = None"
  shows "\<exists>result. ClientImpl_send req c W = Some result"
proof -
  have "ClientImpl_send req c W \<noteq> None"
    unfolding ClientImpl_send_def
    by (intro robind_returns client_send_returns [OF assms]) (auto split: prod.split)
  then show ?thesis by blast
qed

theorem request_returns_witness:
  "\<exists>result. ClientImpl_send (client_request ''GET'' ''/'' []) client_example network_example = Some result"
  by (rule request_returns) (simp add: client_request_def)

text \<open>
  C33. Credentials follow a redirect anywhere: when a response redirects a request without an
  \<open>Authorization\<close> field of its own, of a client with a user name, to another host or
  port, the request that is sent there carries, in its \<open>Authorization\<close> field, the user name and the
  password that were set for the first host.
\<close>

theorem redirect_leaks_credentials:
  assumes "ClientImpl_redirect c req res err = Inr (To_other d req2 loc)"
    and "mm_sorted to_lower (req_headers req)" and "no_field (req_headers req) ''Authorization''"
    and "basic_auth_username c \<noteq> []" and "NUL \<notin> set loc" and "NUL \<notin> set (cli_host c)"
  shows "(cli_host d, cli_port d) \<noteq> (cli_host c, cli_port c)
    \<and> mm_values to_lower (client_headers d close_connection req2) ''Authorization''
      = [''Basic '' @ base64_encode (basic_auth_username c @ '':'' @ basic_auth_password c)]"
proof -
  obtain m scheme host port p where l: "match_location loc = Some m" "next_hop c m = Inr (scheme, host, port, p)"
    and h: "\<not> (scheme = ''http'' \<and> host = cli_host c \<and> port = cli_port c)" "scheme \<noteq> ''https''"
    and d: "d = copy_settings c (new_client (c_text host) port [] [])" "req2 = redirected_request req res p"
    using assms(1) by (auto simp: ClientImpl_redirect_def res_simps Let_def split: if_splits option.splits)
  obtain sc0 h0 po0 p0 where m: "m = (sc0, h0, po0, p0)" by (metis prod_cases4)
  have "scheme = ''http''" "NUL \<notin> set host"
    using l(2) h(2) match_location_parts [OF l(1) [unfolded m]] assms(5,6)
    by (auto simp: next_hop_def m res_simps split: if_splits)
  then have o: "(cli_host d, cli_port d) \<noteq> (cli_host c, cli_port c)"
    using h(1) unfolding d(1) by (auto simp: copy_settings_def new_client_def c_text_id)
  have p: "basic_auth_username d = basic_auth_username c" "basic_auth_password d = basic_auth_password c"
    unfolding d(1) by (simp_all add: copy_settings_def new_client_def)
  have "has_field (req_headers req2) ''Authorization'' []"
    using assms(2,3) unfolding d(2)
    by (simp add: redirected_request_def Let_def has_field_def mm_sorted_def no_field_def mm_values_def)
  then have "has_field (client_headers d close_connection req2) ''Authorization''
      [''Basic '' @ base64_encode (basic_auth_username d @ '':'' @ basic_auth_password d)]"
    unfolding client_headers_def Let_def
    by (intro auth_fields_basic content_fields_keep has_field_missing)
      (use assms(4) p client_field_names field_names in \<open>auto intro: has_field_missing\<close>)
  with o p show ?thesis by (simp add: has_field_def)
qed

theorem redirect_leaks_credentials_witness:
  "\<exists>d req2.
      ClientImpl_redirect (set_basic_auth ''joe'' ''pw'' client_example) (client_request ''GET'' ''/'' [])
        (read_response 302 [(''Location'', ''//evil:81/x'')] []) Success = Inr (To_other d req2 ''//evil:81/x'')
    \<and> cli_host d = ''evil''
    \<and> mm_values to_lower (client_headers d False req2) ''Authorization'' = [''Basic am9lOnB3'']"
proof -
  let ?c = "set_basic_auth ''joe'' ''pw'' client_example" and ?req = "client_request ''GET'' ''/'' [] :: nat client_request"
  let ?res = "read_response 302 [(''Location'', ''//evil:81/x'')] []"
  define d where "d = copy_settings ?c (new_client ''evil'' 81 [] [])"
  have r: "ClientImpl_redirect ?c ?req ?res Success = Inr (To_other d (redirected_request ?req ?res ''/x'') ''//evil:81/x'')"
  proof -
    have "get_header_value (rsp_headers ?res) ''location'' 0 [] = Inr ''//evil:81/x''" by code_simp
    moreover have "decode_url ''//evil:81/x'' True = ''//evil:81/x''" by code_simp
    moreover have "match_location ''//evil:81/x'' = Some ([], ''evil'', ''81'', ''/x'')" by code_simp
    moreover have "next_hop ?c ([], ''evil'', ''81'', ''/x'') = Inr (''http'', ''evil'', 81, ''/x'')" by code_simp
    moreover have "redirect_count ?req \<noteq> 0" "cli_host ?c = ''dcap''" "c_text ''evil'' = ''evil''"
      by (simp_all add: client_request_def CPPHTTPLIB_REDIRECT_MAX_COUNT_def set_basic_auth_def client_example_def new_client_def c_text_id)
    ultimately show ?thesis unfolding ClientImpl_redirect_def d_def by (simp add: Let_def)
  qed
  have h: "mm_sorted to_lower (req_headers ?req)" "no_field (req_headers ?req) ''Authorization''"
    by (simp_all add: client_request_def mm_sorted_def no_field_def mm_values_def)
  have c: "basic_auth_username ?c = ''joe''" "basic_auth_password ?c = ''pw''" "cli_host ?c = ''dcap''"
    by (simp_all add: set_basic_auth_def client_example_def new_client_def)
  have "base64_encode ''joe:pw'' = ''am9lOnB3''" by code_simp
  with redirect_leaks_credentials [OF r h, of False] c show ?thesis
    using r by (intro exI conjI) (assumption, simp_all add: d_def copy_settings_def new_client_def)
qed

text \<open>
  An upload in chunks that is answered by a redirect with status 303 is sent again as a \<open>GET\<close>
  without header fields for a body, followed by the chunks all the same: for the server the first
  chunk is where the next request begins.
\<close>

theorem redirected_upload_is_sent_as_get:
  assumes "status res = 303" and "req_method req \<notin> {''GET'', ''HEAD''}"
    and "content_provider req = Some provider" and "is_chunked_content_provider req"
    and "chunk_script provider 0 (user W) ds w'" and "list_all (\<lambda>d. d \<noteq> []) ds"
    and "\<And>st. writable W st" and "sends st = []"
  shows "\<exists>req2. ClientImpl_write_request c (redirected_request req res p) close_connection err st W
      = Some (Inr (True, Success, req2, st\<lparr>sent := sent st @ request_head c req2 @ chunks_text ds\<rparr>, W\<lparr>user := w'\<rparr>))
    \<and> req_method req2 = ''GET'' \<and> no_field (req_headers req2) ''Content-Length''
    \<and> no_field (req_headers req2) ''Transfer-Encoding''"
proof -
  let ?r = "redirected_request req res p"
  let ?r2 = "?r\<lparr>req_headers := client_headers c close_connection ?r\<rparr>"
  have r: "req_method ?r = ''GET''" "req_body ?r = []" "req_headers ?r = []" "content_provider ?r = Some provider"
    "is_chunked_content_provider ?r"
    using assms(1-4) by (simp_all add: redirected_request_def Let_def)
  have "has_field (client_headers c close_connection ?r) k []" if "k = ''Content-Length'' \<or> k = ''Transfer-Encoding''" for k
  proof -
    have "content_fields ?r hs = hs" for hs using r by (simp add: content_fields_def)
    moreover have "has_field (req_headers ?r) k []" using r(3) by (simp add: has_field_def mm_sorted_def mm_values_def)
    ultimately show ?thesis
      using that client_field_names field_names unfolding client_headers_def Let_def
      by (auto intro!: auth_fields_keep has_field_missing)
  qed
  then have "no_field (req_headers ?r2) ''Content-Length''" "no_field (req_headers ?r2) ''Transfer-Encoding''"
    by (simp_all add: has_field_def no_field_def)
  moreover have "ClientImpl_write_request c ?r close_connection err st W
      = Some (Inr (True, Success, ?r2, st\<lparr>sent := sent st @ request_head c ?r2 @ chunks_text ds\<rparr>, W\<lparr>user := w'\<rparr>))"
    using write_content_chunked_loop_script [OF assms(5,7), of "\<lambda>_. False" "st\<lparr>sent := sent st @ request_head c ?r2\<rparr>"]
      assms(6,8) r
    by (simp add: ClientImpl_write_request_def ClientImpl_write_content_with_provider_def write_content_chunked_def
        write_data_all Let_def)
  ultimately show ?thesis using r(1) by (intro exI [of _ ?r2]) simp
qed

definition upload_example :: "nat client_request" where
  "upload_example = upload_request_of ''POST'' ''/in'' []
     (Chunks (\<lambda>off calls. Sink_write ''GET /stop HTTP/1.1'' (\<lambda>_. Sink_done (Provider_returns True (calls + 1))))) None"

theorem redirected_upload_is_sent_as_get_witness:
  "\<exists>req2. ClientImpl_write_request client_example
        (redirected_request upload_example (read_response 303 [(''Location'', ''/done'')] []) ''/done'') False Success
        \<lparr>packets = [], broken = False, sends = [], sent = []\<rparr> network_example
      = Some (Inr (True, Success, req2,
          \<lparr>packets = [], broken = False, sends = [], sent = request_head client_example req2 @ chunks_text [''GET /stop HTTP/1.1'']\<rparr>,
          network_example\<lparr>user := 1\<rparr>))
    \<and> req_method req2 = ''GET'' \<and> no_field (req_headers req2) ''Content-Length''"
proof -
  let ?res = "read_response 303 [(''Location'', ''/done'')] []" and ?st = "\<lparr>packets = [], broken = False, sends = [], sent = []\<rparr>"
  obtain provider where u: "status ?res = 303" "req_method upload_example \<notin> {''GET'', ''HEAD''}"
      "content_provider upload_example = Some provider" "is_chunked_content_provider upload_example"
    and "provider = ContentProviderAdapter (\<lambda>off calls.
      Sink_write ''GET /stop HTTP/1.1'' (\<lambda>_. Sink_done (Provider_returns True (calls + 1))))"
    by (simp add: upload_example_def upload_request_of_def client_request_def read_response_def)
  then have "chunk_script provider 0 (user network_example) [''GET /stop HTTP/1.1''] 1"
    by (intro last_call) (simp add: ContentProviderAdapter_def network_example_def)
  from redirected_upload_is_sent_as_get [OF u this, of ?st client_example "''/done''" False Success]
  show ?thesis by (simp add: network_example_def) blast
qed

end
