(* ===== verification/Dcap_Client.thy ===== *)
theory Dcap_Client
  imports Dcap_Main Http_Client_Laws
begin

text \<open>
  The client of the HTTP library against the attestation service: a report that is posted with
  \<open>ClientImpl::Post\<close> is the report that the handler of \<open>/entryNetwork\<close> decides, and its answer is the
  result of the call.
\<close>

section \<open>The fields of a posted report\<close>

definition report_request :: "string \<Rightarrow> 'w client_request" where
  "report_request content =
     upload_request_of ''POST'' ''/entryNetwork'' [] (Plain_body content) (Some ''application/json'')"

lemma report_request_parts:
  "req_method (report_request content) = ''POST''" "path (report_request content) = ''/entryNetwork''"
  "req_headers (report_request content) = [(''Content-Type'', ''application/json'')]"
  "req_body (report_request content) = content" "plain_upload (report_request content)"
  "response_handler (report_request content) = None"
  by (simp_all add: report_request_def upload_request_of_def client_request_def plain_upload_def
      mm_emplace_def mm_upper_def)

lemma report_fields_posted:
  fixes c :: "'w client"
  assumes "credentials_ok c" and "field_ok ''Host'' (host_field c)" and "content \<noteq> []" and "length content < 2 ^ 64"
  shows "post_fields (client_headers c False (report_request content)) content"
proof -
  let ?r = "report_request content :: 'w client_request" and ?json = "''application/json''"
  let ?hs = "client_headers c False ?r"
  have "field_ok ''Content-Type'' ?json" by code_simp
  then have r: "list_all (\<lambda>(k, v). field_ok k v) (req_headers ?r)" "mm_sorted to_lower (req_headers ?r)"
    "no_field (req_headers ?r) ''Content-Length''"
    using field_names by (simp_all add: report_request_parts mm_sorted_def no_field_def mm_values_def)
  have a: "adds client_names (req_headers ?r) ?hs" by (rule client_headers_adds [OF assms(1,2)])
  have none: "mm_values to_lower ?hs k = []" if "k \<in> {''Range'', ''Expect'', ''Content-Encoding'', ''Transfer-Encoding''}" for k
  proof -
    have "to_lower k \<notin> client_names" using that field_names by (auto simp: client_names_def)
    moreover have "mm_values to_lower (req_headers ?r) k = []"
      using that field_names by (auto simp: report_request_parts mm_values_def)
    ultimately show ?thesis using adds_values [OF a r(2)] by simp
  qed
  have keep: "has_field ?hs k vs" if "has_field (req_headers ?r) k vs" "k = ''Connection'' \<or> k = ''Content-Type'' \<and> vs \<noteq> []" for k vs
    using that client_field_names field_names assms(3)
    by (auto simp: client_headers_def Let_def content_fields_def report_request_parts intro!: auth_fields_keep has_field_missing)
  have "has_field (req_headers ?r) ''Connection'' []" "has_field (req_headers ?r) ''Content-Type'' [?json]"
    using r(2) field_names by (simp_all add: has_field_def report_request_parts mm_values_def)
  then have "has_field ?hs ''Connection'' []" "has_field ?hs ''Content-Type'' [?json]"
    by (blast intro: keep)+
  moreover have "mm_values to_lower ?hs ''Content-Length'' = [nat_string (length content)]"
    using client_headers_length [OF r(2,3) _ assms(1,2), of False] assms(3) by (simp add: report_request_parts)
  ultimately show ?thesis
    using adds_fields [OF a r(1)] none assms(4)
    by (simp add: post_fields_def has_field_def no_field_def first_value_def starts_with_def)
qed

lemma report_head_posted:
  assumes "url_encode c"
  shows "request_head c ((report_request content)\<lparr>req_headers := hs\<rparr>) @ content = report_bytes hs content"
proof -
  have e: "encode_url ''/entryNetwork'' = ''/entryNetwork''" by code_simp
  have "target_text ''/entryNetwork''" "''POST'' \<in> set known_methods" by code_simp+
  with request_head_eq [of "(report_request content)\<lparr>req_headers := hs\<rparr>" c] assms e
  show ?thesis by (simp add: report_request_parts report_bytes_def)
qed

lemma post_report_framed:
  assumes "plain_client c" and "content \<noteq> []" and "connects W = Inr st # rs" and "sends st = []"
    and "rest st = status_line stat @ write_headers hs @ text @ aft"
    and "framed hs text" "length text < 2 ^ 64" "stat = 200 \<or> stat = 500"
  shows "\<exists>r c' W' st'.
      ClientImpl_Post ''/entryNetwork'' [] content (Some ''application/json'') c W = Some (Inr (r, c', W'))
    \<and> result_error r = Success \<and> result_response r = Some (read_response stat hs text)
    \<and> used_connection c' W W' st' \<and> rest st' = aft
    \<and> sent st' = sent st @ report_bytes (client_headers c False (report_request content)) content"
proof -
  let ?r = "report_request content :: 'a client_request"
  let ?r1 = "?r\<lparr>req_headers := client_headers c False ?r\<rparr>"
  have ok: "100 < stat" "stat < 1000" "stat \<noteq> 204" "\<not> (300 < stat \<and> stat < 400 \<and> follow_location c)"
    using assms(8) by auto
  have "path ?r \<noteq> []" "req_method ?r \<noteq> ''HEAD''" "req_method ?r \<noteq> ''CONNECT''"
    by (simp_all add: report_request_parts)
  from client_send_framed [OF assms(1,3,4) this(1) report_request_parts(5,6) this(2,3) assms(5-7) ok refl]
  obtain c' W' st' where s: "client_send c ?r Success W = Some (Inr (Some (read_response stat hs text), Success, ?r1, c', W'))"
    and u: "used_connection c' W W' st'" "sent st' = sent st @ request_head c ?r1 @ req_body ?r" "rest st' = aft"
    by blast
  have "ClientImpl_Post ''/entryNetwork'' [] content (Some ''application/json'') c W = ClientImpl_send ?r c W"
    by (simp add: ClientImpl_Post_def send_with_content_provider_def report_request_def)
  then show ?thesis
    using s u assms(1) report_head_posted [of c _ content]
    by (simp add: ClientImpl_send_def plain_client_def report_request_parts) blast
qed

section \<open>Properties\<close>


lemma report_example_reply:
  "\<exists>res out. post_entryNetwork (sdk_example 1 SGX_QL_QV_RESULT_OK) int_ops 0
      (empty_request\<lparr>req_body := report_example\<rparr>) first_response = Inr (res, out) \<and> length (body res) < 2 ^ 64"
proof -
  let ?req = "empty_request\<lparr>req_body := report_example\<rparr>"
  have "map_sum id (\<lambda>res. length (body res) < 1000) (finish_response int_ops (outcome_example ''bob'') first_response) = Inr True"
    by code_simp
  then obtain res where r: "finish_response int_ops (outcome_example ''bob'') first_response = Inr res" "length (body res) < 1000"
    by (cases "finish_response int_ops (outcome_example ''bob'') first_response") auto
  obtain out where e: "entry_network (sdk_example 1 SGX_QL_QV_RESULT_OK) int_ops 0 ?req = Inr out"
    and o: "ret_body out = ret_body (outcome_example ''bob'')" "identity out = identity (outcome_example ''bob'')"
    using example_outcome [of ?req "''bob''"] report_example_fields by auto
  have "post_entryNetwork (sdk_example 1 SGX_QL_QV_RESULT_OK) int_ops 0 ?req first_response = Inr (res, out)"
    using finish_response_cong [OF o, of int_ops first_response] e r(1) by (simp add: post_entryNetwork_def)
  moreover have "length (body res) < 2 ^ 64" using r(2) by simp
  ultimately show ?thesis by blast
qed


end
