(* ===== verification/Spec2Isabelle.thy ===== *)
theory Spec2Isabelle
  imports Crust_Status Json_Roundtrip Thread_Pool Http_Connect Http_Server_Provider Dcap_Listen Dcap_Client
begin

text \<open>
  A verification development for the DCAP attestation service of the repository (\<open>sgx/src\<close>, C++):
  a program that receives identity reports of SGX enclaves over HTTP, checks their signatures and
  quotes with the libraries of Intel and OpenSSL, and answers with the identity it has verified.

  \<^bold>\<open>The program and its theories.\<close> A request takes this way: \<open>main\<close> (\<open>App.cpp\<close>) registers three
  routes with \<open>httplib::Server\<close> (\<open>include/httplib.h\<close>); the accept loop hands connections to a pool of
  threads; a thread reads requests from its connection, routes them and writes responses; the
  handler of \<open>/entryNetwork\<close> parses the body as JSON (\<open>include/Json.h\<close>), decodes signature and quote
  from hexadecimal text (\<open>utils/Utils.cpp\<close>), calls the libraries and dumps its reply as JSON;
  everything is logged (\<open>log/Log.cpp\<close>).

  \<^item> \<open>Prelude\<close>: outcomes of C++ calls (value, exception, undefined behaviour, failed assertion),
    pieces of the standard library, \<open>std::map\<close> as a sorted list with the locale \<open>std_map\<close>.
  \<^item> \<open>Crust_Status\<close>: \<open>include/CrustStatus.h\<close>, the status codes and their numbers.
  \<^item> \<open>Utils_Hex\<close>: \<open>utils/Utils.cpp\<close>, hexadecimal text and the EC key, with the OpenSSL calls as a
    parameter.
  \<^item> \<open>Json_Value\<close>, \<open>Json_Object\<close>, \<open>Json_Dump\<close>, \<open>Json_Parse\<close>: \<open>include/Json.h\<close>. The class \<open>JSON\<close> is the
    datatype \<open>json\<close>, one constructor per tag of its union; a method is a function from the value to
    the value afterwards and the result. The operations on \<open>double\<close> are the record \<open>float_ops\<close>.
  \<^item> \<open>Json_Parse_Laws\<close>, \<open>Json_Grammar\<close>, \<open>Json_Roundtrip\<close>: what holds of the parser on every text, the
    inductive grammar of the texts it is meant for, and parsing what \<open>dump\<close> has written.
  \<^item> \<open>Logger\<close>: \<open>log/Log.cpp\<close>, \<open>log/Log.h\<close>, \<open>include/Defer.h\<close>. \<open>get_instance\<close> and the printing of lines
    are step relations of threads.
  \<^item> \<open>Http_Data\<close>: header fields, requests and responses; \<open>std::multimap\<close> with the locale
    \<open>multimap_laws\<close>. \<open>Http_Text\<close>: the functions on text of namespace \<open>detail\<close>.
  \<^item> \<open>Http_Stream\<close>: a connection as the packets that are still to come and the bytes that have gone
    out; the line reader, header fields and bodies. The locale \<open>seamless_receiver\<close> states what a
    receiver has to satisfy for the packets not to matter.
  \<^item> \<open>Http_Content\<close>: status messages, content types, byte ranges. \<open>Http_Multipart\<close>: the parser of
    multipart bodies and \<open>Server::read_content\<close>.
  \<^item> \<open>Http_Server\<close>: the class \<open>Server\<close>, from the table of handlers to the accept loop. Handlers and
    hooks are functions on a state \<open>'w\<close> that may throw. \<open>Http_Server_Provider\<close>: the responses whose
    content comes from a provider, around the plain ones.
  \<^item> \<open>Http_Socket\<close>: the socket under a connection, with interrupted calls, timeouts and \<open>select\<close>; the
    wait between two requests; \<open>write_format\<close>. \<open>Http_Connect\<close>: how sockets are created, bound and
    connected, over a record of the open descriptors; the locale \<open>endpoint_setup\<close> is the contract of
    the call that binds or connects.
  \<^item> \<open>Http_Provider\<close>: the loops that write what a content provider gives. A provider is a program of
    calls to its sink.
  \<^item> \<open>Http_Client\<close>, \<open>Http_Client_Laws\<close>: the class \<open>ClientImpl\<close> with its settings, the request it
    writes, the response it reads, redirects and the life of its socket; the choice of a client for a
    URL. The laws read what the server writes and have the server read what the client writes.
  \<^item> \<open>Thread_Pool\<close>: \<open>httplib::ThreadPool\<close>, one step per operation on the mutex or the condition
    variable; the locale \<open>ranked_system\<close> proves that runs come to a goal.
  \<^item> \<open>Dcap_Service\<close>, \<open>Dcap_Laws\<close>: the handler of \<open>/entryNetwork\<close> with its scope guards, the blocks it
    allocates and the lines it logs; SDK, DCAP library and OpenSSL are the record \<open>sdk\<close>.
  \<^item> \<open>Dcap_Main\<close>: the command line and the server with the three routes; its properties go from the
    bytes a client sends to the bytes it receives. \<open>Dcap_Listen\<close>: the start of the service, down to the
    socket it listens on. \<open>Dcap_Client\<close>: a client that posts a report to it.

  \<^bold>\<open>What the lemmas show.\<close> The handler accepts only what it has verified, decides every complete
  report, answers with one of four statuses and leaks one block and one key per report; over HTTP
  a report is read as sent in whatever packets it comes and answered by one framed response. The
  JSON parser ends on every text and stays inside it, reads every text of the grammar, and reads
  back what \<open>dump\<close> and \<open>dump_vector\<close> write; ordered objects refine a list of entries that is
  updated in place or extended. Header fields cross the wire as \<open>fields_back\<close> says: stripped of blanks,
  percent-decoded, dropped when empty, and unchanged when they need none of this; no handler can break
  the lines of a response. Query strings, chunked bodies, ranges and
  multipart bodies survive writing and reading; a content that a provider writes goes out as if it
  were a body, or in chunks with the fields that announce them. \<open>SocketStream\<close> refines the stream of the
  other theories for programs that do not read again once a read has failed, whatever signals interrupt
  it. A client's socket is connected, blocking and limited in time when it is handed out, and all
  others tried are closed; a server binds the first address it can. A client sends what a server
  reads and reads what a server writes, returns whatever its peers do, and loses no connection.
  The pool runs every job once in the order of the queue, loses no wakeup and can be shut down;
  there is one logger, whose lines are not mixed.
  Where the code departs from what it means to do, a theorem states what it does instead, with an
  input on which it happens.

  \<^bold>\<open>Bounds and fuel.\<close> Loops that the code does not bound itself (retries after a signal, waiting,
  asking a provider for more) are partial functions with \<open>None\<close> for a run without end. Only the
  JSON parser is given a bound: on nesting and on the elements of an array or object, one more
  than the length of its text, and \<open>Load_ends\<close> shows that neither is reached for any text. All
  other recursions end by a measure. Integers of a fixed width are words or are reduced where the
  code can overflow: the hash of file extensions, \<open>uint32_t\<close> sizes of a report, \<open>size_t\<close> in ranges
  and lengths, ports in network order, \<open>long\<close> and \<open>int\<close> conversions of text. A connection that is
  kept open is served for \<open>keep_alive_max_count_\<close> requests, which is the recursion of
  \<open>server_socket_loop\<close>. The \<open>unsigned\<close> indices of the loops in \<open>Json.h\<close> (\<open>json_escape\<close>, \<open>parse_array\<close>) are
  natural numbers: the model differs for strings and arrays of \<open>2 ^ 32\<close> elements and more. What the
  network does to a socket is a finite list of events, behind which nothing happens any more, so
  signals without end are not expressed.

  \<^bold>\<open>Hypotheses.\<close> Nothing is assumed of the libraries. Callbacks that set options of a socket are
  assumed to touch that socket only. The end-to-end property asks that the peer
  takes all that is written (\<open>sends st = []\<close>), that the socket number is below \<open>FD_SETSIZE\<close>, and that
  the header fields are well formed and have none of the fields that change the reading
  (\<open>post_fields\<close>). Liveness of the pool asks that jobs return; that of \<open>shutdown\<close> also that there
  are no spurious wakeups without end.

  \<^bold>\<open>Not modelled.\<close> The rest of the repository is Rust (pallets, runtime, node) and scripts. Of
  \<open>httplib.h\<close>: TLS and the compressors, which the build of the service does not switch on; system
  calls themselves (sockets, \<open>select\<close>, files), whose results are arguments of the model; handlers
  with a content reader, which no route of the service has;
  the receivers of content and progress callbacks of the client, and the class \<open>Client\<close>, which only
  passes calls on. \<open>sgx_sha256_msg\<close> is a total function and \<open>setsockopt\<close> always succeeds (the code ignores
  its result, and a call that fails would leave a timeout unset). The error paths of a server that
  reads again after a timeout are modelled over the stream, in which a failed connection stays broken;
  the refinement to sockets does not cover them. Memory that \<open>malloc\<close> cannot provide, except where the code looks at its result;
  data races beyond sequential consistency.
\<close>

end
